(* ===== verification/Prelude.thy ===== *)
theory Prelude
  imports Main "HOL-Library.Word" "HOL-Library.Char_ord" "HOL-Library.List_Lexorder"
    "HOL-Library.AList" "HOL-Library.Sublist"
begin

text \<open>
  What every component of the development shares.

  \<^item> The names of Go's types: unsigned integers at their width, \<open>time.Time\<close> as a number of
    nanoseconds counted from Go's zero time (so \<open>IsZero\<close> is equality with 0) and
    \<open>time.Duration\<close> as a number of nanoseconds, with the saturation of \<open>Time.Sub\<close> written out.
  \<^item> Go maps as association lists with distinct keys: looked up by \<open>map_of\<close>, stored into by
    \<open>AList.update\<close>, deleted from by \<open>AList.delete\<close>. Iteration over a Go map is in no
    particular order; a definition that iterates follows the list's order, and the properties
    stated about it do not depend on that order.
  \<^item> The bounded lists of the daemon (\<open>xs[len(xs)-n:]\<close>) and the contract they satisfy, as the
    locale \<open>bounded_log\<close>.
  \<^item> \<open>sort.Search\<close> and the lemmas about sorting that several components use.
\<close>

section \<open>Names of Go types\<close>

type_synonym u8 = "8 word"
type_synonym u16 = "16 word"
type_synonym u32 = "32 word"
type_synonym u64 = "64 word"
type_synonym time = int
type_synonym duration = int

type_synonym ('k, 'v) gomap = "('k \<times> 'v) list"

named_theorems bounds \<open>sizes of the bounded structures\<close>
named_theorems inv_pres \<open>operations that keep an invariant\<close>

section \<open>Time\<close>

abbreviation second :: duration where
  "second \<equiv> 1000000000"

abbreviation minute :: duration where
  "minute \<equiv> 60000000000"

abbreviation hour :: duration where
  "hour \<equiv> 3600000000000"

definition time_sub :: "time \<Rightarrow> time \<Rightarrow> duration" where
  "time_sub a b = max (- 9223372036854775808) (min 9223372036854775807 (a - b))"

definition is_zero :: "time \<Rightarrow> bool" where
  "is_zero t \<longleftrightarrow> t = 0"

lemma time_sub_less [simp]:
  "- 9223372036854775808 < d \<Longrightarrow> d \<le> 9223372036854775807 \<Longrightarrow> time_sub a b < d \<longleftrightarrow> a - b < d"
  by (auto simp: time_sub_def)

lemma time_sub_le [simp]:
  "- 9223372036854775808 \<le> d \<Longrightarrow> d < 9223372036854775807 \<Longrightarrow> time_sub a b \<le> d \<longleftrightarrow> a - b \<le> d"
  by (auto simp: time_sub_def)

lemma time_sub_ge [simp]:
  "- 9223372036854775808 < d \<Longrightarrow> d \<le> 9223372036854775807 \<Longrightarrow> d \<le> time_sub a b \<longleftrightarrow> d \<le> a - b"
  by (auto simp: time_sub_def)

lemma time_sub_gt [simp]:
  "- 9223372036854775808 \<le> d \<Longrightarrow> d < 9223372036854775807 \<Longrightarrow> d < time_sub a b \<longleftrightarrow> d < a - b"
  by (auto simp: time_sub_def)

lemma time_sub_mono: "a - b \<le> d \<Longrightarrow> 0 \<le> d \<Longrightarrow> time_sub a b \<le> d"
  by (auto simp: time_sub_def)

lemma time_sub_self [simp]: "time_sub a a = 0"
  by (simp add: time_sub_def)

section \<open>Keeping the newest\<close>

definition keep_newest :: "nat \<Rightarrow> 'a list \<Rightarrow> 'a list" where
  "keep_newest n xs = (if n < length xs then drop (length xs - n) xs else xs)"

lemma keep_newest_eq_drop: "keep_newest n xs = drop (length xs - n) xs"
  by (simp add: keep_newest_def)

lemma length_keep_newest [simp, bounds]: "length (keep_newest n xs) = min n (length xs)"
  by (simp add: keep_newest_eq_drop)

lemma keep_newest_id [simp]: "length xs \<le> n \<Longrightarrow> keep_newest n xs = xs"
  by (simp add: keep_newest_def)

lemma suffix_keep_newest: "suffix (keep_newest n xs) xs"
  by (simp add: keep_newest_eq_drop suffix_drop)

lemma set_keep_newest: "set (keep_newest n xs) \<subseteq> set xs"
  by (simp add: keep_newest_eq_drop set_drop_subset)

lemma keep_newest_append [simp]: "keep_newest n (keep_newest n xs @ ys) = keep_newest n (xs @ ys)"
proof (cases "length xs \<le> n")
  case False
  then show ?thesis by (simp add: keep_newest_eq_drop add.commute)
qed simp

lemma keep_newest_snoc: "0 < n \<Longrightarrow> x \<in> set (keep_newest n (xs @ [x]))"
  by (simp add: keep_newest_eq_drop)

lemma sorted_wrt_keep_newest [intro]: "sorted_wrt P xs \<Longrightarrow> sorted_wrt P (keep_newest n xs)"
  by (simp add: keep_newest_eq_drop sorted_wrt_drop)

lemma keep_newest_map: "keep_newest n (map f xs) = map f (keep_newest n xs)"
  by (simp add: keep_newest_eq_drop drop_map)

text \<open>
  The contract of a log that keeps its newest \<open>cap\<close> entries: the recorder's ring, the list of
  detections, the isolation audit trail and the list of actions all promise it.
\<close>

locale bounded_log =
  fixes add :: "'e \<Rightarrow> 's \<Rightarrow> 's"
    and contents :: "'s \<Rightarrow> 'e list"
    and cap :: nat
    and invar :: "'s \<Rightarrow> bool"
  assumes contents_add: "invar s \<Longrightarrow> contents (add e s) = keep_newest cap (contents s @ [e])"
    and invar_add: "invar s \<Longrightarrow> invar (add e s)"
    and contents_bounded: "invar s \<Longrightarrow> length (contents s) \<le> cap"
begin

lemma invar_adds: "invar s \<Longrightarrow> invar (fold add es s)"
  by (induction es arbitrary: s) (auto intro: invar_add)

lemma contents_adds: "invar s \<Longrightarrow> contents (fold add es s) = keep_newest cap (contents s @ es)"
proof (induction es arbitrary: s)
  case Nil
  then show ?case by (simp add: contents_bounded)
next
  case (Cons e es)
  have "contents (fold add (e # es) s) = keep_newest cap (contents (add e s) @ es)"
    using Cons by (simp add: invar_add)
  also have "\<dots> = keep_newest cap (contents s @ e # es)"
    using Cons.prems by (simp add: contents_add)
  finally show ?case .
qed

lemma newest_kept: "invar s \<Longrightarrow> 0 < cap \<Longrightarrow> e \<in> set (contents (add e s))"
  by (simp add: contents_add keep_newest_snoc)

lemma replay: "invar s \<Longrightarrow> invar s0 \<Longrightarrow> contents s0 = [] \<Longrightarrow> contents (fold add (contents s) s0) = contents s"
  by (simp add: contents_adds contents_bounded)

end

section \<open>Maps\<close>

lemma map_of_update [simp]: "map_of (AList.update k v m) = (map_of m)(k \<mapsto> v)"
  by (rule update_conv')

lemma map_of_delete [simp]: "map_of (AList.delete k m) = (map_of m)(k := None)"
  by (rule delete_conv')

lemma keys_update: "fst ` set (AList.update k v m) = insert k (fst ` set m)"
  by (metis dom_map_of_conv_image_fst dom_fun_upd option.distinct(1) map_of_update)

lemma length_update: "distinct (map fst m) \<Longrightarrow>
    length (AList.update k v m) = (if k \<in> fst ` set m then length m else Suc (length m))"
  by (induction m) auto

lemma length_delete: "distinct (map fst m) \<Longrightarrow>
    length (AList.delete k m) = (if k \<in> fst ` set m then length m - 1 else length m)"
proof (induction m)
  case Nil
  then show ?case by simp
next
  case (Cons p m)
  have len: "k \<in> fst ` set m \<Longrightarrow> 0 < length m" by (cases m) auto
  show ?case using Cons len by (cases p) (auto simp: image_iff)
qed

section \<open>Binary search, as sort.Search does it\<close>

function search_loop :: "(nat \<Rightarrow> bool) \<Rightarrow> nat \<Rightarrow> nat \<Rightarrow> nat" where
  "search_loop f i j =
     (if i < j then
        (let h = (i + j) div 2
         in if \<not> f h then search_loop f (h + 1) j else search_loop f i h)
      else i)"
  by pat_completeness auto
termination
  by (relation "measure (\<lambda>(f, i, j). j - i)") auto

declare search_loop.simps [simp del]

definition go_search :: "nat \<Rightarrow> (nat \<Rightarrow> bool) \<Rightarrow> nat" where
  "go_search n f = search_loop f 0 n"

lemma search_loop_correct:
  assumes "\<And>a b. a \<le> b \<Longrightarrow> b < n \<Longrightarrow> f a \<Longrightarrow> f b"
    and "i \<le> j" "j \<le> n" "\<And>a. a < i \<Longrightarrow> \<not> f a" "\<And>a. j \<le> a \<Longrightarrow> a < n \<Longrightarrow> f a"
  shows "search_loop f i j \<le> n \<and> (\<forall>a < search_loop f i j. \<not> f a) \<and>
    (\<forall>a. search_loop f i j \<le> a \<and> a < n \<longrightarrow> f a)"
  using assms
proof (induction f i j rule: search_loop.induct)
  case (1 f i j)
  note mono = "1.prems"(1)
  show ?case
  proof (cases "i < j")
    case True
    define h where "h = (i + j) div 2"
    have h: "i \<le> h" "h < j" "h < n" using True "1.prems"(3) by (auto simp: h_def)
    show ?thesis
    proof (cases "f h")
      case fh: True
      have up: "f a" if "h \<le> a" "a < n" for a
        using mono[OF that] fh .
      have eq: "search_loop f i j = search_loop f i h"
        using True fh by (simp add: search_loop.simps[of f i j] h_def)
      show ?thesis unfolding eq
        using "1.IH"(2)[OF True h_def] fh mono h(1,3) "1.prems"(4) up by simp
    next
      case fh: False
      have low: "\<not> f a" if "a < h + 1" for a
        using mono[of a h] that h(3) fh by auto
      have eq: "search_loop f i j = search_loop f (h + 1) j"
        using True fh by (simp add: search_loop.simps[of f i j] h_def)
      show ?thesis unfolding eq
        using "1.IH"(1)[OF True h_def] fh mono h(2) "1.prems"(3,5) low by simp
    qed
  next
    case False
    then have "search_loop f i j = i" by (simp add: search_loop.simps[of f i j])
    then show ?thesis using False "1.prems" by simp
  qed
qed

lemma drop_go_search:
  assumes "sorted (map key l)"
  shows "drop (go_search (length l) (\<lambda>j. k < key (l ! j))) l = filter (\<lambda>x. k < key x) l"
proof -
  define n where "n = go_search (length l) (\<lambda>j. k < key (l ! j))"
  have mono: "k < key (l ! b)" if "a \<le> b" "b < length l" "k < key (l ! a)" for a b
    using sorted_nth_mono[OF assms that(1)] that by simp
  have c: "n \<le> length l \<and> (\<forall>a < n. \<not> k < key (l ! a)) \<and> (\<forall>a. n \<le> a \<and> a < length l \<longrightarrow> k < key (l ! a))"
    unfolding n_def go_search_def by (rule search_loop_correct) (auto intro: mono)
  have low: "filter (\<lambda>x. k < key x) (take n l) = []"
    using c by (auto simp: filter_empty_conv in_set_conv_nth)
  have high: "filter (\<lambda>x. k < key x) (drop n l) = drop n l"
    using c by (auto simp: filter_id_conv in_set_conv_nth)
  have "filter (\<lambda>x. k < key x) l = filter (\<lambda>x. k < key x) (take n l @ drop n l)" by simp
  also have "\<dots> = drop n l" by (simp only: filter_append low high append_Nil)
  finally show ?thesis by (simp add: n_def)
qed

lemma find_append: "find P (xs @ ys) = (case find P xs of None \<Rightarrow> find P ys | Some x \<Rightarrow> Some x)"
  by (induction xs) auto

end
