(* ===== verification/Event.thy ===== *)
theory Event
  imports Prelude
begin

text \<open>
  The event record of \<open>internal/event/event.go\<close> and \<open>Normalize\<close>, which forces the product name and
  the boundary between what the guest did and what the QEMU process or the host did. Go's \<open>Kind\<close> and
  the attribution are strings, so a kind or an attribution this build does not know is a value too.
\<close>

type_synonym event_kind = string

abbreviation KindExec :: event_kind where "KindExec \<equiv> ''exec''"
abbreviation KindTCPConnect :: event_kind where "KindTCPConnect \<equiv> ''tcp_connect''"
abbreviation KindTCPRetransmit :: event_kind where "KindTCPRetransmit \<equiv> ''tcp_retransmit''"
abbreviation KindBlockSlow :: event_kind where "KindBlockSlow \<equiv> ''block_slow''"
abbreviation KindReclaim :: event_kind where "KindReclaim \<equiv> ''reclaim_stall''"
abbreviation KindOOM :: event_kind where "KindOOM \<equiv> ''oom_kill''"
abbreviation KindSchedDelay :: event_kind where "KindSchedDelay \<equiv> ''sched_delay''"
abbreviation KindExit :: event_kind where "KindExit \<equiv> ''exit''"
abbreviation KindDetection :: event_kind where "KindDetection \<equiv> ''detection''"
abbreviation KindVMStart :: event_kind where "KindVMStart \<equiv> ''vm_start''"
abbreviation KindVMStop :: event_kind where "KindVMStop \<equiv> ''vm_stop''"
abbreviation KindGuestConnect :: event_kind where "KindGuestConnect \<equiv> ''guest_connect''"
abbreviation KindGuestFlow :: event_kind where "KindGuestFlow \<equiv> ''guest_flow''"
abbreviation KindGuestInbound :: event_kind where "KindGuestInbound \<equiv> ''guest_inbound''"
abbreviation KindGuestDNS :: event_kind where "KindGuestDNS \<equiv> ''guest_dns''"
abbreviation KindGuestTLS :: event_kind where "KindGuestTLS \<equiv> ''guest_tls''"
abbreviation KindVMMOpen :: event_kind where "KindVMMOpen \<equiv> ''vmm_file_open''"
abbreviation KindVMMCall :: event_kind where "KindVMMCall \<equiv> ''vmm_syscall''"
abbreviation KindNetlinkLink :: event_kind where "KindNetlinkLink \<equiv> ''netlink_link''"
abbreviation KindNetlinkAddress :: event_kind where "KindNetlinkAddress \<equiv> ''netlink_address''"
abbreviation KindNetlinkRoute :: event_kind where "KindNetlinkRoute \<equiv> ''netlink_route''"
abbreviation KindNetlinkNeighbor :: event_kind where "KindNetlinkNeighbor \<equiv> ''netlink_neighbor''"
abbreviation KindNetlinkError :: event_kind where "KindNetlinkError \<equiv> ''netlink_error''"

abbreviation AttributionQEMU :: string where "AttributionQEMU \<equiv> ''qemu-process''"
abbreviation AttributionUnattributed :: string where "AttributionUnattributed \<equiv> ''unattributed''"
abbreviation AttributionGuestTap :: string where "AttributionGuestTap \<equiv> ''guest-tap''"
abbreviation AttributionHostNetlink :: string where "AttributionHostNetlink \<equiv> ''host-netlink''"

record event_vm =
  vm_name :: string
  vm_uuid :: string
  vm_runtime :: string

record netlink =
  nl_action :: string
  nl_object :: string
  nl_family :: string
  nl_ifindex :: "32 word"
  nl_interface :: string
  nl_parent_index :: "32 word"
  nl_master_index :: "32 word"
  nl_mtu :: u32
  nl_oper_state :: string
  nl_flags :: u32
  nl_address :: string
  nl_prefix_len :: u8
  nl_scope :: u8
  nl_destination :: string
  nl_gateway :: string
  nl_table :: u32
  nl_priority :: u32
  nl_lladdr :: string
  nl_state :: string
  nl_error :: "32 word"

record event =
  ev_seq :: u64
  ev_product :: string
  ev_kind :: event_kind
  ev_ts :: time
  ev_vm :: event_vm
  ev_attribution :: string
  ev_guest_attributed :: bool
  ev_pid :: u32
  ev_tgid :: u32
  ev_ppid :: u32
  ev_comm :: string
  ev_dst :: string
  ev_src :: string
  ev_proto :: string
  ev_iface :: string
  ev_blocked :: bool
  ev_dport :: u16
  ev_message :: string
  ev_dns_name :: string
  ev_qtype :: string
  ev_dns_truncated :: bool
  ev_policy :: string
  ev_syscall :: string
  ev_path :: string
  ev_write :: bool
  ev_detail :: string
  ev_count :: u64
  ev_sni :: string
  ev_alpn :: string
  ev_tls_version :: string
  ev_ja3 :: string
  ev_ech :: bool
  ev_tls_truncated :: bool
  ev_rule :: string
  ev_severity :: string
  ev_latency_ns :: u64
  ev_netlink :: "netlink option"

text \<open>Go's zero values, from which a composite literal that names some fields starts.\<close>

definition no_vm :: event_vm where
  "no_vm = \<lparr>vm_name = '''', vm_uuid = '''', vm_runtime = ''''\<rparr>"

definition zero_event :: event where
  "zero_event = \<lparr>
     ev_seq = 0, ev_product = '''', ev_kind = '''', ev_ts = 0, ev_vm = no_vm,
     ev_attribution = '''', ev_guest_attributed = False, ev_pid = 0, ev_tgid = 0, ev_ppid = 0,
     ev_comm = '''', ev_dst = '''', ev_src = '''', ev_proto = '''', ev_iface = '''',
     ev_blocked = False, ev_dport = 0, ev_message = '''', ev_dns_name = '''', ev_qtype = '''',
     ev_dns_truncated = False, ev_policy = '''', ev_syscall = '''', ev_path = '''',
     ev_write = False, ev_detail = '''', ev_count = 0, ev_sni = '''', ev_alpn = '''',
     ev_tls_version = '''', ev_ja3 = '''', ev_ech = False, ev_tls_truncated = False,
     ev_rule = '''', ev_severity = '''', ev_latency_ns = 0, ev_netlink = None\<rparr>"

definition Normalize :: "event \<Rightarrow> event" where
  "Normalize e0 =
     (let e = e0\<lparr>ev_product := ''shukra''\<rparr>
      in if ev_attribution e = AttributionHostNetlink then e\<lparr>ev_guest_attributed := False\<rparr>
         else if ev_attribution e = AttributionGuestTap \<and> vm_name (ev_vm e) \<noteq> ''''
         then e\<lparr>ev_guest_attributed := True\<rparr>
         else
           (let e = e\<lparr>ev_guest_attributed := False\<rparr>
            in if vm_name (ev_vm e) \<noteq> '''' then e\<lparr>ev_attribution := AttributionQEMU\<rparr>
               else if ev_attribution e = '''' \<or> ev_attribution e = AttributionGuestTap
               then e\<lparr>ev_attribution := AttributionUnattributed\<rparr>
               else e))"

section \<open>What Normalize leaves alone\<close>

lemma Normalize_keeps [simp]:
  "ev_seq (Normalize e) = ev_seq e" "ev_kind (Normalize e) = ev_kind e"
  "ev_ts (Normalize e) = ev_ts e" "ev_vm (Normalize e) = ev_vm e"
  "ev_rule (Normalize e) = ev_rule e" "ev_severity (Normalize e) = ev_severity e"
  "ev_message (Normalize e) = ev_message e"
  by (simp_all add: Normalize_def Let_def)

lemma Normalize_product [simp]: "ev_product (Normalize e) = ''shukra''"
  by (simp_all add: Normalize_def Let_def)

lemma Normalize_attribution:
  "ev_attribution (Normalize e) =
     (if ev_attribution e = AttributionHostNetlink then AttributionHostNetlink
      else if vm_name (ev_vm e) \<noteq> ''''
      then (if ev_attribution e = AttributionGuestTap then AttributionGuestTap else AttributionQEMU)
      else if ev_attribution e = '''' \<or> ev_attribution e = AttributionGuestTap
      then AttributionUnattributed else ev_attribution e)"
  by (simp_all add: Normalize_def Let_def)

lemma Normalize_guest_attributed:
  "ev_guest_attributed (Normalize e) \<longleftrightarrow>
     ev_attribution e = AttributionGuestTap \<and> vm_name (ev_vm e) \<noteq> ''''"
  by (simp_all add: Normalize_def Let_def)

lemma Normalize_idem [simp]: "Normalize (Normalize e) = Normalize e"
proof -
  consider "ev_attribution e = AttributionHostNetlink"
    | "ev_attribution e = AttributionGuestTap" "vm_name (ev_vm e) \<noteq> ''''"
    | "ev_attribution e \<noteq> AttributionHostNetlink" "ev_attribution e \<noteq> AttributionGuestTap"
      "vm_name (ev_vm e) \<noteq> ''''"
    | "ev_attribution e = '''' \<or> ev_attribution e = AttributionGuestTap" "vm_name (ev_vm e) = ''''"
    | "ev_attribution e \<noteq> AttributionHostNetlink" "ev_attribution e \<noteq> AttributionGuestTap"
      "ev_attribution e \<noteq> ''''" "vm_name (ev_vm e) = ''''"
    by blast
  then show ?thesis by cases (auto simp: Normalize_def)
qed

section \<open>The guest-attribution boundary\<close>

text \<open>
  \<open>Normalize\<close> enforces the attribution boundary whatever an event claims on the way in (a ring
  record, a hand-edited file): afterwards an event is guest-attributed exactly when it is attributed
  to a tap and names a VM, an event with no VM is never attributed to a tap or a QEMU process unless
  its own attribution says so, and normalizing again changes nothing.
\<close>

theorem Normalize_boundary:
  "ev_guest_attributed (Normalize e) =
     (ev_attribution (Normalize e) = AttributionGuestTap \<and> vm_name (ev_vm (Normalize e)) \<noteq> '''') \<and>
   (ev_guest_attributed (Normalize e) = (ev_attribution e = AttributionGuestTap \<and> vm_name (ev_vm e) \<noteq> '''')) \<and>
   ev_attribution (Normalize e) \<noteq> '''' \<and>
   \<not> (vm_name (ev_vm e) = '''' \<and> ev_attribution (Normalize e) = AttributionGuestTap) \<and>
   Normalize (Normalize e) = Normalize e"
  by (simp add: Normalize_attribution Normalize_guest_attributed)

end
