(* ===== verification/EventStore.thy ===== *)
theory EventStore
  imports Event "HOL-Library.Multiset"
begin

text \<open>
  The bounded event list of \<open>internal/state/events.go\<close>: one list per class of event, each class with a
  guaranteed share. \<open>es_add\<close> appends and then drops the oldest event of the class furthest over its
  share while the list is over \<open>MaxEvents\<close>; \<open>es_since\<close> finds the start of each class list by binary
  search and merges them by sequence number. Taking the head of an empty class list would panic, which
  is the result \<open>None\<close>; the invariant \<open>es_wf\<close> rules it out.
\<close>

section \<open>Definitions\<close>

definition MaxEvents :: nat where
  "MaxEvents = 2048"

datatype eventClass =
  classGuest | classNotable | classProcess | classLatency | classHostNet | classOther

text \<open>The classes in the order of Go's \<open>iota\<close> constants, which is the order the loops visit them in.\<close>

definition classes :: "eventClass list" where
  "classes = [classGuest, classNotable, classProcess, classLatency, classHostNet, classOther]"

fun classShare :: "eventClass \<Rightarrow> nat" where
  "classShare classGuest = 512"
| "classShare classNotable = 256"
| "classShare classProcess = 256"
| "classShare classLatency = 256"
| "classShare classHostNet = 512"
| "classShare classOther = 256"

definition classOf :: "event_kind \<Rightarrow> eventClass" where
  "classOf k =
     (if k \<in> {KindGuestConnect, KindGuestFlow, KindGuestInbound, KindGuestDNS, KindGuestTLS}
      then classGuest
      else if k \<in> {KindDetection, KindVMStart, KindVMStop, KindOOM} then classNotable
      else if k \<in> {KindExec, KindExit, KindVMMOpen, KindVMMCall} then classProcess
      else if k \<in> {KindBlockSlow, KindSchedDelay, KindReclaim} then classLatency
      else if k \<in> {KindTCPConnect, KindTCPRetransmit, KindNetlinkLink, KindNetlinkAddress,
                   KindNetlinkRoute, KindNetlinkNeighbor, KindNetlinkError} then classHostNet
      else classOther)"

record eventStore =
  es_by :: "eventClass \<Rightarrow> event list"
  es_total :: nat

definition es_empty :: eventStore where
  "es_empty = \<lparr>es_by = (\<lambda>_. []), es_total = 0\<rparr>"

text \<open>How far a class is over its share; negative when it is under.\<close>

definition es_excess :: "eventStore \<Rightarrow> eventClass \<Rightarrow> int" where
  "es_excess s i = int (length (es_by s i)) - int (classShare i)"

definition victim_step :: "eventStore \<Rightarrow> eventClass \<times> int \<Rightarrow> eventClass \<Rightarrow> eventClass \<times> int" where
  "victim_step s = (\<lambda>(victim, excess) i.
     if es_excess s i > excess then (i, es_excess s i) else (victim, excess))"

definition es_victim :: "eventStore \<Rightarrow> eventClass" where
  "es_victim s = fst (foldl (victim_step s) (classGuest, - (2 ^ 31)) classes)"

definition es_drop_oldest :: "eventClass \<Rightarrow> eventStore \<Rightarrow> eventStore option" where
  "es_drop_oldest v s =
     (case es_by s v of
        [] \<Rightarrow> None
      | _ # rest \<Rightarrow> Some (s\<lparr>es_by := (es_by s)(v := rest), es_total := es_total s - 1\<rparr>))"

function es_shed :: "eventStore \<Rightarrow> eventStore option" where
  "es_shed s =
     (if MaxEvents < es_total s
      then (case es_drop_oldest (es_victim s) s of None \<Rightarrow> None | Some s' \<Rightarrow> es_shed s')
      else Some s)"
  by pat_completeness auto
termination
  by (relation "measure es_total") (auto simp: es_drop_oldest_def split: list.splits)

declare es_shed.simps [simp del]

definition es_push :: "event \<Rightarrow> eventStore \<Rightarrow> eventStore" where
  "es_push e s =
     (let c = classOf (ev_kind e)
      in s\<lparr>es_by := (es_by s)(c := es_by s c @ [e]), es_total := es_total s + 1\<rparr>)"

definition es_add :: "event \<Rightarrow> eventStore \<Rightarrow> eventStore option" where
  "es_add e s = es_shed (es_push e s)"

text \<open>The class whose next event has the least sequence number; the first such class on a tie.\<close>

definition best_step :: "(eventClass \<Rightarrow> event list) \<Rightarrow> eventClass option \<Rightarrow> eventClass \<Rightarrow> eventClass option" where
  "best_step ls best i =
     (if ls i \<noteq> [] \<and> (case best of None \<Rightarrow> True | Some b \<Rightarrow> ev_seq (hd (ls i)) < ev_seq (hd (ls b)))
      then Some i else best)"

definition best_class :: "(eventClass \<Rightarrow> event list) \<Rightarrow> eventClass option" where
  "best_class ls = foldl (best_step ls) None classes"

definition remaining :: "(eventClass \<Rightarrow> event list) \<Rightarrow> nat" where
  "remaining ls = sum_list (map (\<lambda>i. length (ls i)) classes)"

lemma best_class_foldl:
  assumes "best = None \<or> (\<exists>b. best = Some b \<and> ls b \<noteq> [])"
  shows "(foldl (best_step ls) best cs = None \<longrightarrow> best = None \<and> (\<forall>i \<in> set cs. ls i = [])) \<and>
    (\<forall>b. foldl (best_step ls) best cs = Some b \<longrightarrow> ls b \<noteq> [] \<and>
      (\<forall>i \<in> set cs. ls i \<noteq> [] \<longrightarrow> ev_seq (hd (ls b)) \<le> ev_seq (hd (ls i))) \<and>
      (\<forall>c. best = Some c \<longrightarrow> ev_seq (hd (ls b)) \<le> ev_seq (hd (ls c))))"
  using assms
proof (induction cs arbitrary: best)
  case Nil
  then show ?case by auto
next
  case (Cons i cs)
  have step: "best_step ls best i = None \<or> (\<exists>b. best_step ls best i = Some b \<and> ls b \<noteq> [])"
    "best_step ls best i = None \<Longrightarrow> best = None \<and> ls i = []"
    "\<And>c. best = Some c \<Longrightarrow> \<exists>d. best_step ls best i = Some d \<and> ev_seq (hd (ls d)) \<le> ev_seq (hd (ls c))"
    "ls i \<noteq> [] \<Longrightarrow> \<exists>d. best_step ls best i = Some d \<and> ev_seq (hd (ls d)) \<le> ev_seq (hd (ls i))"
    using Cons.prems by (auto simp: best_step_def split: option.splits if_splits)
  show ?case using Cons.IH[OF step(1)] step(2-4) by (auto; metis order.trans)
qed

lemma set_classes [simp]: "set classes = UNIV"
proof -
  have "c \<in> set classes" for c by (cases c) (simp_all add: classes_def)
  then show ?thesis by blast
qed

lemma best_class_None: "best_class ls = None \<Longrightarrow> ls i = []"
  using best_class_foldl[of None ls classes] by (simp add: best_class_def)

lemma best_class_Some: "best_class ls = Some b \<Longrightarrow>
    ls b \<noteq> [] \<and> (\<forall>i. ls i \<noteq> [] \<longrightarrow> ev_seq (hd (ls b)) \<le> ev_seq (hd (ls i)))"
  using best_class_foldl[of None ls classes] by (simp add: best_class_def)

lemma remaining_pop: "ls b = x # xs \<Longrightarrow> remaining (ls(b := xs)) < remaining ls"
  by (cases b) (auto simp: remaining_def classes_def)

function es_merge :: "string \<Rightarrow> (eventClass \<Rightarrow> event list) \<Rightarrow> event list" where
  "es_merge vm ls =
     (case best_class ls of
        None \<Rightarrow> []
      | Some b \<Rightarrow>
          (let e = hd (ls b); rest = es_merge vm (ls(b := tl (ls b)))
           in if vm = '''' \<or> vm_name (ev_vm e) = vm then e # rest else rest))"
  by pat_completeness auto
termination
proof (relation "measure (\<lambda>(vm, ls). remaining ls)")
  fix vm ls b x
  assume "best_class ls = Some b"
  then have "ls b = hd (ls b) # tl (ls b)"
    by (auto dest: best_class_Some)
  then show "((vm, ls(b := tl (ls b))), (vm, ls)) \<in> measure (\<lambda>(vm, ls). remaining ls)"
    by (metis (mono_tags, lifting) case_prod_conv in_measure remaining_pop)
qed simp

declare es_merge.simps [simp del]

definition es_since :: "string \<Rightarrow> u64 \<Rightarrow> eventStore \<Rightarrow> event list" where
  "es_since vm since s =
     es_merge vm (\<lambda>i.
       let l = es_by s i
       in drop (go_search (length l) (\<lambda>j. since < ev_seq (l ! j))) l)"

section \<open>The invariant\<close>

definition es_all :: "eventStore \<Rightarrow> event list" where
  "es_all s = concat (map (es_by s) classes)"

definition es_wf :: "eventStore \<Rightarrow> bool" where
  "es_wf s \<longleftrightarrow>
     es_total s = length (es_all s) \<and> es_total s \<le> MaxEvents \<and>
     (\<forall>c. \<forall>e \<in> set (es_by s c). classOf (ev_kind e) = c) \<and>
     (\<forall>c. sorted_wrt (<) (map ev_seq (es_by s c)))"


section \<open>Eviction\<close>

lemma victim_foldl:
  assumes "foldl (victim_step s) (v0, x0) cs = (v, x)"
  shows "x0 \<le> x \<and> (\<forall>c \<in> set cs. es_excess s c \<le> x) \<and> (v = v0 \<and> x = x0 \<or> x = es_excess s v)"
  using assms
proof (induction cs arbitrary: v0 x0)
  case Nil
  then show ?case by simp
next
  case (Cons c cs)
  obtain v1 x1 where 1: "victim_step s (v0, x0) c = (v1, x1)" by fastforce
  then have "x0 \<le> x1" "es_excess s c \<le> x1" "v1 = v0 \<and> x1 = x0 \<or> x1 = es_excess s v1"
    by (auto simp: victim_step_def split: if_splits)
  with Cons.IH[of v1 x1] Cons.prems 1 show ?case by auto
qed

lemma length_es_all: "length (es_all s) = (\<Sum>c \<leftarrow> classes. length (es_by s c))"
  by (simp add: es_all_def length_concat comp_def)

lemma sum_classShare: "(\<Sum>c \<leftarrow> classes. classShare c) = MaxEvents"
  by (simp add: classes_def MaxEvents_def)

lemma some_class_over_share:
  assumes "MaxEvents < length (es_all s)"
  shows "\<exists>c. 0 < es_excess s c"
proof (rule ccontr)
  assume "\<not> (\<exists>c. 0 < es_excess s c)"
  then have "length (es_by s c) \<le> classShare c" for c
    by (auto simp: es_excess_def not_less)
  then have "(\<Sum>c \<leftarrow> classes. length (es_by s c)) \<le> (\<Sum>c \<leftarrow> classes. classShare c)"
    by (intro sum_list_mono) simp
  with assms show False by (simp add: length_es_all sum_classShare)
qed

lemma es_victim_over_share:
  assumes "MaxEvents < length (es_all s)"
  shows "0 < es_excess s (es_victim s) \<and> (\<forall>c. es_excess s c \<le> es_excess s (es_victim s))"
proof -
  obtain v x where vx: "foldl (victim_step s) (classGuest, - (2 ^ 31)) classes = (v, x)" by fastforce
  note v = victim_foldl[OF this]
  obtain c where "0 < es_excess s c" using some_class_over_share[OF assms] by blast
  with v have "0 < x" by (metis UNIV_I linorder_not_less order_less_le_trans set_classes)
  with v have "x = es_excess s v" by auto
  moreover have "es_victim s = v" unfolding es_victim_def vx by simp
  ultimately show ?thesis using v \<open>0 < x\<close> by simp
qed

lemma length_es_all_upd:
  "length (es_all (s\<lparr>es_by := (es_by s)(c := xs), es_total := t\<rparr>)) + length (es_by s c) =
   length (es_all s) + length xs"
  by (cases c) (simp_all add: length_es_all classes_def)

lemma es_push_simps [simp]:
  "es_total (es_push e s) = Suc (es_total s)"
  "es_by (es_push e s) = (es_by s)(classOf (ev_kind e) := es_by s (classOf (ev_kind e)) @ [e])"
  "length (es_all (es_push e s)) = Suc (length (es_all s))"
  using length_es_all_upd[where s = s and c = "classOf (ev_kind e)"
      and xs = "es_by s (classOf (ev_kind e)) @ [e]" and t = "Suc (es_total s)"]
  by (simp_all add: es_push_def Let_def)

lemma es_shed_small [simp]: "es_total s \<le> MaxEvents \<Longrightarrow> es_shed s = Some s"
  by (simp add: es_shed.simps)

lemma es_shed_one_over:
  assumes "es_total s = Suc MaxEvents" "es_total s = length (es_all s)"
  shows "\<exists>rest old. es_by s (es_victim s) = old # rest \<and> rest \<noteq> [] \<and>
    es_shed s = Some (s\<lparr>es_by := (es_by s)(es_victim s := rest), es_total := MaxEvents\<rparr>)"
proof -
  have "0 < es_excess s (es_victim s)" using es_victim_over_share[of s] assms by simp
  moreover have "0 < classShare (es_victim s)" by (cases "es_victim s") simp_all
  ultimately have "Suc 0 < length (es_by s (es_victim s))" by (simp add: es_excess_def)
  then obtain old rest where "es_by s (es_victim s) = old # rest" "rest \<noteq> []"
    by (cases "es_by s (es_victim s)") auto
  moreover then have "es_shed s = Some (s\<lparr>es_by := (es_by s)(es_victim s := rest), es_total := MaxEvents\<rparr>)"
    using assms(1) by (simp add: es_shed.simps[of s] es_drop_oldest_def)
  ultimately show ?thesis by blast
qed

lemma es_wf_empty: "es_wf es_empty"
  by (simp add: es_wf_def es_empty_def es_all_def)

lemma es_push_seqs:
  assumes "es_wf s" "\<forall>x \<in> set (es_all s). ev_seq x < ev_seq e"
  shows "sorted_wrt (<) (map ev_seq (es_by (es_push e s) c))"
proof -
  have "set (es_by s c) \<subseteq> set (es_all s)" by (auto simp: es_all_def)
  with assms show ?thesis by (auto simp: es_wf_def sorted_wrt_append)
qed

text \<open>What an add does to a well-formed store: nothing is dropped while there is room, and otherwise exactly
  the oldest event of a class that is over its share.\<close>

lemma es_add_cases:
  assumes wf: "es_wf s" and seq: "\<forall>x \<in> set (es_all s). ev_seq x < ev_seq e"
  obtains (room) "es_total s < MaxEvents" "es_add e s = Some (es_push e s)" "es_wf (es_push e s)"
  | (full) v old rest s' where "es_total s = MaxEvents" "es_by (es_push e s) v = old # rest" "rest \<noteq> []"
      "classShare v < length (old # rest)" "es_add e s = Some s'" "es_wf s'" "es_total s' = MaxEvents"
      "es_by s' = (es_by (es_push e s))(v := rest)"
proof (cases "es_total s < MaxEvents")
  case True
  moreover from this have "es_add e s = Some (es_push e s)" by (simp add: es_add_def)
  moreover have "es_wf (es_push e s)"
    using wf True es_push_seqs[OF wf seq] by (auto simp: es_wf_def)
  ultimately show thesis by (rule room)
next
  case False
  let ?p = "es_push e s" and ?v = "es_victim (es_push e s)"
  have tot: "es_total s = MaxEvents" using False wf by (simp add: es_wf_def)
  then obtain old rest where v: "es_by ?p ?v = old # rest" "rest \<noteq> []"
    and add: "es_add e s = Some (?p\<lparr>es_by := (es_by ?p)(?v := rest), es_total := MaxEvents\<rparr>)"
      (is "_ = Some ?s'")
    using es_shed_one_over[of ?p] wf unfolding es_add_def by (auto simp: es_wf_def)
  have over: "classShare ?v < length (old # rest)"
    using es_victim_over_share[of ?p] v(1) tot wf by (simp add: es_wf_def es_excess_def)
  have by': "es_by ?s' = (es_by ?p)(?v := rest)" by simp
  have len: "length (es_all ?s') = MaxEvents"
    using length_es_all_upd[where s = ?p and c = ?v and xs = rest and t = MaxEvents] v(1) tot wf by (simp add: es_wf_def)
  have sub: "set (es_by ?s' c) \<subseteq> set (es_by ?p c)" for c
    using v(1) by (auto simp del: es_push_simps)
  have cls: "\<forall>c. \<forall>x \<in> set (es_by ?p c). classOf (ev_kind x) = c" using wf by (auto simp: es_wf_def)
  have sorted: "sorted_wrt (<) (map ev_seq (es_by ?s' c))" for c
    using es_push_seqs[OF wf seq, of c] es_push_seqs[OF wf seq, of ?v] v(1) by (auto simp del: es_push_simps)
  have "\<forall>c. \<forall>x \<in> set (es_by ?s' c). classOf (ev_kind x) = c" using sub cls by blast
  with len sorted have "es_wf ?s'" unfolding es_wf_def by (simp del: es_push_simps)
  from full[OF tot v over add this _ by'] show thesis by simp
qed

section \<open>Merging\<close>

definition merge_sorted :: "(eventClass \<Rightarrow> event list) \<Rightarrow> bool" where
  "merge_sorted ls \<longleftrightarrow> (\<forall>c. sorted (map ev_seq (ls c)))"

lemma mset_concat_classes: "ls b = x # xs \<Longrightarrow>
    mset (concat (map ls classes)) = add_mset x (mset (concat (map (ls(b := xs)) classes)))"
  by (cases b) (auto simp: classes_def)

lemma es_merge_filter: "es_merge vm ls = filter (\<lambda>e. vm = '''' \<or> vm_name (ev_vm e) = vm) (es_merge '''' ls)"
proof (induction vm ls rule: es_merge.induct)
  case (1 vm ls)
  then show ?case
    by (cases "best_class ls")
      (auto simp: Let_def es_merge.simps[of vm ls] es_merge.simps[of "''''" ls] simp del: fun_upd_apply)
qed

lemma es_merge_all: "merge_sorted ls \<Longrightarrow>
    sorted (map ev_seq (es_merge '''' ls)) \<and> mset (es_merge '''' ls) = mset (concat (map ls classes))"
proof (induction "''''::string" ls rule: es_merge.induct)
  case (1 ls)
  show ?case
  proof (cases "best_class ls")
    case None
    then show ?thesis by (simp add: es_merge.simps[of _ ls] best_class_None)
  next
    case (Some b)
    note best = best_class_Some[OF Some]
    let ?e = "hd (ls b)" and ?ls = "ls(b := tl (ls b))"
    have eq: "es_merge '''' ls = ?e # es_merge '''' ?ls"
      using Some by (simp add: es_merge.simps[of _ ls] Let_def)
    have ms: "merge_sorted ?ls"
      using "1.prems" by (auto simp: merge_sorted_def sorted_tl map_tl)
    have IH: "sorted (map ev_seq (es_merge '''' ?ls))"
      "mset (es_merge '''' ?ls) = mset (concat (map ?ls classes))"
      using "1.hyps"[OF Some refl ms] by auto
    have least: "ev_seq ?e \<le> ev_seq x" if "x \<in> set (?ls c)" for x c
    proof -
      from that have x: "x \<in> set (ls c)" "ls c \<noteq> []"
        using best list.set_sel(2)[of "ls b" x] by (auto split: if_splits)
      then have "ev_seq (hd (ls c)) \<le> ev_seq x"
        using "1.prems" by (cases "ls c") (auto simp: merge_sorted_def dest: spec[of _ c])
      with best x(2) show ?thesis by force
    qed
    have "\<forall>x \<in> set (es_merge '''' ?ls). ev_seq ?e \<le> ev_seq x"
      using least arg_cong[OF IH(2), of set_mset] by (auto simp del: fun_upd_apply)
    moreover have "mset (concat (map ls classes)) = add_mset ?e (mset (concat (map ?ls classes)))"
      using best mset_concat_classes[of ls b ?e "tl (ls b)"] by simp
    ultimately show ?thesis using IH by (simp add: eq)
  qed
qed

lemma filter_concat_classes: "concat (map (\<lambda>c. filter P (ls c)) classes) = filter P (concat (map ls classes))"
  by (simp add: filter_concat comp_def)

lemma es_since_spec:
  assumes "es_wf s" and "distinct (map ev_seq (es_all s))"
  shows "es_since vm n s =
    filter (\<lambda>e. n < ev_seq e \<and> (vm = '''' \<or> vm_name (ev_vm e) = vm)) (sort_key ev_seq (es_all s))"
proof -
  define ls where "ls = (\<lambda>c. filter (\<lambda>e. n < ev_seq e) (es_by s c))"
  have sorted: "sorted (map ev_seq (es_by s c))" for c
    using assms(1) by (auto simp: es_wf_def strict_sorted_iff)
  have eq: "es_since vm n s = es_merge vm ls"
    by (simp add: es_since_def ls_def drop_go_search[OF sorted] Let_def)
  have "merge_sorted ls" using sorted by (simp add: merge_sorted_def ls_def sorted_filter)
  note all = es_merge_all[OF this]
  have inj: "inj_on ev_seq (set (filter (\<lambda>e. n < ev_seq e) (es_all s)))"
    using assms(2) by (auto simp: distinct_map intro: inj_on_subset)
  have "sort_key ev_seq (filter (\<lambda>e. n < ev_seq e) (es_all s)) = es_merge '''' ls"
    using all inj by (intro sort_key_inj_key_eq) (auto simp: ls_def filter_concat_classes es_all_def)
  then show ?thesis
    by (simp add: eq es_merge_filter[of vm ls] filter_sort[symmetric] conj_commute flip: filter_filter)
qed

section \<open>Properties\<close>

text \<open>
  C32. The event list never drops an event of a class that is within its share. Adding an event with a
  fresh sequence number to a well-formed store never panics, leaves it well formed (so at most
  \<open>MaxEvents\<close> events, in order within a class), keeps the new event, grows the store by one until it
  is full, and takes away at most one event: the oldest of one class, and only of a class that is over
  its share.
\<close>

theorem es_add_fair:
  assumes "es_wf s" and "\<forall>x \<in> set (es_all s). ev_seq x < ev_seq e"
  shows "\<exists>s'. es_add e s = Some s' \<and> es_wf s' \<and>
    es_total s' = min MaxEvents (Suc (es_total s)) \<and> e \<in> set (es_all s') \<and>
    (\<forall>c. length (es_by (es_push e s) c) \<le> classShare c \<longrightarrow> es_by s' c = es_by (es_push e s) c) \<and>
    (\<forall>c. es_by s' c = es_by (es_push e s) c \<or> es_by s' c = tl (es_by (es_push e s) c))"
  using assms
proof (cases rule: es_add_cases)
  case room
  then show ?thesis by (auto simp: es_all_def)
next
  case (full v old rest s')
  have new: "e \<in> set (es_by s' (classOf (ev_kind e)))"
    using full(2,3,8) by (auto simp: append_eq_Cons_conv)
  then have "e \<in> set (es_all s')" by (auto simp: es_all_def)
  moreover have "es_by s' c = es_by (es_push e s) c"
    if "length (es_by (es_push e s) c) \<le> classShare c" for c
    using that full(2,4,8) by (cases "c = v") (auto simp del: es_push_simps)
  moreover have "es_by s' c = es_by (es_push e s) c \<or> es_by s' c = tl (es_by (es_push e s) c)" for c
    using full(2,8) by (simp del: es_push_simps)
  ultimately show ?thesis using full(1,5-7) by auto
qed

theorem es_add_fair_witness:
  "es_wf es_empty \<and>
   (\<exists>s'. es_add (zero_event\<lparr>ev_seq := 1\<rparr>) es_empty = Some s' \<and> es_wf s' \<and>
     es_total s' = 1 \<and> zero_event\<lparr>ev_seq := 1\<rparr> \<in> set (es_all s'))"
proof -
  have h: "\<forall>x \<in> set (es_all es_empty). ev_seq x < ev_seq (zero_event\<lparr>ev_seq := 1\<rparr>)"
    by (simp add: es_all_def es_empty_def)
  show ?thesis using es_add_fair[OF es_wf_empty h] es_wf_empty by (auto simp: MaxEvents_def es_empty_def)
qed

text \<open>
  Reading the event list back refines a plain filter: over a well-formed store whose sequence
  numbers are distinct, \<open>since\<close>, which searches each class list by bisection and merges the class lists,
  returns exactly the stored events after the given number, for the VM asked for, in the order of their
  sequence numbers.
\<close>

theorem es_since_refines:
  assumes "es_wf s" and "distinct (map ev_seq (es_all s))"
  shows "es_since vm n s =
    filter (\<lambda>e. n < ev_seq e \<and> (vm = '''' \<or> vm_name (ev_vm e) = vm)) (sort_key ev_seq (es_all s))"
  by (rule es_since_spec[OF assms])

theorem es_since_refines_witness:
  "es_wf es_empty \<and> distinct (map ev_seq (es_all es_empty)) \<and> es_since '''' 0 es_empty = []"
proof -
  have d: "distinct (map ev_seq (es_all es_empty))" by (simp add: es_all_def es_empty_def classes_def)
  show ?thesis using es_since_refines[OF es_wf_empty d, of "''''" 0] es_wf_empty d
    by (simp add: es_all_def es_empty_def classes_def)
qed

end
