(* ===== verification/Recorder.thy ===== *)
theory Recorder
  imports Event
begin

text \<open>
  The per-VM flight recorder of \<open>internal/recorder/recorder.go\<close>: a ring per VM that grows to the
  recorder's cap and then overwrites its oldest event in place, read back oldest first. The ring is
  shown to implement the contract \<open>bounded_log\<close>, and the recorder's behaviour follows from it.
\<close>

section \<open>Definitions\<close>

definition DefaultCap :: nat where
  "DefaultCap = 4096"

record ring =
  rg_evs :: "event list"
  rg_next :: nat

record recorder =
  rec_cap :: nat
  rec_buf :: "(string, ring) gomap"

definition empty_ring :: ring where
  "empty_ring = \<lparr>rg_evs = [], rg_next = 0\<rparr>"

definition ring_add :: "event \<Rightarrow> nat \<Rightarrow> ring \<Rightarrow> ring" where
  "ring_add e cap g =
     (if length (rg_evs g) < cap then g\<lparr>rg_evs := rg_evs g @ [e]\<rparr>
      else
        (let evs = (rg_evs g)[rg_next g := e];
             next = rg_next g + 1
         in g\<lparr>rg_evs := evs, rg_next := (if next = length evs then 0 else next)\<rparr>))"

definition ring_each :: "ring \<Rightarrow> event list" where
  "ring_each g = drop (rg_next g) (rg_evs g) @ take (rg_next g) (rg_evs g)"

definition rec_new :: "int \<Rightarrow> recorder" where
  "rec_new cap = \<lparr>rec_cap = (if cap \<le> 0 then DefaultCap else nat cap), rec_buf = []\<rparr>"

definition keyOf :: "event \<Rightarrow> string" where
  "keyOf e = (if vm_name (ev_vm e) = '''' then ''_host'' else vm_name (ev_vm e))"

text \<open>The VM's ring, or the new empty one that takes the place of a nil entry.\<close>

definition rec_ring :: "recorder \<Rightarrow> string \<Rightarrow> ring" where
  "rec_ring r k = (case map_of (rec_buf r) k of None \<Rightarrow> empty_ring | Some g \<Rightarrow> g)"

definition rec_add :: "event \<Rightarrow> recorder \<Rightarrow> recorder" where
  "rec_add e0 r =
     (let e = Normalize e0;
          k = keyOf e
      in r\<lparr>rec_buf := AList.update k (ring_add e (rec_cap r) (rec_ring r k)) (rec_buf r)\<rparr>)"

text \<open>The events of one VM, oldest first: \<open>each\<close> on the VM's ring, which does nothing on a nil ring.\<close>

definition rec_events :: "string \<Rightarrow> recorder \<Rightarrow> event list" where
  "rec_events vm r = (case map_of (rec_buf r) vm of None \<Rightarrow> [] | Some g \<Rightarrow> ring_each g)"

definition Window :: "string \<Rightarrow> duration \<Rightarrow> time \<Rightarrow> recorder \<Rightarrow> event list" where
  "Window vm d now r =
     (let cutoff = now - d;
          keep = (\<lambda>e. \<not> ev_ts e < cutoff)
      in if vm = '''' \<or> vm = ''_''
         then concat (map (\<lambda>(k, g). filter keep (ring_each g)) (rec_buf r))
         else filter keep (rec_events vm r))"

definition Snapshot :: "recorder \<Rightarrow> event list" where
  "Snapshot r = concat (map (\<lambda>k. rec_events k r) (sort (map fst (rec_buf r))))"

section \<open>The ring is a bounded log\<close>

definition ring_inv :: "nat \<Rightarrow> ring \<Rightarrow> bool" where
  "ring_inv cap g \<longleftrightarrow> length (rg_evs g) \<le> cap \<and>
     (if length (rg_evs g) < cap then rg_next g = 0 else rg_next g < cap)"

lemma ring_inv_empty [simp]: "0 < cap \<Longrightarrow> ring_inv cap empty_ring"
  by (simp add: ring_inv_def empty_ring_def)

lemma ring_each_empty [simp]: "ring_each empty_ring = []"
  by (simp add: ring_each_def empty_ring_def)

lemma rotate_overwrite:
  assumes "n < length xs"
  shows "drop (if Suc n = length xs then 0 else Suc n) (xs[n := e]) @
     take (if Suc n = length xs then 0 else Suc n) (xs[n := e]) = tl (drop n xs @ take n xs) @ [e]"
proof -
  have "drop n xs = xs ! n # drop (Suc n) xs" using assms by (rule Cons_nth_drop_Suc[symmetric])
  then show ?thesis using assms
    by (auto simp: take_Suc_conv_app_nth upd_conv_take_nth_drop)
qed

interpretation ring_log: bounded_log "\<lambda>e. ring_add e (Suc c)" ring_each "Suc c" "ring_inv (Suc c)" for c
proof unfold_locales
  fix g e assume inv: "ring_inv (Suc c) g"
  show "ring_each (ring_add e (Suc c) g) = keep_newest (Suc c) (ring_each g @ [e])"
  proof (cases "length (rg_evs g) < Suc c")
    case True
    then show ?thesis using inv by (simp add: ring_inv_def ring_each_def ring_add_def)
  next
    case False
    then have full: "length (rg_evs g) = Suc c" "rg_next g < Suc c" using inv by (auto simp: ring_inv_def)
    have "ring_each (ring_add e (Suc c) g) = tl (ring_each g) @ [e]"
      using full rotate_overwrite[of "rg_next g" "rg_evs g" e]
      by (simp add: ring_add_def ring_each_def Let_def)
    also have "\<dots> = keep_newest (Suc c) (ring_each g @ [e])"
    proof -
      have "length (ring_each g) = Suc c" using full by (simp add: ring_each_def)
      then show ?thesis by (cases "ring_each g") (simp_all add: keep_newest_def)
    qed
    finally show ?thesis .
  qed
  show "ring_inv (Suc c) (ring_add e (Suc c) g)"
    using inv by (auto simp: ring_inv_def ring_add_def Let_def)
next
  fix g assume "ring_inv (Suc c) g"
  then show "length (ring_each g) \<le> Suc c" by (auto simp: ring_inv_def ring_each_def)
qed

section \<open>The recorder\<close>

definition ring_ok :: "nat \<Rightarrow> string \<Rightarrow> ring \<Rightarrow> bool" where
  "ring_ok cap k g \<longleftrightarrow> ring_inv cap g \<and> (\<forall>e \<in> set (ring_each g). keyOf e = k \<and> Normalize e = e)"

definition rec_inv :: "recorder \<Rightarrow> bool" where
  "rec_inv r \<longleftrightarrow> 0 < rec_cap r \<and> distinct (map fst (rec_buf r)) \<and>
     (\<forall>k g. map_of (rec_buf r) k = Some g \<longrightarrow> ring_ok (rec_cap r) k g)"

lemma ring_ok_empty [simp]: "0 < cap \<Longrightarrow> ring_ok cap k empty_ring"
  by (simp add: ring_ok_def)

lemma keyOf_Normalize [simp]: "keyOf (Normalize e) = keyOf e"
  by (simp add: keyOf_def)

lemma ring_ok_add:
  assumes "ring_ok cap k g" "0 < cap" "keyOf e = k"
  shows "ring_ok cap k (ring_add (Normalize e) cap g) \<and>
    ring_each (ring_add (Normalize e) cap g) = keep_newest cap (ring_each g @ [Normalize e])"
proof -
  obtain c where c: "cap = Suc c" using assms(2) by (cases cap) auto
  have g: "ring_inv (Suc c) g" using assms(1) c by (simp add: ring_ok_def)
  note ev = ring_log.contents_add[OF g, of "Normalize e"]
  have "set (keep_newest (Suc c) (ring_each g @ [Normalize e])) \<subseteq> insert (Normalize e) (set (ring_each g))"
    using set_keep_newest[of "Suc c" "ring_each g @ [Normalize e]"] by simp
  with assms(1,3) ev ring_log.invar_add[OF g, of "Normalize e"] c show ?thesis
    unfolding ring_ok_def c by (auto 0 4 dest: subsetD)
qed

lemma rec_ring_ok: "rec_inv r \<Longrightarrow> ring_ok (rec_cap r) k (rec_ring r k)"
  by (simp add: rec_inv_def rec_ring_def split: option.split)

lemma rec_events_ring: "rec_events k r = ring_each (rec_ring r k)"
  by (simp add: rec_events_def rec_ring_def split: option.split)

lemma rec_inv_new [simp]: "rec_inv (rec_new cap)"
  by (simp add: rec_inv_def rec_new_def DefaultCap_def)

lemma rec_new_events [simp]: "rec_events k (rec_new cap) = []"
  by (simp add: rec_events_def rec_new_def)

lemma rec_cap_add [simp]: "rec_cap (rec_add e r) = rec_cap r"
  by (simp add: rec_add_def Let_def)

lemma rec_cap_adds [simp]: "rec_cap (fold rec_add es r) = rec_cap r"
  by (induction es arbitrary: r) simp_all

lemma rec_ring_add: "rec_ring (rec_add e r) k =
    (if keyOf e = k then ring_add (Normalize e) (rec_cap r) (rec_ring r k) else rec_ring r k)"
  by (auto simp: rec_add_def Let_def rec_ring_def)

lemma rec_events_add: "rec_inv r \<Longrightarrow> rec_events k (rec_add e r) =
    (if keyOf e = k then keep_newest (rec_cap r) (rec_events k r @ [Normalize e]) else rec_events k r)"
  using rec_ring_ok[of r k] ring_ok_add[of "rec_cap r" k "rec_ring r k" e]
  by (simp add: rec_events_ring rec_ring_add rec_inv_def)

lemma rec_inv_add [inv_pres]:
  assumes "rec_inv r"
  shows "rec_inv (rec_add e r)"
proof -
  have ok: "ring_ok (rec_cap r) (keyOf e) (ring_add (Normalize e) (rec_cap r) (rec_ring r (keyOf e)))"
    using ring_ok_add[OF rec_ring_ok[OF assms]] assms by (simp add: rec_inv_def)
  show ?thesis unfolding rec_inv_def
  proof (intro conjI allI impI)
    fix k g assume "map_of (rec_buf (rec_add e r)) k = Some g"
    then show "ring_ok (rec_cap (rec_add e r)) k g"
      using ok assms by (cases "k = keyOf e") (simp_all add: rec_add_def Let_def rec_inv_def)
  qed (use assms in \<open>simp_all add: rec_inv_def rec_add_def Let_def distinct_update\<close>)
qed

lemma rec_inv_adds: "rec_inv r \<Longrightarrow> rec_inv (fold rec_add es r)"
  by (induction es arbitrary: r) (auto intro: rec_inv_add)

lemma rec_events_bounded [bounds]: "rec_inv r \<Longrightarrow> length (rec_events k r) \<le> rec_cap r"
  using rec_ring_ok[of r k] by (auto simp: rec_events_ring ring_ok_def ring_inv_def ring_each_def)

lemma rec_events_adds:
  assumes "rec_inv r"
  shows "rec_events k (fold rec_add es r) =
    keep_newest (rec_cap r) (rec_events k r @ filter (\<lambda>e. keyOf e = k) (map Normalize es))"
  using assms
proof (induction es arbitrary: r)
  case Nil
  then show ?case by (simp add: rec_events_bounded)
next
  case (Cons e es)
  then show ?case by (simp add: rec_inv_add rec_events_add)
qed

lemma filter_snapshot:
  assumes "rec_inv r"
  shows "filter (\<lambda>e. keyOf e = k) (Snapshot r) = rec_events k r"
proof -
  have key: "filter (\<lambda>e. keyOf e = k) (rec_events k' r) = (if k' = k then rec_events k r else [])" for k'
    using rec_ring_ok[OF assms, of k'] by (auto simp: rec_events_ring ring_ok_def filter_id_conv filter_empty_conv)
  have concat: "concat (map (\<lambda>k'. if k' = k then xs else []) ks) = (if k \<in> set ks then xs else [])"
    if "distinct ks" for ks :: "string list" and xs :: "event list"
    using that by (induction ks) auto
  have "filter (\<lambda>e. keyOf e = k) (Snapshot r) =
      concat (map (\<lambda>k'. if k' = k then rec_events k r else []) (sort (map fst (rec_buf r))))"
    by (simp add: Snapshot_def filter_concat comp_def key)
  also have "\<dots> = (if k \<in> set (map fst (rec_buf r)) then rec_events k r else [])"
    using assms by (simp add: concat rec_inv_def)
  also have "\<dots> = rec_events k r" by (auto simp: rec_events_def map_of_eq_None_iff[THEN iffD2])
  finally show ?thesis .
qed

lemma snapshot_normal: "rec_inv r \<Longrightarrow> map Normalize (Snapshot r) = Snapshot r"
  using rec_ring_ok by (intro map_idI) (fastforce simp: Snapshot_def rec_events_ring ring_ok_def)

section \<open>Properties\<close>

text \<open>
  C39. The recorder's rings refine a list: after any sequence of adds to a new recorder, what is kept for
  a VM is exactly the newest \<open>cap\<close> of that VM's events, normalized and oldest first, whatever the other
  VMs did, and a window query returns those of them that are not older than the window.
\<close>

theorem recorder_refines:
  "rec_events k (fold rec_add es (rec_new cap)) =
     keep_newest (rec_cap (rec_new cap)) (filter (\<lambda>e. keyOf e = k) (map Normalize es)) \<and>
   (k = '''' \<or> k = ''_'' \<or>
    Window k d now (fold rec_add es (rec_new cap)) =
      filter (\<lambda>e. now - d \<le> ev_ts e)
        (keep_newest (rec_cap (rec_new cap)) (filter (\<lambda>e. keyOf e = k) (map Normalize es))))"
  by (simp add: rec_events_adds Window_def not_less Let_def)

text \<open>
  Saving and loading the recorder is a round trip: feeding a snapshot of a recorder back through
  \<open>Add\<close> into a new recorder of the same cap gives every VM the same events in the same order.
\<close>

theorem recorder_snapshot_roundtrip:
  assumes "rec_inv r" and "rec_cap (rec_new cap) = rec_cap r"
  shows "rec_events k (fold rec_add (Snapshot r) (rec_new cap)) = rec_events k r"
  using assms
  by (simp add: rec_events_adds snapshot_normal filter_snapshot rec_events_bounded)

theorem recorder_snapshot_roundtrip_witness:
  "let r = fold rec_add [zero_event\<lparr>ev_seq := 1\<rparr>, zero_event\<lparr>ev_seq := 2\<rparr>, zero_event\<lparr>ev_seq := 3\<rparr>] (rec_new 2)
   in rec_inv r \<and> map ev_seq (rec_events ''_host'' r) = [2, 3] \<and>
      rec_events ''_host'' (fold rec_add (Snapshot r) (rec_new 2)) = rec_events ''_host'' r"
proof -
  let ?r = "fold rec_add [zero_event\<lparr>ev_seq := 1\<rparr>, zero_event\<lparr>ev_seq := 2\<rparr>, zero_event\<lparr>ev_seq := 3\<rparr>] (rec_new 2)"
  have inv: "rec_inv ?r" by (intro rec_inv_adds) simp
  have cap: "rec_cap (rec_new 2) = rec_cap ?r" by simp
  have "map ev_seq (rec_events ''_host'' ?r) = [2, 3]"
    by (simp add: rec_add_def rec_events_ring rec_ring_def rec_new_def ring_add_def ring_each_def empty_ring_def
        keyOf_def zero_event_def no_vm_def Let_def)
  with inv recorder_snapshot_roundtrip[OF inv cap] show ?thesis by (simp add: Let_def)
qed

end
