(* ===== verification/GoStrings.thy ===== *)
theory GoStrings
  imports Prelude
begin

text \<open>
  The functions of Go's \<open>strings\<close> and \<open>strconv\<close> packages that the program uses, on strings as lists of
  bytes. \<open>TrimSpace\<close>, \<open>Fields\<close> and \<open>ToLower\<close> are Go's on ASCII text: the white space and letters beyond
  ASCII that Go also knows are not treated specially here.
\<close>

section \<open>Definitions\<close>

abbreviation HasPrefix :: "string \<Rightarrow> string \<Rightarrow> bool" where
  "HasPrefix s p \<equiv> prefix p s"

abbreviation HasSuffix :: "string \<Rightarrow> string \<Rightarrow> bool" where
  "HasSuffix s p \<equiv> suffix p s"

abbreviation ContainsStr :: "string \<Rightarrow> string \<Rightarrow> bool" where
  "ContainsStr s t \<equiv> sublist t s"

definition is_space :: "char \<Rightarrow> bool" where
  "is_space c \<longleftrightarrow> c \<in> {CHR 0x09, CHR 0x0A, CHR 0x0B, CHR 0x0C, CHR 0x0D, CHR '' ''}"

definition trim_by :: "(char \<Rightarrow> bool) \<Rightarrow> string \<Rightarrow> string" where
  "trim_by P s = rev (dropWhile P (rev (dropWhile P s)))"

definition TrimSpace :: "string \<Rightarrow> string" where
  "TrimSpace = trim_by is_space"

definition TrimDots :: "string \<Rightarrow> string" where
  "TrimDots = trim_by (\<lambda>c. c = CHR ''.'')"

definition TrimPrefix :: "string \<Rightarrow> string \<Rightarrow> string" where
  "TrimPrefix s p = (if prefix p s then drop (length p) s else s)"

definition TrimSuffix :: "string \<Rightarrow> string \<Rightarrow> string" where
  "TrimSuffix s p = (if suffix p s then take (length s - length p) s else s)"

abbreviation within :: "char \<Rightarrow> char \<Rightarrow> char \<Rightarrow> bool" where
  "within lo hi c \<equiv> lo \<le> c \<and> c \<le> hi"

definition lower_char :: "char \<Rightarrow> char" where
  "lower_char c = (if within (CHR ''A'') (CHR ''Z'') c then char_of (of_char c + 32 :: nat) else c)"

definition ToLower :: "string \<Rightarrow> string" where
  "ToLower = map lower_char"

text \<open>\<open>strings.Split\<close> on a one-byte separator: always at least one piece.\<close>

fun SplitOn :: "char \<Rightarrow> string \<Rightarrow> string list" where
  "SplitOn sep [] = [[]]"
| "SplitOn sep (c # cs) =
     (if c = sep then [] # SplitOn sep cs
      else (case SplitOn sep cs of [] \<Rightarrow> [[c]] | w # ws \<Rightarrow> (c # w) # ws))"

fun Join :: "string list \<Rightarrow> string \<Rightarrow> string" where
  "Join [] sep = []"
| "Join [w] sep = w"
| "Join (w # ws) sep = w @ sep @ Join ws sep"

function Fields :: "string \<Rightarrow> string list" where
  "Fields s =
     (let t = dropWhile is_space s
      in if t = [] then []
         else takeWhile (\<lambda>c. \<not> is_space c) t # Fields (dropWhile (\<lambda>c. \<not> is_space c) t))"
  by pat_completeness auto
termination
proof (relation "measure length")
  fix s t
  assume "t = dropWhile is_space s" "t \<noteq> []"
  then have "length (dropWhile (\<lambda>c. \<not> is_space c) t) < length t"
    by (metis dropWhile_eq_Nil_conv hd_dropWhile length_dropWhile_le dropWhile.simps(2)
        hd_Cons_tl length_Cons less_Suc_eq_le list.size(3))
  also have "\<dots> \<le> length s" using \<open>t = _\<close> by (simp add: length_dropWhile_le)
  finally show "(dropWhile (\<lambda>c. \<not> is_space c) t, s) \<in> measure length" by simp
qed simp

declare Fields.simps [simp del]

definition Cut :: "string \<Rightarrow> char \<Rightarrow> (string \<times> string) option" where
  "Cut s c =
     (if c \<in> set s then Some (takeWhile (\<lambda>x. x \<noteq> c) s, tl (dropWhile (\<lambda>x. x \<noteq> c) s)) else None)"

fun nat_digits :: "nat \<Rightarrow> string" where
  "nat_digits n = (if n < 10 then [char_of (48 + n)] else nat_digits (n div 10) @ [char_of (48 + n mod 10)])"

declare nat_digits.simps [simp del]

definition Itoa :: "int \<Rightarrow> string" where
  "Itoa i = (if i < 0 then ''-'' @ nat_digits (nat (- i)) else nat_digits (nat i))"

definition is_digit :: "char \<Rightarrow> bool" where
  "is_digit c \<longleftrightarrow> within (CHR ''0'') (CHR ''9'') c"

definition digit_val :: "char \<Rightarrow> nat" where
  "digit_val c = of_char c - 48"

definition digits_val :: "string \<Rightarrow> nat" where
  "digits_val = foldl (\<lambda>acc c. acc * 10 + digit_val c) 0"

text \<open>\<open>strconv.Atoi\<close>: an optional sign and decimal digits that fit 64 bits.\<close>

definition Atoi :: "string \<Rightarrow> int option" where
  "Atoi s =
     (let neg = prefix ''-'' s; ds = (if prefix ''-'' s \<or> prefix ''+'' s then tl s else s)
      in if ds = [] \<or> \<not> list_all is_digit ds then None
         else (let v = (if neg then - int (digits_val ds) else int (digits_val ds))
               in if - (2 ^ 63) \<le> v \<and> v < 2 ^ 63 then Some v else None))"

text \<open>The verb \<open>%q\<close> of \<open>fmt\<close>, on printable ASCII.\<close>

definition go_quote :: "string \<Rightarrow> string" where
  "go_quote s = [CHR 0x22] @ concat (map (\<lambda>c. if c \<in> {CHR 0x22, CHR 0x5C} then [CHR 0x5C, c] else [c]) s) @ [CHR 0x22]"

text \<open>\<open>strings.ContainsAny\<close>.\<close>

definition ContainsAny :: "string \<Rightarrow> string \<Rightarrow> bool" where
  "ContainsAny s chars \<longleftrightarrow> list_ex (\<lambda>c. c \<in> set chars) s"

section \<open>Lemmas\<close>

lemma Fields_word: "w \<noteq> [] \<Longrightarrow> list_all (\<lambda>c. \<not> is_space c) w \<Longrightarrow> Fields w = [w]"
proof -
  assume w: "w \<noteq> []" "list_all (\<lambda>c. \<not> is_space c) w"
  then have d: "dropWhile is_space w = w" by (cases w) auto
  have t: "takeWhile (\<lambda>c. \<not> is_space c) w = w" "dropWhile (\<lambda>c. \<not> is_space c) w = []"
    using w(2) by (auto simp: list_all_iff takeWhile_eq_all_conv dropWhile_eq_Nil_conv)
  have "Fields [] = []" by (simp add: Fields.simps[of "[]"])
  then show ?thesis unfolding Fields.simps[of w] d Let_def t using w(1) by simp
qed

lemma Fields_word_space:
  assumes "w \<noteq> []" "list_all (\<lambda>c. \<not> is_space c) w"
  shows "Fields (w @ CHR '' '' # s) = w # Fields s"
proof -
  have sp: "is_space (CHR '' '')" by (simp add: is_space_def)
  have d: "dropWhile is_space (w @ CHR '' '' # s) = w @ CHR '' '' # s" using assms by (cases w) auto
  have t: "takeWhile (\<lambda>c. \<not> is_space c) (w @ CHR '' '' # s) = w"
    "dropWhile (\<lambda>c. \<not> is_space c) (w @ CHR '' '' # s) = CHR '' '' # s"
    using assms(2) sp by (auto simp: list_all_iff takeWhile_append2 dropWhile_append2)
  have "Fields (CHR '' '' # s) = Fields s"
    using sp by (simp add: Fields.simps[of "CHR '' '' # s"] Fields.simps[of s] Let_def)
  then show ?thesis using assms(1) d t by (simp add: Fields.simps[of "w @ CHR '' '' # s"] Let_def)
qed

lemma Cut_prefix: "c \<notin> set k \<Longrightarrow> Cut (k @ c # v) c = Some (k, v)"
proof -
  assume "c \<notin> set k"
  then have "\<forall>x \<in> set k. x \<noteq> c" by auto
  then show ?thesis by (simp add: Cut_def takeWhile_append2 dropWhile_append2)
qed

lemma SplitOn_ne [simp]: "SplitOn sep s \<noteq> []"
  by (induction s) (auto split: list.splits)

lemma SplitOn_no_sep: "sep \<notin> set w \<Longrightarrow> SplitOn sep w = [w]"
  by (induction w) auto

lemma SplitOn_append: "sep \<notin> set w \<Longrightarrow> SplitOn sep (w @ sep # s) = w # SplitOn sep s"
  by (induction w) auto

lemma SplitOn_parts: "w \<in> set (SplitOn sep s) \<Longrightarrow> sep \<notin> set w \<and> set w \<subseteq> set s"
  by (induction s arbitrary: w) (fastforce split: if_splits list.splits)+

lemma Join_SplitOn [simp]: "Join (SplitOn sep s) [sep] = s"
proof (induction s)
  case (Cons c cs)
  obtain w ws where "SplitOn sep cs = w # ws" by (cases "SplitOn sep cs") auto
  with Cons show ?case by (cases ws) auto
qed simp

lemma SplitOn_Join: "ws \<noteq> [] \<Longrightarrow> (\<forall>w \<in> set ws. sep \<notin> set w) \<Longrightarrow> SplitOn sep (Join ws [sep]) = ws"
  by (induction ws rule: induct_list012) (auto simp: SplitOn_no_sep SplitOn_append)

lemma TrimSpace_ends: "TrimSpace s \<noteq> [] \<Longrightarrow> \<not> is_space (hd (TrimSpace s)) \<and> \<not> is_space (last (TrimSpace s))"
proof -
  assume ne: "TrimSpace s \<noteq> []"
  let ?t = "dropWhile is_space s"
  have r: "dropWhile is_space (rev ?t) \<noteq> []" using ne by (simp add: TrimSpace_def trim_by_def)
  have 1: "\<not> is_space (hd (dropWhile is_space (rev ?t)))" using hd_dropWhile[OF r] .
  have "prefix (TrimSpace s) ?t"
    unfolding TrimSpace_def trim_by_def
    by (metis suffix_dropWhile suffix_to_prefix rev_rev_ident)
  then have "hd (TrimSpace s) = hd ?t" "?t \<noteq> []"
    using ne by (cases "TrimSpace s"; force simp: prefix_def simp del: dropWhile_eq_Nil_conv)+
  then have 2: "\<not> is_space (hd (TrimSpace s))" using hd_dropWhile[of is_space s] by simp
  from 1 2 r show ?thesis by (simp add: TrimSpace_def trim_by_def last_rev)
qed

lemma lower_char_idem [simp]: "lower_char (lower_char c) = lower_char c"
proof (cases "CHR ''A'' \<le> c \<and> c \<le> CHR ''Z''")
  case True
  then have n: "65 \<le> (of_char c :: nat)" "(of_char c :: nat) \<le> 90" by (simp_all add: less_eq_char_def)
  then have "(of_char (char_of (of_char c + 32 :: nat)) :: nat) = of_char c + 32" by (simp add: of_char_of)
  with n True show ?thesis by (simp add: lower_char_def less_eq_char_def)
next
  case False
  then have "lower_char c = c" unfolding lower_char_def by (simp only: if_False)
  then show ?thesis by simp
qed

lemma ToLower_idem [simp]: "ToLower (ToLower s) = ToLower s"
  by (simp add: ToLower_def comp_def)

lemma ToLower_append [simp]: "ToLower (a @ b) = ToLower a @ ToLower b"
  by (simp add: ToLower_def)

subsection \<open>Decimal text\<close>

lemma digits_val_snoc [simp]: "digits_val (s @ [c]) = digits_val s * 10 + digit_val c"
  by (simp add: digits_val_def)

lemma digit_char: "d < 10 \<Longrightarrow> is_digit (char_of (48 + d :: nat)) \<and> digit_val (char_of (48 + d :: nat)) = d"
  by (simp add: is_digit_def digit_val_def less_eq_char_def of_char_of)

lemma digit_char_zero: "d < 10 \<Longrightarrow> char_of (48 + d :: nat) = CHR ''0'' \<longleftrightarrow> d = 0"
proof
  assume d: "d < 10" "char_of (48 + d) = CHR ''0''"
  then have "of_char (char_of (48 + d)) = (48 :: nat)" by simp
  with d(1) show "d = 0" by (simp add: of_char_of)
next
  have "char_of (48 :: nat) = CHR ''0''" by code_simp
  then show "d = 0 \<Longrightarrow> char_of (48 + d) = CHR ''0''" by simp
qed

lemma nat_digits_ne [simp]: "nat_digits n \<noteq> []"
  by (subst nat_digits.simps) simp

lemma nat_digits_digit: "list_all is_digit (nat_digits n)"
proof (induction n rule: nat_digits.induct)
  case (1 n)
  then show ?case using digit_char[of n] digit_char[of "n mod 10"]
    by (cases "n < 10") (simp_all add: nat_digits.simps[of n])
qed

lemma digits_val_nat_digits [simp]: "digits_val (nat_digits n) = n"
proof (induction n rule: nat_digits.induct)
  case (1 n)
  show ?case
  proof (cases "n < 10")
    case True
    then show ?thesis using digit_char[of n] by (simp add: nat_digits.simps[of n] digits_val_def)
  next
    case False
    then show ?thesis using 1 digit_char[of "n mod 10"] by (simp add: nat_digits.simps[of n])
  qed
qed

lemma nat_digits_hd: "0 < n \<Longrightarrow> hd (nat_digits n) \<noteq> CHR ''0''"
proof (induction n rule: nat_digits.induct)
  case (1 n)
  then show ?case using digit_char_zero[of n]
    by (cases "n < 10") (simp_all add: nat_digits.simps[of n])
qed

lemma nat_digits_small: "n < 10 \<Longrightarrow> length (nat_digits n) = 1"
  by (simp add: nat_digits.simps)

lemma nat_digits_no_leading_zero: "1 < length (nat_digits n) \<Longrightarrow> hd (nat_digits n) \<noteq> CHR ''0''"
  using nat_digits_hd[of n] nat_digits_small[of n] by fastforce

lemma is_digit_sign: "is_digit c \<Longrightarrow> c \<notin> {CHR ''-'', CHR ''+'', CHR ''.'', CHR ''/'', CHR '':'', CHR ''%''}"
  by (auto simp: is_digit_def less_eq_char_def)

lemma Atoi_Itoa: "0 \<le> i \<Longrightarrow> i < 2 ^ 63 \<Longrightarrow> Atoi (Itoa i) = Some i"
proof -
  assume i: "0 \<le> i" "i < 2 ^ 63"
  obtain c cs where c: "nat_digits (nat i) = c # cs" by (cases "nat_digits (nat i)") auto
  have d: "list_all is_digit (c # cs)" "digits_val (c # cs) = nat i"
    using nat_digits_digit[of "nat i"] digits_val_nat_digits[of "nat i"] c by auto
  then have "c \<noteq> CHR ''-''" "c \<noteq> CHR ''+''" using is_digit_sign[of c] by auto
  with i c d show ?thesis by (simp add: Atoi_def Itoa_def)
qed

lemma Itoa_digits: "0 \<le> i \<Longrightarrow> list_all is_digit (Itoa i) \<and> Itoa i \<noteq> []"
  using nat_digits_digit by (simp add: Itoa_def)

lemma TrimSpace_id: "(\<And>c. c \<in> set s \<Longrightarrow> \<not> is_space c) \<Longrightarrow> TrimSpace s = s"
proof -
  assume s: "\<And>c. c \<in> set s \<Longrightarrow> \<not> is_space c"
  have d: "(\<And>c. c \<in> set t \<Longrightarrow> \<not> is_space c) \<Longrightarrow> dropWhile is_space t = t" for t by (cases t) auto
  show ?thesis using d[of s] d[of "rev s"] s by (simp add: TrimSpace_def trim_by_def)
qed

end
