(* ===== verification/Caller.thy ===== *)
theory Caller
  imports GoStrings
begin

text \<open>
  Who made a mutating call: \<open>internal/state/caller.go\<close>, with the header checks of
  \<open>internal/api/who.go\<close> that decide what a client may put into it. The actor travels through the
  engines as one string that \<open>EncodeActor\<close> writes and \<open>ParseActor\<close> reads.
\<close>

section \<open>Definitions\<close>

record caller =
  c_key_id :: string
  c_role :: string
  c_label :: string
  c_remote :: string
  c_request_id :: string
  c_op :: string
  c_cause :: string
  c_name :: string

definition no_caller :: caller where
  "no_caller = \<lparr>c_key_id = '''', c_role = '''', c_label = '''', c_remote = '''', c_request_id = '''',
     c_op = '''', c_cause = '''', c_name = ''''\<rparr>"

definition Principal :: "caller \<Rightarrow> string" where
  "Principal c =
     (if c_key_id c = '''' then
        (if c_name c \<noteq> '''' then c_name c else if c_label c \<noteq> '''' then c_label c else ''api'')
      else if c_label c \<noteq> '''' then c_key_id c @ '' ('' @ c_label c @ '')''
      else c_key_id c)"

definition EncodeActor :: "caller \<Rightarrow> string" where
  "EncodeActor c =
     (if c_key_id c = '''' then Principal c
      else
        ''key='' @ c_key_id c @ '' role='' @ c_role c @ '' op='' @ c_op c @
        (if c_label c \<noteq> '''' then '' label='' @ c_label c else '''') @
        (if c_remote c \<noteq> '''' then '' remote='' @ c_remote c else '''') @
        (if c_request_id c \<noteq> '''' then '' req='' @ c_request_id c else ''''))"

definition parse_field :: "string \<Rightarrow> caller \<Rightarrow> caller" where
  "parse_field f c =
     (case Cut f (CHR ''='') of
        None \<Rightarrow> c
      | Some (k, v) \<Rightarrow>
          (if k = ''key'' then c\<lparr>c_key_id := v\<rparr>
           else if k = ''role'' then c\<lparr>c_role := v\<rparr>
           else if k = ''label'' then c\<lparr>c_label := v\<rparr>
           else if k = ''remote'' then c\<lparr>c_remote := v\<rparr>
           else if k = ''req'' then c\<lparr>c_request_id := v\<rparr>
           else if k = ''op'' then c\<lparr>c_op := v\<rparr>
           else if k = ''cause'' then c\<lparr>c_cause := v\<rparr>
           else c))"

definition ParseActor :: "string \<Rightarrow> caller" where
  "ParseActor s =
     (if \<not> HasPrefix s ''key='' then no_caller\<lparr>c_name := s\<rparr>
      else fold parse_field (Fields s) no_caller)"

text \<open>\<open>api.clientLabel\<close> and the accepted form of a request id: what a client may call itself.\<close>

definition label_char :: "char \<Rightarrow> bool" where
  "label_char c \<longleftrightarrow>
     within (CHR ''a'') (CHR ''z'') c \<or> within (CHR ''A'') (CHR ''Z'') c \<or>
     within (CHR ''0'') (CHR ''9'') c \<or> c \<in> set ''._-''"

definition clientLabel :: "string \<Rightarrow> string" where
  "clientLabel header =
     (let s = TrimSpace header
      in if s = '''' \<or> 64 < length s then '''' else if list_all label_char s then s else '''')"

text \<open>\<open>requestID\<close>: the client's id when it has the form of a label, else one made from random bytes, whose
  hexadecimal form (or \<open>none\<close> when the random source failed) is the argument \<open>fresh\<close>.\<close>

definition requestID :: "string \<Rightarrow> string \<Rightarrow> string" where
  "requestID fresh header =
     (let s = TrimSpace header
      in if s \<noteq> '''' \<and> length s \<le> 64 \<and> clientLabel s = s then s else fresh)"

text \<open>\<open>principal.encode\<close>: the caller the API builds for a request, and \<open>actorOf\<close>.\<close>

definition api_caller :: "string \<Rightarrow> string \<Rightarrow> string \<Rightarrow> string \<Rightarrow> string \<Rightarrow> string \<Rightarrow> caller" where
  "api_caller key role label remote req op =
     \<lparr>c_key_id = key, c_role = role, c_label = label, c_remote = remote, c_request_id = req,
      c_op = op, c_cause = '''', c_name = ''''\<rparr>"

definition actorOf :: "string \<Rightarrow> string \<Rightarrow> string \<Rightarrow> string \<Rightarrow> string \<Rightarrow> string \<Rightarrow> string" where
  "actorOf key role label remote req op =
     (if key = '''' then ''api'' else EncodeActor (api_caller key role label remote req op))"

section \<open>Lemmas\<close>

abbreviation plain :: "string \<Rightarrow> bool" where
  "plain s \<equiv> list_all (\<lambda>c. \<not> is_space c) s"

lemma label_char_not_space: "label_char c \<Longrightarrow> \<not> is_space c"
  by (auto simp: label_char_def is_space_def less_eq_char_def)

lemma clientLabel_plain: "plain (clientLabel h)"
  using label_char_not_space
  by (auto simp: clientLabel_def Let_def list_all_iff)

lemma requestID_plain: "plain fresh \<Longrightarrow> plain (requestID fresh h)"
  using clientLabel_plain[of "TrimSpace h"] by (auto simp: requestID_def Let_def)

fun spaced :: "string list \<Rightarrow> string" where
  "spaced [] = ''''"
| "spaced (w # ws) = CHR '' '' # w @ spaced ws"

lemma Fields_spaced:
  assumes "w \<noteq> []" "plain w" "\<forall>x \<in> set ws. x \<noteq> [] \<and> plain x"
  shows "Fields (w @ spaced ws) = w # ws"
  using assms
proof (induction ws arbitrary: w)
  case Nil
  then show ?case by (simp add: Fields_word)
next
  case (Cons x ws)
  then show ?case using Fields_word_space[of w "x @ spaced ws"] by simp
qed

definition actor_fields :: "caller \<Rightarrow> string list" where
  "actor_fields c =
     [''role='' @ c_role c, ''op='' @ c_op c] @
     (if c_label c \<noteq> '''' then [''label='' @ c_label c] else []) @
     (if c_remote c \<noteq> '''' then [''remote='' @ c_remote c] else []) @
     (if c_request_id c \<noteq> '''' then [''req='' @ c_request_id c] else [])"

lemma EncodeActor_spaced:
  "c_key_id c \<noteq> '''' \<Longrightarrow> EncodeActor c = (''key='' @ c_key_id c) @ spaced (actor_fields c)"
  by (simp add: EncodeActor_def actor_fields_def)

lemma parse_actor_fields:
  "fold parse_field ((''key='' @ c_key_id c) # actor_fields c) no_caller = c\<lparr>c_cause := '''', c_name := ''''\<rparr>"
  by (cases c) (simp add: actor_fields_def no_caller_def parse_field_def Cut_def)

section \<open>Properties\<close>

text \<open>
  C40. A caller survives the trip through the actor string: for a caller with a key id whose parts hold no
  white space, parsing what \<open>EncodeActor\<close> wrote gives back the key id, role, label, remote address,
  request id and operation exactly, so nothing a client puts in its label or its request id can pass for
  another key, role or operation (a label and a request id that came through \<open>clientLabel\<close> and
  \<open>requestID\<close> hold no white space).
\<close>

theorem ParseActor_EncodeActor:
  assumes "c_key_id c \<noteq> ''''"
    and "plain (c_key_id c)" "plain (c_role c)" "plain (c_op c)" "plain (c_label c)"
    and "plain (c_remote c)" "plain (c_request_id c)"
  shows "ParseActor (EncodeActor c) = c\<lparr>c_cause := '''', c_name := ''''\<rparr>"
proof -
  have "Fields (EncodeActor c) = (''key='' @ c_key_id c) # actor_fields c"
    unfolding EncodeActor_spaced[OF assms(1)]
    by (rule Fields_spaced) (use assms in \<open>auto simp: actor_fields_def is_space_def\<close>)
  moreover have "HasPrefix (EncodeActor c) ''key=''" using assms(1) by (simp add: EncodeActor_def)
  ultimately show ?thesis unfolding ParseActor_def by (simp only: parse_actor_fields not_True_eq_False if_False)
qed

theorem ParseActor_EncodeActor_witness:
  "plain (clientLabel ''ops role=admin'') \<and> clientLabel ''alice'' = ''alice'' \<and>
   c_role (ParseActor (actorOf ''ro:12ab34'' ''readonly'' (clientLabel ''alice'') ''10.0.0.7'' ''r1'' ''isolate'')) = ''readonly''"
proof -
  let ?c = "api_caller ''ro:12ab34'' ''readonly'' ''alice'' ''10.0.0.7'' ''r1'' ''isolate''"
  have l: "clientLabel ''alice'' = ''alice''"
    by (simp add: clientLabel_def TrimSpace_def trim_by_def is_space_def label_char_def less_eq_char_def Let_def)
  have "ParseActor (EncodeActor ?c) = ?c\<lparr>c_cause := '''', c_name := ''''\<rparr>"
    by (rule ParseActor_EncodeActor) (simp_all add: api_caller_def is_space_def)
  then show ?thesis using l clientLabel_plain by (simp add: actorOf_def api_caller_def)
qed

end
