(* ===== verification/Netip.thy ===== *)
theory Netip
  imports GoStrings "HOL-Library.Product_Lexorder"
begin

unbundle bit_operations_syntax

text \<open>
  The functions of Go's \<open>net/netip\<close> the program uses: addresses and prefixes, their parsers, their canonical
  text and their order. An address is the zero \<open>Addr\<close>, an IPv4 address, or an IPv6 address with its zone
  (\<open>''''\<close> for none); a prefix holds its length, or -1 when it is not valid, as \<open>Prefix.Bits\<close> reports it.
  The last section shows that the text of an address or a prefix without a zone reads back as itself.
\<close>

section \<open>Addresses\<close>

datatype addr = NoAddr | V4 u32 | V6 "128 word" string

definition Is4 :: "addr \<Rightarrow> bool" where
  "Is4 a \<longleftrightarrow> (case a of V4 _ \<Rightarrow> True | _ \<Rightarrow> False)"

definition Is4In6 :: "addr \<Rightarrow> bool" where
  "Is4In6 a \<longleftrightarrow> (case a of V6 w _ \<Rightarrow> drop_bit 32 w = 0xffff | _ \<Rightarrow> False)"

definition Unmap :: "addr \<Rightarrow> addr" where
  "Unmap a = (case a of V6 w _ \<Rightarrow> if Is4In6 a then V4 (ucast w) else a | _ \<Rightarrow> a)"

definition BitLen :: "addr \<Rightarrow> int" where
  "BitLen a = (case a of NoAddr \<Rightarrow> 0 | V4 _ \<Rightarrow> 32 | V6 _ _ \<Rightarrow> 128)"

definition withoutZone :: "addr \<Rightarrow> addr" where
  "withoutZone a = (case a of V6 w _ \<Rightarrow> V6 w '''' | _ \<Rightarrow> a)"

text \<open>The order of \<open>Addr.Compare\<close>: by length, then by value, then by zone.\<close>

definition addr_key :: "addr \<Rightarrow> int \<times> int \<times> string" where
  "addr_key a = (case a of NoAddr \<Rightarrow> (0, 0, '''') | V4 w \<Rightarrow> (32, uint w, '''') | V6 w z \<Rightarrow> (128, uint w, z))"

record ip_prefix =
  px_addr :: addr
  px_bits :: int

definition PrefixFrom :: "addr \<Rightarrow> int \<Rightarrow> ip_prefix" where
  "PrefixFrom a bits =
     \<lparr>px_addr = withoutZone a, px_bits = (if a \<noteq> NoAddr \<and> 0 \<le> bits \<and> bits \<le> BitLen a then bits else -1)\<rparr>"

abbreviation px_valid :: "ip_prefix \<Rightarrow> bool" where
  "px_valid p \<equiv> 0 \<le> px_bits p"

definition no_prefix :: ip_prefix where
  "no_prefix = \<lparr>px_addr = NoAddr, px_bits = -1\<rparr>"

definition mask_addr :: "addr \<Rightarrow> nat \<Rightarrow> addr" where
  "mask_addr a b = (case a of
      NoAddr \<Rightarrow> NoAddr
    | V4 w \<Rightarrow> V4 (w AND NOT (mask (32 - b)))
    | V6 w z \<Rightarrow> V6 (w AND NOT (mask (128 - b))) '''')"

text \<open>\<open>Addr.Prefix\<close>: \<open>None\<close> is its error.\<close>

definition addr_Prefix :: "addr \<Rightarrow> int \<Rightarrow> ip_prefix option" where
  "addr_Prefix a b =
     (if b < 0 then None
      else if a = NoAddr then Some no_prefix
      else if b > BitLen a then None
      else Some (PrefixFrom (mask_addr a (nat b)) b))"

definition Masked :: "ip_prefix \<Rightarrow> ip_prefix" where
  "Masked p = (case addr_Prefix (px_addr p) (px_bits p) of None \<Rightarrow> no_prefix | Some q \<Rightarrow> q)"

section \<open>Parsing\<close>

definition parse_octet :: "string \<Rightarrow> int option" where
  "parse_octet s =
     (if s = [] \<or> \<not> list_all is_digit s \<or> (1 < length s \<and> hd s = CHR ''0'') \<or> digits_val s > 255
      then None else Some (int (digits_val s)))"

text \<open>\<open>parseIPv4Fields\<close>: exactly four octets.\<close>

definition parse_octets :: "string \<Rightarrow> (int \<times> int \<times> int \<times> int) option" where
  "parse_octets s =
     (case map parse_octet (SplitOn (CHR ''.'') s) of
        [Some a, Some b, Some c, Some d] \<Rightarrow> Some (a, b, c, d)
      | _ \<Rightarrow> None)"

definition parseIPv4 :: "string \<Rightarrow> addr option" where
  "parseIPv4 s =
     (case parse_octets s of
        None \<Rightarrow> None
      | Some (a, b, c, d) \<Rightarrow> Some (V4 (of_int (((a * 256 + b) * 256 + c) * 256 + d))))"

definition is_hex :: "char \<Rightarrow> bool" where
  "is_hex c \<longleftrightarrow> is_digit c \<or> within (CHR ''a'') (CHR ''f'') c \<or> within (CHR ''A'') (CHR ''F'') c"

definition hex_val :: "char \<Rightarrow> int" where
  "hex_val c = (if is_digit c then of_char c - 48 else of_char (lower_char c) - 87)"

definition hexes_val :: "string \<Rightarrow> int" where
  "hexes_val = foldl (\<lambda>acc c. acc * 16 + hex_val c) 0"

text \<open>
  The loop of \<open>parseIPv6\<close>: \<open>n\<close> is how many 16-bit groups are still free, \<open>gs\<close> the groups read, \<open>ell\<close> where
  the \<open>::\<close> stood. The result is the groups, the place of the \<open>::\<close> and what of the text is left.
\<close>

fun v6_loop :: "nat \<Rightarrow> int list \<Rightarrow> nat option \<Rightarrow> string \<Rightarrow> (int list \<times> nat option \<times> string) option" where
  "v6_loop 0 gs ell s = Some (gs, ell, s)"
| "v6_loop (Suc n) gs ell s =
     (let hx = takeWhile is_hex s; rest = dropWhile is_hex s; gs' = gs @ [hexes_val hx]
      in if hx = [] \<or> 4 < length hx then None
         else case rest of
           [] \<Rightarrow> Some (gs', ell, [])
         | c # s1 \<Rightarrow>
             if c = CHR ''.'' then
               (if (ell = None \<and> length gs \<noteq> 6) \<or> n = 0 then None
                else case parse_octets s of
                  None \<Rightarrow> None
                | Some (a, b, c, d) \<Rightarrow> Some (gs @ [a * 256 + b, c * 256 + d], ell, []))
             else if c \<noteq> CHR '':'' then None
             else (case s1 of
               [] \<Rightarrow> None
             | c1 # s2 \<Rightarrow>
                 if c1 \<noteq> CHR '':'' then v6_loop n gs' ell s1
                 else if ell \<noteq> None then None
                 else if s2 = [] then Some (gs', Some (length gs'), [])
                 else v6_loop n gs' (Some (length gs')) s2))"

definition of_groups :: "int list \<Rightarrow> int" where
  "of_groups = foldl (\<lambda>acc g. acc * 65536 + g) 0"

definition v6_expand :: "int list \<Rightarrow> nat option \<Rightarrow> int list option" where
  "v6_expand gs ell =
     (if length gs < 8
      then (case ell of None \<Rightarrow> None | Some e \<Rightarrow> Some (take e gs @ replicate (8 - length gs) 0 @ drop e gs))
      else if ell \<noteq> None then None else Some gs)"

definition v6_body :: "string \<Rightarrow> int list option" where
  "v6_body s =
     (if s = ''::'' then Some (replicate 8 0)
      else case (if prefix ''::'' s then v6_loop 8 [] (Some 0) (drop 2 s) else v6_loop 8 [] None s) of
        None \<Rightarrow> None
      | Some (gs, ell, left) \<Rightarrow> if left \<noteq> [] then None else v6_expand gs ell)"

definition parseIPv6 :: "string \<Rightarrow> addr option" where
  "parseIPv6 s =
     (case Cut s (CHR ''%'') of
        Some (_, '''') \<Rightarrow> None
      | Some (t, zone) \<Rightarrow> map_option (\<lambda>gs. V6 (of_int (of_groups gs)) zone) (v6_body t)
      | None \<Rightarrow> map_option (\<lambda>gs. V6 (of_int (of_groups gs)) '''') (v6_body s))"

definition ParseAddr :: "string \<Rightarrow> addr option" where
  "ParseAddr s =
     (case dropWhile (\<lambda>c. c \<notin> {CHR ''.'', CHR '':'', CHR ''%''}) s of
        [] \<Rightarrow> None
      | c # _ \<Rightarrow> if c = CHR ''.'' then parseIPv4 s else if c = CHR '':'' then parseIPv6 s else None)"

text \<open>The text before and after the last slash (\<open>strings.LastIndexByte\<close>).\<close>

definition cut_last :: "string \<Rightarrow> char \<Rightarrow> (string \<times> string) option" where
  "cut_last s c = map_option (\<lambda>(a, b). (rev b, rev a)) (Cut (rev s) c)"

definition ParsePrefix :: "string \<Rightarrow> ip_prefix option" where
  "ParsePrefix s =
     (case cut_last s (CHR ''/'') of
        None \<Rightarrow> None
      | Some (t, bitsStr) \<Rightarrow>
         (case ParseAddr t of
            None \<Rightarrow> None
          | Some ip \<Rightarrow>
             (if withoutZone ip \<noteq> ip then None
              else if 1 < length bitsStr \<and> \<not> within (CHR ''1'') (CHR ''9'') (hd bitsStr) then None
              else case Atoi bitsStr of
                None \<Rightarrow> None
              | Some bits \<Rightarrow> if bits < 0 \<or> bits > BitLen ip then None else Some (PrefixFrom ip bits))))"

section \<open>Text\<close>

definition string4 :: "u32 \<Rightarrow> string" where
  "string4 w =
     (let n = uint w
      in Join [Itoa (n div 16777216), Itoa (n div 65536 mod 256), Itoa (n div 256 mod 256), Itoa (n mod 256)] ''.'')"

definition hex_char :: "int \<Rightarrow> char" where
  "hex_char d = (if d < 10 then char_of (48 + d) else char_of (87 + d))"

function hex_digits :: "int \<Rightarrow> string" where
  "hex_digits n = (if n < 16 then [hex_char n] else hex_digits (n div 16) @ [hex_char (n mod 16)])"
  by pat_completeness auto
termination by (relation "measure nat") auto

declare hex_digits.simps [simp del]

fun int_groups :: "nat \<Rightarrow> int \<Rightarrow> int list" where
  "int_groups 0 n = []"
| "int_groups (Suc k) n = int_groups k (n div 65536) @ [n mod 65536]"

text \<open>The longest run of at least two zero groups, the first of them on a tie, as its start and end.\<close>

definition zero_step :: "int list \<Rightarrow> (nat \<times> nat) option \<Rightarrow> nat \<Rightarrow> (nat \<times> nat) option" where
  "zero_step gs best i =
     (let l = length (takeWhile (\<lambda>g. g = 0) (drop i gs))
      in if 2 \<le> l \<and> (case best of None \<Rightarrow> True | Some (s, e) \<Rightarrow> e - s < l) then Some (i, i + l) else best)"

definition zero_run :: "int list \<Rightarrow> (nat \<times> nat) option" where
  "zero_run gs = foldl (zero_step gs) None [0..<8]"

definition groups_text :: "int list \<Rightarrow> string" where
  "groups_text gs = Join (map hex_digits gs) '':''"

definition string6 :: "int list \<Rightarrow> string" where
  "string6 gs = (case zero_run gs of
      None \<Rightarrow> groups_text gs
    | Some (s, e) \<Rightarrow> groups_text (take s gs) @ ''::'' @ groups_text (drop e gs))"

definition zone_text :: "string \<Rightarrow> string" where
  "zone_text z = (if z = '''' then '''' else CHR ''%'' # z)"

definition addr_String :: "addr \<Rightarrow> string" where
  "addr_String a = (case a of
      NoAddr \<Rightarrow> ''invalid IP''
    | V4 w \<Rightarrow> string4 w
    | V6 w z \<Rightarrow> (if Is4In6 a then ''::ffff:'' @ string4 (ucast w) else string6 (int_groups 8 (uint w))) @ zone_text z)"

definition prefix_String :: "ip_prefix \<Rightarrow> string" where
  "prefix_String p = (if px_valid p then addr_String (px_addr p) @ ''/'' @ Itoa (px_bits p) else ''invalid Prefix'')"

section \<open>Text reads back\<close>

lemma parse_octet_Itoa: "0 \<le> n \<Longrightarrow> n \<le> 255 \<Longrightarrow> parse_octet (Itoa n) = Some n"
  using nat_digits_no_leading_zero[of "nat n"]
  by (auto simp: parse_octet_def Itoa_def nat_digits_digit)

lemma Itoa_no_sep: "0 \<le> i \<Longrightarrow> set (Itoa i) \<inter> {CHR ''-'', CHR ''+'', CHR ''.'', CHR ''/'', CHR '':'', CHR ''%''} = {}"
  using Itoa_digits[of i] is_digit_sign by (auto simp: list_all_iff)

lemma uint_octets: fixes w :: u32
  shows "0 \<le> uint w div 16777216 \<and> uint w div 16777216 \<le> 255"
    "((uint w div 16777216 * 256 + uint w div 65536 mod 256) * 256 + uint w div 256 mod 256) * 256 + uint w mod 256 = uint w"
proof -
  have "0 \<le> uint w" "uint w < 4294967296" using uint_lt2p[of w] by auto
  then show "0 \<le> uint w div 16777216 \<and> uint w div 16777216 \<le> 255"
    using zdiv_mono1[of "uint w" 4294967295 16777216] by (simp add: pos_imp_zdiv_nonneg_iff)
  have "uint w div 65536 = uint w div 256 div 256" "uint w div 16777216 = uint w div 256 div 256 div 256"
    by (simp_all add: div_mult2_eq[symmetric])
  then show "((uint w div 16777216 * 256 + uint w div 65536 mod 256) * 256 + uint w div 256 mod 256) * 256 + uint w mod 256 = uint w"
    by simp
qed

lemma parse_octets_string4: "parse_octets (string4 w) =
    Some (uint w div 16777216, uint w div 65536 mod 256, uint w div 256 mod 256, uint w mod 256)"
proof -
  let ?ws = "[Itoa (uint w div 16777216), Itoa (uint w div 65536 mod 256), Itoa (uint w div 256 mod 256), Itoa (uint w mod 256)]"
  have sep: "\<forall>x \<in> set ?ws. CHR ''.'' \<notin> set x" using Itoa_no_sep uint_octets(1)[of w] by fastforce
  have lim: "x mod 256 \<le> 255" for x :: int using pos_mod_bound[of 256 x] by linarith
  show ?thesis unfolding parse_octets_def string4_def Let_def
    using SplitOn_Join[OF _ sep] uint_octets(1)[of w] lim
    by (simp add: parse_octet_Itoa)
qed

lemma parseIPv4_string4: "parseIPv4 (string4 w) = Some (V4 w)"
  using uint_octets(2)[of w] by (simp only: parseIPv4_def parse_octets_string4 option.case prod.case) simp

lemma string4_first_sep: "\<exists>s. dropWhile (\<lambda>c. c \<notin> {CHR ''.'', CHR '':'', CHR ''%''}) (string4 w) = CHR ''.'' # s"
proof -
  obtain s where s: "string4 w = Itoa (uint w div 16777216) @ CHR ''.'' # s" by (simp add: string4_def Let_def)
  have "\<forall>c \<in> set (Itoa (uint w div 16777216)). c \<notin> {CHR ''.'', CHR '':'', CHR ''%''}"
    using Itoa_no_sep uint_octets(1)[of w] by fastforce
  then show ?thesis unfolding s by (auto simp: dropWhile_append2)
qed

lemma ParseAddr_string4: "ParseAddr (string4 w) = Some (V4 w)"
  using string4_first_sep[of w] parseIPv4_string4[of w] by (auto simp: ParseAddr_def)

subsection \<open>IPv6\<close>

lemma hex_char: "0 \<le> d \<Longrightarrow> d < 16 \<Longrightarrow> is_hex (hex_char d) \<and> hex_val (hex_char d) = d"
proof -
  assume d: "0 \<le> d" "d < 16"
  then have "d = 0 \<or> d = 1 \<or> d = 2 \<or> d = 3 \<or> d = 4 \<or> d = 5 \<or> d = 6 \<or> d = 7 \<or> d = 8 \<or> d = 9 \<or> d = 10 \<or>
    d = 11 \<or> d = 12 \<or> d = 13 \<or> d = 14 \<or> d = 15" by presburger
  then show ?thesis by (elim disjE; simp only:; code_simp)
qed

lemma hex_digits_ne [simp]: "hex_digits n \<noteq> []"
  by (subst hex_digits.simps) simp

lemma hex_digits_hex: "0 \<le> n \<Longrightarrow> list_all is_hex (hex_digits n) \<and> hexes_val (hex_digits n) = n"
proof (induction n rule: hex_digits.induct)
  case (1 n)
  show ?case
  proof (cases "n < 16")
    case True
    then show ?thesis using 1 hex_char[of n] by (simp add: hex_digits.simps[of n] hexes_val_def)
  next
    case False
    then have "list_all is_hex (hex_digits (n div 16)) \<and> hexes_val (hex_digits (n div 16)) = n div 16"
      using 1 by simp
    then show ?thesis using False hex_char[of "n mod 16"]
      by (simp add: hex_digits.simps[of n] hexes_val_def)
  qed
qed

lemma hex_digits_len: "n < 16 ^ k \<Longrightarrow> 0 < k \<Longrightarrow> length (hex_digits n) \<le> k"
proof (induction k arbitrary: n)
  case (Suc k)
  show ?case
  proof (cases "n < 16")
    case False
    then have "0 < k" using Suc.prems(1) by (cases k) auto
    moreover have "n div 16 < 16 ^ k" using Suc.prems(1) by simp
    ultimately show ?thesis using Suc.IH[of "n div 16"] False by (simp add: hex_digits.simps[of n])
  qed (simp add: hex_digits.simps[of n])
qed simp

lemma is_hex_sep: "is_hex c \<Longrightarrow> c \<notin> {CHR ''.'', CHR ''/'', CHR '':'', CHR ''%''}"
  by (auto simp: is_hex_def is_digit_def less_eq_char_def)

abbreviation group_ok :: "int \<Rightarrow> bool" where
  "group_ok g \<equiv> 0 \<le> g \<and> g < 65536"

lemma hex_run:
  assumes "group_ok g" "rest = [] \<or> \<not> is_hex (hd rest)"
  shows "takeWhile is_hex (hex_digits g @ rest) = hex_digits g \<and> dropWhile is_hex (hex_digits g @ rest) = rest \<and>
    \<not> 4 < length (hex_digits g) \<and> hexes_val (hex_digits g) = g"
proof -
  have h: "\<forall>c \<in> set (hex_digits g). is_hex c" "hexes_val (hex_digits g) = g"
    using hex_digits_hex[of g] assms(1) by (auto simp: list_all_iff)
  have "length (hex_digits g) \<le> 4" using hex_digits_len[of g 4] assms(1) by simp
  moreover have "takeWhile is_hex (hex_digits g @ rest) = hex_digits g @ takeWhile is_hex rest"
    "dropWhile is_hex (hex_digits g @ rest) = dropWhile is_hex rest"
    using h(1) by (auto simp: takeWhile_append2 dropWhile_append2)
  moreover have "takeWhile is_hex rest = [] \<and> dropWhile is_hex rest = rest" using assms(2) by (cases rest) auto
  ultimately show ?thesis using h(2) by simp
qed

lemma not_hex_colon [simp]: "\<not> is_hex (CHR '':'')"
  using is_hex_sep by blast

lemma v6_step_end: "group_ok g \<Longrightarrow> v6_loop (Suc n) gs ell (hex_digits g) = Some (gs @ [g], ell, [])"
  using hex_run[of g "[]"] unfolding append_Nil2
  by (simp add: Let_def del: takeWhile_eq_all_conv dropWhile_eq_Nil_conv)

lemma v6_step_colon: "group_ok g \<Longrightarrow> s \<noteq> [] \<Longrightarrow> hd s \<noteq> CHR '':'' \<Longrightarrow>
    v6_loop (Suc n) gs ell (hex_digits g @ CHR '':'' # s) = v6_loop n (gs @ [g]) ell s"
  using hex_run[of g "CHR '':'' # s"] by (cases s) (auto simp: Let_def)

lemma v6_step_ellipsis: "group_ok g \<Longrightarrow>
    v6_loop (Suc n) gs None (hex_digits g @ CHR '':'' # CHR '':'' # s) =
      (if s = [] then Some (gs @ [g], Some (Suc (length gs)), []) else v6_loop n (gs @ [g]) (Some (Suc (length gs))) s)"
  using hex_run[of g "CHR '':'' # CHR '':'' # s"] by (auto simp: Let_def)

lemma hd_hex_digits: "group_ok g \<Longrightarrow> hd (hex_digits g) \<noteq> CHR '':''"
  using hex_digits_hex[of g] not_hex_colon by (cases "hex_digits g") auto

lemma groups_text_Cons: "gs \<noteq> [] \<Longrightarrow> groups_text (g # gs) = hex_digits g @ CHR '':'' # groups_text gs"
  by (cases gs) (simp_all add: groups_text_def)

lemma groups_text_one [simp]: "groups_text [g] = hex_digits g" "groups_text [] = []"
  by (simp_all add: groups_text_def)

lemma groups_text_hd: "gs \<noteq> [] \<Longrightarrow> list_all group_ok gs \<Longrightarrow>
    groups_text gs \<noteq> [] \<and> hd (groups_text gs @ s) \<noteq> CHR '':''"
  using hd_hex_digits by (cases gs; cases "tl gs") (auto simp: groups_text_Cons)

lemma v6_loop_end: "gs \<noteq> [] \<Longrightarrow> list_all group_ok gs \<Longrightarrow> length gs \<le> n \<Longrightarrow>
    v6_loop n acc ell (groups_text gs) = Some (acc @ gs, ell, [])"
proof (induction gs arbitrary: n acc)
  case (Cons g gs)
  then obtain m where n: "n = Suc m" by (cases n) auto
  show ?case
  proof (cases "gs = []")
    case True
    then show ?thesis using Cons.prems n by (simp add: v6_step_end del: v6_loop.simps)
  next
    case False
    then show ?thesis using Cons n groups_text_hd[of gs "[]"]
      by (simp add: groups_text_Cons v6_step_colon del: v6_loop.simps)
  qed
qed simp

lemma v6_loop_ellipsis: "gs \<noteq> [] \<Longrightarrow> list_all group_ok gs \<Longrightarrow> length gs \<le> n \<Longrightarrow>
    v6_loop n acc None (groups_text gs @ ''::'' @ s) =
      (if s = [] then Some (acc @ gs, Some (length (acc @ gs)), [])
       else v6_loop (n - length gs) (acc @ gs) (Some (length (acc @ gs))) s)"
proof (induction gs arbitrary: n acc)
  case (Cons g gs)
  then obtain m where n: "n = Suc m" by (cases n) auto
  show ?case
  proof (cases "gs = []")
    case True
    then show ?thesis using Cons.prems n by (simp add: v6_step_ellipsis del: v6_loop.simps)
  next
    case False
    have "v6_loop n acc None (groups_text (g # gs) @ ''::'' @ s) = v6_loop m (acc @ [g]) None (groups_text gs @ ''::'' @ s)"
      using False Cons.prems(2) n groups_text_hd[of gs "[]"] v6_step_colon[of g "groups_text gs @ ''::'' @ s" m acc None]
      by (simp add: groups_text_Cons del: v6_loop.simps)
    then show ?thesis using Cons.IH[of m "acc @ [g]"] Cons.prems False n by simp
  qed
qed simp

lemma of_groups_snoc [simp]: "of_groups (gs @ [g]) = of_groups gs * 65536 + g"
  by (simp add: of_groups_def)

lemma int_groups_spec: "0 \<le> n \<Longrightarrow> n < 65536 ^ k \<Longrightarrow>
    of_groups (int_groups k n) = n \<and> length (int_groups k n) = k \<and> list_all group_ok (int_groups k n)"
proof (induction k arbitrary: n)
  case 0
  then show ?case by (simp add: of_groups_def)
next
  case (Suc k)
  have "0 \<le> n div 65536" "n div 65536 < 65536 ^ k" using Suc.prems by (simp_all add: pos_imp_zdiv_nonneg_iff)
  then show ?case using Suc.IH[of "n div 65536"] by simp
qed

text \<open>What the search for the longest run finds, when it finds one, is a run of zeros in the groups.\<close>

abbreviation run_ok :: "int list \<Rightarrow> (nat \<times> nat) option \<Rightarrow> bool" where
  "run_ok gs r \<equiv> (case r of None \<Rightarrow> True | Some (s, e) \<Rightarrow>
     s + 2 \<le> e \<and> e \<le> length gs \<and> gs = take s gs @ replicate (e - s) 0 @ drop e gs)"

lemma zero_step_ok: "run_ok gs r \<Longrightarrow> run_ok gs (zero_step gs r i)"
proof (cases "zero_step gs r i = r")
  case False
  let ?z = "takeWhile (\<lambda>g. g = 0) (drop i gs)"
  from False have z: "zero_step gs r i = Some (i, i + length ?z)" "2 \<le> length ?z"
    by (auto simp: zero_step_def Let_def split: if_splits)
  have "?z = replicate (length ?z) 0" by (rule replicate_eqI) (auto dest: set_takeWhileD)
  moreover have "drop i gs = ?z @ drop (length ?z) (drop i gs)" by (metis append_eq_conv_conj takeWhile_dropWhile_id)
  moreover have "length ?z \<le> length gs - i" using length_takeWhile_le[of "\<lambda>g. g = 0" "drop i gs"] by simp
  ultimately show ?thesis using z by (simp add: add.commute)
qed simp

lemma zero_run_ok: "run_ok gs (zero_run gs)"
proof -
  have "run_ok gs r \<Longrightarrow> run_ok gs (foldl (zero_step gs) r is)" for r "is"
  proof (induction "is" arbitrary: r)
    case (Cons i "is")
    show ?case using Cons.IH[OF zero_step_ok[OF Cons.prems]] by simp
  qed simp
  from this[of None] show ?thesis by (simp add: zero_run_def)
qed

lemma v6_body_string6:
  assumes "length gs = 8" "list_all group_ok gs"
  shows "v6_body (string6 gs) = Some gs"
proof (cases "zero_run gs")
  case None
  have ne: "gs \<noteq> []" using assms(1) by auto
  have h: "groups_text gs \<noteq> []" "hd (groups_text gs) \<noteq> CHR '':''" using groups_text_hd[OF ne assms(2), of "[]"] by auto
  then have "\<not> prefix ''::'' (groups_text gs)" "groups_text gs \<noteq> ''::''" by (cases "groups_text gs"; auto)+
  then show ?thesis using None assms v6_loop_end[OF ne assms(2), of 8 "[]" None]
    by (auto simp: v6_body_def string6_def v6_expand_def del: v6_loop.simps)
next
  case (Some r)
  obtain s e where r: "r = (s, e)" by fastforce
  let ?L = "take s gs" and ?R = "drop e gs"
  have ok: "s + 2 \<le> e" "e \<le> 8" "gs = ?L @ replicate (e - s) 0 @ ?R"
    using zero_run_ok[of gs] Some r assms(1) by auto
  have str: "string6 gs = groups_text ?L @ ''::'' @ groups_text ?R" by (simp add: string6_def Some r)
  have gok: "list_all group_ok ?L" "list_all group_ok ?R"
    using assms(2) by (auto simp: list_all_iff dest: in_set_takeD in_set_dropD)
  have len: "length ?L = s" "length ?R = 8 - e" using ok(1,2) assms(1) by auto
  have RI: "?R = [] \<longleftrightarrow> groups_text ?R = []" using groups_text_hd[OF _ gok(2), of "[]"] by (cases "?R = []") auto
  have loopR: "v6_loop n acc ell (groups_text ?R) = Some (acc @ ?R, ell, [])" if "?R \<noteq> []" "8 - e \<le> n" for n acc ell
    using v6_loop_end[OF that(1) gok(2)] that(2) len(2) by simp
  show ?thesis
  proof (cases "?L = []")
    case True
    then have s0: "s = 0" using len(1) by auto
    have gs: "gs = replicate e 0 @ ?R" using ok(3) s0 by simp
    show ?thesis using str s0 RI gs loopR[of 8 "[]" "Some 0"] ok(1,2) len(2)
      by (cases "?R = []") (simp_all add: v6_body_def v6_expand_def del: v6_loop.simps drop_eq_Nil)
  next
    case False
    have h: "groups_text ?L \<noteq> []" "hd (groups_text ?L) \<noteq> CHR '':''" using groups_text_hd[OF False gok(1), of "[]"] by auto
    then have np: "\<not> prefix ''::'' (string6 gs)" "string6 gs \<noteq> ''::''" unfolding str by (cases "groups_text ?L"; auto)+
    have loop: "v6_loop 8 [] None (string6 gs) = Some (?L @ ?R, Some s, [])"
      unfolding str using v6_loop_ellipsis[OF False gok(1), of 8 "[]" "groups_text ?R"] len RI ok(1,2)
        loopR[of "8 - s" ?L "Some s"] by (cases "?R = []") (simp_all del: v6_loop.simps drop_eq_Nil)
    have "v6_expand (?L @ ?R) (Some s) = Some gs"
      using len ok by (simp add: v6_expand_def)
    then show ?thesis using np loop by (simp add: v6_body_def del: v6_loop.simps)
  qed
qed

lemma string6_chars: "list_all group_ok gs \<Longrightarrow> c \<in> set (string6 gs) \<Longrightarrow> is_hex c \<or> c = CHR '':''"
proof -
  have *: "list_all group_ok gs \<Longrightarrow> c \<in> set (groups_text gs) \<Longrightarrow> is_hex c \<or> c = CHR '':''" for gs
  proof (induction gs)
    case (Cons g gs)
    then show ?case using hex_digits_hex[of g] by (cases "gs = []") (auto simp: groups_text_Cons list_all_iff)
  qed simp
  assume "list_all group_ok gs" "c \<in> set (string6 gs)"
  then show ?thesis using * by (auto simp: string6_def list_all_iff split: option.splits prod.splits
        dest: in_set_takeD in_set_dropD)
qed

lemma string6_colon: "length gs = 8 \<Longrightarrow> CHR '':'' \<in> set (string6 gs)"
  by (cases gs; cases "tl gs") (auto simp: string6_def groups_text_Cons split: option.split)

lemma ParseAddr_string6:
  assumes "length gs = 8" "list_all group_ok gs"
  shows "ParseAddr (string6 gs) = Some (V6 (of_int (of_groups gs)) '''')"
proof -
  let ?P = "\<lambda>c. c \<notin> {CHR ''.'', CHR '':'', CHR ''%''}"
  have no: "c \<in> set (string6 gs) \<Longrightarrow> c \<noteq> CHR ''.'' \<and> c \<noteq> CHR ''%''" for c
    using string6_chars[OF assms(2)] is_hex_sep[of c] by blast
  have ne: "dropWhile ?P (string6 gs) \<noteq> []" using string6_colon[OF assms(1)] by auto
  then have "hd (dropWhile ?P (string6 gs)) \<in> set (string6 gs)" by (meson list.set_sel(1) set_dropWhileD)
  then have hd: "hd (dropWhile ?P (string6 gs)) = CHR '':''" using hd_dropWhile[OF ne] no by auto
  have "Cut (string6 gs) (CHR ''%'') = None" using no by (auto simp: Cut_def)
  then have "parseIPv6 (string6 gs) = Some (V6 (of_int (of_groups gs)) '''')"
    by (simp add: parseIPv6_def v6_body_string6[OF assms])
  then show ?thesis using ne hd by (cases "dropWhile ?P (string6 gs)") (simp_all add: ParseAddr_def)
qed

text \<open>An address that its text names: one that is valid, has no zone, and is not IPv4 in IPv6 clothing.\<close>

definition addr_plain :: "addr \<Rightarrow> bool" where
  "addr_plain a \<longleftrightarrow> a \<noteq> NoAddr \<and> withoutZone a = a \<and> \<not> Is4In6 a"

lemma uint_groups: fixes w :: "128 word"
  shows "of_groups (int_groups 8 (uint w)) = uint w" "length (int_groups 8 (uint w)) = 8"
    "list_all group_ok (int_groups 8 (uint w))"
proof -
  have "0 \<le> uint w" "uint w < 65536 ^ 8" using uint_lt2p[of w] by auto
  then show "of_groups (int_groups 8 (uint w)) = uint w" "length (int_groups 8 (uint w)) = 8"
    "list_all group_ok (int_groups 8 (uint w))" using int_groups_spec[of "uint w" 8] by auto
qed

lemma ParseAddr_String: "addr_plain a \<Longrightarrow> ParseAddr (addr_String a) = Some a"
proof (cases a)
  case (V6 w z)
  assume "addr_plain a"
  then have "z = ''''" "\<not> Is4In6 a" using V6 by (auto simp: addr_plain_def withoutZone_def)
  then show ?thesis using V6 ParseAddr_string6[of "int_groups 8 (uint w)"] uint_groups[of w]
    by (simp add: addr_String_def zone_text_def)
qed (simp_all add: addr_plain_def addr_String_def ParseAddr_string4)

lemma addr_String_no_slash: "addr_plain a \<Longrightarrow> CHR ''/'' \<notin> set (addr_String a)"
proof (cases a)
  case (V4 w)
  have *: "\<And>n. 0 \<le> n \<Longrightarrow> CHR ''/'' \<notin> set (Itoa n)" using Itoa_no_sep by fastforce
  then show ?thesis using V4 uint_octets(1)[of w] by (simp add: addr_String_def string4_def Let_def)
next
  case (V6 w z)
  assume "addr_plain a"
  then have "addr_String a = string6 (int_groups 8 (uint w))"
    using V6 by (auto simp: addr_plain_def withoutZone_def addr_String_def zone_text_def)
  then show ?thesis using string6_chars[OF uint_groups(3)] is_hex_sep[of "CHR ''/''"] by auto
qed (simp add: addr_plain_def)

definition px_plain :: "ip_prefix \<Rightarrow> bool" where
  "px_plain p \<longleftrightarrow> addr_plain (px_addr p) \<and> 0 \<le> px_bits p \<and> px_bits p \<le> BitLen (px_addr p)"

lemma BitLen_le: "BitLen a \<le> 128"
  by (simp add: BitLen_def split: addr.split)

lemma cut_last_slash: "CHR ''/'' \<notin> set b \<Longrightarrow> cut_last (a @ CHR ''/'' # b) (CHR ''/'') = Some (a, b)"
  using Cut_prefix[of "CHR ''/''" "rev b" "rev a"] by (simp add: cut_last_def)

lemma digit_not_zero: "c \<noteq> CHR ''0'' \<Longrightarrow> is_digit c \<Longrightarrow> within (CHR ''1'') (CHR ''9'') c"
proof -
  assume c: "c \<noteq> CHR ''0''" "is_digit c"
  then have "(of_char c :: nat) \<noteq> of_char (CHR ''0'')" by (simp only: of_char_eq_iff not_False_eq_True)
  then show ?thesis using c(2) by (simp add: is_digit_def less_eq_char_def)
qed

lemma ParsePrefix_String:
  assumes "px_plain p"
  shows "ParsePrefix (prefix_String p) = Some p"
proof -
  let ?b = "Itoa (px_bits p)"
  have b: "0 \<le> px_bits p" "px_bits p \<le> BitLen (px_addr p)" "px_bits p \<le> 128" "addr_plain (px_addr p)"
    using assms BitLen_le[of "px_addr p"] by (auto simp: px_plain_def)
  have cut: "cut_last (prefix_String p) (CHR ''/'') = Some (addr_String (px_addr p), ?b)"
    using cut_last_slash[of ?b] Itoa_no_sep[OF b(1)] b(1) by (auto simp: prefix_String_def)
  have atoi: "Atoi ?b = Some (px_bits p)" using b by (intro Atoi_Itoa) auto
  have "1 < length ?b \<Longrightarrow> within (CHR ''1'') (CHR ''9'') (hd ?b)"
  proof -
    assume "1 < length ?b"
    then have "hd ?b \<noteq> CHR ''0''" using nat_digits_no_leading_zero[of "nat (px_bits p)"] b(1) by (simp add: Itoa_def)
    moreover have "is_digit (hd ?b)" using Itoa_digits[OF b(1)] by (cases ?b) auto
    ultimately show ?thesis by (rule digit_not_zero)
  qed
  then show ?thesis using b cut atoi ParseAddr_String[OF b(4)]
    by (auto simp: ParsePrefix_def addr_plain_def PrefixFrom_def)
qed

section \<open>Masking\<close>

lemma BitLen_mask [simp]: "BitLen (mask_addr a b) = BitLen a"
  by (simp add: BitLen_def mask_addr_def split: addr.split)

lemma mask_addr_idem [simp]: "mask_addr (mask_addr a b) b = mask_addr a b"
  by (simp add: mask_addr_def and.assoc split: addr.split)

lemma mask_addr_zone [simp]: "withoutZone (mask_addr a b) = mask_addr a b"
  by (simp add: mask_addr_def withoutZone_def split: addr.split)

lemma mask_addr_none [simp]: "mask_addr a b = NoAddr \<longleftrightarrow> a = NoAddr"
  by (simp add: mask_addr_def split: addr.split)

lemma mask_4in6: fixes w :: "128 word"
  assumes "drop_bit 32 (w AND NOT (mask k)) = 0xffff"
  shows "drop_bit 32 w = 0xffff"
proof -
  have "bit (drop_bit 32 (w AND NOT (mask k))) 0" unfolding assms by simp
  then have k: "k \<le> 32" by (simp add: bit_simps)
  have "drop_bit 32 (w AND NOT (mask k)) = drop_bit 32 w"
    by (rule bit_word_eqI) (use k in \<open>auto simp: bit_simps dest: bit_imp_le_length\<close>)
  then show ?thesis using assms by simp
qed

lemma mask_plain: "addr_plain a \<Longrightarrow> addr_plain (mask_addr a b)"
  by (cases a) (auto simp: addr_plain_def Is4In6_def mask_addr_def withoutZone_def simp del: drop_bit_and dest: mask_4in6)

lemma Masked_simp: "px_plain p \<Longrightarrow> Masked p = \<lparr>px_addr = mask_addr (px_addr p) (nat (px_bits p)), px_bits = px_bits p\<rparr>"
  by (auto simp: Masked_def addr_Prefix_def px_plain_def addr_plain_def PrefixFrom_def)

lemma Masked_plain: "px_plain p \<Longrightarrow> px_plain (Masked p)"
  by (simp add: Masked_simp) (simp add: px_plain_def mask_plain)

lemma Masked_idem: "px_plain p \<Longrightarrow> Masked (Masked p) = Masked p"
  using Masked_simp[OF Masked_plain] Masked_simp by fastforce

text \<open>A network in canonical form: valid, without a zone, not IPv4-mapped, its host bits cleared.\<close>

definition px_canonical :: "ip_prefix \<Rightarrow> bool" where
  "px_canonical p \<longleftrightarrow> px_plain p \<and> Masked p = p"

lemma px_canonical_Masked: "px_plain p \<Longrightarrow> px_canonical (Masked p)"
  by (simp add: px_canonical_def Masked_plain Masked_idem)

lemma Unmap_plain: "a \<noteq> NoAddr \<Longrightarrow> addr_plain (withoutZone (Unmap a))"
  by (cases a) (auto simp: Unmap_def addr_plain_def Is4In6_def withoutZone_def)

lemma ParseAddr_valid: "ParseAddr s = Some a \<Longrightarrow> a \<noteq> NoAddr"
  by (auto simp: ParseAddr_def parseIPv4_def parseIPv6_def split: list.splits if_splits option.splits prod.splits)

lemma ParsePrefix_valid: "ParsePrefix s = Some p \<Longrightarrow>
    px_addr p \<noteq> NoAddr \<and> withoutZone (px_addr p) = px_addr p \<and> 0 \<le> px_bits p \<and> px_bits p \<le> BitLen (px_addr p)"
  using ParseAddr_valid
  by (auto simp: ParsePrefix_def PrefixFrom_def split: option.splits prod.splits if_splits)

section \<open>Characters of a prefix's text\<close>

lemma not_space: "is_hex c \<Longrightarrow> \<not> is_space c" "\<not> is_space (CHR '':'')" "\<not> is_space (CHR ''.'')" "\<not> is_space (CHR ''/'')"
  by (auto simp: is_hex_def is_digit_def is_space_def less_eq_char_def)

lemma Itoa_no_space: "0 \<le> i \<Longrightarrow> c \<in> set (Itoa i) \<Longrightarrow> \<not> is_space c"
  using Itoa_digits[of i] not_space(1)[of c] by (auto simp: list_all_iff is_hex_def)

lemma prefix_String_no_space: "px_plain p \<Longrightarrow> c \<in> set (prefix_String p) \<Longrightarrow> \<not> is_space c"
proof -
  assume p: "px_plain p" "c \<in> set (prefix_String p)"
  then have "c \<in> set (addr_String (px_addr p)) \<or> c = CHR ''/'' \<or> c \<in> set (Itoa (px_bits p))"
    by (auto simp: prefix_String_def px_plain_def)
  then show ?thesis
  proof (elim disjE)
    assume c: "c \<in> set (addr_String (px_addr p))"
    show ?thesis
    proof (cases "px_addr p")
      case (V4 w)
      then have "c = CHR ''.'' \<or> (\<exists>i \<ge> 0. c \<in> set (Itoa i))"
        using c uint_octets(1)[of w] by (auto simp: addr_String_def string4_def Let_def)
      then show ?thesis using not_space(3) Itoa_no_space by auto
    next
      case (V6 w z)
      then have "addr_String (px_addr p) = string6 (int_groups 8 (uint w))"
        using p(1) by (auto simp: px_plain_def addr_plain_def withoutZone_def addr_String_def zone_text_def)
      then show ?thesis using c string6_chars[OF uint_groups(3)] not_space by auto
    qed (use p in \<open>simp add: px_plain_def addr_plain_def\<close>)
  qed (use p not_space(4) Itoa_no_space in \<open>auto simp: px_plain_def\<close>)
qed

end
