(* ===== verification/Interfaces.thy ===== *)
theory Interfaces
  imports Netip
begin

text \<open>
  The interfaces between the state, the policy engine and the kernel, as the Go interfaces name them:
  \<open>Enforcer\<close> of \<open>internal/state/enforce.go\<close> and \<open>Kernel\<close> of \<open>internal/policy/policy.go\<close>. A locale holds
  the operations its client calls and what the client relies on; the tap manager's model is shown to provide
  both.
\<close>

lemma subseq_set: "subseq xs ys \<Longrightarrow> x \<in> set xs \<Longrightarrow> x \<in> set ys"
  by (erule list_emb_set) auto

text \<open>\<open>state.Enforcer\<close>: the taps it says it changed are exactly the taps it changed.\<close>

locale enforcer =
  fixes isolate :: "string list \<Rightarrow> 'k \<Rightarrow> 'k \<times> string list \<times> string option"
    and release :: "string list \<Rightarrow> 'k \<Rightarrow> 'k \<times> string list \<times> string option"
    and isolated :: "string \<Rightarrow> 'k \<Rightarrow> bool"
  assumes isolate_effect: "isolate taps k = (k', done, err) \<Longrightarrow> isolated t k' \<longleftrightarrow> t \<in> set done \<or> isolated t k"
    and isolate_done: "isolate taps k = (k', done, err) \<Longrightarrow> subseq done taps \<and> (err = None \<longleftrightarrow> done = taps)"
    and release_effect: "release taps k = (k', done, err) \<Longrightarrow> isolated t k' \<longleftrightarrow> t \<notin> set done \<and> isolated t k"
    and release_done: "release taps k = (k', done, err) \<Longrightarrow> subseq done taps \<and> (err = None \<longleftrightarrow> done = taps)"
begin

lemma isolate_all: "isolate taps k = (k', done, None) \<Longrightarrow> t \<in> set taps \<Longrightarrow> isolated t k'"
  using isolate_effect isolate_done by metis

lemma release_all: "release taps k = (k', done, None) \<Longrightarrow> t \<in> set taps \<Longrightarrow> \<not> isolated t k'"
  using release_effect release_done by metis

lemma isolate_keeps: "isolated t k \<Longrightarrow> isolated t (fst (isolate taps k))"
  using isolate_effect by (metis prod.collapse)

lemma isolate_only: "isolated t (fst (isolate taps k)) \<Longrightarrow> isolated t k \<or> t \<in> set taps"
proof -
  obtain k' dn err where i: "isolate taps k = (k', dn, err)" by (metis prod.exhaust)
  then show "isolated t (fst (isolate taps k)) \<Longrightarrow> ?thesis"
    using isolate_effect[OF i, of t] isolate_done[OF i] subseq_set[of dn taps t] by auto
qed

lemma release_only: "t \<notin> set taps \<Longrightarrow> isolated t (fst (release taps k)) = isolated t k"
proof -
  obtain k' dn err where r: "release taps k = (k', dn, err)" by (metis prod.exhaust)
  then show "t \<notin> set taps \<Longrightarrow> ?thesis"
    using release_effect[OF r, of t] release_done[OF r] subseq_set[of dn taps t] by auto
qed

end

text \<open>\<open>policy.Kernel\<close>: a tap that takes a policy is in its mode, one that does not is as it was, and no
  other tap is touched.\<close>

locale egress_kernel =
  fixes kset :: "string \<Rightarrow> u8 \<Rightarrow> ip_prefix list \<Rightarrow> 'k \<Rightarrow> 'k \<times> string option"
    and kmode :: "string \<Rightarrow> 'k \<Rightarrow> u8"
  assumes kset_ok: "kset t mode nets k = (k', None) \<Longrightarrow> kmode t k' = mode"
    and kset_err: "kset t mode nets k = (k', Some e) \<Longrightarrow> kmode t k' = kmode t k"
    and kset_other: "t' \<noteq> t \<Longrightarrow> kmode t' (fst (kset t mode nets k)) = kmode t' k"

text \<open>A kernel that is up for a tap takes what it is given, and stays up.\<close>

locale egress_kernel_live = egress_kernel kset kmode
  for kset :: "string \<Rightarrow> u8 \<Rightarrow> ip_prefix list \<Rightarrow> 'k \<Rightarrow> 'k \<times> string option" and kmode :: "string \<Rightarrow> 'k \<Rightarrow> u8" +
  fixes kup :: "string \<Rightarrow> 'k \<Rightarrow> bool"
  assumes kup_set: "kup t k \<Longrightarrow> mode \<le> 2 \<Longrightarrow> snd (kset t mode nets k) = None"
    and kup_stays: "kup t k \<Longrightarrow> kup t (fst (kset t' mode nets k))"

text \<open>\<open>policy.Store\<close>: what is saved is what is read back, and a save that fails has written all of it or
  nothing.\<close>

locale record_store =
  fixes save :: "'r list \<Rightarrow> 's \<Rightarrow> 's \<times> string option"
    and load :: "'s \<Rightarrow> 'r list"
  assumes save_ok: "save rs s = (s', None) \<Longrightarrow> load s' = rs"
    and save_err: "save rs s = (s', Some e) \<Longrightarrow> load s' = load s \<or> load s' = rs"

end
