(* ===== verification/Tap.thy ===== *)
theory Tap
  imports Interfaces
begin

text \<open>
  The tap program's manager, \<open>internal/bpfgen/tap.go\<close> and \<open>internal/bpfgen/egress.go\<close>, and the two
  faces \<open>internal/observe/tap_bpf.go\<close> gives it: the isolation \<open>Enforcer\<close> and the policy engine's
  \<open>EgressKernel\<close>.

  The kernel's maps are finite maps. An update of one may fail for reasons of its own (no memory, a full
  trie), so the manager carries the outcomes to come as a list of booleans, \<open>km_faults\<close>, consumed one per
  operation: the operation fails, and changes nothing, when the next is true. \<open>km_seen\<close> is history, not
  state: every content the maps have had, newest first, so that a theorem can speak of every moment.
  Addresses in keys are the numbers whose big-endian bytes the code stores.
\<close>

section \<open>Egress keys\<close>

abbreviation EgressOff :: u8 where "EgressOff \<equiv> 0"
abbreviation EgressAudit :: u8 where "EgressAudit \<equiv> 1"
abbreviation EgressEnforce :: u8 where "EgressEnforce \<equiv> 2"

record egress4Key =
  k4_len :: u32
  k4_ifindex :: u32
  k4_addr :: u32

record egress6Key =
  k6_len :: u32
  k6_ifindex :: u32
  k6_addr :: "128 word"

text \<open>The canonical form of one network, as \<open>egressKeys\<close> makes it; \<open>None\<close> for one that has none.\<close>

definition egress_net :: "ip_prefix \<Rightarrow> ip_prefix option" where
  "egress_net p =
     (let a = px_addr p
      in if Is4In6 a then addr_Prefix (Unmap a) (px_bits p - 96) else addr_Prefix a (px_bits p))"

definition egress_key4 :: "u32 \<Rightarrow> ip_prefix \<Rightarrow> egress4Key option" where
  "egress_key4 ifindex p = (case egress_net p of
      None \<Rightarrow> None
    | Some q \<Rightarrow> (case px_addr q of
         V4 w \<Rightarrow> Some \<lparr>k4_len = 32 + of_int (px_bits q), k4_ifindex = ifindex, k4_addr = w\<rparr>
       | _ \<Rightarrow> None))"

definition egress_key6 :: "u32 \<Rightarrow> ip_prefix \<Rightarrow> egress6Key option" where
  "egress_key6 ifindex p = (case egress_net p of
      None \<Rightarrow> None
    | Some q \<Rightarrow> (case px_addr q of
         V4 w \<Rightarrow> None
       | V6 w _ \<Rightarrow> Some \<lparr>k6_len = 32 + of_int (px_bits q), k6_ifindex = ifindex, k6_addr = w\<rparr>
       | NoAddr \<Rightarrow> Some \<lparr>k6_len = 32 + of_int (px_bits q), k6_ifindex = ifindex, k6_addr = 0\<rparr>))"

definition egressKeys :: "u32 \<Rightarrow> ip_prefix list \<Rightarrow> egress4Key list \<times> egress6Key list" where
  "egressKeys ifindex ps =
     (sort_key (\<lambda>k. (uint (k4_addr k), uint (k4_len k))) (remdups (List.map_filter (egress_key4 ifindex) ps)),
      sort_key (\<lambda>k. (uint (k6_addr k), uint (k6_len k))) (remdups (List.map_filter (egress_key6 ifindex) ps)))"

section \<open>The kernel's maps\<close>

record tapPolicyC =
  pol_isolated :: u8
  pol_egress :: u8

record bpf_maps =
  km_policy :: "(u32, tapPolicyC) gomap"
  km_egress4 :: "egress4Key list"
  km_egress6 :: "egress6Key list"
  km_allow4 :: "(u32 \<times> u32) list"
  km_allow6 :: "(u32 \<times> 128 word) list"

datatype map_op =
    PutPolicy u32 tapPolicyC | DelPolicy u32
  | Put4 egress4Key | Del4 egress4Key | Put6 egress6Key | Del6 egress6Key
  | PutAllow4 u32 u32 | DelAllow4 u32 u32 | PutAllow6 u32 "128 word" | DelAllow6 u32 "128 word"

fun bpf_apply :: "map_op \<Rightarrow> bpf_maps \<Rightarrow> bpf_maps" where
  "bpf_apply (PutPolicy i p) m = m\<lparr>km_policy := AList.update i p (km_policy m)\<rparr>"
| "bpf_apply (DelPolicy i) m = m\<lparr>km_policy := AList.delete i (km_policy m)\<rparr>"
| "bpf_apply (Put4 k) m = m\<lparr>km_egress4 := List.insert k (km_egress4 m)\<rparr>"
| "bpf_apply (Del4 k) m = m\<lparr>km_egress4 := removeAll k (km_egress4 m)\<rparr>"
| "bpf_apply (Put6 k) m = m\<lparr>km_egress6 := List.insert k (km_egress6 m)\<rparr>"
| "bpf_apply (Del6 k) m = m\<lparr>km_egress6 := removeAll k (km_egress6 m)\<rparr>"
| "bpf_apply (PutAllow4 n a) m = m\<lparr>km_allow4 := List.insert (n, a) (km_allow4 m)\<rparr>"
| "bpf_apply (DelAllow4 n a) m = m\<lparr>km_allow4 := removeAll (n, a) (km_allow4 m)\<rparr>"
| "bpf_apply (PutAllow6 n a) m = m\<lparr>km_allow6 := List.insert (n, a) (km_allow6 m)\<rparr>"
| "bpf_apply (DelAllow6 n a) m = m\<lparr>km_allow6 := removeAll (n, a) (km_allow6 m)\<rparr>"

record tapLinks =
  tl_ifindex :: u32
  tl_isolated :: bool
  tl_egress :: u8
  tl_quarantine :: bool

record tapMgr =
  tm_loadErr :: "string option"
  tm_pinned :: bool
  tm_egress_maps :: bool
  tm_taps :: "(string, tapLinks) gomap"
  km_maps :: bpf_maps
  km_faults :: "bool list"
  km_seen :: "bpf_maps list"

definition bpf_do :: "map_op \<Rightarrow> tapMgr \<Rightarrow> tapMgr \<times> bool" where
  "bpf_do op m = (case km_faults m of
      True # fs \<Rightarrow> (m\<lparr>km_faults := fs\<rparr>, False)
    | fs \<Rightarrow> (let maps = bpf_apply op (km_maps m)
            in (m\<lparr>km_maps := maps, km_faults := tl fs, km_seen := maps # km_seen m\<rparr>, True)))"

text \<open>A run of operations that stops at the first failure, and one whose failures are ignored.\<close>

fun bpf_all :: "map_op list \<Rightarrow> tapMgr \<Rightarrow> tapMgr \<times> bool" where
  "bpf_all [] m = (m, True)"
| "bpf_all (op # ops) m = (let (m', ok) = bpf_do op m in if ok then bpf_all ops m' else (m', False))"

fun bpf_each :: "map_op list \<Rightarrow> tapMgr \<Rightarrow> tapMgr" where
  "bpf_each [] m = m"
| "bpf_each (op # ops) m = bpf_each ops (fst (bpf_do op m))"

section \<open>Isolation and egress on one tap\<close>

definition put_tap :: "string \<Rightarrow> tapLinks \<Rightarrow> tapMgr \<Rightarrow> tapMgr" where
  "put_tap name t m = m\<lparr>tm_taps := AList.update name t (tm_taps m)\<rparr>"

definition no_program :: "string \<Rightarrow> string" where
  "no_program name = ''tap '' @ name @ '' does not carry the program''"

abbreviation map_error :: string where "map_error \<equiv> ''map update''"

abbreviation flag :: "bool \<Rightarrow> u8" where "flag b \<equiv> (if b then 1 else 0)"

definition SetTapIsolated :: "string \<Rightarrow> bool \<Rightarrow> tapMgr \<Rightarrow> tapMgr \<times> string option" where
  "SetTapIsolated name on m = (case map_of (tm_taps m) name of
      None \<Rightarrow> (m, Some (no_program name))
    | Some t \<Rightarrow>
       (let (m, ok) = bpf_do (PutPolicy (tl_ifindex t) \<lparr>pol_isolated = flag on, pol_egress = tl_egress t\<rparr>) m
        in if \<not> ok then (m, Some map_error)
           else (put_tap name (t\<lparr>tl_isolated := on, tl_quarantine := tl_quarantine t \<and> on\<rparr>) m, None)))"

definition SetTapQuarantine :: "string \<Rightarrow> bool \<Rightarrow> tapMgr \<Rightarrow> tapMgr \<times> string option" where
  "SetTapQuarantine name on m = (case map_of (tm_taps m) name of
      None \<Rightarrow> (m, Some (no_program name))
    | Some t \<Rightarrow>
       (let m = put_tap name (t\<lparr>tl_quarantine := on, tl_isolated := on\<rparr>) m;
            (m, ok) = bpf_do (PutPolicy (tl_ifindex t) \<lparr>pol_isolated = flag on, pol_egress = tl_egress t\<rparr>) m
        in (m, if ok then None else Some map_error)))"

definition TapIsolated :: "string \<Rightarrow> tapMgr \<Rightarrow> bool" where
  "TapIsolated name m = (case map_of (tm_taps m) name of None \<Rightarrow> False | Some t \<Rightarrow> tl_isolated t)"

definition TapEgress :: "string \<Rightarrow> tapMgr \<Rightarrow> u8" where
  "TapEgress name m = (case map_of (tm_taps m) name of None \<Rightarrow> EgressOff | Some t \<Rightarrow> tl_egress t)"

text \<open>The last part of \<open>SetTapEgress\<close>: what the tap no longer wants is deleted, failures ignored.\<close>

definition drop_stale :: "u32 \<Rightarrow> egress4Key list \<Rightarrow> egress6Key list \<Rightarrow> tapMgr \<Rightarrow> tapMgr" where
  "drop_stale ifindex want4 want6 m =
     bpf_each
       (map Del4 (filter (\<lambda>k. k4_ifindex k = ifindex \<and> k \<notin> set want4) (km_egress4 (km_maps m))) @
        map Del6 (filter (\<lambda>k. k6_ifindex k = ifindex \<and> k \<notin> set want6) (km_egress6 (km_maps m)))) m"

text \<open>What comes after the new networks are in: the mode, and then the stale networks.\<close>

definition set_egress_mode :: "string \<Rightarrow> u8 \<Rightarrow> egress4Key list \<Rightarrow> egress6Key list \<Rightarrow> tapLinks \<Rightarrow> tapMgr
    \<Rightarrow> tapMgr \<times> string option" where
  "set_egress_mode name mode want4 want6 t0 m =
     (let t = (if tl_quarantine t0 then t0\<lparr>tl_quarantine := False, tl_isolated := False\<rparr> else t0);
          m = put_tap name t m;
          (m, ok) = bpf_do (PutPolicy (tl_ifindex t) \<lparr>pol_isolated = flag (tl_isolated t), pol_egress = mode\<rparr>) m
      in if \<not> ok then (m, Some map_error)
         else (drop_stale (tl_ifindex t) want4 want6 (put_tap name (t\<lparr>tl_egress := mode\<rparr>) m), None))"

definition SetTapEgress :: "string \<Rightarrow> u8 \<Rightarrow> ip_prefix list \<Rightarrow> tapMgr \<Rightarrow> tapMgr \<times> string option" where
  "SetTapEgress name mode nets m = (case map_of (tm_taps m) name of
      None \<Rightarrow> (m, Some (no_program name))
    | Some t \<Rightarrow>
       (if \<not> tm_egress_maps m then (m, Some ''the tap program has no egress policy maps'')
        else if mode > EgressEnforce then (m, Some ''egress mode is not off, audit or enforce'')
        else
          (let (want4, want6) = egressKeys (tl_ifindex t) nets;
               (m, ok) = bpf_all (map Put4 want4 @ map Put6 want6) m
           in if \<not> ok then (m, Some ''adding a network'')
              else set_egress_mode name mode want4 want6 t m)))"

section \<open>Detaching and the management list\<close>

definition clearEgressLocked :: "u32 \<Rightarrow> tapMgr \<Rightarrow> tapMgr" where
  "clearEgressLocked ifindex m =
     (let m = (if tm_egress_maps m
               then bpf_each (map Del4 (filter (\<lambda>k. k4_ifindex k = ifindex) (km_egress4 (km_maps m)))) m else m)
      in if tm_egress_maps m
         then bpf_each (map Del6 (filter (\<lambda>k. k6_ifindex k = ifindex) (km_egress6 (km_maps m)))) m else m)"

text \<open>\<open>detachTapLocked\<close>: the links go, then the tap's policy, networks and record. Its handshake and
  egress counters, which nothing here reads, are not modelled.\<close>

definition detachTapLocked :: "string \<Rightarrow> tapMgr \<Rightarrow> tapMgr" where
  "detachTapLocked name m = (case map_of (tm_taps m) name of
      None \<Rightarrow> m
    | Some t \<Rightarrow>
       (let m = fst (bpf_do (DelPolicy (tl_ifindex t)) m);
            m = clearEgressLocked (tl_ifindex t) m
        in m\<lparr>tm_taps := AList.delete name (tm_taps m)\<rparr>))"

definition tap_kept :: "tapMgr \<Rightarrow> tapLinks \<Rightarrow> bool" where
  "tap_kept m t \<longleftrightarrow> tm_pinned m \<and> (tl_isolated t \<or> tl_egress t = EgressEnforce)"

text \<open>\<open>ShutdownTaps\<close>: how many taps were kept, how many detached.\<close>

fun shutdown_loop :: "(string \<times> tapLinks) list \<Rightarrow> tapMgr \<Rightarrow> nat \<Rightarrow> nat \<Rightarrow> tapMgr \<times> nat \<times> nat" where
  "shutdown_loop [] m kept detached = (m, kept, detached)"
| "shutdown_loop ((name, t) # ts) m kept detached =
     (if tap_kept m t then shutdown_loop ts m (Suc kept) detached
      else shutdown_loop ts (detachTapLocked name m) kept (Suc detached))"

definition ShutdownTaps :: "tapMgr \<Rightarrow> tapMgr \<times> nat \<times> nat" where
  "ShutdownTaps m =
     (let (m, kept, detached) = shutdown_loop (tm_taps m) m 0 0 in (m\<lparr>tm_taps := []\<rparr>, kept, detached))"

text \<open>The keys \<open>SetTapAllow\<close> writes for one network of the management list.\<close>

definition allow_op :: "ip_prefix \<Rightarrow> map_op" where
  "allow_op p = (case Unmap (px_addr p) of
      V4 w \<Rightarrow> PutAllow4 (of_int (if Is4In6 (px_addr p) then px_bits p - 96 else px_bits p)) w
    | V6 w _ \<Rightarrow> PutAllow6 (of_int (px_bits p)) w
    | NoAddr \<Rightarrow> PutAllow6 (of_int (px_bits p)) 0)"

definition SetTapAllow :: "ip_prefix list \<Rightarrow> tapMgr \<Rightarrow> tapMgr \<times> string option" where
  "SetTapAllow nets m = (case tm_loadErr m of
      Some e \<Rightarrow> (m, Some e)
    | None \<Rightarrow>
       (let m = bpf_each (map (\<lambda>(n, a). DelAllow4 n a) (km_allow4 (km_maps m))) m;
            m = bpf_each (map (\<lambda>(n, a). DelAllow6 n a) (km_allow6 (km_maps m))) m;
            (m, ok) = bpf_all (map allow_op nets) m
        in (m, if ok then None else Some map_error)))"

section \<open>The enforcer and the egress kernel\<close>

record Enforcer =
  enf_allow :: "ip_prefix list"
  enf_allowErr :: "string option"

definition NewEnforcer :: "ip_prefix list \<Rightarrow> tapMgr \<Rightarrow> tapMgr \<times> Enforcer" where
  "NewEnforcer allow m =
     (if allow = [] then (m, \<lparr>enf_allow = allow, enf_allowErr = None\<rparr>)
      else (let (m, err) = SetTapAllow allow m in (m, \<lparr>enf_allow = allow, enf_allowErr = err\<rparr>)))"

definition enf_Available :: "Enforcer \<Rightarrow> tapMgr \<Rightarrow> bool \<times> string" where
  "enf_Available e m = (case tm_loadErr m of
      Some err \<Rightarrow> (False, ''the tap program is not loaded: '' @ err)
    | None \<Rightarrow>
       (if enf_allow e = [] then
          (False, ''no management allow list is configured (-isolate-allow), so refusing to isolate: an isolated VM must keep the access its host needs'')
        else case enf_allowErr e of
          Some err \<Rightarrow> (False, ''the management allow list could not be loaded: '' @ err)
        | None \<Rightarrow> (True, '''')))"

fun enf_set_loop :: "string list \<Rightarrow> bool \<Rightarrow> tapMgr \<Rightarrow> string list \<Rightarrow> string list \<Rightarrow> tapMgr \<times> string list \<times> string list" where
  "enf_set_loop [] on m done failed = (m, done, failed)"
| "enf_set_loop (t # ts) on m done failed =
     (case SetTapIsolated t on m of
        (m', Some err) \<Rightarrow> enf_set_loop ts on m' done (failed @ [err])
      | (m', None) \<Rightarrow> enf_set_loop ts on m' (done @ [t]) failed)"

definition enf_set :: "string list \<Rightarrow> bool \<Rightarrow> tapMgr \<Rightarrow> tapMgr \<times> string list \<times> string option" where
  "enf_set taps on m =
     (let (m, done, failed) = enf_set_loop taps on m [] []
      in (m, done, if failed = [] then None else Some (Join failed ''; '')))"

definition enf_Isolate :: "string list \<Rightarrow> tapMgr \<Rightarrow> tapMgr \<times> string list \<times> string option" where
  "enf_Isolate taps m = enf_set taps True m"

definition enf_Release :: "string list \<Rightarrow> tapMgr \<Rightarrow> tapMgr \<times> string list \<times> string option" where
  "enf_Release taps m = enf_set taps False m"

definition ek_Available :: "tapMgr \<Rightarrow> bool \<times> string" where
  "ek_Available m = (case tm_loadErr m of Some err \<Rightarrow> (False, err) | None \<Rightarrow> (True, ''not loaded''))"

definition ek_CanEnforce :: "Enforcer option \<Rightarrow> tapMgr \<Rightarrow> bool \<times> string" where
  "ek_CanEnforce enf m = (case enf of
      None \<Rightarrow> (False, ''no management allow list is configured'')
    | Some e \<Rightarrow> enf_Available e m)"

section \<open>What the program lets through\<close>

text \<open>
  The trie lookup of \<open>egress_in4\<close> and \<open>egress_in6\<close> in \<open>bpf/tap.bpf.c\<close>: some key of the tap's is a prefix
  of the address.
\<close>

definition match4 :: "u32 \<Rightarrow> u32 \<Rightarrow> egress4Key \<Rightarrow> bool" where
  "match4 ifindex a k \<longleftrightarrow> k4_ifindex k = ifindex \<and>
     a AND NOT (mask (64 - unat (k4_len k))) = k4_addr k AND NOT (mask (64 - unat (k4_len k)))"

definition match6 :: "u32 \<Rightarrow> 128 word \<Rightarrow> egress6Key \<Rightarrow> bool" where
  "match6 ifindex a k \<longleftrightarrow> k6_ifindex k = ifindex \<and>
     a AND NOT (mask (160 - unat (k6_len k))) = k6_addr k AND NOT (mask (160 - unat (k6_len k)))"

definition egress_in4 :: "bpf_maps \<Rightarrow> u32 \<Rightarrow> u32 \<Rightarrow> bool" where
  "egress_in4 maps ifindex a \<longleftrightarrow> (\<exists>k \<in> set (km_egress4 maps). match4 ifindex a k)"

definition egress_in6 :: "bpf_maps \<Rightarrow> u32 \<Rightarrow> 128 word \<Rightarrow> bool" where
  "egress_in6 maps ifindex a \<longleftrightarrow> (\<exists>k \<in> set (km_egress6 maps). match6 ifindex a k)"

section \<open>Runs of map operations\<close>

lemma bpf_do_frame [simp]:
  "tm_taps (fst (bpf_do op m)) = tm_taps m" "tm_egress_maps (fst (bpf_do op m)) = tm_egress_maps m"
  "tm_pinned (fst (bpf_do op m)) = tm_pinned m" "tm_loadErr (fst (bpf_do op m)) = tm_loadErr m"
  by (simp_all add: bpf_do_def Let_def split: list.split bool.split)

lemma bpf_all_frame [simp]:
  "tm_taps (fst (bpf_all ops m)) = tm_taps m" "tm_egress_maps (fst (bpf_all ops m)) = tm_egress_maps m"
  "tm_pinned (fst (bpf_all ops m)) = tm_pinned m" "tm_loadErr (fst (bpf_all ops m)) = tm_loadErr m"
  by (induction ops arbitrary: m) (simp_all add: split_beta)

lemma bpf_each_frame [simp]:
  "tm_taps (bpf_each ops m) = tm_taps m" "tm_egress_maps (bpf_each ops m) = tm_egress_maps m"
  "tm_pinned (bpf_each ops m) = tm_pinned m" "tm_loadErr (bpf_each ops m) = tm_loadErr m"
  by (induction ops arbitrary: m) simp_all

text \<open>
  What holds of the maps, \<open>P\<close>, and of everything they have been, \<open>R\<close>, goes on holding when every operation
  keeps \<open>P\<close> and \<open>P\<close> is stronger than \<open>R\<close>.
\<close>

definition keeps :: "(bpf_maps \<Rightarrow> bool) \<Rightarrow> (bpf_maps \<Rightarrow> bool) \<Rightarrow> tapMgr \<Rightarrow> bool" where
  "keeps P R m \<longleftrightarrow> P (km_maps m) \<and> (\<forall>x \<in> set (km_seen m). R x)"

lemma keeps_do:
  assumes "keeps P R m" "\<And>maps. P maps \<Longrightarrow> P (bpf_apply op maps)" "\<And>maps. P maps \<Longrightarrow> R maps"
  shows "keeps P R (fst (bpf_do op m))"
  using assms by (auto simp: keeps_def bpf_do_def Let_def split: list.split bool.split)

lemma keeps_all:
  assumes "keeps P R m" "\<And>op maps. op \<in> set ops \<Longrightarrow> P maps \<Longrightarrow> P (bpf_apply op maps)" "\<And>maps. P maps \<Longrightarrow> R maps"
  shows "keeps P R (fst (bpf_all ops m))"
  using assms
proof (induction ops arbitrary: m)
  case (Cons op ops)
  have k: "keeps P R (fst (bpf_do op m))" using Cons.prems by (intro keeps_do) auto
  obtain m' ok where d: "bpf_do op m = (m', ok)" by fastforce
  show ?case using Cons.IH[OF k] Cons.prems(2,3) k d by (cases ok) auto
qed simp

lemma keeps_each:
  assumes "keeps P R m" "\<And>op maps. op \<in> set ops \<Longrightarrow> P maps \<Longrightarrow> P (bpf_apply op maps)" "\<And>maps. P maps \<Longrightarrow> R maps"
  shows "keeps P R (bpf_each ops m)"
  using assms
proof (induction ops arbitrary: m)
  case (Cons op ops)
  have "keeps P R (fst (bpf_do op m))" using Cons.prems by (intro keeps_do) auto
  then show ?case using Cons.IH Cons.prems(2,3) by simp
qed simp

lemma bpf_do_True: "bpf_do op m = (m', True) \<Longrightarrow> km_maps m' = bpf_apply op (km_maps m)"
  by (auto simp: bpf_do_def Let_def split: list.splits bool.splits)

lemma bpf_do_False: "bpf_do op m = (m', False) \<Longrightarrow> km_maps m' = km_maps m \<and> km_seen m' = km_seen m"
  by (auto simp: bpf_do_def Let_def split: list.splits bool.splits)

lemma bpf_all_True: "bpf_all ops m = (m', True) \<Longrightarrow> km_maps m' = foldl (\<lambda>x op. bpf_apply op x) (km_maps m) ops"
  by (induction ops arbitrary: m) (auto split: prod.splits if_splits dest: bpf_do_True)

text \<open>What a run cannot change, because no operation of it touches it.\<close>

lemma bpf_all_const:
  assumes "\<And>op maps. op \<in> set ops \<Longrightarrow> f (bpf_apply op maps) = f maps"
  shows "f (km_maps (fst (bpf_all ops m))) = f (km_maps m)"
  using keeps_all[of "\<lambda>x. f x = f (km_maps m)" "\<lambda>_. True" m ops] assms by (simp add: keeps_def)

lemma bpf_each_const:
  assumes "\<And>op maps. op \<in> set ops \<Longrightarrow> f (bpf_apply op maps) = f maps"
  shows "f (km_maps (bpf_each ops m)) = f (km_maps m)"
  using keeps_each[of "\<lambda>x. f x = f (km_maps m)" "\<lambda>_. True" m ops] assms by (simp add: keeps_def)

lemma foldl_Put4: "set (km_egress4 (foldl (\<lambda>x op. bpf_apply op x) maps (map Put4 ks))) = set ks \<union> set (km_egress4 maps)"
  by (induction ks arbitrary: maps) auto

lemma foldl_Put6: "set (km_egress6 (foldl (\<lambda>x op. bpf_apply op x) maps (map Put6 ks))) = set ks \<union> set (km_egress6 maps)"
  by (induction ks arbitrary: maps) auto

lemma foldl_Put6_4: "km_egress4 (foldl (\<lambda>x op. bpf_apply op x) maps (map Put6 ks)) = km_egress4 maps"
  by (induction ks arbitrary: maps) auto

lemma foldl_Put4_6: "km_egress6 (foldl (\<lambda>x op. bpf_apply op x) maps (map Put4 ks)) = km_egress6 maps"
  by (induction ks arbitrary: maps) auto

lemma puts_all:
  assumes "bpf_all (map Put4 w4 @ map Put6 w6) m = (m', True)"
  shows "set (km_egress4 (km_maps m')) = set w4 \<union> set (km_egress4 (km_maps m))"
    "set (km_egress6 (km_maps m')) = set w6 \<union> set (km_egress6 (km_maps m))"
  using bpf_all_True[OF assms] by (simp_all add: foldl_Put4 foldl_Put6 foldl_Put6_4 foldl_Put4_6)

section \<open>A change of list\<close>

definition holds :: "egress4Key set \<Rightarrow> egress6Key set \<Rightarrow> bpf_maps \<Rightarrow> bool" where
  "holds K4 K6 maps \<longleftrightarrow> K4 \<subseteq> set (km_egress4 maps) \<and> K6 \<subseteq> set (km_egress6 maps)"

lemma keeps_put_tap [simp]: "keeps P R (put_tap name t m) = keeps P R m" "km_maps (put_tap name t m) = km_maps m"
  "km_seen (put_tap name t m) = km_seen m"
  by (simp_all add: keeps_def put_tap_def)

lemma keeps_drop_stale:
  assumes "keeps (holds (set w4) (set w6)) R m" "\<And>maps. holds (set w4) (set w6) maps \<Longrightarrow> R maps"
  shows "keeps (holds (set w4) (set w6)) R (drop_stale i w4 w6 m)"
  unfolding drop_stale_def using assms by (intro keeps_each) (auto simp: holds_def)

lemma keeps_set_egress_mode:
  assumes "keeps (holds (set w4) (set w6)) R m" "\<And>maps. holds (set w4) (set w6) maps \<Longrightarrow> R maps"
  shows "keeps (holds (set w4) (set w6)) R (fst (set_egress_mode name mode w4 w6 t m))"
proof -
  let ?t = "if tl_quarantine t then t\<lparr>tl_quarantine := False, tl_isolated := False\<rparr> else t"
  let ?op = "PutPolicy (tl_ifindex ?t) \<lparr>pol_isolated = flag (tl_isolated ?t), pol_egress = mode\<rparr>"
  obtain m1 ok where d: "bpf_do ?op (put_tap name ?t m) = (m1, ok)" by fastforce
  have "keeps (holds (set w4) (set w6)) R (fst (bpf_do ?op (put_tap name ?t m)))"
    using assms by (intro keeps_do) (auto simp: holds_def)
  then have "keeps (holds (set w4) (set w6)) R m1" using d by simp
  then show ?thesis using d keeps_drop_stale[OF _ assms(2)] by (auto simp: set_egress_mode_def Let_def)
qed

lemma SetTapEgress_moments:
  assumes "map_of (tm_taps m) name = Some t" "km_seen m = []"
    and "egressKeys (tl_ifindex t) nets = (w4, w6)" "SetTapEgress name mode nets m = (m', r)"
    and "x \<in> set (km_seen m')"
  shows "holds (set (km_egress4 (km_maps m))) (set (km_egress6 (km_maps m))) x \<or> holds (set w4) (set w6) x"
proof -
  let ?old = "holds (set (km_egress4 (km_maps m))) (set (km_egress6 (km_maps m)))"
  let ?R = "\<lambda>x. ?old x \<or> holds (set w4) (set w6) x"
  obtain m1 ok where a: "bpf_all (map Put4 w4 @ map Put6 w6) m = (m1, ok)" by fastforce
  have "keeps ?old ?R (fst (bpf_all (map Put4 w4 @ map Put6 w6) m))"
    using assms(2) by (intro keeps_all) (auto simp: keeps_def holds_def)
  then have k1: "keeps ?old ?R m1" using a by simp
  consider "m' = m" | "m' = m1" | "ok" "m' = fst (set_egress_mode name mode w4 w6 t m1)"
    using assms(1,3,4) a by (auto simp: SetTapEgress_def split: if_splits)
  then have "\<forall>x \<in> set (km_seen m'). ?R x"
  proof cases
    case 3
    then have "bpf_all (map Put4 w4 @ map Put6 w6) m = (m1, True)" using a by simp
    then have "keeps (holds (set w4) (set w6)) ?R m1"
      using k1 puts_all[of w4 w6 m m1] by (simp add: keeps_def holds_def)
    then have "keeps (holds (set w4) (set w6)) ?R m'"
      unfolding 3(2) by (rule keeps_set_egress_mode) simp
    then show ?thesis by (simp add: keeps_def)
  qed (use k1 assms(2) in \<open>auto simp: keeps_def\<close>)
  then show ?thesis using assms(5) by blast
qed

text \<open>
  C10. A change of egress list cannot cut off a destination that is on both lists: whatever updates the kernel
  refuses on the way, in every state the maps go through, an address that the tap's networks allowed before
  the call and that the requested networks allow is allowed.
\<close>

theorem SetTapEgress_never_cuts_off:
  assumes "map_of (tm_taps m) name = Some t" "km_seen m = []" "i = tl_ifindex t"
    and "x \<in> set (km_seen (fst (SetTapEgress name mode nets m)))"
  shows "(egress_in4 (km_maps m) i a4 \<and> (\<exists>k \<in> set (fst (egressKeys i nets)). match4 i a4 k) \<longrightarrow> egress_in4 x i a4) \<and>
    (egress_in6 (km_maps m) i a6 \<and> (\<exists>k \<in> set (snd (egressKeys i nets)). match6 i a6 k) \<longrightarrow> egress_in6 x i a6)"
proof -
  obtain w4 w6 where w: "egressKeys i nets = (w4, w6)" by fastforce
  have "holds (set (km_egress4 (km_maps m))) (set (km_egress6 (km_maps m))) x \<or> holds (set w4) (set w6) x"
    using SetTapEgress_moments[OF assms(1,2)] w assms(3,4) by (metis prod.collapse)
  then show ?thesis unfolding w by (auto simp: egress_in4_def egress_in6_def holds_def)
qed

definition one_tap :: tapMgr where
  "one_tap = \<lparr>tm_loadErr = None, tm_pinned = True, tm_egress_maps = True,
     tm_taps = [(''vnet0'', \<lparr>tl_ifindex = 7, tl_isolated = False, tl_egress = 1, tl_quarantine = False\<rparr>)],
     km_maps = \<lparr>km_policy = [(7, \<lparr>pol_isolated = 0, pol_egress = 1\<rparr>)],
       km_egress4 = [\<lparr>k4_len = 40, k4_ifindex = 7, k4_addr = 0x0a000000\<rparr>], km_egress6 = [], km_allow4 = [], km_allow6 = []\<rparr>,
     km_faults = [], km_seen = []\<rparr>"

abbreviation net_10_1 :: ip_prefix where
  "net_10_1 \<equiv> \<lparr>px_addr = V4 0x0a010000, px_bits = 16\<rparr>"

theorem SetTapEgress_never_cuts_off_witness:
  "length (km_seen (fst (SetTapEgress ''vnet0'' 2 [net_10_1] one_tap))) = 3 \<and>
   list_all (\<lambda>x. egress_in4 x 7 0x0a010203) (km_seen (fst (SetTapEgress ''vnet0'' 2 [net_10_1] one_tap)))"
proof -
  have 1: "map_of (tm_taps one_tap) ''vnet0'' = Some \<lparr>tl_ifindex = 7, tl_isolated = False, tl_egress = 1, tl_quarantine = False\<rparr>"
    "km_seen one_tap = []" by (simp_all add: one_tap_def)
  have 2: "egress_in4 (km_maps one_tap) 7 0x0a010203" "\<exists>k \<in> set (fst (egressKeys 7 [net_10_1])). match4 7 0x0a010203 k"
    "length (km_seen (fst (SetTapEgress ''vnet0'' 2 [net_10_1] one_tap))) = 3" by code_simp+
  show ?thesis
    using SetTapEgress_never_cuts_off[OF 1, of 7 _ 2 "[net_10_1]" "0x0a010203" 0] 2 by (auto simp: list_all_iff)
qed

section \<open>The manager provides the interfaces\<close>

lemma put_tap_get [simp]: "map_of (tm_taps (put_tap name t m)) name' = (if name' = name then Some t else map_of (tm_taps m) name')"
  by (simp add: put_tap_def)

lemma SetTapIsolated_cases:
  assumes "SetTapIsolated name on m = (m', err)"
  shows "(err \<noteq> None \<and> tm_taps m' = tm_taps m \<and> km_maps m' = km_maps m) \<or>
    (\<exists>t. err = None \<and> map_of (tm_taps m) name = Some t \<and>
      tm_taps m' = AList.update name (t\<lparr>tl_isolated := on, tl_quarantine := tl_quarantine t \<and> on\<rparr>) (tm_taps m) \<and>
      km_maps m' = bpf_apply (PutPolicy (tl_ifindex t) \<lparr>pol_isolated = flag on, pol_egress = tl_egress t\<rparr>) (km_maps m))"
proof (cases "map_of (tm_taps m) name")
  case (Some t)
  let ?op = "PutPolicy (tl_ifindex t) \<lparr>pol_isolated = flag on, pol_egress = tl_egress t\<rparr>"
  obtain m1 ok where d: "bpf_do ?op m = (m1, ok)" by fastforce
  have "tm_taps m1 = tm_taps m" using bpf_do_frame(1)[of ?op m] d by simp
  then show ?thesis using assms Some d bpf_do_False[of ?op m m1] bpf_do_True[of ?op m m1]
    by (cases ok) (auto simp: SetTapIsolated_def put_tap_def)
qed (use assms in \<open>auto simp: SetTapIsolated_def\<close>)

lemma SetTapIsolated_flag:
  "SetTapIsolated name on m = (m', None) \<Longrightarrow> TapIsolated t m' = (if t = name then on else TapIsolated t m)"
  "SetTapIsolated name on m = (m', Some e) \<Longrightarrow> TapIsolated t m' = TapIsolated t m"
  by (auto dest!: SetTapIsolated_cases simp: TapIsolated_def)

lemma enf_set_loop_spec:
  assumes "enf_set_loop ts on m d0 f0 = (m', dn, failed)"
  shows "\<exists>d f. dn = d0 @ d \<and> failed = f0 @ f \<and> subseq d ts \<and> (f = [] \<longleftrightarrow> d = ts) \<and>
    TapIsolated t m' = (if t \<in> set d then on else TapIsolated t m)"
  using assms
proof (induction ts arbitrary: m d0 f0)
  case (Cons x ts)
  obtain m1 err where s: "SetTapIsolated x on m = (m1, err)" by fastforce
  show ?case
  proof (cases err)
    case None
    then have "enf_set_loop ts on m1 (d0 @ [x]) f0 = (m', dn, failed)" using Cons.prems s by simp
    from Cons.IH[OF this] obtain d f where "dn = d0 @ x # d" "failed = f0 @ f" "subseq d ts" "f = [] \<longleftrightarrow> d = ts"
      "TapIsolated t m' = (if t \<in> set d then on else TapIsolated t m1)" by auto
    then show ?thesis using SetTapIsolated_flag(1)[of x on m m1 t] s None
      by (intro exI[of _ "x # d"] exI[of _ f]) auto
  next
    case (Some e)
    then have "enf_set_loop ts on m1 d0 (f0 @ [e]) = (m', dn, failed)" using Cons.prems s by simp
    from Cons.IH[OF this] obtain d f where d: "dn = d0 @ d" "failed = f0 @ e # f" "subseq d ts"
      "TapIsolated t m' = (if t \<in> set d then on else TapIsolated t m1)" by auto
    moreover have "d \<noteq> x # ts" using d(3) subseq_order.antisym by (metis list_emb_length not_less_eq_eq length_Cons order_refl)
    ultimately show ?thesis using SetTapIsolated_flag(2)[of x on m m1 e t] s Some
      by (intro exI[of _ d] exI[of _ "e # f"]) auto
  qed
qed simp

lemma enf_set_spec:
  assumes "enf_set ts on m = (m', dn, err)"
  shows "subseq dn ts" "err = None \<longleftrightarrow> dn = ts" "TapIsolated t m' = (if t \<in> set dn then on else TapIsolated t m)"
proof -
  obtain m1 d f where l: "enf_set_loop ts on m [] [] = (m1, d, f)" by (metis prod.exhaust)
  then have "m' = m1" "dn = d" "err = (if f = [] then None else Some (Join f ''; ''))"
    using assms by (auto simp: enf_set_def)
  then show "subseq dn ts" "err = None \<longleftrightarrow> dn = ts" "TapIsolated t m' = (if t \<in> set dn then on else TapIsolated t m)"
    using enf_set_loop_spec[OF l, of t] by auto
qed

interpretation tap_enforcer: enforcer enf_Isolate enf_Release TapIsolated
proof unfold_locales
  fix taps k k' dn err t
  show "enf_Isolate taps k = (k', dn, err) \<Longrightarrow> TapIsolated t k' \<longleftrightarrow> t \<in> set dn \<or> TapIsolated t k"
    "enf_Release taps k = (k', dn, err) \<Longrightarrow> TapIsolated t k' \<longleftrightarrow> t \<notin> set dn \<and> TapIsolated t k"
    unfolding enf_Isolate_def enf_Release_def using enf_set_spec(3) by simp_all
  show "enf_Isolate taps k = (k', dn, err) \<Longrightarrow> subseq dn taps \<and> (err = None \<longleftrightarrow> dn = taps)"
    "enf_Release taps k = (k', dn, err) \<Longrightarrow> subseq dn taps \<and> (err = None \<longleftrightarrow> dn = taps)"
    unfolding enf_Isolate_def enf_Release_def using enf_set_spec(1,2) by blast+
qed

lemma drop_stale_frame [simp]: "tm_taps (drop_stale i w4 w6 m) = tm_taps m"
  "km_policy (km_maps (drop_stale i w4 w6 m)) = km_policy (km_maps m)"
  unfolding drop_stale_def by simp (rule bpf_each_const, auto)

lemma puts_const: "km_policy (km_maps (fst (bpf_all (map Put4 w4 @ map Put6 w6) m))) = km_policy (km_maps m)"
  by (rule bpf_all_const) auto

text \<open>\<open>SetTapEgress\<close> in outline: refused before anything, stopped while adding networks, stopped at the mode,
  or done.\<close>

lemma SetTapEgress_cases:
  assumes "SetTapEgress name mode nets m = (m', err)"
  obtains (refused) e where "err = Some e" "m' = m"
  | (adding) e where "err = Some e" "tm_taps m' = tm_taps m" "km_policy (km_maps m') = km_policy (km_maps m)"
  | (mode) e t where "err = Some e" "map_of (tm_taps m) name = Some t"
      "tm_taps m' = AList.update name (if tl_quarantine t then t\<lparr>tl_quarantine := False, tl_isolated := False\<rparr> else t) (tm_taps m)"
      "km_policy (km_maps m') = km_policy (km_maps m)"
  | (took) t t' where "err = None" "map_of (tm_taps m) name = Some t"
      "t' = (if tl_quarantine t then t\<lparr>tl_quarantine := False, tl_isolated := False\<rparr> else t)"
      "tm_taps m' = AList.update name (t'\<lparr>tl_egress := mode\<rparr>) (AList.update name t' (tm_taps m))"
      "km_policy (km_maps m') =
         AList.update (tl_ifindex t) \<lparr>pol_isolated = flag (tl_isolated t'), pol_egress = mode\<rparr> (km_policy (km_maps m))"
proof (cases "map_of (tm_taps m) name")
  case None
  then show thesis using assms refused by (auto simp: SetTapEgress_def)
next
  case (Some t)
  define t' where "t' = (if tl_quarantine t then t\<lparr>tl_quarantine := False, tl_isolated := False\<rparr> else t)"
  obtain w4 w6 where w: "egressKeys (tl_ifindex t) nets = (w4, w6)" by fastforce
  obtain m1 ok where a: "bpf_all (map Put4 w4 @ map Put6 w6) m = (m1, ok)" by fastforce
  have m1: "tm_taps m1 = tm_taps m" "km_policy (km_maps m1) = km_policy (km_maps m)"
    using bpf_all_frame(1)[of "map Put4 w4 @ map Put6 w6" m] puts_const[of w4 w6 m] a by auto
  let ?op = "PutPolicy (tl_ifindex t') \<lparr>pol_isolated = flag (tl_isolated t'), pol_egress = mode\<rparr>"
  obtain m2 ok2 where b: "bpf_do ?op (put_tap name t' m1) = (m2, ok2)" by fastforce
  have "tm_taps m2 = tm_taps (put_tap name t' m1)" using bpf_do_frame(1)[of ?op "put_tap name t' m1"] b by simp
  then have m2: "tm_taps m2 = AList.update name t' (tm_taps m)" "tl_ifindex t' = tl_ifindex t"
    using m1(1) by (simp_all add: put_tap_def t'_def)
  consider "\<not> tm_egress_maps m \<or> mode > EgressEnforce" | "tm_egress_maps m" "mode \<le> EgressEnforce" "\<not> ok"
    | "tm_egress_maps m" "mode \<le> EgressEnforce" ok "\<not> ok2" | "tm_egress_maps m" "mode \<le> EgressEnforce" ok ok2
    by fastforce
  then show thesis
  proof cases
    case 1
    then show thesis using assms Some refused by (auto simp: SetTapEgress_def split: if_splits)
  next
    case 2
    then show thesis using assms Some w a m1 adding by (auto simp: SetTapEgress_def split: if_splits)
  next
    case 3
    then have "err = Some map_error" "m' = m2"
      using assms Some w a b by (auto simp: SetTapEgress_def set_egress_mode_def t'_def Let_def split: if_splits)
    then show thesis using mode[of map_error t] Some m2 bpf_do_False[of ?op] b 3 m1 t'_def by simp
  next
    case 4
    then have r: "err = None" "m' = drop_stale (tl_ifindex t') w4 w6 (put_tap name (t'\<lparr>tl_egress := mode\<rparr>) m2)"
      using assms Some w a b by (auto simp: SetTapEgress_def set_egress_mode_def t'_def Let_def split: if_splits)
    have "km_policy (km_maps m2) = AList.update (tl_ifindex t) \<lparr>pol_isolated = flag (tl_isolated t'), pol_egress = mode\<rparr> (km_policy (km_maps m))"
      using bpf_do_True[of ?op] b 4 m1 m2 by simp
    then show thesis using took[of t t'] r Some m2 by (simp add: put_tap_def t'_def)
  qed
qed

interpretation tap_egress: egress_kernel SetTapEgress TapEgress
proof unfold_locales
  fix t t' mode nets k k' e
  show "SetTapEgress t mode nets k = (k', None) \<Longrightarrow> TapEgress t k' = mode"
    by (erule SetTapEgress_cases) (simp_all add: TapEgress_def)
  show "SetTapEgress t mode nets k = (k', Some e) \<Longrightarrow> TapEgress t k' = TapEgress t k"
    by (erule SetTapEgress_cases) (simp_all add: TapEgress_def)
  assume ne: "t' \<noteq> t"
  obtain k1 err where r: "SetTapEgress t mode nets k = (k1, err)" by fastforce
  from r have "TapEgress t' k1 = TapEgress t' k" by (rule SetTapEgress_cases) (simp_all add: TapEgress_def ne)
  then show "TapEgress t' (fst (SetTapEgress t mode nets k)) = TapEgress t' k" using r by simp
qed

section \<open>What is reported is what the kernel does\<close>

definition kernel_policy :: "u32 \<Rightarrow> bpf_maps \<Rightarrow> tapPolicyC" where
  "kernel_policy i maps = (case map_of (km_policy maps) i of None \<Rightarrow> \<lparr>pol_isolated = 0, pol_egress = 0\<rparr> | Some p \<Rightarrow> p)"

definition tap_inv :: "tapMgr \<Rightarrow> bool" where
  "tap_inv m \<longleftrightarrow>
     (\<forall>a s b t. map_of (tm_taps m) a = Some s \<longrightarrow> map_of (tm_taps m) b = Some t \<longrightarrow> tl_ifindex s = tl_ifindex t \<longrightarrow> a = b) \<and>
     (\<forall>a s. map_of (tm_taps m) a = Some s \<longrightarrow> tl_egress s = pol_egress (kernel_policy (tl_ifindex s) (km_maps m)))"

lemma tap_inv_update:
  assumes "tap_inv m" "map_of (tm_taps m) name = Some t" "tl_ifindex t' = tl_ifindex t"
    and "tm_taps m' = AList.update name t' (tm_taps m)"
    and "tl_egress t' = pol_egress (kernel_policy (tl_ifindex t) (km_maps m'))"
    and "\<And>i. i \<noteq> tl_ifindex t \<Longrightarrow> kernel_policy i (km_maps m') = kernel_policy i (km_maps m)"
  shows "tap_inv m'"
proof -
  have inj: "map_of (tm_taps m) a = Some s \<Longrightarrow> a \<noteq> name \<Longrightarrow> tl_ifindex s \<noteq> tl_ifindex t" for a s
    using assms(1,2) unfolding tap_inv_def by blast
  have inj2: "map_of (tm_taps m) a = Some s \<Longrightarrow> map_of (tm_taps m) b = Some u \<Longrightarrow> tl_ifindex s = tl_ifindex u \<Longrightarrow> a = b" for a s b u
    using assms(1) unfolding tap_inv_def by blast
  have mir: "map_of (tm_taps m) a = Some s \<Longrightarrow> tl_egress s = pol_egress (kernel_policy (tl_ifindex s) (km_maps m))" for a s
    using assms(1) unfolding tap_inv_def by blast
  show ?thesis unfolding tap_inv_def assms(4) map_of_update
  proof (intro conjI allI impI)
    fix a s b u assume "((map_of (tm_taps m))(name \<mapsto> t')) a = Some s" "((map_of (tm_taps m))(name \<mapsto> t')) b = Some u"
      "tl_ifindex s = tl_ifindex u"
    moreover have "a = name \<Longrightarrow> b \<noteq> name \<Longrightarrow> False" using calculation inj[of b u] assms(3) by auto
    moreover have "b = name \<Longrightarrow> a \<noteq> name \<Longrightarrow> False" using calculation inj[of a s] assms(3) by auto
    ultimately show "a = b" using inj2[of a s b u] by (auto split: if_splits)
  next
    fix a s assume "((map_of (tm_taps m))(name \<mapsto> t')) a = Some s"
    then show "tl_egress s = pol_egress (kernel_policy (tl_ifindex s) (km_maps m'))"
      using inj mir assms(3,5,6) by (cases "a = name") auto
  qed
qed

lemma kernel_policy_put [simp]: "kernel_policy i (bpf_apply (PutPolicy j p) maps) = (if i = j then p else kernel_policy i maps)"
  by (simp add: kernel_policy_def)

lemma kernel_policy_cong: "km_policy maps = km_policy maps' \<Longrightarrow> kernel_policy i maps = kernel_policy i maps'"
  by (simp add: kernel_policy_def)

lemma tap_inv_same: "tap_inv m \<Longrightarrow> tm_taps m' = tm_taps m \<Longrightarrow> km_policy (km_maps m') = km_policy (km_maps m) \<Longrightarrow> tap_inv m'"
  using kernel_policy_cong[of "km_maps m'" "km_maps m"] by (simp add: tap_inv_def)

lemma tap_inv_SetTapIsolated [inv_pres]:
  assumes "tap_inv m"
  shows "tap_inv (fst (SetTapIsolated name on m))"
proof -
  obtain m' err where r: "SetTapIsolated name on m = (m', err)" by fastforce
  from SetTapIsolated_cases[OF r] have "tap_inv m'"
  proof (elim disjE exE conjE)
    fix t assume t: "map_of (tm_taps m) name = Some t"
      "tm_taps m' = AList.update name (t\<lparr>tl_isolated := on, tl_quarantine := tl_quarantine t \<and> on\<rparr>) (tm_taps m)"
      "km_maps m' = bpf_apply (PutPolicy (tl_ifindex t) \<lparr>pol_isolated = flag on, pol_egress = tl_egress t\<rparr>) (km_maps m)"
    show ?thesis by (rule tap_inv_update[OF assms t(1) _ t(2)]) (simp_all add: t(3) del: bpf_apply.simps)
  qed (use assms tap_inv_same in auto)
  then show ?thesis using r by simp
qed

lemma tap_mirror: "tap_inv m \<Longrightarrow> map_of (tm_taps m) a = Some s \<Longrightarrow> pol_egress (kernel_policy (tl_ifindex s) (km_maps m)) = tl_egress s"
  by (simp add: tap_inv_def)

lemma tap_inv_SetTapQuarantine [inv_pres]:
  assumes "tap_inv m"
  shows "tap_inv (fst (SetTapQuarantine name on m))"
proof (cases "map_of (tm_taps m) name")
  case (Some t)
  let ?t = "t\<lparr>tl_quarantine := on, tl_isolated := on\<rparr>"
  let ?op = "PutPolicy (tl_ifindex t) \<lparr>pol_isolated = flag on, pol_egress = tl_egress t\<rparr>"
  obtain m' ok where r: "bpf_do ?op (put_tap name ?t m) = (m', ok)" by fastforce
  have m': "fst (SetTapQuarantine name on m) = m'" using r Some by (simp add: SetTapQuarantine_def Let_def)
  have "tm_taps m' = tm_taps (put_tap name ?t m)" using bpf_do_frame(1)[of ?op "put_tap name ?t m"] r by simp
  then have taps: "tm_taps m' = AList.update name ?t (tm_taps m)" by (simp add: put_tap_def)
  have maps: "km_maps m' = (if ok then bpf_apply ?op (km_maps m) else km_maps m)"
    using r bpf_do_True[of ?op "put_tap name ?t m" m'] bpf_do_False[of ?op "put_tap name ?t m" m'] by (cases ok) simp_all
  show ?thesis unfolding m' using maps tap_mirror[OF assms Some]
    by (intro tap_inv_update[OF assms Some _ taps]) (auto simp del: bpf_apply.simps)
qed (use assms in \<open>simp add: SetTapQuarantine_def\<close>)

lemma tap_inv_SetTapEgress [inv_pres]:
  assumes "tap_inv m"
  shows "tap_inv (fst (SetTapEgress name mode nets m))"
proof -
  obtain m' err where r: "SetTapEgress name mode nets m = (m', err)" by fastforce
  from r have "tap_inv m'"
  proof (rule SetTapEgress_cases)
    fix e t assume t: "map_of (tm_taps m) name = Some t"
      "tm_taps m' = AList.update name (if tl_quarantine t then t\<lparr>tl_quarantine := False, tl_isolated := False\<rparr> else t) (tm_taps m)"
      "km_policy (km_maps m') = km_policy (km_maps m)"
    show ?thesis using kernel_policy_cong[OF t(3)] tap_mirror[OF assms t(1)]
      by (intro tap_inv_update[OF assms t(1) _ t(2)]) auto
  next
    fix t t' assume t: "map_of (tm_taps m) name = Some t"
      "t' = (if tl_quarantine t then t\<lparr>tl_quarantine := False, tl_isolated := False\<rparr> else t)"
      "tm_taps m' = AList.update name (t'\<lparr>tl_egress := mode\<rparr>) (AList.update name t' (tm_taps m))"
      "km_policy (km_maps m') = AList.update (tl_ifindex t) \<lparr>pol_isolated = flag (tl_isolated t'), pol_egress = mode\<rparr> (km_policy (km_maps m))"
    have k: "kernel_policy i (km_maps m') = kernel_policy i (bpf_apply (PutPolicy (tl_ifindex t) \<lparr>pol_isolated = flag (tl_isolated t'), pol_egress = mode\<rparr>) (km_maps m))" for i
      using t(4) by (intro kernel_policy_cong) simp
    have taps: "tm_taps m' = AList.update name (t'\<lparr>tl_egress := mode\<rparr>) (tm_taps m)" using t(3) by simp
    show ?thesis by (rule tap_inv_update[OF assms t(1) _ taps]) (auto simp: k t(2) simp del: bpf_apply.simps)
  qed (use assms tap_inv_same in auto)
  then show ?thesis using r by simp
qed

lemma bpf_each_policy: "(\<forall>op \<in> set ops. \<forall>i p. op \<noteq> PutPolicy i p \<and> op \<noteq> DelPolicy i) \<Longrightarrow>
    km_policy (km_maps (bpf_each ops m)) = km_policy (km_maps m)"
proof (rule bpf_each_const)
  fix op maps assume "\<forall>op \<in> set ops. \<forall>i p. op \<noteq> PutPolicy i p \<and> op \<noteq> DelPolicy i" "op \<in> set ops"
  then show "km_policy (bpf_apply op maps) = km_policy maps" by (cases op) auto
qed

lemma clearEgress_frame [simp]:
  "tm_taps (clearEgressLocked i m) = tm_taps m" "km_policy (km_maps (clearEgressLocked i m)) = km_policy (km_maps m)"
  "tm_pinned (clearEgressLocked i m) = tm_pinned m"
  by (auto simp: clearEgressLocked_def Let_def bpf_each_policy)

lemma kernel_policy_del: "i \<noteq> j \<Longrightarrow> kernel_policy i (bpf_apply (DelPolicy j) maps) = kernel_policy i maps"
  by (simp add: kernel_policy_def map_of_delete)

lemma detach_frame:
  assumes "map_of (tm_taps m) name = Some t"
  shows "tm_taps (detachTapLocked name m) = AList.delete name (tm_taps m)"
    "i \<noteq> tl_ifindex t \<Longrightarrow> kernel_policy i (km_maps (detachTapLocked name m)) = kernel_policy i (km_maps m)"
proof -
  let ?op = "DelPolicy (tl_ifindex t)"
  show "tm_taps (detachTapLocked name m) = AList.delete name (tm_taps m)"
    using assms by (simp add: detachTapLocked_def Let_def)
  obtain m' ok where r: "bpf_do ?op m = (m', ok)" by fastforce
  assume "i \<noteq> tl_ifindex t"
  then have "kernel_policy i (km_maps m') = kernel_policy i (km_maps m)"
    using r bpf_do_True[of ?op m m'] bpf_do_False[of ?op m m'] kernel_policy_del[of i "tl_ifindex t"] by (cases ok) auto
  then show "kernel_policy i (km_maps (detachTapLocked name m)) = kernel_policy i (km_maps m)"
    using assms r kernel_policy_cong[of "km_maps (clearEgressLocked (tl_ifindex t) m')" "km_maps m'" i]
    by (simp add: detachTapLocked_def Let_def)
qed

lemma tap_inv_detach [inv_pres]:
  assumes "tap_inv m"
  shows "tap_inv (detachTapLocked name m)"
proof (cases "map_of (tm_taps m) name")
  case (Some t)
  have inj: "map_of (tm_taps m) a = Some s \<Longrightarrow> a \<noteq> name \<Longrightarrow> tl_ifindex s \<noteq> tl_ifindex t" for a s
    using assms Some unfolding tap_inv_def by blast
  show ?thesis using assms inj detach_frame(2)[OF Some]
    by (auto simp: tap_inv_def detach_frame(1)[OF Some] map_of_delete split: if_splits)
qed (use assms in \<open>simp add: detachTapLocked_def\<close>)

datatype tap_cmd = Isolated string bool | Quarantine string bool | Egress string u8 "ip_prefix list" | Detach string

fun tap_run :: "tapMgr \<Rightarrow> tap_cmd \<Rightarrow> tapMgr" where
  "tap_run m (Isolated name on) = fst (SetTapIsolated name on m)"
| "tap_run m (Quarantine name on) = fst (SetTapQuarantine name on m)"
| "tap_run m (Egress name mode nets) = fst (SetTapEgress name mode nets m)"
| "tap_run m (Detach name) = detachTapLocked name m"

lemma tap_inv_run: "tap_inv m \<Longrightarrow> tap_inv (foldl tap_run m cmds)"
proof (induction cmds arbitrary: m)
  case (Cons c cmds)
  have "tap_inv (tap_run m c)" by (cases c) (simp_all add: inv_pres Cons.prems)
  then show ?case using Cons.IH by simp
qed simp


lemma tap_inv_one: "tap_inv (one_tap\<lparr>km_faults := fs\<rparr>)"
  by (simp add: tap_inv_def one_tap_def kernel_policy_def)


section \<open>A change that the kernel takes\<close>

abbreviation no_faults :: "tapMgr \<Rightarrow> bool" where
  "no_faults m \<equiv> True \<notin> set (km_faults m)"

lemma bpf_do_no_fault:
  assumes "no_faults m"
  shows "\<exists>m'. bpf_do op m = (m', True) \<and> no_faults m' \<and> km_maps m' = bpf_apply op (km_maps m)"
  using assms by (auto simp: bpf_do_def Let_def split: list.split bool.split)

lemma bpf_all_no_fault:
  "no_faults m \<Longrightarrow> \<exists>m'. bpf_all ops m = (m', True) \<and> no_faults m' \<and> km_maps m' = foldl (\<lambda>x op. bpf_apply op x) (km_maps m) ops"
proof (induction ops arbitrary: m)
  case (Cons op ops)
  then show ?case using bpf_do_no_fault[OF Cons.prems, of op] by fastforce
qed simp

lemma bpf_each_no_fault:
  "no_faults m \<Longrightarrow> no_faults (bpf_each ops m) \<and> km_maps (bpf_each ops m) = foldl (\<lambda>x op. bpf_apply op x) (km_maps m) ops"
proof (induction ops arbitrary: m)
  case (Cons op ops)
  then show ?case using bpf_do_no_fault[OF Cons.prems, of op] by fastforce
qed simp

lemma foldl_Del4:
  "km_egress4 (foldl (\<lambda>x op. bpf_apply op x) maps (map Del4 ks)) = filter (\<lambda>k. k \<notin> set ks) (km_egress4 maps)"
  "km_egress6 (foldl (\<lambda>x op. bpf_apply op x) maps (map Del4 ks)) = km_egress6 maps"
  by (induction ks arbitrary: maps) (auto simp: removeAll_filter_not_eq intro: filter_cong)

lemma foldl_Del6:
  "km_egress6 (foldl (\<lambda>x op. bpf_apply op x) maps (map Del6 ks)) = filter (\<lambda>k. k \<notin> set ks) (km_egress6 maps)"
  "km_egress4 (foldl (\<lambda>x op. bpf_apply op x) maps (map Del6 ks)) = km_egress4 maps"
  by (induction ks arbitrary: maps) (auto simp: removeAll_filter_not_eq intro: filter_cong)

lemma drop_stale_no_fault:
  assumes "no_faults m" "set w4 \<subseteq> set (km_egress4 (km_maps m))" "set w6 \<subseteq> set (km_egress6 (km_maps m))"
  shows "k \<in> set (km_egress4 (km_maps (drop_stale i w4 w6 m))) \<longleftrightarrow>
      k \<in> set w4 \<or> k4_ifindex k \<noteq> i \<and> k \<in> set (km_egress4 (km_maps m))"
    "k6 \<in> set (km_egress6 (km_maps (drop_stale i w4 w6 m))) \<longleftrightarrow>
      k6 \<in> set w6 \<or> k6_ifindex k6 \<noteq> i \<and> k6 \<in> set (km_egress6 (km_maps m))"
  using assms(2,3) unfolding drop_stale_def
  by (auto simp: bpf_each_no_fault[OF assms(1)] foldl_Del4 foldl_Del6)

lemma egressKeys_ifindex: "k \<in> set (fst (egressKeys i nets)) \<Longrightarrow> k4_ifindex k = i"
  "k6 \<in> set (snd (egressKeys i nets)) \<Longrightarrow> k6_ifindex k6 = i"
  by (auto simp: egressKeys_def egress_key4_def egress_key6_def map_filter_def split: option.splits addr.splits)

text \<open>
  When the kernel takes every update, \<open>SetTapEgress\<close> succeeds and is exact: the tap is in the mode asked
  for, the networks the kernel holds for its interface are exactly those of the request, and nothing any other
  interface has (its networks, its mode, its isolation) changes.
\<close>

theorem SetTapEgress_exact:
  assumes "no_faults m" "map_of (tm_taps m) name = Some t" "tm_egress_maps m" "mode \<le> EgressEnforce"
    and "SetTapEgress name mode nets m = (m', err)"
  shows "err = None \<and> TapEgress name m' = mode \<and>
    {k \<in> set (km_egress4 (km_maps m')). k4_ifindex k = tl_ifindex t} = set (fst (egressKeys (tl_ifindex t) nets)) \<and>
    {k \<in> set (km_egress6 (km_maps m')). k6_ifindex k = tl_ifindex t} = set (snd (egressKeys (tl_ifindex t) nets)) \<and>
    (\<forall>k. k4_ifindex k \<noteq> tl_ifindex t \<longrightarrow> (k \<in> set (km_egress4 (km_maps m')) \<longleftrightarrow> k \<in> set (km_egress4 (km_maps m)))) \<and>
    (\<forall>k. k6_ifindex k \<noteq> tl_ifindex t \<longrightarrow> (k \<in> set (km_egress6 (km_maps m')) \<longleftrightarrow> k \<in> set (km_egress6 (km_maps m)))) \<and>
    (\<forall>i. i \<noteq> tl_ifindex t \<longrightarrow> kernel_policy i (km_maps m') = kernel_policy i (km_maps m))"
proof -
  define i where "i = tl_ifindex t"
  define t' where "t' = (if tl_quarantine t then t\<lparr>tl_quarantine := False, tl_isolated := False\<rparr> else t)"
  obtain w4 w6 where w: "egressKeys i nets = (w4, w6)" by fastforce
  obtain m1 where a: "bpf_all (map Put4 w4 @ map Put6 w6) m = (m1, True)" "no_faults m1"
    using bpf_all_no_fault[OF assms(1)] by blast
  let ?op = "PutPolicy i \<lparr>pol_isolated = flag (tl_isolated t'), pol_egress = mode\<rparr>"
  obtain m2 where b: "bpf_do ?op (put_tap name t' m1) = (m2, True)" "no_faults m2" "km_maps m2 = bpf_apply ?op (km_maps m1)"
    using bpf_do_no_fault[of "put_tap name t' m1" ?op] a(2) by (auto simp: put_tap_def)
  let ?m3 = "put_tap name (t'\<lparr>tl_egress := mode\<rparr>) m2"
  have t'i: "tl_ifindex t' = i" by (simp add: t'_def i_def)
  have r: "err = None" "m' = drop_stale i w4 w6 ?m3"
    using assms(2-5) w a(1) b(1) t'i by (auto simp: SetTapEgress_def set_egress_mode_def t'_def i_def Let_def split: if_splits)
  have sets: "set (km_egress4 (km_maps ?m3)) = set w4 \<union> set (km_egress4 (km_maps m))"
    "set (km_egress6 (km_maps ?m3)) = set w6 \<union> set (km_egress6 (km_maps m))"
    using puts_all[OF a(1)] b(3) by simp_all
  have nf: "no_faults ?m3" using b(2) by (simp add: put_tap_def)
  have sub: "set w4 \<subseteq> set (km_egress4 (km_maps ?m3))" "set w6 \<subseteq> set (km_egress6 (km_maps ?m3))" unfolding sets by blast+
  have d: "k \<in> set (km_egress4 (km_maps m')) \<longleftrightarrow> k \<in> set w4 \<or> k4_ifindex k \<noteq> i \<and> k \<in> set (km_egress4 (km_maps m))"
    "k6 \<in> set (km_egress6 (km_maps m')) \<longleftrightarrow> k6 \<in> set w6 \<or> k6_ifindex k6 \<noteq> i \<and> k6 \<in> set (km_egress6 (km_maps m))" for k k6
    unfolding r(2) drop_stale_no_fault[OF nf sub] unfolding sets by auto
  have idx: "\<And>k. k \<in> set w4 \<Longrightarrow> k4_ifindex k = i" "\<And>k. k \<in> set w6 \<Longrightarrow> k6_ifindex k = i"
    using egressKeys_ifindex[of _ i nets] w by auto
  have pol: "\<And>j. j \<noteq> i \<Longrightarrow> kernel_policy j (km_maps m') = kernel_policy j (km_maps m)"
    using puts_const[of w4 w6 m] a(1) b(3) r(2) by (simp add: kernel_policy_def)
  show ?thesis unfolding i_def[symmetric] w fst_conv snd_conv
    using r(1) idx pol tap_egress.kset_ok[of name mode nets m m'] assms(5) by (auto simp: d)
qed

theorem SetTapEgress_exact_witness:
  "snd (SetTapEgress ''vnet0'' 2 [net_10_1] one_tap) = None \<and>
   {k \<in> set (km_egress4 (km_maps (fst (SetTapEgress ''vnet0'' 2 [net_10_1] one_tap)))). k4_ifindex k = 7} =
     {\<lparr>k4_len = 48, k4_ifindex = 7, k4_addr = 0x0a010000\<rparr>}"
proof -
  have t: "map_of (tm_taps one_tap) ''vnet0'' = Some \<lparr>tl_ifindex = 7, tl_isolated = False, tl_egress = 1, tl_quarantine = False\<rparr>"
    "no_faults one_tap" "tm_egress_maps one_tap" by (simp_all add: one_tap_def)
  have m: "(2 :: u8) \<le> 2" by simp
  have k: "set (fst (egressKeys 7 [net_10_1])) = {\<lparr>k4_len = 48, k4_ifindex = 7, k4_addr = 0x0a010000\<rparr>}" by code_simp
  show ?thesis
    using SetTapEgress_exact[OF t(2,1,3) m prod.collapse[symmetric], of "[net_10_1]"] k by simp
qed

section \<open>Shutting down\<close>

text \<open>What the kernel holds for an interface.\<close>

definition kernel_view :: "u32 \<Rightarrow> bpf_maps \<Rightarrow> tapPolicyC \<times> egress4Key list \<times> egress6Key list" where
  "kernel_view i maps =
     (kernel_policy i maps, filter (\<lambda>k. k4_ifindex k = i) (km_egress4 maps), filter (\<lambda>k. k6_ifindex k = i) (km_egress6 maps))"

lemma removeAll_filter_other: "\<not> P k \<Longrightarrow> filter P (removeAll k xs) = filter P xs"
  by (induction xs) auto

lemma clearEgress_view:
  assumes "i \<noteq> j"
  shows "kernel_view i (km_maps (clearEgressLocked j m)) = kernel_view i (km_maps m)"
proof -
  have "kernel_view i (km_maps (bpf_each ops m)) = kernel_view i (km_maps m)"
    if "\<forall>op \<in> set ops. (\<exists>k. op = Del4 k \<and> k4_ifindex k = j) \<or> (\<exists>k. op = Del6 k \<and> k6_ifindex k = j)" for ops m
    using that assms by (intro bpf_each_const) (force simp: kernel_view_def kernel_policy_def removeAll_filter_other)
  then show ?thesis by (simp add: clearEgressLocked_def Let_def)
qed

lemma detach_view:
  assumes "\<And>t. map_of (tm_taps m) name = Some t \<Longrightarrow> tl_ifindex t \<noteq> i"
  shows "kernel_view i (km_maps (detachTapLocked name m)) = kernel_view i (km_maps m)"
proof (cases "map_of (tm_taps m) name")
  case (Some t)
  let ?op = "DelPolicy (tl_ifindex t)"
  obtain m' ok where r: "bpf_do ?op m = (m', ok)" by fastforce
  have ne: "i \<noteq> tl_ifindex t" using assms Some by auto
  have "kernel_view i (bpf_apply ?op maps) = kernel_view i maps" for maps
    using kernel_policy_del[OF ne] by (simp add: kernel_view_def)
  then have "kernel_view i (km_maps m') = kernel_view i (km_maps m)"
    using r bpf_do_True[of ?op m m'] bpf_do_False[of ?op m m'] by (cases ok) (auto simp del: bpf_apply.simps)
  then show ?thesis using Some r clearEgress_view[OF ne] by (simp add: detachTapLocked_def Let_def)
qed (simp add: detachTapLocked_def)

lemma detach_taps: "tm_taps (detachTapLocked name m) = (if map_of (tm_taps m) name = None then tm_taps m else AList.delete name (tm_taps m))"
  "tm_pinned (detachTapLocked name m) = tm_pinned m"
  by (simp_all add: detachTapLocked_def Let_def split: option.split)

lemma shutdown_loop_view:
  assumes "\<And>a s. map_of (tm_taps m) a = Some s \<Longrightarrow> a \<noteq> name \<Longrightarrow> tl_ifindex s \<noteq> i"
    and "\<And>s. (name, s) \<in> set ts \<Longrightarrow> tap_kept m s"
    and "shutdown_loop ts m k d = (m', k', d')"
  shows "kernel_view i (km_maps m') = kernel_view i (km_maps m)"
  using assms
proof (induction ts m k d rule: shutdown_loop.induct)
  case (2 a s ts m k d)
  show ?case
  proof (cases "tap_kept m s")
    case True
    then show ?thesis using "2.IH"(1)[OF True] "2.prems" by simp
  next
    case False
    then have ne: "a \<noteq> name" using "2.prems"(2) by auto
    let ?m = "detachTapLocked a m"
    have sub: "map_of (tm_taps ?m) b = Some u \<Longrightarrow> map_of (tm_taps m) b = Some u" for b u
      by (auto simp: detach_taps map_of_delete split: if_splits)
    have v: "kernel_view i (km_maps ?m) = kernel_view i (km_maps m)" using "2.prems"(1) ne by (intro detach_view) auto
    have kept: "tap_kept ?m u = tap_kept m u" for u by (simp add: tap_kept_def detach_taps)
    have "kernel_view i (km_maps m') = kernel_view i (km_maps ?m)"
    proof (rule "2.IH"(2)[OF False])
      show "\<And>b u. map_of (tm_taps ?m) b = Some u \<Longrightarrow> b \<noteq> name \<Longrightarrow> tl_ifindex u \<noteq> i"
        using "2.prems"(1) sub by blast
      show "\<And>u. (name, u) \<in> set ts \<Longrightarrow> tap_kept ?m u" unfolding kept using "2.prems"(2) by simp
      show "shutdown_loop ts ?m k (Suc d) = (m', k', d')" using "2.prems"(3) False by simp
    qed
    then show ?thesis using v by simp
  qed
qed simp



text \<open>
  The isolation flag, unlike the egress mode, can be reported wrongly: writing a policy to a quarantined
  tap forgets the quarantine before the kernel takes the policy, so when the kernel refuses the mode the tap
  goes on being dropped by the kernel while \<open>TapIsolated\<close> says it is not isolated.
\<close>

theorem quarantine_forgotten_too_early:
  "TapIsolated ''vnet0'' (foldl tap_run (one_tap\<lparr>km_faults := [False, False, True]\<rparr>)
     [Quarantine ''vnet0'' True, Egress ''vnet0'' 2 [net_10_1]]) = False \<and>
   pol_isolated (kernel_policy 7 (km_maps (foldl tap_run (one_tap\<lparr>km_faults := [False, False, True]\<rparr>)
     [Quarantine ''vnet0'' True, Egress ''vnet0'' 2 [net_10_1]]))) = 1"
  by code_simp

section \<open>A tap that is up\<close>

definition tap_up :: "string \<Rightarrow> tapMgr \<Rightarrow> bool" where
  "tap_up name m \<longleftrightarrow> no_faults m \<and> tm_egress_maps m \<and> map_of (tm_taps m) name \<noteq> None"

lemma drop_stale_up: "no_faults m \<Longrightarrow> no_faults (drop_stale i w4 w6 m)"
  by (simp add: drop_stale_def bpf_each_no_fault)

lemma drop_stale_maps [simp]: "tm_egress_maps (drop_stale i w4 w6 m) = tm_egress_maps m"
  by (simp add: drop_stale_def)

lemma SetTapEgress_up:
  assumes "no_faults m"
  shows "no_faults (fst (SetTapEgress name mode nets m)) \<and>
    tm_egress_maps (fst (SetTapEgress name mode nets m)) = tm_egress_maps m \<and>
    (tap_up name m \<longrightarrow> mode \<le> EgressEnforce \<longrightarrow> snd (SetTapEgress name mode nets m) = None)"
proof (cases "map_of (tm_taps m) name")
  case (Some t)
  define t' where "t' = (if tl_quarantine t then t\<lparr>tl_quarantine := False, tl_isolated := False\<rparr> else t)"
  obtain w4 w6 where w: "egressKeys (tl_ifindex t) nets = (w4, w6)" by fastforce
  obtain m1 where a: "bpf_all (map Put4 w4 @ map Put6 w6) m = (m1, True)" "no_faults m1"
    using bpf_all_no_fault[OF assms] by blast
  let ?op = "PutPolicy (tl_ifindex t') \<lparr>pol_isolated = flag (tl_isolated t'), pol_egress = mode\<rparr>"
  obtain m2 where b: "bpf_do ?op (put_tap name t' m1) = (m2, True)" "no_faults m2"
    using bpf_do_no_fault[of "put_tap name t' m1" ?op] a(2) by (auto simp: put_tap_def)
  have em: "tm_egress_maps m2 = tm_egress_maps m"
  proof -
    have "tm_egress_maps m2 = tm_egress_maps (put_tap name t' m1)" using bpf_do_frame(2)[of ?op "put_tap name t' m1"] b(1) by simp
    then show ?thesis using bpf_all_frame(2)[of "map Put4 w4 @ map Put6 w6" m] a(1) by (simp add: put_tap_def)
  qed
  let ?m3 = "put_tap name (t'\<lparr>tl_egress := mode\<rparr>) m2"
  have r: "SetTapEgress name mode nets m =
      (if \<not> tm_egress_maps m then (m, Some ''the tap program has no egress policy maps'')
       else if mode > EgressEnforce then (m, Some ''egress mode is not off, audit or enforce'')
       else (drop_stale (tl_ifindex t') w4 w6 ?m3, None))"
    using Some w a(1) b(1) by (simp add: SetTapEgress_def set_egress_mode_def t'_def Let_def)
  have nf: "no_faults ?m3" using b(2) by (simp add: put_tap_def)
  have m3: "tm_egress_maps ?m3 = tm_egress_maps m" using em by (simp add: put_tap_def)
  show ?thesis unfolding r using assms drop_stale_up[OF nf] m3 by (auto simp: tap_up_def not_less)
qed (use assms in \<open>simp add: SetTapEgress_def tap_up_def\<close>)

lemma SetTapEgress_keeps_taps:
  assumes "map_of (tm_taps m) t \<noteq> None"
  shows "map_of (tm_taps (fst (SetTapEgress name mode nets m))) t \<noteq> None"
proof -
  obtain m' err where r: "SetTapEgress name mode nets m = (m', err)" by fastforce
  from r have "map_of (tm_taps m') t \<noteq> None" by (rule SetTapEgress_cases) (use assms in auto)
  then show ?thesis using r by simp
qed

interpretation tap_egress_live: egress_kernel_live SetTapEgress TapEgress tap_up
proof unfold_locales
  fix t t' k mode nets
  assume up: "tap_up t k"
  then have nf: "no_faults k" by (simp add: tap_up_def)
  show "mode \<le> 2 \<Longrightarrow> snd (SetTapEgress t mode nets k) = None" using SetTapEgress_up[OF nf, of t mode nets] up by simp
  show "tap_up t (fst (SetTapEgress t' mode nets k))"
    using SetTapEgress_up[OF nf, of t' mode nets] SetTapEgress_keeps_taps[of k t t' mode nets] up by (simp add: tap_up_def)
qed

end
