(* ===== verification/State.thy ===== *)
theory State
  imports EventStore Recorder Caller Tap
begin

text \<open>
  The daemon's shared state, \<open>internal/state/state.go\<close> (events, detections, the audit trail, the scan) and
  isolation, \<open>internal/state/enforce.go\<close>. Each method of \<open>State\<close> is a function from the state to the state;
  the clock is an argument. What happens after the lock is released (writing a record to disk, calling the
  hooks) is a result: the detections or the record handed on. The enforcer is a Go interface value, here a
  record of its methods over the state \<open>'k\<close> of whatever is behind it; \<open>tap_enforcer_if\<close> is the one the
  daemon uses. The rows served to clients (\<open>Status\<close>, \<open>KVM\<close>, \<open>Explain\<close> and the like) are not modelled.
\<close>

section \<open>The scan's view of a VM\<close>

record vm_thread =
  th_tid :: int
  th_comm :: string
  th_role :: string

record vm_info =
  id_name :: string
  id_uuid :: string
  id_runtime :: string
  id_hypervisor :: string
  id_pid :: int
  id_comm :: string
  id_taps :: "string list"
  id_threads :: "int list"
  id_thread_info :: "vm_thread list"
  id_cmdline :: string

definition zero_vm :: vm_info where
  "zero_vm = \<lparr>id_name = '''', id_uuid = '''', id_runtime = '''', id_hypervisor = '''', id_pid = 0, id_comm = '''',
     id_taps = [], id_threads = [], id_thread_info = [], id_cmdline = ''''\<rparr>"

section \<open>Audit records\<close>

record Audit =
  au_ts :: time
  au_actor :: string
  au_action :: string
  au_vm :: string
  au_result :: string
  au_key_id :: string
  au_role :: string
  au_label :: string
  au_remote :: string
  au_request_id :: string
  au_op :: string

record Isolation =
  is_vm :: string
  is_enforcement :: string
  is_applied :: bool
  is_taps :: "string list"
  is_reason :: string
  is_audit :: Audit

definition StampAudit :: "Audit \<Rightarrow> caller \<Rightarrow> Audit" where
  "StampAudit a c = a\<lparr>
     au_actor := Principal c @ (if c_cause c \<noteq> '''' then '' ('' @ c_cause c @ '')'' else ''''),
     au_key_id := c_key_id c, au_role := c_role c, au_label := c_label c, au_remote := c_remote c,
     au_request_id := c_request_id c, au_op := (if c_op c \<noteq> '''' then c_op c else au_op a)\<rparr>"

section \<open>The state\<close>

record program =
  pr_name :: string
  pr_status :: string
  pr_detail :: string

record State =
  st_vms :: "vm_info list"
  st_programs :: "program list"
  st_detections :: "event list"
  st_events :: eventStore
  st_isolations :: "Isolation list"
  st_rec :: recorder
  st_seq :: u64
  st_connects :: "(string, u64) gomap"
  st_ready :: bool
  st_auditFails :: int
  st_auditFailID :: string
  st_tapAttaches :: "(string \<times> duration) list"
  st_suppressed :: u64
  st_changed :: nat

definition new_programs :: "program list" where
  "new_programs = map (\<lambda>n. \<lparr>pr_name = n, pr_status = ''detached'', pr_detail = ''not attached yet''\<rparr>)
     [''kvm'', ''sched'', ''block'', ''net'', ''mem'', ''vmm'', ''tap'', ''drops'']"

definition state_New :: State where
  "state_New = \<lparr>st_vms = [], st_programs = new_programs, st_detections = [], st_events = es_empty, st_isolations = [],
     st_rec = rec_new (int DefaultCap), st_seq = 0, st_connects = [], st_ready = False, st_auditFails = 0,
     st_auditFailID = '''', st_tapAttaches = [], st_suppressed = 0, st_changed = 0\<rparr>"

definition NoteAuditFailure :: "string \<Rightarrow> State \<Rightarrow> State" where
  "NoteAuditFailure i s =
     s\<lparr>st_auditFails := st_auditFails s + 1, st_auditFailID := (if i \<noteq> '''' then i else st_auditFailID s)\<rparr>"

text \<open>The latency is kept as the duration; the code stores it in seconds.\<close>

definition NoteTapAttach :: "string \<Rightarrow> duration \<Rightarrow> State \<Rightarrow> State" where
  "NoteTapAttach vm d s = s\<lparr>st_tapAttaches := keep_newest 256 (st_tapAttaches s @ [(vm, if d < 0 then 0 else d)])\<rparr>"

definition SetVMs :: "vm_info list \<Rightarrow> State \<Rightarrow> State" where
  "SetVMs vms s = s\<lparr>st_vms := vms\<rparr>"

definition SetPrograms :: "program list \<Rightarrow> State \<Rightarrow> State" where
  "SetPrograms p s = s\<lparr>st_programs := p, st_ready := True\<rparr>"

definition FindVM :: "string \<Rightarrow> State \<Rightarrow> vm_info option" where
  "FindVM name s = find (\<lambda>v. id_name v = name) (st_vms s)"

definition AddSuppressed :: "u64 \<Rightarrow> State \<Rightarrow> State" where
  "AddSuppressed n s = s\<lparr>st_suppressed := st_suppressed s + n\<rparr>"

definition add_detection :: "event \<Rightarrow> State \<Rightarrow> State" where
  "add_detection e s = s\<lparr>st_detections := keep_newest MaxEvents (st_detections s @ [e])\<rparr>"

definition count_connect :: "event \<Rightarrow> State \<Rightarrow> State" where
  "count_connect e s =
     (let name = (if vm_name (ev_vm e) = '''' then ''_host'' else vm_name (ev_vm e));
          n = (case map_of (st_connects s) name of None \<Rightarrow> 0 | Some n \<Rightarrow> n)
      in s\<lparr>st_connects := AList.update name (n + 1) (st_connects s)\<rparr>)"

text \<open>
  \<open>AddEvent\<close>: the new state, and the detection that the persister and the hooks are given once the lock is
  released. \<open>None\<close> is a panic of the event list.
\<close>

definition AddEvent :: "event \<Rightarrow> State \<Rightarrow> (State \<times> event option) option" where
  "AddEvent e0 s =
     (let seq = st_seq s + 1; e = (Normalize e0)\<lparr>ev_seq := seq\<rparr>
      in case es_add e (st_events s) of
           None \<Rightarrow> None
         | Some es \<Rightarrow>
            (let s = s\<lparr>st_seq := seq, st_events := es\<rparr>;
                 s = (if ev_kind e = KindDetection then add_detection e s
                      else if ev_kind e = KindTCPConnect then count_connect e s else s);
                 s = s\<lparr>st_rec := rec_add e (st_rec s), st_changed := Suc (st_changed s)\<rparr>
             in Some (s, if ev_kind e = KindDetection then Some e else None)))"

definition EventsSince :: "string \<Rightarrow> u64 \<Rightarrow> State \<Rightarrow> event list" where
  "EventsSince vm since s = es_since vm since (st_events s)"

definition Detections :: "string \<Rightarrow> State \<Rightarrow> event list" where
  "Detections vm s = filter (\<lambda>e. vm = '''' \<or> vm_name (ev_vm e) = vm) (st_detections s)"

definition state_Restore :: "event list \<Rightarrow> Isolation list \<Rightarrow> event list \<Rightarrow> State \<Rightarrow> State" where
  "state_Restore ds isos recorded s = s\<lparr>
     st_detections := keep_newest MaxEvents (st_detections s @ map Normalize ds),
     st_isolations := keep_newest MaxEvents (st_isolations s @ isos),
     st_rec := fold rec_add recorded (st_rec s),
     st_seq := fold (\<lambda>e m. max m (ev_seq e)) (ds @ recorded) (st_seq s)\<rparr>"

section \<open>Isolation\<close>

record 'k Enforcer_if =
  ef_Available :: "'k \<Rightarrow> bool \<times> string"
  ef_AllowList :: "string list"
  ef_Isolated :: "string \<Rightarrow> 'k \<Rightarrow> bool"
  ef_Durable :: "'k \<Rightarrow> bool"
  ef_Hook :: string
  ef_Isolate :: "string list \<Rightarrow> 'k \<Rightarrow> 'k \<times> string list \<times> string option"
  ef_Release :: "string list \<Rightarrow> 'k \<Rightarrow> 'k \<times> string list \<times> string option"

text \<open>The daemon's enforcer, from \<open>internal/observe/tap_bpf.go\<close>.\<close>

definition tap_enforcer_if :: "Enforcer \<Rightarrow> tapMgr Enforcer_if" where
  "tap_enforcer_if e = \<lparr>ef_Available = enf_Available e, ef_AllowList = map prefix_String (enf_allow e),
     ef_Isolated = TapIsolated, ef_Durable = tm_pinned, ef_Hook = ''tcx'',
     ef_Isolate = enf_Isolate, ef_Release = enf_Release\<rparr>"

definition hookOf :: "'k Enforcer_if \<Rightarrow> string" where
  "hookOf e = (if ef_Hook e \<noteq> '''' then ef_Hook e else ''tcx'')"

abbreviation not_in_build :: string where
  "not_in_build \<equiv> ''TC/TCX tap enforcement is not in this build. No program was attached.''"

definition Enforcement :: "'k Enforcer_if option \<Rightarrow> 'k \<Rightarrow> string \<times> string list \<times> string" where
  "Enforcement enf k = (case enf of
      None \<Rightarrow> (''not_attached'', [], not_in_build)
    | Some e \<Rightarrow>
       (let (ok, why) = ef_Available e k
        in if \<not> ok then (''not_attached'', ef_AllowList e, why) else (hookOf e, ef_AllowList e, '''')))"

definition show_err :: "string option \<Rightarrow> string" where
  "show_err err = (case err of None \<Rightarrow> ''<nil>'' | Some e \<Rightarrow> e)"

definition new_isolation :: "string \<Rightarrow> string \<Rightarrow> string \<Rightarrow> time \<Rightarrow> Isolation" where
  "new_isolation action vm actor now =
     \<lparr>is_vm = vm, is_enforcement = ''not_attached'', is_applied = False, is_taps = [], is_reason = '''',
      is_audit = StampAudit \<lparr>au_ts = now, au_actor = '''', au_action = action, au_vm = vm, au_result = ''recorded_only'',
        au_key_id = '''', au_role = '''', au_label = '''', au_remote = '''', au_request_id = '''', au_op = action\<rparr>
        (ParseActor actor)\<rparr>"

definition set_result :: "string \<Rightarrow> Isolation \<Rightarrow> Isolation" where
  "set_result r i = i\<lparr>is_audit := (is_audit i)\<lparr>au_result := r\<rparr>\<rparr>"

definition refuse :: "string \<Rightarrow> Isolation \<Rightarrow> Isolation" where
  "refuse reason i = set_result ''refused'' (i\<lparr>is_reason := reason\<rparr>)"

definition isolate_reason :: "'k Enforcer_if \<Rightarrow> 'k \<Rightarrow> string list \<Rightarrow> string" where
  "isolate_reason e k done =
     ''Traffic to and from '' @ Join done '', '' @ '' is dropped, except ARP, IPv6 neighbour discovery and ''
       @ Join (ef_AllowList e) '', '' @ ''.''
       @ (if ef_Durable e k
          then '' It stays enforced if shukrad stops or crashes. Lift it with `shukractl release`, or with the daemon down, `shukrad -detach-all`.''
          else '' This holds while shukrad runs: it is re-applied after a restart, but the tap is open while the daemon is down, because there is no bpf filesystem to pin it on.'')"

text \<open>What \<open>act\<close> makes of the enforcer's answer.\<close>

definition act_outcome :: "'k Enforcer_if \<Rightarrow> 'k \<Rightarrow> string \<Rightarrow> string list \<Rightarrow> string list \<Rightarrow> string option \<Rightarrow> Isolation \<Rightarrow> Isolation" where
  "act_outcome e k action taps done err i =
     (let verb = (if action = ''isolate'' then ''isolated'' else ''released'');
          i = i\<lparr>is_taps := taps, is_enforcement := hookOf e\<rparr>
      in if err = None \<and> length done = length taps then
           set_result ''applied'' (i\<lparr>is_applied := True,
             is_reason := (if action = ''isolate'' then isolate_reason e k done
                           else ''Isolation lifted on '' @ Join done '', '' @ ''.'')\<rparr>)
         else if done = [] then
           set_result ''failed'' (i\<lparr>is_reason := ''nothing was '' @ verb @ '': '' @ show_err err\<rparr>)
         else
           set_result ''partial'' (i\<lparr>is_reason := verb @ '' '' @ Itoa (int (length done)) @ '' of ''
             @ Itoa (int (length taps)) @ '' taps ('' @ Join done '', '' @ ''): '' @ show_err err\<rparr>))"

text \<open>The decision of \<open>act\<close>, and what it does to the datapath.\<close>

definition act_decide :: "'k Enforcer_if option \<Rightarrow> string \<Rightarrow> string \<Rightarrow> string \<Rightarrow> time \<Rightarrow> State \<Rightarrow> 'k \<Rightarrow> 'k \<times> Isolation" where
  "act_decide enf action vmName actor now s k =
     (let i = new_isolation action vmName actor now
      in case enf of
           None \<Rightarrow> (k, i\<lparr>is_reason := not_in_build\<rparr>)
         | Some e \<Rightarrow>
            (let (ok, why) = ef_Available e k
             in if \<not> ok then (k, refuse why i)
                else case FindVM vmName s of
                  None \<Rightarrow> (k, refuse ''no VM with that name is in the current scan'' i)
                | Some vm \<Rightarrow>
                   (if id_taps vm = [] then
                      (k, refuse ''the VM has no tap interface (user-mode networking has none), so there is nothing to enforce on'' i)
                    else
                      (let (k', done, err) =
                         (if action = ''isolate'' then ef_Isolate e (id_taps vm) k else ef_Release e (id_taps vm) k)
                       in (k', act_outcome e k' action (id_taps vm) done err i)))))"

definition add_isolation :: "Isolation \<Rightarrow> State \<Rightarrow> State" where
  "add_isolation i s = s\<lparr>st_isolations := keep_newest MaxEvents (st_isolations s @ [i])\<rparr>"

text \<open>\<open>act\<close>: the record it returns is also the one handed to the persister.\<close>

definition act :: "'k Enforcer_if option \<Rightarrow> string \<Rightarrow> string \<Rightarrow> string \<Rightarrow> time \<Rightarrow> State \<times> 'k \<Rightarrow> (State \<times> 'k) \<times> Isolation" where
  "act enf action vmName actor now = (\<lambda>(s, k).
     let (k', i) = act_decide enf action vmName actor now s k in ((add_isolation i s, k'), i))"

definition Isolate :: "'k Enforcer_if option \<Rightarrow> string \<Rightarrow> string \<Rightarrow> time \<Rightarrow> State \<times> 'k \<Rightarrow> (State \<times> 'k) \<times> Isolation" where
  "Isolate enf vm actor now = act enf ''isolate'' vm actor now"

definition Release :: "'k Enforcer_if option \<Rightarrow> string \<Rightarrow> string \<Rightarrow> time \<Rightarrow> State \<times> 'k \<Rightarrow> (State \<times> 'k) \<times> Isolation" where
  "Release enf vm actor now = act enf ''release'' vm actor now"

definition last_audits :: "Isolation list \<Rightarrow> (string, Audit) gomap" where
  "last_audits isos = fold (\<lambda>i m. AList.update (is_vm i) (is_audit i) m) isos []"

definition audit_active :: "Audit \<Rightarrow> bool" where
  "audit_active a \<longleftrightarrow> au_action a = ''isolate'' \<and> (au_result a = ''applied'' \<or> au_result a = ''partial'')"

definition ActiveIsolations :: "State \<Rightarrow> string list" where
  "ActiveIsolations s = map fst (filter (\<lambda>(vm, a). audit_active a) (last_audits (st_isolations s)))"

fun reapply_loop :: "'k Enforcer_if \<Rightarrow> string list \<Rightarrow> vm_info list \<Rightarrow> 'k \<Rightarrow> 'k \<times> string list" where
  "reapply_loop e active [] k = (k, [])"
| "reapply_loop e active (vm # vms) k =
     (if id_name vm \<notin> set active then reapply_loop e active vms k
      else
        (let pending = filter (\<lambda>t. \<not> ef_Isolated e t k) (id_taps vm)
         in if pending = [] then reapply_loop e active vms k
            else
              (let (k', done, err) = ef_Isolate e pending k; (k'', acted) = reapply_loop e active vms k'
               in (k'', if done \<noteq> [] then id_name vm # acted else acted))))"

definition ReapplyIsolations :: "'k Enforcer_if option \<Rightarrow> State \<Rightarrow> 'k \<Rightarrow> 'k \<times> string list" where
  "ReapplyIsolations enf s k = (case enf of
      None \<Rightarrow> (k, [])
    | Some e \<Rightarrow> if \<not> fst (ef_Available e k) then (k, []) else reapply_loop e (ActiveIsolations s) (st_vms s) k)"

section \<open>The audit trail and the detections are bounded logs\<close>

interpretation isolation_log: bounded_log add_isolation st_isolations MaxEvents "\<lambda>s. length (st_isolations s) \<le> MaxEvents"
  by unfold_locales (simp_all add: add_isolation_def)

interpretation detection_log: bounded_log add_detection st_detections MaxEvents "\<lambda>s. length (st_detections s) \<le> MaxEvents"
  by unfold_locales (simp_all add: add_detection_def)

section \<open>Adding events\<close>

definition state_inv :: "State \<Rightarrow> bool" where
  "state_inv s \<longleftrightarrow> es_wf (st_events s) \<and> distinct (map ev_seq (es_all (st_events s))) \<and>
     (\<forall>e \<in> set (es_all (st_events s)). ev_seq e \<le> st_seq s) \<and>
     length (st_detections s) \<le> MaxEvents \<and> length (st_isolations s) \<le> MaxEvents"

lemma state_inv_new [simp]: "state_inv state_New"
  by (simp add: state_inv_def state_New_def es_wf_empty) (simp add: es_all_def es_empty_def classes_def)

lemma distinct_submset: "mset xs \<subseteq># mset ys \<Longrightarrow> distinct ys \<Longrightarrow> distinct xs"
  unfolding distinct_count_atmost_1
proof
  fix a assume sub: "mset xs \<subseteq># mset ys" and d: "\<forall>a. count (mset ys) a = (if a \<in> set ys then 1 else 0)"
  have "count (mset xs) a \<le> 1" using mset_subset_eq_count[OF sub, of a] d by (metis le_trans le_refl zero_le_one)
  moreover have "a \<in> set xs \<Longrightarrow> 0 < count (mset xs) a" "a \<notin> set xs \<Longrightarrow> count (mset xs) a = 0"
    by (auto simp: count_mset_0_iff)
  ultimately show "count (mset xs) a = (if a \<in> set xs then 1 else 0)"
    by (metis le_antisym One_nat_def Suc_leI)
qed

lemma es_push_all: "mset (es_all (es_push e s)) = add_mset e (mset (es_all s))"
  by (cases "classOf (ev_kind e)") (simp_all add: es_all_def classes_def)

lemma es_add_sub:
  assumes "es_wf s" "\<forall>x \<in> set (es_all s). ev_seq x < ev_seq e"
  shows "\<exists>s'. es_add e s = Some s' \<and> es_wf s' \<and> mset (es_all s') \<subseteq># add_mset e (mset (es_all s)) \<and> e \<in> set (es_all s')"
  using assms
proof (cases rule: es_add_cases)
  case room
  have "e \<in> set (es_all (es_push e s))" using es_push_all[of e s] by (metis union_single_eq_member set_mset_mset)
  then show ?thesis using room es_push_all[of e s] by auto
next
  case (full v old rest s')
  have "mset (es_all (es_push e s)) = add_mset old (mset (es_all s'))"
    unfolding es_all_def full(8) by (rule mset_concat_classes) (rule full(2))
  then have "mset (es_all s') \<subseteq># add_mset e (mset (es_all s))" using es_push_all[of e s] by simp
  moreover have "e \<in> set (es_by s' (classOf (ev_kind e)))" using full(2,3,8) by (auto simp: append_eq_Cons_conv)
  then have "e \<in> set (es_all s')" by (auto simp: es_all_def)
  ultimately show ?thesis using full(5,6) by blast
qed

lemma AddEvent_split:
  assumes "es_add ((Normalize e)\<lparr>ev_seq := st_seq s + 1\<rparr>) (st_events s) = Some es"
  shows "\<exists>s' d. AddEvent e s = Some (s', d) \<and> st_events s' = es \<and> st_seq s' = st_seq s + 1 \<and>
    st_isolations s' = st_isolations s \<and> st_vms s' = st_vms s \<and>
    (length (st_detections s) \<le> MaxEvents \<longrightarrow> length (st_detections s') \<le> MaxEvents)"
  using assms by (simp add: AddEvent_def Let_def add_detection_def count_connect_def)

lemma fresh_seq:
  assumes "state_inv s" "st_seq s \<noteq> -1"
  shows "\<forall>x \<in> set (es_all (st_events s)). ev_seq x < st_seq s + 1"
proof
  fix x assume "x \<in> set (es_all (st_events s))"
  then have "ev_seq x \<le> st_seq s" using assms(1) by (simp add: state_inv_def)
  moreover have "1 + st_seq s \<noteq> 0" using assms(2) by (metis add.commute eq_neg_iff_add_eq_0)
  then have "st_seq s < st_seq s + 1" using unatSuc[of "st_seq s"] by (simp add: word_less_nat_alt add.commute)
  ultimately show "ev_seq x < st_seq s + 1" by order
qed

lemma state_inv_AddEvent:
  assumes "state_inv s" "st_seq s \<noteq> -1"
  shows "\<exists>s' d. AddEvent e s = Some (s', d) \<and> state_inv s' \<and> st_seq s' = st_seq s + 1 \<and>
    mset (es_all (st_events s')) \<subseteq># add_mset ((Normalize e)\<lparr>ev_seq := st_seq s + 1\<rparr>) (mset (es_all (st_events s))) \<and>
    (Normalize e)\<lparr>ev_seq := st_seq s + 1\<rparr> \<in> set (es_all (st_events s'))"
proof -
  let ?e = "(Normalize e)\<lparr>ev_seq := st_seq s + 1\<rparr>"
  have lt: "\<forall>x \<in> set (es_all (st_events s)). ev_seq x < ev_seq ?e" using fresh_seq[OF assms] by simp
  have wf: "es_wf (st_events s)" "distinct (map ev_seq (es_all (st_events s)))" using assms(1) by (auto simp: state_inv_def)
  obtain es where es: "es_add ?e (st_events s) = Some es" "es_wf es"
    "mset (es_all es) \<subseteq># add_mset ?e (mset (es_all (st_events s)))" "?e \<in> set (es_all es)"
    using es_add_sub[OF wf(1) lt] by blast
  obtain s' d where s': "AddEvent e s = Some (s', d)" "st_events s' = es" "st_seq s' = st_seq s + 1"
    "st_isolations s' = st_isolations s" "length (st_detections s) \<le> MaxEvents \<longrightarrow> length (st_detections s') \<le> MaxEvents"
    using AddEvent_split[OF es(1)] by blast
  have sub: "mset (map ev_seq (es_all es)) \<subseteq># mset (map ev_seq (?e # es_all (st_events s)))"
    using image_mset_subseteq_mono[OF es(3), of ev_seq] by simp
  have "distinct (map ev_seq (?e # es_all (st_events s)))" using wf(2) lt by force
  then have dist: "distinct (map ev_seq (es_all es))"
    by (rule distinct_submset[OF sub])
  have le: "ev_seq x \<le> st_seq s + 1" if "x \<in> set (es_all es)" for x
    using mset_subset_eqD[OF es(3), of x] that lt by (auto intro: order.strict_implies_order)
  show ?thesis using s' es dist le assms(1) by (auto simp: state_inv_def)
qed

lemma filter_single:
  assumes "distinct xs" "x \<in> set xs" "P x" "\<And>y. y \<in> set xs \<Longrightarrow> P y \<Longrightarrow> y = x"
  shows "filter P xs = [x]"
proof -
  have eq: "filter P xs = filter (\<lambda>y. y = x) xs" using assms(3,4) by (intro filter_cong) auto
  show ?thesis unfolding eq using assms(1,2) by (induction xs) (auto simp: filter_empty_conv)
qed

text \<open>
  Adding an event never panics and never hides it from a poller: from a state whose invariant holds and
  whose sequence number has not run out, \<open>AddEvent\<close> succeeds, keeps the invariant, takes the next sequence
  number, and a client that asks for what came after the number it last saw is given exactly the new event,
  normalized and numbered.
\<close>

theorem AddEvent_polled:
  assumes "state_inv s" "st_seq s \<noteq> -1"
  shows "\<exists>s' d. AddEvent e s = Some (s', d) \<and> state_inv s' \<and> st_seq s' = st_seq s + 1 \<and>
    EventsSince '''' (st_seq s) s' = [(Normalize e)\<lparr>ev_seq := st_seq s + 1\<rparr>]"
proof -
  let ?e = "(Normalize e)\<lparr>ev_seq := st_seq s + 1\<rparr>"
  obtain s' d where s': "AddEvent e s = Some (s', d)" "state_inv s'" "st_seq s' = st_seq s + 1"
    "mset (es_all (st_events s')) \<subseteq># add_mset ?e (mset (es_all (st_events s)))" "?e \<in> set (es_all (st_events s'))"
    using state_inv_AddEvent[OF assms] by blast
  have wf: "es_wf (st_events s')" "distinct (map ev_seq (es_all (st_events s')))" using s'(2) by (auto simp: state_inv_def)
  have dist: "distinct (es_all (st_events s'))" using wf(2) by (simp add: distinct_map)
  have old: "ev_seq x \<le> st_seq s" if "x \<in> set (es_all (st_events s))" for x using that assms(1) by (simp add: state_inv_def)
  have only: "x = ?e" if "x \<in> set (es_all (st_events s'))" "st_seq s < ev_seq x" for x
    using mset_subset_eqD[OF s'(4), of x] that old by fastforce
  have lt: "st_seq s < ev_seq ?e" using fresh_seq[OF assms] assms(2)
    by (simp add: word_less_nat_alt) (metis add.commute eq_neg_iff_add_eq_0 lessI unatSuc)
  have "EventsSince '''' (st_seq s) s' = sort_key ev_seq (filter (\<lambda>x. st_seq s < ev_seq x) (es_all (st_events s')))"
    by (simp add: EventsSince_def es_since_spec[OF wf] filter_sort)
  also have "\<dots> = [?e]" using filter_single[OF dist s'(5), of "\<lambda>x. st_seq s < ev_seq x"] lt only by simp
  finally show ?thesis using s' by blast
qed

theorem AddEvent_polled_witness:
  "\<exists>s' d. AddEvent zero_event state_New = Some (s', d) \<and>
     EventsSince '''' 0 s' = [(Normalize zero_event)\<lparr>ev_seq := 1\<rparr>]"
  using AddEvent_polled[OF state_inv_new, of zero_event] by (auto simp: state_New_def)

section \<open>Isolation does what the record says\<close>

text \<open>
  What a record of a request to set isolation to \<open>on\<close> says is true of the datapath before (\<open>k\<close>) and after
  (\<open>k'\<close>): it says applied exactly when it was, and then every tap of the VM is \<open>on\<close>; a request that was
  refused, only recorded or failed changed nothing; and nothing but taps of the VM changed, and only to \<open>on\<close>.
\<close>

definition honest :: "'k Enforcer_if \<Rightarrow> bool \<Rightarrow> string \<Rightarrow> State \<Rightarrow> 'k \<Rightarrow> 'k \<Rightarrow> Isolation \<Rightarrow> bool" where
  "honest E on vmName s k k' i \<longleftrightarrow>
     (is_applied i \<longleftrightarrow> au_result (is_audit i) = ''applied'') \<and>
     (is_applied i \<longrightarrow> (\<exists>v. FindVM vmName s = Some v \<and> id_taps v \<noteq> [] \<and> (\<forall>t \<in> set (id_taps v). ef_Isolated E t k' = on))) \<and>
     (au_result (is_audit i) \<in> {''refused'', ''recorded_only'', ''failed''} \<longrightarrow> (\<forall>t. ef_Isolated E t k' = ef_Isolated E t k)) \<and>
     (\<forall>t. ef_Isolated E t k' \<noteq> ef_Isolated E t k \<longrightarrow>
        ef_Isolated E t k' = on \<and> (\<exists>v. FindVM vmName s = Some v \<and> t \<in> set (id_taps v)))"

text \<open>What the state relies on of an enforcer, and what follows for its own operations.\<close>

locale enforcer_client = enforcer "ef_Isolate E" "ef_Release E" "ef_Isolated E" for E :: "'k Enforcer_if"
begin

lemma new_isolation_fields [simp]:
  "is_applied (new_isolation a v c t) = False" "au_result (is_audit (new_isolation a v c t)) = ''recorded_only''"
  by (simp_all add: new_isolation_def StampAudit_def)

lemma act_outcome_result:
  "au_result (is_audit (act_outcome e k a taps d err i)) =
     (if err = None \<and> length d = length taps then ''applied'' else if d = [] then ''failed'' else ''partial'')"
  "is_applied (act_outcome e k a taps d err i) = (err = None \<and> length d = length taps \<or> is_applied i)"
  by (auto simp: act_outcome_def set_result_def Let_def)

lemma act_cases:
  assumes "act_decide (Some E) action vmName actor now s k = (k', i)"
  obtains (refused) "k' = k" "au_result (is_audit i) = ''refused''" "\<not> is_applied i"
  | (asked) v d err where "FindVM vmName s = Some v" "id_taps v \<noteq> []"
      "(if action = ''isolate'' then ef_Isolate E (id_taps v) k else ef_Release E (id_taps v) k) = (k', d, err)"
      "i = act_outcome E k' action (id_taps v) d err (new_isolation action vmName actor now)"
  using assms
  by (auto simp: act_decide_def Let_def refuse_def set_result_def split: prod.splits if_splits option.splits)

lemma isolate_honest:
  assumes "act_decide (Some E) ''isolate'' vmName actor now s k = (k', i)"
  shows "honest E True vmName s k k' i"
  using assms
proof (cases rule: act_cases)
  case (asked v d err)
  then have r: "ef_Isolate E (id_taps v) k = (k', d, err)" by simp
  note eff = isolate_effect[OF r] and dn = isolate_done[OF r]
  have sub: "t \<in> set d \<Longrightarrow> t \<in> set (id_taps v)" for t using dn subseq_set by metis
  show ?thesis unfolding honest_def asked(4) act_outcome_result using asked(1,2) eff dn sub by auto
qed (auto simp: honest_def)

lemma release_honest:
  assumes "act_decide (Some E) ''release'' vmName actor now s k = (k', i)"
  shows "honest E False vmName s k k' i"
  using assms
proof (cases rule: act_cases)
  case (asked v d err)
  then have r: "ef_Release E (id_taps v) k = (k', d, err)" by simp
  note eff = release_effect[OF r] and dn = release_done[OF r]
  have sub: "t \<in> set d \<Longrightarrow> t \<in> set (id_taps v)" for t using dn subseq_set by metis
  show ?thesis unfolding honest_def asked(4) act_outcome_result using asked(1,2) eff dn sub by auto
qed (auto simp: honest_def)

lemma reapply_mono: "ef_Isolated E t k \<Longrightarrow> ef_Isolated E t (fst (reapply_loop E active vms k))"
proof (induction vms arbitrary: k)
  case (Cons v vms)
  then show ?case using isolate_keeps by (auto simp: Let_def split: prod.splits) (metis fst_conv)
qed simp

lemma reapply_only:
  "ef_Isolated E t (fst (reapply_loop E active vms k)) \<Longrightarrow>
   ef_Isolated E t k \<or> (\<exists>v \<in> set vms. id_name v \<in> set active \<and> t \<in> set (id_taps v))"
proof (induction vms arbitrary: k)
  case (Cons v vms)
  let ?p = "filter (\<lambda>t. \<not> ef_Isolated E t k) (id_taps v)"
  obtain k' d err where r: "ef_Isolate E ?p k = (k', d, err)" by (metis prod.exhaust)
  show ?case
  proof (cases "id_name v \<notin> set active \<or> ?p = []")
    case True
    then have "reapply_loop E active (v # vms) k = reapply_loop E active vms k" by (cases "id_name v \<in> set active") (simp_all add: Let_def)
    then show ?thesis using Cons.IH[of k] Cons.prems by auto
  next
    case False
    then have "ef_Isolated E t (fst (reapply_loop E active vms k'))"
      using Cons.prems r by (auto simp: Let_def split: prod.splits)
    then show ?thesis using Cons.IH[of k'] isolate_only[of t ?p k] r False by auto
  qed
qed simp

end

interpretation tap_client: enforcer_client "tap_enforcer_if e" for e
  by (simp add: enforcer_client_def tap_enforcer_if_def tap_enforcer.enforcer_axioms)


definition web_vm :: vm_info where
  "web_vm = zero_vm\<lparr>id_name := ''web'', id_taps := [''vnet0'']\<rparr>"

definition web_enforcer :: Enforcer where
  "web_enforcer = \<lparr>enf_allow = [net_10_1], enf_allowErr = None\<rparr>"

definition web_state :: State where
  "web_state = state_New\<lparr>st_vms := [web_vm]\<rparr>"


section \<open>Re-applying isolations\<close>

lemma SetTapIsolated_no_fault:
  assumes "no_faults m"
  shows "\<exists>m' err. SetTapIsolated t on m = (m', err) \<and> no_faults m' \<and>
    map fst (tm_taps m') = map fst (tm_taps m) \<and> (err = None \<longleftrightarrow> t \<in> set (map fst (tm_taps m)))"
proof (cases "map_of (tm_taps m) t")
  case None
  then have "t \<notin> set (map fst (tm_taps m))" by (simp add: map_of_eq_None_iff)
  then show ?thesis using assms None by (simp add: SetTapIsolated_def)
next
  case (Some l)
  let ?op = "PutPolicy (tl_ifindex l) \<lparr>pol_isolated = flag on, pol_egress = tl_egress l\<rparr>"
  obtain m1 where m1: "bpf_do ?op m = (m1, True)" "no_faults m1" using bpf_do_no_fault[OF assms] by blast
  have taps: "tm_taps m1 = tm_taps m" using bpf_do_frame(1)[of ?op m] m1(1) by simp
  have t: "t \<in> set (map fst (tm_taps m))" using Some by (force dest: map_of_SomeD)
  then have "map fst (AList.update t l' (tm_taps m)) = map fst (tm_taps m)" for l' by (simp add: update_keys)
  then show ?thesis using Some m1 taps t by (simp add: SetTapIsolated_def put_tap_def)
qed

lemma enf_set_loop_no_fault:
  "no_faults m \<Longrightarrow> \<exists>m' d f. enf_set_loop ts on m d0 f0 = (m', d0 @ d, f0 @ f) \<and> no_faults m' \<and>
    map fst (tm_taps m') = map fst (tm_taps m) \<and> (\<forall>t \<in> set ts. t \<in> set (map fst (tm_taps m)) \<longrightarrow> t \<in> set d)"
proof (induction ts arbitrary: m d0 f0)
  case (Cons x ts)
  obtain m1 err where m1: "SetTapIsolated x on m = (m1, err)" "no_faults m1" "map fst (tm_taps m1) = map fst (tm_taps m)"
    "err = None \<longleftrightarrow> x \<in> set (map fst (tm_taps m))" using SetTapIsolated_no_fault[OF Cons.prems] by blast
  show ?case
  proof (cases err)
    case None
    then show ?thesis using Cons.IH[OF m1(2), of "d0 @ [x]" f0] m1 by fastforce
  next
    case (Some e)
    then show ?thesis using Cons.IH[OF m1(2), of d0 "f0 @ [e]"] m1 by fastforce
  qed
qed simp

lemma enf_Isolate_no_fault:
  assumes "no_faults m" "enf_Isolate ts m = (m', d, err)"
  shows "no_faults m' \<and> map fst (tm_taps m') = map fst (tm_taps m) \<and> (\<forall>t \<in> set ts. t \<in> set (map fst (tm_taps m)) \<longrightarrow> t \<in> set d)"
  using enf_set_loop_no_fault[OF assms(1), of ts True "[]" "[]"] assms(2)
  by (auto simp: enf_Isolate_def enf_set_def)

lemma reapply_restores:
  assumes "no_faults m" "v \<in> set vms" "id_name v \<in> set active" "t \<in> set (id_taps v)" "t \<in> set (map fst (tm_taps m))"
  shows "TapIsolated t (fst (reapply_loop (tap_enforcer_if e) active vms m))"
  using assms
proof (induction vms arbitrary: m)
  case (Cons x vms)
  let ?E = "tap_enforcer_if e"
  let ?p = "filter (\<lambda>t. \<not> ef_Isolated ?E t m) (id_taps x)"
  obtain m' d err where r: "ef_Isolate ?E ?p m = (m', d, err)" by (metis prod.exhaust)
  have nf: "no_faults m'" "map fst (tm_taps m') = map fst (tm_taps m)"
    "\<forall>t \<in> set ?p. t \<in> set (map fst (tm_taps m)) \<longrightarrow> t \<in> set d"
    using enf_Isolate_no_fault[OF Cons.prems(1), of ?p m' d err] r by (auto simp: tap_enforcer_if_def)
  show ?case
  proof (cases "id_name x \<in> set active \<and> ?p \<noteq> []")
    case True
    then have step: "fst (reapply_loop ?E active (x # vms) m) = fst (reapply_loop ?E active vms m')"
      using r by (auto simp: Let_def split: prod.split)
    have "TapIsolated t m'" if "x = v"
      using that Cons.prems(4,5) nf(3) tap_client.isolate_effect[OF r, of t] by (auto simp: tap_enforcer_if_def)
    then show ?thesis unfolding step
      using Cons.IH[OF nf(1) _ Cons.prems(3,4)] Cons.prems(2,5) nf(2) tap_client.reapply_mono[of e t m' active vms]
      by (auto simp: tap_enforcer_if_def)
  next
    case False
    then have step: "reapply_loop ?E active (x # vms) m = reapply_loop ?E active vms m"
      by (cases "id_name x \<in> set active") (simp_all add: Let_def)
    have "TapIsolated t m" if "x = v"
      using that False Cons.prems(3,4) by (auto simp: tap_enforcer_if_def filter_empty_conv)
    then show ?thesis unfolding step
      using Cons.IH[OF Cons.prems(1) _ Cons.prems(3-5)] Cons.prems(2) tap_client.reapply_mono[of e t m active vms]
      by (auto simp: tap_enforcer_if_def)
  qed
qed simp

text \<open>
  After a restart, or when a VM comes back with a new tap, the recorded isolations are made true again and
  nothing else is touched: when isolation is available and the kernel takes its updates, every attached tap of
  every VM in the scan whose latest record is an isolation that took effect is isolated afterwards; a tap that
  was isolated stays so; and a tap is newly isolated only if it belongs to such a VM.
\<close>

theorem ReapplyIsolations_restores:
  assumes "fst (enf_Available e m)"
  shows "(no_faults m \<and> v \<in> set (st_vms s) \<and> id_name v \<in> set (ActiveIsolations s) \<and> t \<in> set (id_taps v) \<and>
      t \<in> set (map fst (tm_taps m)) \<longrightarrow> TapIsolated t (fst (ReapplyIsolations (Some (tap_enforcer_if e)) s m))) \<and>
    (TapIsolated u m \<longrightarrow> TapIsolated u (fst (ReapplyIsolations (Some (tap_enforcer_if e)) s m))) \<and>
    (TapIsolated u (fst (ReapplyIsolations (Some (tap_enforcer_if e)) s m)) \<longrightarrow>
      TapIsolated u m \<or> (\<exists>w \<in> set (st_vms s). id_name w \<in> set (ActiveIsolations s) \<and> u \<in> set (id_taps w)))"
proof -
  have eq: "ReapplyIsolations (Some (tap_enforcer_if e)) s m = reapply_loop (tap_enforcer_if e) (ActiveIsolations s) (st_vms s) m"
    using assms by (simp add: ReapplyIsolations_def tap_enforcer_if_def)
  have iso: "ef_Isolated (tap_enforcer_if e) = TapIsolated" by (simp add: tap_enforcer_if_def)
  show ?thesis unfolding eq
    using reapply_restores[of m v "st_vms s" "ActiveIsolations s" t e]
      tap_client.reapply_mono[of e u m "ActiveIsolations s" "st_vms s", unfolded iso]
      tap_client.reapply_only[of e u "ActiveIsolations s" "st_vms s" m, unfolded iso] by blast
qed

definition isolated_state :: State where
  "isolated_state = fst (fst (act (Some (tap_enforcer_if web_enforcer)) ''isolate'' ''web'' ''ops'' 5 (web_state, one_tap)))"

theorem ReapplyIsolations_restores_witness:
  "TapIsolated ''vnet0'' (fst (ReapplyIsolations (Some (tap_enforcer_if web_enforcer)) isolated_state one_tap))"
proof -
  have 1: "fst (enf_Available web_enforcer one_tap)" by code_simp
  have 2: "no_faults one_tap \<and> web_vm \<in> set (st_vms isolated_state) \<and> id_name web_vm \<in> set (ActiveIsolations isolated_state) \<and>
    ''vnet0'' \<in> set (id_taps web_vm) \<and> ''vnet0'' \<in> set (map fst (tm_taps one_tap))" by code_simp
  show ?thesis using ReapplyIsolations_restores[OF 1] 2 by blast
qed

text \<open>
  A request to release that is refused ends the record of the isolation all the same: after a VM is
  isolated, a release refused because isolation is not available leaves the tap isolated in the kernel, but
  the VM is no longer among the active isolations, so a new tap, or a restart, is not isolated again.
\<close>

theorem refused_release_forgets_isolation:
  "let r1 = act (Some (tap_enforcer_if web_enforcer)) ''isolate'' ''web'' ''ops'' 5 (web_state, one_tap);
       r2 = act (Some (tap_enforcer_if (web_enforcer\<lparr>enf_allow := []\<rparr>))) ''release'' ''web'' ''ops'' 6 (fst r1)
   in ActiveIsolations (fst (fst r1)) = [''web''] \<and> au_result (is_audit (snd r2)) = ''refused'' \<and>
      TapIsolated ''vnet0'' (snd (fst r2)) \<and> ActiveIsolations (fst (fst r2)) = []"
  unfolding Let_def by code_simp

end
