(* ===== verification/Baseline.thy ===== *)
theory Baseline
  imports Netip
begin

text \<open>
  Learned baselines: \<open>internal/baseline/baseline.go\<close> (the store: what each VM normally does, observed,
  trimmed, pruned, listed, saved and loaded) and \<open>internal/baseline/derive.go\<close> (the network of an address, the
  site of a DNS name). A nil
  map and an empty one are the same here; the items of a set are present, as everywhere outside a
  hand-edited file.
\<close>

section \<open>Definitions\<close>

type_synonym base_kind = string

abbreviation Destination :: base_kind where "Destination \<equiv> ''destination''"
abbreviation DNSSuffix :: base_kind where "DNSSuffix \<equiv> ''dns-suffix''"
abbreviation InboundPeer :: base_kind where "InboundPeer \<equiv> ''inbound-peer''"

definition Kinds :: "base_kind list" where
  "Kinds = [Destination, DNSSuffix, InboundPeer]"

record base_options =
  o_learn :: duration
  o_max_items :: int
  o_max_age :: duration
  o_max_alerts :: int

definition DefaultOptions :: base_options where
  "DefaultOptions = \<lparr>o_learn = 24 * hour, o_max_items = 2048, o_max_age = 30 * 24 * hour, o_max_alerts = 20\<rparr>"

record base_item =
  it_first :: time
  it_last :: time

datatype verdict = Learning | Known | New | Capped

record base_result =
  r_verdict :: verdict
  r_cap_reached :: bool

record vm_base =
  b_since :: time
  b_sets :: "(base_kind, (string, base_item) gomap) gomap"
  b_day_start :: time
  b_alerts_day :: int
  b_alerts :: u64
  b_suppressed :: u64

record base_store =
  bs_opts :: base_options
  bs_vms :: "(string, vm_base) gomap"
  bs_dirty :: bool

definition normalise :: "base_options \<Rightarrow> base_options" where
  "normalise opts = \<lparr>
     o_learn = (if o_learn opts \<le> 0 then o_learn DefaultOptions else o_learn opts),
     o_max_items = (if o_max_items opts \<le> 0 then o_max_items DefaultOptions else o_max_items opts),
     o_max_age = (if o_max_age opts \<le> 0 then o_max_age DefaultOptions else o_max_age opts),
     o_max_alerts = (if o_max_alerts opts \<le> 0 then o_max_alerts DefaultOptions else o_max_alerts opts)\<rparr>"

definition NewStore :: "base_options \<Rightarrow> base_store" where
  "NewStore opts = \<lparr>bs_opts = normalise opts, bs_vms = [], bs_dirty = False\<rparr>"

definition SetOptions :: "base_options \<Rightarrow> base_store \<Rightarrow> base_store" where
  "SetOptions opts s = s\<lparr>bs_opts := normalise opts\<rparr>"

definition fresh_vm :: "time \<Rightarrow> vm_base" where
  "fresh_vm now = \<lparr>b_since = now, b_sets = [], b_day_start = now, b_alerts_day = 0, b_alerts = 0, b_suppressed = 0\<rparr>"

text \<open>\<open>Store.vm\<close>: the VM's baseline, or a new one that starts now (the callers store it back).\<close>

definition base_vm :: "string \<Rightarrow> time \<Rightarrow> base_store \<Rightarrow> vm_base" where
  "base_vm name now s = (case map_of (bs_vms s) name of None \<Rightarrow> fresh_vm now | Some b \<Rightarrow> b)"

definition base_set :: "base_kind \<Rightarrow> vm_base \<Rightarrow> (string, base_item) gomap" where
  "base_set k b = (case map_of (b_sets b) k of None \<Rightarrow> [] | Some m \<Rightarrow> m)"

text \<open>The item unseen for longest, the lesser name on a tie, as the loop over the set finds it.\<close>

definition oldest_step :: "string \<times> time \<Rightarrow> string \<times> base_item \<Rightarrow> string \<times> time" where
  "oldest_step = (\<lambda>(oldest, when) (k, it).
     if oldest = '''' \<or> it_last it < when \<or> (it_last it = when \<and> k < oldest)
     then (k, it_last it) else (oldest, when))"

definition oldest_item :: "(string, base_item) gomap \<Rightarrow> string" where
  "oldest_item m = fst (foldl oldest_step ('''', 0) m)"

lemma oldest_step_key: "fst (oldest_step (o0, w0) (k, it)) \<in> {o0, k}"
  by (simp add: oldest_step_def)

lemma oldest_foldl_key: "fst (foldl oldest_step (o0, w0) m) \<in> insert o0 (fst ` set m)"
proof (induction m arbitrary: o0 w0)
  case (Cons p m)
  obtain k it where p: "p = (k, it)" by fastforce
  obtain o1 w1 where 1: "oldest_step (o0, w0) (k, it) = (o1, w1)" by fastforce
  then have "o1 \<in> {o0, k}" using oldest_step_key[of o0 w0 k it] by simp
  then show ?case using Cons[of o1 w1] p 1 by auto
qed simp

lemma oldest_item_key: "m \<noteq> [] \<Longrightarrow> oldest_item m \<in> fst ` set m"
proof -
  assume "m \<noteq> []"
  then obtain k it m' where m: "m = (k, it) # m'" by (metis list.exhaust surj_pair)
  then have "oldest_item m = fst (foldl oldest_step (k, it_last it) m')"
    by (simp add: oldest_item_def oldest_step_def)
  then show ?thesis using oldest_foldl_key[of k "it_last it" m'] m by auto
qed

text \<open>\<open>Store.trim\<close>. The bound is positive in every store (\<open>normalise\<close>), so a set that is over it is not empty.\<close>

function trim :: "int \<Rightarrow> (string, base_item) gomap \<Rightarrow> (string, base_item) gomap" where
  "trim maxItems m =
     (if int (length m) > maxItems \<and> m \<noteq> [] then trim maxItems (AList.delete (oldest_item m) m) else m)"
  by pat_completeness auto
termination
proof (relation "measure (length \<circ> snd)")
  fix maxItems :: int and m :: "(string, base_item) gomap"
  assume "int (length m) > maxItems \<and> m \<noteq> []"
  then have "oldest_item m \<in> fst ` set m" by (simp add: oldest_item_key)
  then have "length (AList.delete (oldest_item m) m) < length m"
    by (auto simp: AList.delete_eq intro!: length_filter_less)
  then show "((maxItems, AList.delete (oldest_item m) m), maxItems, m) \<in> measure (length \<circ> snd)" by simp
qed simp

declare trim.simps [simp del]

abbreviation result :: "verdict \<Rightarrow> base_result" where
  "result v \<equiv> \<lparr>r_verdict = v, r_cap_reached = False\<rparr>"

text \<open>What \<open>Observe\<close> does to the alert counters of a VM once an item is new and learning is over.\<close>

definition judge_new :: "base_options \<Rightarrow> time \<Rightarrow> vm_base \<Rightarrow> vm_base \<times> base_result" where
  "judge_new opts now b0 =
     (let b = (if time_sub now (b_day_start b0) \<ge> 24 * hour
               then b0\<lparr>b_day_start := now, b_alerts_day := 0\<rparr> else b0)
      in if b_alerts_day b \<ge> o_max_alerts opts
         then (b\<lparr>b_suppressed := b_suppressed b + 1\<rparr>, result Capped)
         else
           (let b = b\<lparr>b_alerts_day := b_alerts_day b + 1, b_alerts := b_alerts b + 1\<rparr>
            in (b, \<lparr>r_verdict = New, r_cap_reached = (b_alerts_day b = o_max_alerts opts)\<rparr>)))"

text \<open>An item that is not known: recorded, and judged once the learning period is over.\<close>

definition learn_item :: "base_options \<Rightarrow> base_kind \<Rightarrow> string \<Rightarrow> time \<Rightarrow> vm_base \<Rightarrow> vm_base \<times> base_result" where
  "learn_item opts k item now b0 =
     (let set = AList.update item \<lparr>it_first = now, it_last = now\<rparr> (base_set k b0);
          b = b0\<lparr>b_sets := AList.update k (trim (o_max_items opts) set) (b_sets b0)\<rparr>
      in if time_sub now (b_since b) < o_learn opts then (b, result Learning) else judge_new opts now b)"

definition observe_vm :: "base_options \<Rightarrow> base_kind \<Rightarrow> string \<Rightarrow> time \<Rightarrow> vm_base \<Rightarrow> vm_base \<times> base_result" where
  "observe_vm opts k item now b =
     (case map_of (base_set k b) item of
        Some it \<Rightarrow>
          (if time_sub now (it_last it) \<le> o_max_age opts
           then (b\<lparr>b_sets := AList.update k (AList.update item (it\<lparr>it_last := now\<rparr>) (base_set k b)) (b_sets b)\<rparr>,
                 result Known)
           else learn_item opts k item now b)
      | None \<Rightarrow> learn_item opts k item now b)"

definition Observe :: "string \<Rightarrow> base_kind \<Rightarrow> string \<Rightarrow> time \<Rightarrow> base_store \<Rightarrow> base_store \<times> base_result" where
  "Observe vm k item now s =
     (if item = '''' \<or> vm = '''' then (s, result Known)
      else
        (let (b, r) = observe_vm (bs_opts s) k item now (base_vm vm now s)
         in (s\<lparr>bs_vms := AList.update vm b (bs_vms s), bs_dirty := True\<rparr>, r)))"

definition Forget :: "string \<Rightarrow> base_store \<Rightarrow> base_store \<times> bool" where
  "Forget vm s =
     (let ok = map_of (bs_vms s) vm \<noteq> None
      in (s\<lparr>bs_vms := AList.delete vm (bs_vms s), bs_dirty := bs_dirty s \<or> ok\<rparr>, ok))"

definition stale :: "base_options \<Rightarrow> time \<Rightarrow> string \<times> base_item \<Rightarrow> bool" where
  "stale opts now p \<longleftrightarrow> time_sub now (it_last (snd p)) > o_max_age opts"

definition prune_vm :: "base_options \<Rightarrow> time \<Rightarrow> vm_base \<Rightarrow> vm_base" where
  "prune_vm opts now b = b\<lparr>b_sets := map (\<lambda>(k, m). (k, filter (\<lambda>p. \<not> stale opts now p) m)) (b_sets b)\<rparr>"

definition pruned_of_vm :: "base_options \<Rightarrow> time \<Rightarrow> vm_base \<Rightarrow> nat" where
  "pruned_of_vm opts now b = sum_list (map (\<lambda>(k, m). length (filter (stale opts now) m)) (b_sets b))"

definition Prune :: "time \<Rightarrow> base_store \<Rightarrow> base_store \<times> nat" where
  "Prune now s =
     (let n = sum_list (map (\<lambda>(vm, b). pruned_of_vm (bs_opts s) now b) (bs_vms s))
      in (s\<lparr>bs_vms := map (\<lambda>(vm, b). (vm, prune_vm (bs_opts s) now b)) (bs_vms s),
            bs_dirty := bs_dirty s \<or> 0 < n\<rparr>, n))"

record vm_status =
  vs_vm :: string
  vs_since :: time
  vs_learning :: bool
  vs_learn_until :: time
  vs_counts :: "(base_kind \<times> nat) list"
  vs_alerts_day :: int
  vs_alerts :: u64
  vs_suppressed :: u64

definition status_of :: "base_options \<Rightarrow> time \<Rightarrow> string \<Rightarrow> vm_base \<Rightarrow> vm_status" where
  "status_of opts now name b =
     (let until = b_since b + o_learn opts
      in \<lparr>vs_vm = name, vs_since = b_since b, vs_learning = now < until, vs_learn_until = until,
          vs_counts = map (\<lambda>k. (k, length (base_set k b))) Kinds,
          vs_alerts_day = (if time_sub now (b_day_start b) \<ge> 24 * hour then 0 else b_alerts_day b),
          vs_alerts = b_alerts b, vs_suppressed = b_suppressed b\<rparr>)"

definition base_Status :: "string \<Rightarrow> time \<Rightarrow> base_store \<Rightarrow> vm_status list" where
  "base_Status vm now s =
     sort_key vs_vm (map (\<lambda>(name, b). status_of (bs_opts s) now name b)
       (filter (\<lambda>(name, b). vm = '''' \<or> name = vm) (bs_vms s)))"

record learned =
  l_kind :: base_kind
  l_item :: string
  l_first :: time
  l_last :: time

definition all_items :: "vm_base \<Rightarrow> learned list" where
  "all_items b = concat (map (\<lambda>(k, m). map (\<lambda>(item, it).
     \<lparr>l_kind = k, l_item = item, l_first = it_first it, l_last = it_last it\<rparr>) m) (b_sets b))"

text \<open>\<open>Store.Items\<close>: \<open>None\<close> is Go's nil, for a VM that is not known.\<close>

definition base_Items :: "string \<Rightarrow> int \<Rightarrow> base_store \<Rightarrow> learned list option" where
  "base_Items vm limit s =
     (case map_of (bs_vms s) vm of
        None \<Rightarrow> None
      | Some b \<Rightarrow>
          (let out = sort_key (\<lambda>l. (- l_last l, l_kind l, l_item l)) (all_items b)
           in Some (if 0 < limit \<and> limit < int (length out) then take (nat limit) out else out)))"

record base_data =
  bd_version :: int
  bd_vms :: "(string, vm_base option) gomap"

definition base_Snapshot :: "base_store \<Rightarrow> base_store \<times> base_data option" where
  "base_Snapshot s =
     (if \<not> bs_dirty s then (s, None)
      else (s\<lparr>bs_dirty := False\<rparr>,
            Some \<lparr>bd_version = 1, bd_vms = map (\<lambda>(name, b). (name, Some b)) (bs_vms s)\<rparr>))"

definition base_Restore :: "base_data \<Rightarrow> base_store \<Rightarrow> base_store" where
  "base_Restore d s =
     (if bd_version d \<noteq> 1 then s
      else s\<lparr>bs_vms := List.map_filter (\<lambda>(name, b). map_option (Pair name) b) (bd_vms d), bs_dirty := False\<rparr>)"

section \<open>What an address and a name teach\<close>

definition base_Prefix :: "string \<Rightarrow> string" where
  "base_Prefix s = (case ParseAddr (TrimSpace s) of
      None \<Rightarrow> ''''
    | Some a0 \<Rightarrow>
       (let a = Unmap a0
        in case addr_Prefix a (if Is4 a then 24 else 64) of None \<Rightarrow> '''' | Some p \<Rightarrow> prefix_String p))"

definition twoLabelSuffixes :: "string list" where
  "twoLabelSuffixes =
    [''co.uk'', ''org.uk'', ''ac.uk'', ''gov.uk'', ''me.uk'', ''ltd.uk'', ''plc.uk'', ''net.uk'', ''sch.uk'',
     ''com.au'', ''net.au'', ''org.au'', ''edu.au'', ''gov.au'',
     ''co.nz'', ''org.nz'', ''govt.nz'', ''ac.nz'', ''net.nz'',
     ''co.jp'', ''or.jp'', ''ne.jp'', ''ac.jp'', ''go.jp'',
     ''co.kr'', ''or.kr'', ''go.kr'', ''ac.kr'',
     ''com.br'', ''net.br'', ''org.br'', ''gov.br'',
     ''com.cn'', ''net.cn'', ''org.cn'', ''gov.cn'', ''edu.cn'',
     ''com.hk'', ''org.hk'', ''com.sg'', ''edu.sg'', ''com.tw'', ''org.tw'',
     ''com.mx'', ''com.ar'', ''com.co'', ''com.pe'', ''com.tr'', ''com.ua'',
     ''co.in'', ''net.in'', ''org.in'', ''ac.in'', ''gov.in'', ''co.id'', ''co.th'',
     ''co.za'', ''org.za'', ''co.il'', ''org.il'', ''com.eg'', ''com.ng'', ''co.ke'']"

definition dns_norm :: "string \<Rightarrow> string" where
  "dns_norm name = TrimDots (ToLower (TrimSpace name))"

definition Registrable :: "string \<Rightarrow> string" where
  "Registrable raw =
     (let name = dns_norm raw;
          labels = SplitOn (CHR ''.'') name;
          n = length labels
      in if name = '''' \<or> name = ''.'' then ''''
         else if n \<ge> 2 \<and> labels ! (n - 1) = ''arpa'' \<and> labels ! (n - 2) = ''in-addr'' then ''in-addr.arpa''
         else if n \<ge> 2 \<and> labels ! (n - 1) = ''arpa'' \<and> labels ! (n - 2) = ''ip6'' then ''ip6.arpa''
         else if n = 1 then name
         else
           (let keep = (if n \<ge> 3 \<and> Join (drop (n - 2) labels) ''.'' \<in> set twoLabelSuffixes then 3 else 2)
            in Join (drop (n - keep) labels) ''.''))"

section \<open>Trimming\<close>

abbreviation keys_distinct :: "('k, 'v) gomap \<Rightarrow> bool" where
  "keys_distinct m \<equiv> distinct (map fst m)"

lemma trim_distinct: "keys_distinct m \<Longrightarrow> keys_distinct (trim n m)"
proof (induction n m rule: trim.induct)
  case (1 n m)
  then show ?case by (simp add: trim.simps[of n m] distinct_delete)
qed

lemma trim_bound: "0 \<le> n \<Longrightarrow> int (length (trim n m)) \<le> n"
proof (induction n m rule: trim.induct)
  case (1 n m)
  then show ?case by (cases "int (length m) > n \<and> m \<noteq> []") (auto simp: trim.simps[of n m])
qed

lemma trim_id: "int (length m) \<le> n \<Longrightarrow> trim n m = m"
  by (simp add: trim.simps)

lemma oldest_foldl_least:
  assumes "foldl oldest_step (o0, w0) m = (ol, w)" "'''' \<notin> insert o0 (fst ` set m)"
  shows "w \<le> w0 \<and> (\<forall>(k, it) \<in> set m. w \<le> it_last it) \<and>
    (ol = o0 \<and> w = w0 \<or> (\<exists>it. (ol, it) \<in> set m \<and> it_last it = w))"
  using assms
proof (induction m arbitrary: o0 w0)
  case (Cons p m)
  obtain k it where p: "p = (k, it)" by fastforce
  obtain o1 w1 where 1: "oldest_step (o0, w0) (k, it) = (o1, w1)" by fastforce
  have o1: "w1 \<le> w0" "w1 \<le> it_last it" "o1 = o0 \<and> w1 = w0 \<or> o1 = k \<and> w1 = it_last it"
    using 1 Cons.prems(2) p by (auto simp: oldest_step_def split: if_splits)
  have "w \<le> w1 \<and> (\<forall>(k, it) \<in> set m. w \<le> it_last it) \<and>
      (ol = o1 \<and> w = w1 \<or> (\<exists>it. (ol, it) \<in> set m \<and> it_last it = w))"
    using Cons.IH[of o1 w1] Cons.prems p 1 o1(3) by auto
  then show ?case using o1 p by auto
qed simp

lemma oldest_item_least:
  assumes "m \<noteq> []" "'''' \<notin> fst ` set m" "keys_distinct m"
  shows "\<exists>it. map_of m (oldest_item m) = Some it \<and> (\<forall>(k, it') \<in> set m. it_last it \<le> it_last it')"
proof -
  obtain k it m' where m: "m = (k, it) # m'" using assms(1) by (metis list.exhaust surj_pair)
  obtain ol w where f: "foldl oldest_step (k, it_last it) m' = (ol, w)" by fastforce
  have ol: "oldest_item m = ol" using m f by (simp add: oldest_item_def oldest_step_def)
  note l = oldest_foldl_least[OF f]
  from l obtain it' where "(ol, it') \<in> set m" "it_last it' = w" using m assms(2) by auto
  moreover have "\<forall>(k, it') \<in> set m. w \<le> it_last it'" using l m assms(2) by auto
  ultimately show ?thesis using ol assms(3) by (auto simp: map_of_eq_Some_iff intro!: exI[of _ it'])
qed

text \<open>Trimming only takes away items that were unseen at least as long as every item it keeps, so an item that
  was seen later than some other item of the set stays when the set is one over its bound.\<close>

lemma trim_one_over_keeps:
  assumes "int (length m) = n + 1" "0 < n" "keys_distinct m" "'''' \<notin> fst ` set m"
    and "map_of m item = Some it" "(k', it') \<in> set m" "it_last it' < it_last it"
  shows "map_of (trim n m) item = Some it"
proof -
  have "m \<noteq> []" using assms(1,2) by auto
  then obtain old where old: "map_of m (oldest_item m) = Some old" "\<forall>(k, i) \<in> set m. it_last old \<le> it_last i"
    using oldest_item_least assms(3,4) by blast
  have "oldest_item m \<noteq> item" using old assms(5-7) by fastforce
  moreover have "trim n m = AList.delete (oldest_item m) m"
  proof -
    have "oldest_item m \<in> fst ` set m" using old(1) by (metis map_of_eq_None_iff option.distinct(1))
    then have "int (length (AList.delete (oldest_item m) m)) = n"
      using assms(1-3) by (simp add: length_delete)
    then show ?thesis using assms(1,2) \<open>m \<noteq> []\<close> by (simp add: trim.simps[of n m] trim_id)
  qed
  ultimately show ?thesis using assms(5) by simp
qed

section \<open>The invariant of the store\<close>

definition opts_ok :: "base_options \<Rightarrow> bool" where
  "opts_ok opts \<longleftrightarrow> 0 < o_learn opts \<and> 0 < o_max_items opts \<and> 0 < o_max_age opts \<and> 0 < o_max_alerts opts"

definition set_ok :: "base_options \<Rightarrow> (string, base_item) gomap \<Rightarrow> bool" where
  "set_ok opts m \<longleftrightarrow> keys_distinct m \<and> int (length m) \<le> o_max_items opts \<and> '''' \<notin> fst ` set m"

definition vm_ok :: "base_options \<Rightarrow> vm_base \<Rightarrow> bool" where
  "vm_ok opts b \<longleftrightarrow> keys_distinct (b_sets b) \<and> (\<forall>k m. map_of (b_sets b) k = Some m \<longrightarrow> set_ok opts m) \<and>
     0 \<le> b_alerts_day b \<and> b_alerts_day b \<le> o_max_alerts opts"

definition base_inv :: "base_store \<Rightarrow> bool" where
  "base_inv s \<longleftrightarrow> opts_ok (bs_opts s) \<and> keys_distinct (bs_vms s) \<and>
     (\<forall>vm b. map_of (bs_vms s) vm = Some b \<longrightarrow> vm_ok (bs_opts s) b)"

lemma opts_ok_normalise [simp]: "opts_ok (normalise opts)"
  by (simp add: opts_ok_def normalise_def DefaultOptions_def)

lemma base_inv_new [simp]: "base_inv (NewStore opts)"
  by (simp add: base_inv_def NewStore_def)

lemma vm_ok_fresh [simp]: "opts_ok opts \<Longrightarrow> vm_ok opts (fresh_vm now)"
  by (simp add: vm_ok_def fresh_vm_def opts_ok_def)

lemma vm_ok_base_vm: "base_inv s \<Longrightarrow> vm_ok (bs_opts s) (base_vm vm now s)"
  by (simp add: base_inv_def base_vm_def split: option.split)

lemma set_ok_base_set: "opts_ok opts \<Longrightarrow> vm_ok opts b \<Longrightarrow> set_ok opts (base_set k b)"
  by (simp add: vm_ok_def base_set_def split: option.split) (simp add: set_ok_def opts_ok_def)

lemma trim_keys: "fst ` set (trim n m) \<subseteq> fst ` set m"
proof (induction n m rule: trim.induct)
  case (1 n m)
  show ?case
  proof (cases "int (length m) > n \<and> m \<noteq> []")
    case True
    then have "trim n m = trim n (AList.delete (oldest_item m) m)" by (simp add: trim.simps[of n m])
    then show ?thesis using "1.IH"[OF True] dom_delete_subset[of "oldest_item m" m] by auto
  next
    case False
    then have "trim n m = m" by (auto simp: trim.simps[of n m])
    then show ?thesis by simp
  qed
qed

lemma set_ok_touch: "set_ok opts m \<Longrightarrow> map_of m item = Some it \<Longrightarrow> set_ok opts (AList.update item it' m)"
proof -
  assume m: "set_ok opts m" "map_of m item = Some it"
  then have "item \<in> fst ` set m" by (metis map_of_eq_None_iff option.distinct(1))
  with m(1) show ?thesis
    by (auto simp: set_ok_def distinct_update length_update keys_update simp del: map_of_update)
qed

lemma set_ok_insert: "opts_ok opts \<Longrightarrow> set_ok opts m \<Longrightarrow> item \<noteq> '''' \<Longrightarrow>
    set_ok opts (trim (o_max_items opts) (AList.update item it m))"
  using trim_keys[of "o_max_items opts" "AList.update item it m"]
  by (auto simp: set_ok_def opts_ok_def trim_bound keys_update intro!: trim_distinct distinct_update)

lemma vm_ok_put: "vm_ok opts b \<Longrightarrow> set_ok opts m \<Longrightarrow> vm_ok opts (b\<lparr>b_sets := AList.update k m (b_sets b)\<rparr>)"
  by (simp add: vm_ok_def distinct_update)

lemma judge_new_ok: "opts_ok opts \<Longrightarrow> vm_ok opts b \<Longrightarrow> vm_ok opts (fst (judge_new opts now b))"
  by (simp add: vm_ok_def judge_new_def Let_def opts_ok_def)

lemma learn_item_ok: "opts_ok opts \<Longrightarrow> vm_ok opts b \<Longrightarrow> item \<noteq> '''' \<Longrightarrow> vm_ok opts (fst (learn_item opts k item now b))"
  by (simp add: learn_item_def Let_def judge_new_ok vm_ok_put set_ok_insert set_ok_base_set)

lemma observe_vm_ok: "opts_ok opts \<Longrightarrow> vm_ok opts b \<Longrightarrow> item \<noteq> '''' \<Longrightarrow> vm_ok opts (fst (observe_vm opts k item now b))"
  by (auto simp: observe_vm_def learn_item_ok vm_ok_put set_ok_touch set_ok_base_set split: option.split)

lemma bs_opts_Observe [simp]: "bs_opts (fst (Observe vm k item now s)) = bs_opts s"
  by (simp add: Observe_def split: prod.split)

lemma base_inv_put: "base_inv s \<Longrightarrow> vm_ok (bs_opts s) b \<Longrightarrow>
    base_inv (s\<lparr>bs_vms := AList.update vm b (bs_vms s), bs_dirty := d\<rparr>)"
  by (simp add: base_inv_def distinct_update)

lemma base_inv_Observe [inv_pres]:
  assumes "base_inv s"
  shows "base_inv (fst (Observe vm k item now s))"
proof (cases "item = '''' \<or> vm = ''''")
  case True
  then show ?thesis using assms by (auto simp: Observe_def)
next
  case False
  have "vm_ok (bs_opts s) (fst (observe_vm (bs_opts s) k item now (base_vm vm now s)))"
    using False assms by (intro observe_vm_ok vm_ok_base_vm) (auto simp: base_inv_def)
  then show ?thesis using False base_inv_put[OF assms] by (auto simp: Observe_def split: prod.split)
qed

section \<open>Runs of observations\<close>

type_synonym observation = "string \<times> base_kind \<times> string \<times> time"

fun observe_all :: "observation list \<Rightarrow> base_store \<Rightarrow> base_store \<times> base_result list" where
  "observe_all [] s = (s, [])"
| "observe_all ((vm, k, item, now) # xs) s =
     (let (s', r) = Observe vm k item now s; (s'', rs) = observe_all xs s' in (s'', r # rs))"

definition news_of :: "string \<Rightarrow> observation list \<Rightarrow> base_result list \<Rightarrow> nat" where
  "news_of vm xs rs = length (filter (\<lambda>(x, r). fst x = vm \<and> r_verdict r = New) (zip xs rs))"

lemma judge_new_same_day:
  "now - b_day_start b < 24 * hour \<Longrightarrow> judge_new opts now b = (b', r) \<Longrightarrow>
   b_day_start b' = b_day_start b \<and>
   b_alerts_day b' = b_alerts_day b + (if r_verdict r = New then 1 else 0)"
  by (auto simp: judge_new_def Let_def split: if_splits)

lemma observe_vm_same_day:
  "now - b_day_start b < 24 * hour \<Longrightarrow> observe_vm opts k item now b = (b', r) \<Longrightarrow>
   b_day_start b' = b_day_start b \<and>
   b_alerts_day b' = b_alerts_day b + (if r_verdict r = New then 1 else 0)"
  by (auto simp: observe_vm_def learn_item_def Let_def split: option.splits if_splits
      dest!: judge_new_same_day[rotated])

lemma observe_day:
  assumes "base_inv s" "map_of (bs_vms s) vm = Some b"
    and "vm' = vm \<longrightarrow> now - b_day_start b < 24 * hour" "Observe vm' k item now s = (s', r)"
  shows "\<exists>b'. map_of (bs_vms s') vm = Some b' \<and> b_day_start b' = b_day_start b \<and>
    b_alerts_day b' = b_alerts_day b + (if vm' = vm \<and> r_verdict r = New then 1 else 0)"
proof (cases "item = '''' \<or> vm' = '''' \<or> vm' \<noteq> vm")
  case True
  then show ?thesis using assms(2,4) by (auto simp: Observe_def split: if_splits prod.splits)
next
  case False
  then have "base_vm vm' now s = b" using assms(2) by (simp add: base_vm_def)
  then obtain b' where "observe_vm (bs_opts s) k item now b = (b', r)" "s' = s\<lparr>bs_vms := AList.update vm b' (bs_vms s), bs_dirty := True\<rparr>"
    using assms(4) False by (auto simp: Observe_def split: prod.splits)
  then show ?thesis using False assms(3) observe_vm_same_day[of now b] by auto
qed

lemma observe_all_day:
  assumes "base_inv s" "map_of (bs_vms s) vm = Some b"
    and "\<forall>(vm', k, item, now) \<in> set xs. vm' = vm \<longrightarrow> now - b_day_start b < 24 * hour"
    and "observe_all xs s = (s', rs)"
  shows "base_inv s' \<and> bs_opts s' = bs_opts s \<and>
    (\<exists>b'. map_of (bs_vms s') vm = Some b' \<and> b_alerts_day b' = b_alerts_day b + int (news_of vm xs rs))"
  using assms
proof (induction xs arbitrary: s b rs)
  case Nil
  then show ?case by (simp add: news_of_def)
next
  case (Cons x xs)
  obtain vm' k item now where x: "x = (vm', k, item, now)" by (cases x)
  obtain s1 r where o: "Observe vm' k item now s = (s1, r)" by fastforce
  obtain rs' where rs: "observe_all xs s1 = (s', rs')" "rs = r # rs'"
    using Cons.prems(4) x o by (auto split: prod.splits)
  obtain b1 where b1: "map_of (bs_vms s1) vm = Some b1" "b_day_start b1 = b_day_start b"
    "b_alerts_day b1 = b_alerts_day b + (if vm' = vm \<and> r_verdict r = New then 1 else 0)"
    using observe_day[OF Cons.prems(1,2) _ o] Cons.prems(3) x by auto
  have inv: "base_inv s1" "bs_opts s1 = bs_opts s"
    using base_inv_Observe[OF Cons.prems(1), of vm' k item now] bs_opts_Observe[of vm' k item now s] o by auto
  have "base_inv s' \<and> bs_opts s' = bs_opts s1 \<and>
    (\<exists>b'. map_of (bs_vms s') vm = Some b' \<and> b_alerts_day b' = b_alerts_day b1 + int (news_of vm xs rs'))"
    using Cons.IH[OF inv(1) b1(1) _ rs(1)] Cons.prems(3) b1(2) by simp
  then show ?case using inv(2) b1(3) rs(2) x by (auto simp: news_of_def)
qed

lemma observe_keeps_item:
  assumes "base_inv s" "item \<noteq> ''''" "vm \<noteq> ''''" "Observe vm k item now s = (s1, r)"
    and "let m = base_set k (base_vm vm now s)
         in int (length m) < o_max_items (bs_opts s) \<or> item \<in> fst ` set m \<or> (\<exists>(k', it') \<in> set m. it_last it' < now)"
  shows "\<exists>b it. map_of (bs_vms s1) vm = Some b \<and> map_of (base_set k b) item = Some it \<and> it_last it = now"
proof -
  let ?o = "bs_opts s" and ?b = "base_vm vm now s" and ?new = "\<lparr>it_first = now, it_last = now\<rparr>"
  let ?m = "base_set k ?b"
  have ok: "opts_ok ?o" "set_ok ?o ?m"
    using assms(1) vm_ok_base_vm[OF assms(1)] set_ok_base_set by (auto simp: base_inv_def)
  obtain b where b: "observe_vm ?o k item now ?b = (b, r)" "map_of (bs_vms s1) vm = Some b"
    using assms(2-4) by (auto simp: Observe_def split: prod.splits)
  have kept: "map_of (trim (o_max_items ?o) (AList.update item ?new ?m)) item = Some ?new"
  proof (cases "int (length (AList.update item ?new ?m)) \<le> o_max_items ?o")
    case True
    then show ?thesis by (simp add: trim_id)
  next
    case False
    then have notin: "item \<notin> fst ` set ?m" "int (length ?m) = o_max_items ?o"
      using ok(2) by (auto simp: set_ok_def length_update split: if_splits)
    then obtain k' it' where old: "(k', it') \<in> set ?m" "it_last it' < now"
      using assms(5) by (auto simp: Let_def)
    have "(k', it') \<in> set (AList.update item ?new ?m)"
      using old(1) notin(1) by (metis map_of_SomeD map_of_is_SomeI ok(2) set_ok_def map_of_update
          fun_upd_other imageI fst_conv)
    then show ?thesis
      by (rule trim_one_over_keeps[rotated 5])
        (use ok notin old(2) assms(2) in \<open>auto simp: set_ok_def opts_ok_def length_update distinct_update keys_update\<close>)
  qed
  have learn: "map_of (base_set k (fst (learn_item ?o k item now ?b))) item = Some ?new"
    using kept by (simp add: learn_item_def judge_new_def base_set_def Let_def)
  show ?thesis
  proof (cases "map_of ?m item")
    case None
    then show ?thesis using b learn by (auto simp: observe_vm_def)
  next
    case (Some it)
    then show ?thesis using b learn
      by (cases "time_sub now (it_last it) \<le> o_max_age ?o") (auto simp: observe_vm_def base_set_def)
  qed
qed

section \<open>Properties\<close>

text \<open>
  What a guest can do to a baseline is bounded: from a store within its limits, any sequence of
  observations of any VMs leaves every VM's every set within \<open>MaxItems\<close> and its alerts of the day within
  \<open>MaxAlertsPerDay\<close>; and for one VM, as long as its day window has not ended, the new-item alerts raised,
  together with those already counted that day, never exceed \<open>MaxAlertsPerDay\<close>.
\<close>

theorem baseline_bounded:
  assumes "base_inv s" "map_of (bs_vms s) vm = Some b"
    and "\<forall>(vm', k, item, now) \<in> set xs. vm' = vm \<longrightarrow> now - b_day_start b < 24 * hour"
  shows "base_inv (fst (observe_all xs s)) \<and>
    int (news_of vm xs (snd (observe_all xs s))) + b_alerts_day b \<le> o_max_alerts (bs_opts s)"
proof -
  obtain s' rs where r: "observe_all xs s = (s', rs)" by fastforce
  obtain b' where b': "base_inv s'" "bs_opts s' = bs_opts s" "map_of (bs_vms s') vm = Some b'"
    "b_alerts_day b' = b_alerts_day b + int (news_of vm xs rs)"
    using observe_all_day[OF assms r] by blast
  have "vm_ok (bs_opts s') b'" using b'(1,3) by (simp add: base_inv_def)
  then show ?thesis using r b' by (simp add: vm_ok_def)
qed

definition short_options :: base_options where
  "short_options = \<lparr>o_learn = minute, o_max_items = 4, o_max_age = 30 * 24 * hour, o_max_alerts = 1\<rparr>"

definition seen_once :: base_store where
  "seen_once = fst (Observe ''web'' Destination ''10.0.0.0/24'' 0 (NewStore short_options))"

theorem baseline_bounded_witness:
  "base_inv (fst (observe_all [(''web'', Destination, ''a'', minute), (''web'', Destination, ''b'', 2 * minute)] seen_once)) \<and>
   news_of ''web'' [(''web'', Destination, ''a'', minute), (''web'', Destination, ''b'', 2 * minute)]
     (snd (observe_all [(''web'', Destination, ''a'', minute), (''web'', Destination, ''b'', 2 * minute)] seen_once)) = 1"
proof -
  let ?xs = "[(''web'', Destination, ''a'', minute), (''web'', Destination, ''b'', 2 * minute)]"
  have inv: "base_inv seen_once" by (simp add: seen_once_def base_inv_Observe)
  obtain b where b: "map_of (bs_vms seen_once) ''web'' = Some b" "b_day_start b = 0" "b_alerts_day b = 0"
    by (simp add: seen_once_def Observe_def NewStore_def base_vm_def fresh_vm_def observe_vm_def base_set_def
        learn_item_def normalise_def short_options_def Let_def)
  have n: "news_of ''web'' ?xs (snd (observe_all ?xs seen_once)) \<ge> 1" by code_simp
  have o: "o_max_alerts (bs_opts seen_once) = 1" by code_simp
  show ?thesis using baseline_bounded[OF inv b(1), of ?xs] b(2,3) n o by simp
qed

text \<open>
  The first sighting of an item is reported at most once: after an item has been observed, observing it
  again for the same VM within \<open>MaxAge\<close> is \<open>Known\<close>, whatever the first observation meant, provided the
  set was not full, already held the item, or held some item last seen before it (otherwise every item of
  the full set has the same time stamp and the trim may drop the new one).
\<close>

theorem observe_known_again:
  assumes "base_inv s" "item \<noteq> ''''" "vm \<noteq> ''''"
    and "let m = base_set k (base_vm vm now s)
         in int (length m) < o_max_items (bs_opts s) \<or> item \<in> fst ` set m \<or> (\<exists>(k', it') \<in> set m. it_last it' < now)"
    and "now' - now \<le> o_max_age (bs_opts s)"
  shows "r_verdict (snd (Observe vm k item now' (fst (Observe vm k item now s)))) = Known"
proof -
  obtain s1 r where s1: "Observe vm k item now s = (s1, r)" by fastforce
  obtain b it where b: "map_of (bs_vms s1) vm = Some b" "map_of (base_set k b) item = Some it" "it_last it = now"
    using observe_keeps_item[OF assms(1-3) s1 assms(4)] by auto
  have opts: "bs_opts s1 = bs_opts s" using bs_opts_Observe[of vm k item now s] s1 by simp
  have "time_sub now' (it_last it) \<le> o_max_age (bs_opts s)"
    using assms(1,5) b(3) by (intro time_sub_mono) (auto simp: base_inv_def opts_ok_def)
  then show ?thesis using s1 b opts assms(2,3)
    by (simp add: Observe_def base_vm_def observe_vm_def)
qed

theorem observe_known_again_witness:
  "r_verdict (snd (Observe ''web'' Destination ''a'' hour (fst (Observe ''web'' Destination ''a'' minute seen_once)))) = Known"
  by (rule observe_known_again) (simp add: seen_once_def base_inv_Observe, simp, simp, code_simp, code_simp)

text \<open>
  C38. An alert is always deserved: an observation that is \<open>New\<close> (or would be, were the day's alerts not used
  up) was made at least \<open>Learn\<close> after the VM's baseline started, of an item that is not in the baseline or
  has not been seen for longer than \<open>MaxAge\<close>. In particular the whole learning period is quiet.
\<close>

theorem observe_alert_deserved:
  "r_verdict (snd (Observe vm k item now s)) \<in> {New, Capped} \<Longrightarrow>
   o_learn (bs_opts s) \<le> time_sub now (b_since (base_vm vm now s)) \<and>
   (case map_of (base_set k (base_vm vm now s)) item of
      None \<Rightarrow> True | Some it \<Rightarrow> o_max_age (bs_opts s) < time_sub now (it_last it))"
  by (auto simp: Observe_def observe_vm_def learn_item_def judge_new_def Let_def
      split: if_splits prod.splits option.splits)

theorem observe_alert_deserved_witness:
  "o_learn (bs_opts seen_once) \<le> time_sub minute (b_since (base_vm ''web'' minute seen_once))"
proof -
  have "r_verdict (snd (Observe ''web'' Destination ''a'' minute seen_once)) \<in> {New, Capped}" by code_simp
  from observe_alert_deserved[OF this] show ?thesis by simp
qed

text \<open>
  The day of \<open>MaxAlertsPerDay\<close> is a window that starts at the first new item a day after the window
  before it, not a rolling day: with one alert a day, a VM alerts in the last minute of one window and
  again a minute later, two alerts within two minutes.
\<close>

theorem alerts_window_is_not_rolling:
  "map r_verdict (snd (observe_all
     [(''web'', Destination, ''a'', 24 * hour - minute), (''web'', Destination, ''b'', 24 * hour)] seen_once)) = [New, New]"
  by code_simp

section \<open>Networks as items\<close>

lemma mask_withoutZone: "mask_addr (withoutZone a) b = mask_addr a b"
  by (cases a) (simp_all add: withoutZone_def mask_addr_def)

lemma Unmap_not_none: "a \<noteq> NoAddr \<Longrightarrow> Unmap a \<noteq> NoAddr"
  by (cases a) (auto simp: Unmap_def)

text \<open>
  The item an address teaches is its network, and nothing else of it: for text that is an address (an
  IPv4-mapped one counts as IPv4, a zone is dropped) the item is the text of a canonical network, the /24 of
  an IPv4 address and the /64 of an IPv6 address, which reads back as that network. So two addresses are the
  same item exactly when they are in the same network.
\<close>

theorem base_Prefix_network:
  assumes "ParseAddr (TrimSpace s) = Some a"
  shows "\<exists>b. b = (if Is4 (Unmap a) then 24 else 64) \<and>
    ParsePrefix (base_Prefix s) = Some \<lparr>px_addr = mask_addr (Unmap a) b, px_bits = int b\<rparr> \<and>
    px_canonical \<lparr>px_addr = mask_addr (Unmap a) b, px_bits = int b\<rparr>"
proof -
  define b where "b = (if Is4 (Unmap a) then 24 else 64 :: nat)"
  let ?p = "\<lparr>px_addr = mask_addr (Unmap a) b, px_bits = int b\<rparr>"
  have ne: "Unmap a \<noteq> NoAddr" using ParseAddr_valid[OF assms] Unmap_not_none by blast
  have len: "int b \<le> BitLen (Unmap a)" using ne by (cases "Unmap a") (auto simp: b_def Is4_def BitLen_def)
  have "addr_plain (mask_addr (Unmap a) b)"
    using mask_plain[OF Unmap_plain[OF ParseAddr_valid[OF assms]], of b] by (simp add: mask_withoutZone)
  then have pl: "px_plain ?p" using len by (simp add: px_plain_def)
  have "addr_Prefix (Unmap a) (int b) = Some ?p" using ne len by (auto simp: addr_Prefix_def PrefixFrom_def)
  then have "base_Prefix s = prefix_String ?p" using assms by (auto simp: base_Prefix_def b_def Let_def split: if_splits)
  then have "ParsePrefix (base_Prefix s) = Some ?p" using ParsePrefix_String[OF pl] by simp
  moreover have "Masked ?p = ?p" using Masked_simp[OF pl] by simp
  ultimately show ?thesis using pl by (auto simp: px_canonical_def b_def)
qed

theorem base_Prefix_network_witness:
  "base_Prefix '' ::ffff:10.1.2.3 '' = ''10.1.2.0/24'' \<and>
   ParsePrefix (base_Prefix '' ::ffff:10.1.2.3 '') = Some \<lparr>px_addr = V4 0x0a010200, px_bits = 24\<rparr>"
proof -
  have a: "ParseAddr (TrimSpace '' ::ffff:10.1.2.3 '') = Some (V6 0xffff0a010203 '''')" by code_simp
  have "Unmap (V6 0xffff0a010203 '''') = V4 0x0a010203" "mask_addr (V4 0x0a010203) 24 = V4 0x0a010200" by code_simp+
  moreover have "base_Prefix '' ::ffff:10.1.2.3 '' = ''10.1.2.0/24''" by code_simp
  ultimately show ?thesis using base_Prefix_network[OF a] by (simp add: Is4_def)
qed

end
