(* ===== verification/GoTime.thy ===== *)
theory GoTime
  imports GoStrings
begin

text \<open>
  The functions of Go's \<open>time\<close> package that read and print times: \<open>ParseDuration\<close> and \<open>Time.Format\<close> with
  \<open>time.RFC3339\<close>, in UTC. A fraction in a duration (\<open>1.5h\<close>) is truncated to whole nanoseconds exactly, where
  Go computes it in floating point; the two can differ by a nanosecond.
\<close>

section \<open>Durations\<close>

definition unit_ns :: "string \<Rightarrow> int option" where
  "unit_ns u =
     (if u = ''ns'' then Some 1
      else if u \<in> {''us'', [CHR 0xC2, CHR 0xB5, CHR ''s''], [CHR 0xCE, CHR 0xBC, CHR ''s'']} then Some 1000
      else if u = ''ms'' then Some 1000000
      else if u = ''s'' then Some 1000000000
      else if u = ''m'' then Some 60000000000
      else if u = ''h'' then Some 3600000000000
      else None)"

text \<open>One term of a duration, a number and its unit: its nanoseconds and the text after it.\<close>

definition duration_term :: "string \<Rightarrow> (int \<times> string) option" where
  "duration_term s =
     (let ds = takeWhile is_digit s; s1 = dropWhile is_digit s;
          dot = prefix ''.'' s1; fs = (if dot then takeWhile is_digit (tl s1) else []);
          s2 = (if dot then dropWhile is_digit (tl s1) else s1);
          u = takeWhile (\<lambda>c. c \<noteq> CHR ''.'' \<and> \<not> is_digit c) s2; s3 = dropWhile (\<lambda>c. c \<noteq> CHR ''.'' \<and> \<not> is_digit c) s2
      in if ds = [] \<and> fs = [] then None
         else case unit_ns u of
           None \<Rightarrow> None
         | Some n \<Rightarrow>
            (let v = int (digits_val ds) * n + int (digits_val fs) * n div 10 ^ length fs
             in if v > 2 ^ 63 then None else Some (v, s3)))"

lemma dropWhile_shorter: "takeWhile P s \<noteq> [] \<Longrightarrow> length (dropWhile P s) < length s"
  by (cases s) (auto simp: le_imp_less_Suc length_dropWhile_le split: if_splits)

lemma duration_term_shorter: "duration_term s = Some (v, s') \<Longrightarrow> length s' < length s"
proof -
  assume d: "duration_term s = Some (v, s')"
  let ?s1 = "dropWhile is_digit s"
  let ?s2 = "if prefix ''.'' ?s1 then dropWhile is_digit (tl ?s1) else ?s1"
  let ?P = "\<lambda>c. c \<noteq> CHR ''.'' \<and> \<not> is_digit c"
  have u: "takeWhile ?P ?s2 \<noteq> []" "s' = dropWhile ?P ?s2"
    using d by (auto simp: duration_term_def Let_def unit_ns_def split: option.splits if_splits)
  have "length ?s2 \<le> length s"
    using length_dropWhile_le[of is_digit s] length_dropWhile_le[of is_digit "tl ?s1"] by auto
  then show ?thesis unfolding u(2) by (rule less_le_trans[OF dropWhile_shorter[OF u(1)]])
qed

function duration_terms :: "string \<Rightarrow> int \<Rightarrow> int option" where
  "duration_terms s d =
     (if s = [] then Some d
      else case duration_term s of
        None \<Rightarrow> None
      | Some (v, s') \<Rightarrow> if d + v > 2 ^ 63 then None else duration_terms s' (d + v))"
  by pat_completeness auto
termination by (relation "measure (length \<circ> fst)") (auto dest: duration_term_shorter)

declare duration_terms.simps [simp del]

definition ParseDuration :: "string \<Rightarrow> duration option" where
  "ParseDuration s =
     (let neg = prefix ''-'' s; t = (if prefix ''-'' s \<or> prefix ''+'' s then tl s else s)
      in if t = ''0'' then Some 0
         else if t = '''' then None
         else case duration_terms t 0 of
           None \<Rightarrow> None
         | Some d \<Rightarrow> if neg then Some (- d) else if d > 2 ^ 63 - 1 then None else Some d)"

text \<open>\<open>Duration.String\<close>: the fraction \<open>v / 10 ^ n\<close> without trailing zeros, then the units that are needed.\<close>

definition frac_text :: "int \<Rightarrow> nat \<Rightarrow> string" where
  "frac_text v n =
     (let ds = map (\<lambda>i. char_of (48 + nat (v div 10 ^ i mod 10))) (rev [0..<n])
      in if v = 0 then '''' else ''.'' @ rev (dropWhile (\<lambda>c. c = CHR ''0'') (rev ds)))"

definition duration_String :: "duration \<Rightarrow> string" where
  "duration_String d =
     (let u = \<bar>d\<bar>; sign = (if d < 0 then ''-'' else '''')
      in if u = 0 then ''0s''
         else if u < 1000 then sign @ Itoa u @ ''ns''
         else if u < 1000000 then sign @ Itoa (u div 1000) @ frac_text (u mod 1000) 3 @ [CHR 0xC2, CHR 0xB5, CHR ''s'']
         else if u < second then sign @ Itoa (u div 1000000) @ frac_text (u mod 1000000) 6 @ ''ms''
         else
           (let secs = u div second; s = Itoa (secs mod 60) @ frac_text (u mod second) 9 @ ''s''; mins = secs div 60
            in sign @ (if mins = 0 then s
                       else if mins div 60 = 0 then Itoa (mins mod 60) @ ''m'' @ s
                       else Itoa (mins div 60) @ ''h'' @ Itoa (mins mod 60) @ ''m'' @ s)))"

text \<open>\<open>Duration.Round\<close>: to the nearest multiple, halfway values away from zero.\<close>

definition duration_Round :: "duration \<Rightarrow> duration \<Rightarrow> duration" where
  "duration_Round d m =
     (if m \<le> 0 then d
      else (let r = \<bar>d\<bar> mod m; u = (if r + r < m then \<bar>d\<bar> - r else \<bar>d\<bar> - r + m) in if d < 0 then - u else u))"

section \<open>Dates\<close>

definition pad2 :: "int \<Rightarrow> string" where
  "pad2 n = (if n < 10 then ''0'' @ Itoa n else Itoa n)"

definition pad4 :: "int \<Rightarrow> string" where
  "pad4 n = replicate (4 - length (Itoa n)) (CHR ''0'') @ Itoa n"

text \<open>The civil date of a day, counted from 0001-01-01, in the proleptic Gregorian calendar: years are taken to
  start in March, so that the leap day is a year's last.\<close>

definition civil :: "int \<Rightarrow> int \<times> int \<times> int" where
  "civil days =
     (let z = days + 306; era = z div 146097; doe = z - era * 146097;
          yoe = (doe - doe div 1460 + doe div 36524 - doe div 146096) div 365;
          doy = doe - (365 * yoe + yoe div 4 - yoe div 100);
          mp = (5 * doy + 2) div 153; d = doy - (153 * mp + 2) div 5 + 1;
          m = (if mp < 10 then mp + 3 else mp - 9)
      in (yoe + era * 400 + (if m \<le> 2 then 1 else 0), m, d))"

definition FormatRFC3339 :: "time \<Rightarrow> string" where
  "FormatRFC3339 t =
     (let secs = t div second; (y, m, d) = civil (secs div 86400); r = secs mod 86400
      in pad4 y @ ''-'' @ pad2 m @ ''-'' @ pad2 d @ ''T'' @ pad2 (r div 3600) @ '':'' @ pad2 (r div 60 mod 60) @ '':''
         @ pad2 (r mod 60) @ ''Z'')"

lemma ParseDuration_samples:
  "ParseDuration ''5m'' = Some (5 * minute)" "ParseDuration ''1h30m'' = Some (90 * minute)"
  "ParseDuration ''5'' = None" "ParseDuration '''' = None"
  by (simp_all add: ParseDuration_def duration_terms.simps duration_term_def unit_ns_def is_digit_def less_eq_char_def
      digits_val_def digit_val_def Let_def)


lemma duration_String_samples:
  "duration_String (30 * minute) = ''30m0s''" "duration_String (90 * minute) = ''1h30m0s''"
  "duration_String 1500000000 = ''1.5s''" "duration_String (duration_Round 1500000000 second) = ''2s''"
  by code_simp+

end
