(* ===== verification/Policy.thy ===== *)
theory Policy
  imports State Baseline GoTime
begin

text \<open>
  The egress policy engine, \<open>internal/policy/policy.go\<close>: the record of each VM's policy, how a request is
  checked and applied, confirmation and its timer, and the pass that makes the kernel match the record.

  The engine's kernel and store are Go interface values: records of functions over their states \<open>'k\<close> and
  \<open>'s\<close>, which the engine's state carries. What the engine reads of its surroundings at one call (the scan's
  VMs, the clock, the learned baselines) is an argument, \<open>world\<close>. The detections it raises once its lock is
  released are a result. Every operation holds the engine's lock throughout, so a function is one atomic step.
  Errors carry the sentinel the code wraps and a short text; the code's text is longer.
\<close>

section \<open>Data\<close>

type_synonym Mode = string

abbreviation Off :: Mode where "Off \<equiv> ''off''"
abbreviation Audit_mode :: Mode where "Audit_mode \<equiv> ''audit''"
abbreviation Enforce :: Mode where "Enforce \<equiv> ''enforce''"

definition MaxAllow :: nat where "MaxAllow = 1024"
abbreviation MinConfirm :: duration where "MinConfirm \<equiv> 30 * second"
abbreviation MaxConfirm :: duration where "MaxConfirm \<equiv> 24 * hour"

definition mode_kernel :: "Mode \<Rightarrow> u8" where
  "mode_kernel m = (if m = Audit_mode then 1 else if m = Enforce then 2 else 0)"

definition modeOf :: "u8 \<Rightarrow> Mode" where
  "modeOf b = (if b = 1 then Audit_mode else if b = 2 then Enforce else Off)"

record Revert =
  rv_until :: time
  rv_mode :: Mode
  rv_allow :: "string list"
  rv_source :: string

record Policy =
  p_vm :: string
  p_mode :: Mode
  p_allow :: "string list"
  p_source :: string
  p_by :: string
  p_applied :: time
  p_key_id :: string
  p_role :: string
  p_label :: string
  p_remote :: string
  p_request :: string
  p_op :: string
  p_revert :: "Revert option"

datatype policy_err =
  PolicyNotFound string | PolicyBad string | PolicyRefused string | PolicyFailed string

record PolicyRequest =
  rq_mode :: string
  rq_allow :: "string list"
  rq_from_baseline :: bool
  rq_confirm :: string
  rq_permanent :: bool

record PolicyTap =
  pt_tap :: string
  pt_kernel :: string
  pt_checked :: u64
  pt_audit_pkts :: u64
  pt_audit_bytes :: u64
  pt_drop_pkts :: u64
  pt_drop_bytes :: u64

record PolicyRow =
  w_vm :: string
  w_mode :: string
  w_allow :: "string list"
  w_source :: string
  w_by :: string
  w_applied :: time
  w_key_id :: string
  w_role :: string
  w_label :: string
  w_remote :: string
  w_request_id :: string
  w_op :: string
  w_present :: bool
  w_revert :: "(time \<times> string) option"
  w_taps :: "PolicyTap list"
  w_problem :: string

record PolicyProposal =
  pp_vm :: string
  pp_learning :: bool
  pp_allow :: "string list"
  pp_current :: "string list"
  pp_added :: "string list"
  pp_removed :: "string list"
  pp_note :: string

record PolicyOrphan =
  po_vm :: string
  po_tap :: string
  po_mode :: string

record EgressCounters =
  ec_tap :: string
  ec_mode :: u8
  ec_checked :: u64
  ec_audit_pkts :: u64
  ec_audit_bytes :: u64
  ec_drop_pkts :: u64
  ec_drop_bytes :: u64

record announcement =
  an_vm :: event_vm
  an_rule :: string
  an_severity :: string
  an_message :: string

record 'k Kernel_if =
  kn_Available :: "'k \<Rightarrow> bool \<times> string"
  kn_CanEnforce :: "'k \<Rightarrow> bool \<times> string"
  kn_Set :: "string \<Rightarrow> u8 \<Rightarrow> ip_prefix list \<Rightarrow> 'k \<Rightarrow> 'k \<times> string option"
  kn_Mode :: "string \<Rightarrow> 'k \<Rightarrow> u8"
  kn_Stats :: "'k \<Rightarrow> EgressCounters list"

record 's Store_if =
  sv_Save :: "Policy list \<Rightarrow> 's \<Rightarrow> 's \<times> string option"

record ('k, 's) Engine_deps =
  dp_kernel :: "'k Kernel_if"
  dp_store :: "'s Store_if option"

record ('k, 's) Engine =
  en_pol :: "(string, Policy) gomap"
  en_kernel :: 'k
  en_saved :: 's
  en_logged :: "string list"

record world =
  wd_vms :: "vm_info list"
  wd_now :: time
  wd_baselines :: "(bool \<times> base_store) option"

section \<open>Networks\<close>

text \<open>One entry of an allow list; the empty entry, which is skipped, is \<open>Inr None\<close>.\<close>

definition parse_net :: "string \<Rightarrow> policy_err + ip_prefix option" where
  "parse_net raw =
     (let s = TrimSpace raw
      in if s = '''' then Inr None
         else
           (let p = (if ContainsStr s ''/'' then ParsePrefix s
                     else map_option (\<lambda>a. PrefixFrom a (BitLen a)) (ParseAddr s))
            in case p of
                 None \<Rightarrow> Inl (PolicyBad s)
               | Some p \<Rightarrow>
                  (if Is4In6 (px_addr p) then
                     (let q = PrefixFrom (Unmap (px_addr p)) (px_bits p - 96)
                      in if \<not> px_valid q then Inl (PolicyBad s) else Inr (Some (Masked q)))
                   else Inr (Some (Masked p)))))"

fun parse_nets :: "string list \<Rightarrow> ip_prefix list \<Rightarrow> policy_err + ip_prefix list" where
  "parse_nets [] out = Inr out"
| "parse_nets (s # ss) out = (case parse_net s of
      Inl e \<Rightarrow> Inl e
    | Inr None \<Rightarrow> parse_nets ss out
    | Inr (Some p) \<Rightarrow> parse_nets ss (if p \<in> set out then out else out @ [p]))"

definition net_order :: "ip_prefix \<Rightarrow> (int \<times> int \<times> string) \<times> int" where
  "net_order p = (addr_key (px_addr p), px_bits p)"

definition parseAllow :: "string list \<Rightarrow> policy_err + ip_prefix list" where
  "parseAllow ss = map_sum id (sort_key net_order) (parse_nets ss [])"

definition prefixStrings :: "ip_prefix list \<Rightarrow> string list" where
  "prefixStrings ps = map prefix_String ps"

section \<open>The engine\<close>

definition policy_New :: "'k \<Rightarrow> 's \<Rightarrow> ('k, 's) Engine" where
  "policy_New k s = \<lparr>en_pol = [], en_kernel = k, en_saved = s, en_logged = []\<rparr>"

definition policy_restore_one :: "Policy \<Rightarrow> ('k, 's) Engine \<Rightarrow> ('k, 's) Engine" where
  "policy_restore_one p e =
     (if p_vm p = '''' \<or> (p_mode p \<noteq> Audit_mode \<and> p_mode p \<noteq> Enforce) then e
      else case parseAllow (p_allow p) of
        Inl _ \<Rightarrow> e
      | Inr _ \<Rightarrow> e\<lparr>en_pol := AList.update (p_vm p) p (en_pol e)\<rparr>)"

definition policy_Restore :: "Policy list \<Rightarrow> ('k, 's) Engine \<Rightarrow> ('k, 's) Engine" where
  "policy_Restore ps e = fold policy_restore_one ps e"

definition policy_find :: "string \<Rightarrow> world \<Rightarrow> string list \<times> event_vm \<times> bool" where
  "policy_find name w = (case find (\<lambda>v. id_name v = name) (wd_vms w) of
      None \<Rightarrow> ([], \<lparr>vm_name = name, vm_uuid = '''', vm_runtime = ''''\<rparr>, False)
    | Some v \<Rightarrow> (id_taps v, \<lparr>vm_name = id_name v, vm_uuid = id_uuid v, vm_runtime = id_runtime v\<rparr>, True))"

definition saveLocked :: "('k, 's) Engine_deps \<Rightarrow> ('k, 's) Engine \<Rightarrow> ('k, 's) Engine \<times> string option" where
  "saveLocked D e = (case dp_store D of
      None \<Rightarrow> (e, None)
    | Some st \<Rightarrow> (let (s, err) = sv_Save st (sort_key p_vm (map snd (en_pol e))) (en_saved e) in (e\<lparr>en_saved := s\<rparr>, err)))"

fun set_taps_loop :: "'k Kernel_if \<Rightarrow> string list \<Rightarrow> u8 \<Rightarrow> ip_prefix list \<Rightarrow> 'k \<Rightarrow> string list \<Rightarrow> 'k \<times> string list" where
  "set_taps_loop K [] mode nets k failed = (k, failed)"
| "set_taps_loop K (t # ts) mode nets k failed =
     (case kn_Set K t mode nets k of
        (k', None) \<Rightarrow> set_taps_loop K ts mode nets k' failed
      | (k', Some err) \<Rightarrow> set_taps_loop K ts mode nets k' (failed @ [t @ '': '' @ err]))"

definition setTaps :: "('k, 's) Engine_deps \<Rightarrow> string list \<Rightarrow> Mode \<Rightarrow> string list \<Rightarrow> ('k, 's) Engine \<Rightarrow> ('k, 's) Engine \<times> string list" where
  "setTaps D taps mode allow e =
     (let nets = (case parseAllow allow of Inl _ \<Rightarrow> [] | Inr ps \<Rightarrow> ps);
          (k, failed) = set_taps_loop (dp_kernel D) taps (mode_kernel mode) nets (en_kernel e) []
      in (e\<lparr>en_kernel := k\<rparr>, failed))"

abbreviation apos_s :: string where "apos_s \<equiv> [CHR 0x27, CHR ''s'']"

definition policy_describe :: "Mode \<Rightarrow> nat \<Rightarrow> string" where
  "policy_describe m n = (if m = Off then ''no policy'' else m @ '' with '' @ Itoa (int n) @ '' networks'')"

definition put_back :: "string \<Rightarrow> Policy option \<Rightarrow> ('k, 's) Engine \<Rightarrow> ('k, 's) Engine" where
  "put_back vm prev e = (case prev of
      None \<Rightarrow> e\<lparr>en_pol := AList.delete vm (en_pol e)\<rparr>
    | Some p \<Rightarrow> e\<lparr>en_pol := AList.update vm p (en_pol e)\<rparr>)"

definition no_counters :: EgressCounters where
  "no_counters = \<lparr>ec_tap = '''', ec_mode = 0, ec_checked = 0, ec_audit_pkts = 0, ec_audit_bytes = 0, ec_drop_pkts = 0,
     ec_drop_bytes = 0\<rparr>"

definition row_tap :: "'k Kernel_if \<Rightarrow> 'k \<Rightarrow> string \<Rightarrow> PolicyTap" where
  "row_tap K k t =
     (let s = (case map_of (rev (map (\<lambda>s. (ec_tap s, s)) (kn_Stats K k))) t of None \<Rightarrow> no_counters | Some s \<Rightarrow> s)
      in \<lparr>pt_tap = t, pt_kernel = modeOf (kn_Mode K t k), pt_checked = ec_checked s, pt_audit_pkts = ec_audit_pkts s,
          pt_audit_bytes = ec_audit_bytes s, pt_drop_pkts = ec_drop_pkts s, pt_drop_bytes = ec_drop_bytes s\<rparr>)"

definition rowLocked :: "('k, 's) Engine_deps \<Rightarrow> world \<Rightarrow> Policy \<Rightarrow> bool \<Rightarrow> ('k, 's) Engine \<Rightarrow> PolicyRow" where
  "rowLocked D w p present e =
     (let row = \<lparr>w_vm = p_vm p, w_mode = p_mode p, w_allow = p_allow p, w_source = p_source p, w_by = p_by p,
            w_applied = p_applied p, w_key_id = p_key_id p, w_role = p_role p, w_label = p_label p, w_remote = p_remote p,
            w_request_id = p_request p, w_op = p_op p, w_present = present,
            w_revert = map_option (\<lambda>r. (rv_until r, policy_describe (rv_mode r) (length (rv_allow r)))) (p_revert p),
            w_taps = [], w_problem = ''''\<rparr>
      in if \<not> present then row
         else
           (let K = dp_kernel D; taps = fst (policy_find (p_vm p) w); rows = map (row_tap K (en_kernel e)) taps
            in row\<lparr>w_taps := rows,
                 w_problem := (case find (\<lambda>r. pt_kernel r \<noteq> p_mode p) rows of
                    None \<Rightarrow> ''''
                  | Some r \<Rightarrow> ''the kernel has '' @ pt_tap r @ '' in mode '' @ pt_kernel r @ '', and the policy says '' @ p_mode p)\<rparr>))"

section \<open>Learning a list\<close>

definition learn_note :: "base_store \<Rightarrow> string \<Rightarrow> time \<Rightarrow> string" where
  "learn_note b vm now = (case find (\<lambda>s. vs_vm s = vm \<and> vs_learning s) (rev (base_Status vm now b)) of
      None \<Rightarrow> ''''
    | Some s \<Rightarrow> ''the VM is still inside its baseline's learning period (until '' @ FormatRFC3339 (vs_learn_until s)
         @ ''): what it has not done yet is not on this list'')"

definition learnLocked :: "string \<Rightarrow> world \<Rightarrow> ('k, 's) Engine \<Rightarrow> policy_err + PolicyProposal" where
  "learnLocked vm w e = (case wd_baselines w of
      None \<Rightarrow> Inl (PolicyRefused ''learned baselines are off'')
    | Some (enabled, b) \<Rightarrow>
       (if \<not> enabled then Inl (PolicyRefused ''learned baselines are off'')
        else case base_Items vm 0 b of
          None \<Rightarrow> Inl (PolicyNotFound ''the baseline has not seen the VM'')
        | Some items \<Rightarrow>
           (let seen = map l_item (filter (\<lambda>i. l_kind i = Destination) items);
                allow = prefixStrings (case parseAllow seen of Inl _ \<Rightarrow> [] | Inr ps \<Rightarrow> ps);
                note = learn_note b vm (wd_now w);
                current = (case map_of (en_pol e) vm of None \<Rightarrow> [] | Some p \<Rightarrow> p_allow p)
            in Inr \<lparr>pp_vm = vm, pp_learning = (note \<noteq> ''''), pp_allow = allow, pp_current = current,
                 pp_added = filter (\<lambda>a. a \<notin> set current) allow, pp_removed = filter (\<lambda>a. a \<notin> set allow) current,
                 pp_note = (if allow = [] \<and> note = '''' then ''the VM has not been seen connecting anywhere'' else note)\<rparr>)))"

definition policy_Learn :: "string \<Rightarrow> world \<Rightarrow> ('k, 's) Engine \<Rightarrow> policy_err + PolicyProposal" where
  "policy_Learn vm w e = learnLocked vm w e"

section \<open>Applying\<close>

text \<open>The list of an application: the one given, the one the baseline suggests, or the one the VM has.\<close>

definition apply_list :: "string \<Rightarrow> PolicyRequest \<Rightarrow> world \<Rightarrow> ('k, 's) Engine \<Rightarrow> policy_err + string list \<times> string" where
  "apply_list vm req w e =
     (if rq_allow req \<noteq> [] then
        (case parseAllow (rq_allow req) of Inl err \<Rightarrow> Inl err | Inr ps \<Rightarrow> Inr (prefixStrings ps, ''manual''))
      else if rq_from_baseline req then
        (case learnLocked vm w e of Inl err \<Rightarrow> Inl err | Inr prop \<Rightarrow> Inr (pp_allow prop, ''baseline''))
      else case map_of (en_pol e) vm of
        Some prev \<Rightarrow> Inr (p_allow prev, p_source prev)
      | None \<Rightarrow> Inl (PolicyBad ''no list of networks''))"

text \<open>Why an enforcing policy is refused, if it is.\<close>

definition enforce_refusal :: "('k, 's) Engine_deps \<Rightarrow> PolicyRequest \<Rightarrow> duration \<Rightarrow> string list \<Rightarrow> ('k, 's) Engine \<Rightarrow> policy_err option" where
  "enforce_refusal D req confirm allow e =
     (let (ok, why) = kn_CanEnforce (dp_kernel D) (en_kernel e)
      in if \<not> ok then Some (PolicyRefused (''enforcing needs the management allow list: '' @ why))
         else if dp_store D = None then Some (PolicyRefused ''enforcing needs -data-dir'')
         else if allow = [] then Some (PolicyRefused ''an empty list would cut the VM off'')
         else if confirm = 0 \<and> \<not> rq_permanent req then Some (PolicyBad ''enforcing needs --confirm or --permanent'')
         else None)"

definition revert_to :: "Policy option \<Rightarrow> time \<Rightarrow> Revert" where
  "revert_to prev until = (case prev of
      None \<Rightarrow> \<lparr>rv_until = until, rv_mode = Off, rv_allow = [], rv_source = ''''\<rparr>
    | Some p \<Rightarrow> (case p_revert p of
         Some r \<Rightarrow> r\<lparr>rv_until := until\<rparr>
       | None \<Rightarrow> \<lparr>rv_until = until, rv_mode = p_mode p, rv_allow = p_allow p, rv_source = p_source p\<rparr>))"

definition next_policy :: "string \<Rightarrow> Mode \<Rightarrow> string list \<Rightarrow> string \<Rightarrow> duration \<Rightarrow> string \<Rightarrow> Policy option \<Rightarrow> time \<Rightarrow> Policy" where
  "next_policy vm mode allow source confirm actor prev now =
     (let who = ParseActor actor
      in \<lparr>p_vm = vm, p_mode = mode, p_allow = allow, p_source = source, p_by = Principal who, p_applied = now,
          p_key_id = c_key_id who, p_role = c_role who, p_label = c_label who, p_remote = c_remote who,
          p_request = c_request_id who, p_op = c_op who,
          p_revert = (if mode = Enforce \<and> confirm > 0 then Some (revert_to prev (now + confirm)) else None)\<rparr>)"

definition apply_message :: "Policy \<Rightarrow> string \<Rightarrow> string" where
  "apply_message next by =
     p_vm next @ '' '' @ (if p_mode next = Enforce then ''is now enforcing'' else ''is auditing'')
     @ '' an egress policy of '' @ Itoa (int (length (p_allow next))) @ '' networks (set by '' @ by @ '', from '' @ p_source next @ '')''
     @ (case p_revert next of
          None \<Rightarrow> ''''
        | Some r \<Rightarrow> ''; it goes back to '' @ policy_describe (rv_mode r) (length (rv_allow r)) @ '' at '' @ FormatRFC3339 (rv_until r)
            @ '' unless confirmed (shukractl policy confirm '' @ p_vm next @ '')'')"

text \<open>The last part of \<open>applyLocked\<close>: the record first, then the kernel; a change that fails is put back.\<close>

definition install :: "('k, 's) Engine_deps \<Rightarrow> world \<Rightarrow> string list \<Rightarrow> event_vm \<Rightarrow> Policy \<Rightarrow> Policy option \<Rightarrow> ('k, 's) Engine
    \<Rightarrow> ('k, 's) Engine \<times> (policy_err + PolicyRow \<times> announcement list)" where
  "install D w taps vm next prev e =
     (let name = p_vm next;
          e = e\<lparr>en_pol := AList.update name next (en_pol e)\<rparr>;
          (e, err) = saveLocked D e
      in if err \<noteq> None then (put_back name prev e, Inl (PolicyFailed ''the policy was not saved''))
         else
           (let (e, failed) = setTaps D taps (p_mode next) (p_allow next) e
            in if length failed = length taps then
                 (let e = put_back name prev e;
                      e = fst (saveLocked D e);
                      e = fst (case prev of Some p \<Rightarrow> setTaps D taps (p_mode p) (p_allow p) e | None \<Rightarrow> setTaps D taps Off [] e)
                  in (e, Inl (PolicyFailed ''the tap program did not take the policy'')))
               else
                 (let row = rowLocked D w next True e;
                      row = (if failed = [] then row else row\<lparr>w_problem := ''some taps did not take it: '' @ Join failed ''; ''\<rparr>)
                  in (e, Inr (row, [\<lparr>an_vm = vm, an_rule = ''policy-applied'',
                        an_severity = (if p_mode next = Enforce then ''medium'' else ''low''),
                        an_message = apply_message next (p_by next)\<rparr>])))))"

definition applyLocked :: "('k, 's) Engine_deps \<Rightarrow> world \<Rightarrow> string \<Rightarrow> Mode \<Rightarrow> PolicyRequest \<Rightarrow> duration \<Rightarrow> string \<Rightarrow> ('k, 's) Engine
    \<Rightarrow> ('k, 's) Engine \<times> (policy_err + PolicyRow \<times> announcement list)" where
  "applyLocked D w vmName mode req confirm actor e =
     (let (taps, vm, present) = policy_find vmName w
      in if \<not> present then (e, Inl (PolicyNotFound vmName))
         else if taps = [] then (e, Inl (PolicyRefused ''no tap interface''))
         else if \<not> fst (kn_Available (dp_kernel D) (en_kernel e)) then (e, Inl (PolicyRefused ''the tap program is not loaded''))
         else case apply_list vmName req w e of
           Inl err \<Rightarrow> (e, Inl err)
         | Inr (allow, source) \<Rightarrow>
            (if length allow > MaxAllow then (e, Inl (PolicyBad ''too many networks''))
             else case (if mode = Enforce then enforce_refusal D req confirm allow e else None) of
               Some err \<Rightarrow> (e, Inl err)
             | None \<Rightarrow>
                (let prev = map_of (en_pol e) vmName
                 in install D w taps vm (next_policy vmName mode allow source confirm actor prev (wd_now w)) prev e)))"

definition Remove :: "('k, 's) Engine_deps \<Rightarrow> world \<Rightarrow> string \<Rightarrow> string \<Rightarrow> ('k, 's) Engine
    \<Rightarrow> ('k, 's) Engine \<times> (policy_err + PolicyRow \<times> announcement list)" where
  "Remove D w vmName actor e =
     (let (taps, vm, present) = policy_find vmName w;
          kernelHad = list_ex (\<lambda>t. kn_Mode (dp_kernel D) t (en_kernel e) \<noteq> 0) taps
      in if map_of (en_pol e) vmName = None \<and> \<not> kernelHad then (e, Inl (PolicyNotFound vmName))
         else
           (let (e, failed) = setTaps D taps Off [] e;
                e = e\<lparr>en_pol := AList.delete vmName (en_pol e)\<rparr>;
                e = fst (saveLocked D e);
                row = \<lparr>w_vm = vmName, w_mode = Off, w_allow = [], w_source = '''', w_by = '''', w_applied = 0, w_key_id = '''',
                  w_role = '''', w_label = '''', w_remote = '''', w_request_id = '''', w_op = '''', w_present = present,
                  w_revert = None, w_taps = [],
                  w_problem = (if failed = [] then '''' else ''some taps did not release it: '' @ Join failed ''; '')\<rparr>
            in (e, Inr (row, [\<lparr>an_vm = vm, an_rule = ''policy-removed'', an_severity = ''low'',
                  an_message = vmName @ apos_s @ '' egress policy was removed by '' @ Principal (ParseActor actor)\<rparr>]))))"

text \<open>The confirmation time of a request: \<open>None\<close> for one that is not a duration within the bounds.\<close>

definition confirm_time :: "string \<Rightarrow> duration option" where
  "confirm_time s =
     (if s = '''' then Some 0
      else case ParseDuration s of
        None \<Rightarrow> None
      | Some d \<Rightarrow> if d < MinConfirm \<or> d > MaxConfirm then None else Some d)"

definition Apply :: "('k, 's) Engine_deps \<Rightarrow> world \<Rightarrow> string \<Rightarrow> PolicyRequest \<Rightarrow> string \<Rightarrow> ('k, 's) Engine
    \<Rightarrow> ('k, 's) Engine \<times> (policy_err + PolicyRow \<times> announcement list)" where
  "Apply D w vmName req actor e =
     (if rq_mode req \<notin> {Off, Audit_mode, Enforce} then (e, Inl (PolicyBad ''mode is not off, audit or enforce''))
      else if rq_mode req = Off then Remove D w vmName actor e
      else case confirm_time (rq_confirm req) of
        None \<Rightarrow> (e, Inl (PolicyBad ''confirm is not a duration within its bounds''))
      | Some confirm \<Rightarrow>
         (if rq_permanent req \<and> confirm > 0 then (e, Inl (PolicyBad ''a confirmation time or permanent, not both''))
          else applyLocked D w vmName (rq_mode req) req confirm actor e))"

section \<open>Confirming\<close>

definition stamp_policy :: "caller \<Rightarrow> Policy \<Rightarrow> Policy" where
  "stamp_policy who p = p\<lparr>p_by := Principal who, p_key_id := c_key_id who, p_role := c_role who, p_label := c_label who,
     p_remote := c_remote who, p_request := c_request_id who, p_op := c_op who\<rparr>"

definition Confirm :: "('k, 's) Engine_deps \<Rightarrow> world \<Rightarrow> string \<Rightarrow> string \<Rightarrow> ('k, 's) Engine
    \<Rightarrow> ('k, 's) Engine \<times> (policy_err + PolicyRow \<times> announcement list)" where
  "Confirm D w vmName actor e = (case map_of (en_pol e) vmName of
      None \<Rightarrow> (e, Inl (PolicyNotFound vmName))
    | Some p0 \<Rightarrow>
       (if p_revert p0 = None then (e, Inl (PolicyRefused ''nothing waits for confirmation''))
        else
          (let who = ParseActor actor;
               p = stamp_policy who (p0\<lparr>p_revert := None\<rparr>);
               (e, err) = saveLocked D (e\<lparr>en_pol := AList.update vmName p (en_pol e)\<rparr>)
           in if err \<noteq> None then
                (e\<lparr>en_pol := AList.update vmName (p\<lparr>p_revert := p_revert p0\<rparr>) (en_pol e)\<rparr>,
                 Inl (PolicyFailed ''the confirmation was not saved''))
              else
                (let (_, vm, present) = policy_find vmName w
                 in (e, Inr (rowLocked D w p present e, [\<lparr>an_vm = vm, an_rule = ''policy-confirmed'', an_severity = ''low'',
                       an_message = vmName @ apos_s @ '' '' @ p_mode p @ '' egress policy was confirmed by '' @ Principal who @ '': it stays''\<rparr>]))))))"

section \<open>Reconciling\<close>

definition timer_out :: "time \<Rightarrow> Policy \<Rightarrow> bool" where
  "timer_out now p = (case p_revert p of None \<Rightarrow> False | Some r \<Rightarrow> rv_until r \<le> now)"

text \<open>One policy of the revert loop; it is called on names that have a record.\<close>

definition revert_one :: "('k, 's) Engine_deps \<Rightarrow> world \<Rightarrow> string \<Rightarrow> ('k, 's) Engine \<Rightarrow> ('k, 's) Engine \<times> announcement list" where
  "revert_one D w n e = (case map_of (en_pol e) n of
      None \<Rightarrow> (e, [])
    | Some p \<Rightarrow> (case p_revert p of
        None \<Rightarrow> (e, [])
      | Some r \<Rightarrow>
         (if wd_now w < rv_until r then (e, [])
          else
            (let (taps, vm, _) = policy_find n w
             in if rv_mode r = Off then
                  (fst (setTaps D taps Off [] (e\<lparr>en_pol := AList.delete n (en_pol e)\<rparr>)),
                   [\<lparr>an_vm = vm, an_rule = ''policy-reverted'', an_severity = ''medium'',
                     an_message = n @ apos_s @ '' egress policy was not confirmed in time and has been removed''\<rparr>])
                else
                  (let p' = p\<lparr>p_mode := rv_mode r, p_allow := rv_allow r, p_source := rv_source r, p_revert := None, p_applied := wd_now w\<rparr>
                   in (fst (setTaps D taps (rv_mode r) (rv_allow r) (e\<lparr>en_pol := AList.update n p' (en_pol e)\<rparr>)),
                       [\<lparr>an_vm = vm, an_rule = ''policy-reverted'', an_severity = ''medium'',
                         an_message = n @ apos_s @ '' enforcing egress policy was not confirmed in time and has gone back to ''
                           @ policy_describe (rv_mode r) (length (rv_allow r))\<rparr>]))))))"

fun revert_loop :: "('k, 's) Engine_deps \<Rightarrow> world \<Rightarrow> string list \<Rightarrow> ('k, 's) Engine \<Rightarrow> ('k, 's) Engine \<times> announcement list" where
  "revert_loop D w [] e = (e, [])"
| "revert_loop D w (n # ns) e =
     (let (e, as) = revert_one D w n e; (e, bs) = revert_loop D w ns e in (e, as @ bs))"

text \<open>One tap of the pass that makes the kernel match the record.\<close>

definition repair_tap :: "('k, 's) Engine_deps \<Rightarrow> Policy \<Rightarrow> string \<Rightarrow> ('k, 's) Engine \<Rightarrow> ('k, 's) Engine" where
  "repair_tap D p t e =
     (if modeOf (kn_Mode (dp_kernel D) t (en_kernel e)) = p_mode p then e
      else
        (let (e, failed) = setTaps D [t] (p_mode p) (p_allow p) e
         in case failed of
              [] \<Rightarrow> e
            | f # _ \<Rightarrow> e\<lparr>en_logged := List.insert (t @ f) (en_logged e)\<rparr>))"

definition repair_vm :: "('k, 's) Engine_deps \<Rightarrow> vm_info \<Rightarrow> ('k, 's) Engine \<Rightarrow> ('k, 's) Engine" where
  "repair_vm D v e = (case map_of (en_pol e) (id_name v) of
      None \<Rightarrow> e
    | Some p \<Rightarrow> fold (repair_tap D p) (id_taps v) e)"

definition Reconcile :: "('k, 's) Engine_deps \<Rightarrow> world \<Rightarrow> ('k, 's) Engine \<Rightarrow> ('k, 's) Engine \<times> announcement list" where
  "Reconcile D w e =
     (let (e, as) = revert_loop D w (sort (map fst (en_pol e))) e;
          e = (if as = [] then e else fst (saveLocked D e))
      in (fold (repair_vm D) (wd_vms w) e, as))"

section \<open>Views\<close>

definition Orphans :: "('k, 's) Engine_deps \<Rightarrow> world \<Rightarrow> ('k, 's) Engine \<Rightarrow> PolicyOrphan list" where
  "Orphans D w e = concat (map (\<lambda>v.
     if map_of (en_pol e) (id_name v) \<noteq> None then []
     else map (\<lambda>t. \<lparr>po_vm = id_name v, po_tap = t, po_mode = modeOf (kn_Mode (dp_kernel D) t (en_kernel e))\<rparr>)
            (filter (\<lambda>t. kn_Mode (dp_kernel D) t (en_kernel e) \<noteq> 0) (id_taps v))) (wd_vms w))"

definition policy_Get :: "('k, 's) Engine_deps \<Rightarrow> world \<Rightarrow> string \<Rightarrow> ('k, 's) Engine \<Rightarrow> PolicyRow option" where
  "policy_Get D w vm e = (case map_of (en_pol e) vm of
      None \<Rightarrow> None
    | Some p \<Rightarrow> Some (rowLocked D w p (snd (snd (policy_find vm w))) e))"

definition policy_List :: "('k, 's) Engine_deps \<Rightarrow> world \<Rightarrow> ('k, 's) Engine \<Rightarrow> PolicyRow list" where
  "policy_List D w e = map (\<lambda>n. rowLocked D w (the (map_of (en_pol e) n)) (n \<in> set (map id_name (wd_vms w))) e)
     (sort (map fst (en_pol e)))"

section \<open>The daemon's kernel and store\<close>

text \<open>The counters of the egress maps are not modelled; the rows show zeros for them.\<close>

definition tap_kernel_if :: "Enforcer option \<Rightarrow> tapMgr Kernel_if" where
  "tap_kernel_if enf = \<lparr>kn_Available = ek_Available, kn_CanEnforce = ek_CanEnforce enf, kn_Set = SetTapEgress,
     kn_Mode = TapEgress, kn_Stats = (\<lambda>_. [])\<rparr>"

text \<open>
  The file the daemon keeps the policies in, \<open>internal/persist/policy.go\<close>. \<open>WriteFileAtomic\<close> can fail before
  the new file takes the old one's name, and it can fail after, when the directory cannot be synced; which of
  the writes to come do is the list \<open>pf_writes\<close>, and they succeed when it is empty.
\<close>

datatype policy_doc = NoFile | Unreadable | PolicyDoc int "Policy list"

datatype write_outcome = Written | NotWritten | NotSynced

record policy_file =
  pf_doc :: policy_doc
  pf_aside :: bool
  pf_writes :: "write_outcome list"

definition policies_Save :: "Policy list \<Rightarrow> policy_file \<Rightarrow> policy_file \<times> string option" where
  "policies_Save ps f = (case pf_writes f of
      [] \<Rightarrow> (f\<lparr>pf_doc := PolicyDoc 1 ps\<rparr>, None)
    | Written # ws \<Rightarrow> (f\<lparr>pf_doc := PolicyDoc 1 ps, pf_writes := ws\<rparr>, None)
    | NotWritten # ws \<Rightarrow> (f\<lparr>pf_writes := ws\<rparr>, Some ''write'')
    | NotSynced # ws \<Rightarrow> (f\<lparr>pf_doc := PolicyDoc 1 ps, pf_writes := ws\<rparr>, Some ''sync''))"

definition OpenPolicies :: "policy_file \<Rightarrow> policy_file \<times> Policy list" where
  "OpenPolicies f = (case pf_doc f of
      NoFile \<Rightarrow> (f, [])
    | Unreadable \<Rightarrow> (f\<lparr>pf_doc := NoFile, pf_aside := True\<rparr>, [])
    | PolicyDoc v ps \<Rightarrow> if v \<noteq> 1 then (f\<lparr>pf_doc := NoFile, pf_aside := True\<rparr>, []) else (f, ps))"

definition daemon_deps :: "Enforcer option \<Rightarrow> (tapMgr, policy_file) Engine_deps" where
  "daemon_deps enf = \<lparr>dp_kernel = tap_kernel_if enf, dp_store = Some \<lparr>sv_Save = policies_Save\<rparr>\<rparr>"

interpretation policies: record_store policies_Save "\<lambda>f. snd (OpenPolicies f)"
  by unfold_locales
    (auto simp: policies_Save_def OpenPolicies_def split: list.splits write_outcome.splits policy_doc.splits)

section \<open>Allow lists are canonical\<close>

lemma parse_net_canonical: "parse_net s = Inr (Some p) \<Longrightarrow> px_canonical p"
proof -
  assume s: "parse_net s = Inr (Some p)"
  let ?s = "TrimSpace s"
  let ?q = "if ContainsStr ?s ''/'' then ParsePrefix ?s else map_option (\<lambda>a. PrefixFrom a (BitLen a)) (ParseAddr ?s)"
  obtain q where q: "?q = Some q" using s by (auto simp: parse_net_def Let_def split: if_splits option.splits)
  have ok: "px_addr q \<noteq> NoAddr" "withoutZone (px_addr q) = px_addr q" "0 \<le> px_bits q" "px_bits q \<le> BitLen (px_addr q)"
    using q ParsePrefix_valid[of ?s q] ParseAddr_valid[of ?s]
    by (auto simp: PrefixFrom_def withoutZone_def BitLen_def split: if_splits addr.splits)
  show ?thesis
  proof (cases "Is4In6 (px_addr q)")
    case True
    let ?r = "PrefixFrom (Unmap (px_addr q)) (px_bits q - 96)"
    have p: "px_valid ?r" "p = Masked ?r" using s q True by (auto simp: parse_net_def Let_def split: if_splits)
    have "px_plain ?r" using p(1) Unmap_plain[OF ok(1)]
      by (auto simp: px_plain_def PrefixFrom_def withoutZone_def BitLen_def split: if_splits addr.splits)
    then show ?thesis unfolding p(2) by (rule px_canonical_Masked)
  next
    case False
    then have "p = Masked q" using s q by (auto simp: parse_net_def Let_def split: if_splits)
    moreover have "px_plain q" using ok False by (simp add: px_plain_def addr_plain_def)
    ultimately show ?thesis using px_canonical_Masked by simp
  qed
qed

lemma parse_nets_ok:
  "parse_nets ss out = Inr ps \<Longrightarrow> \<forall>p \<in> set out. px_canonical p \<Longrightarrow> distinct out \<Longrightarrow>
   distinct ps \<and> (\<forall>p \<in> set ps. px_canonical p)"
proof (induction ss arbitrary: out)
  case (Cons s ss)
  show ?case
  proof (cases "parse_net s")
    case (Inr r)
    show ?thesis
    proof (cases r)
      case None
      then show ?thesis using Cons Inr by simp
    next
      case (Some p)
      let ?out = "if p \<in> set out then out else out @ [p]"
      have "px_canonical p" using parse_net_canonical Inr Some by simp
      then have "\<forall>p \<in> set ?out. px_canonical p" "distinct ?out" using Cons.prems by auto
      then show ?thesis using Cons.IH[of ?out] Cons.prems(1) Inr Some by simp
    qed
  qed (use Cons.prems in simp)
qed simp

lemma net_order_inj: "px_canonical p \<Longrightarrow> px_canonical q \<Longrightarrow> net_order p = net_order q \<Longrightarrow> p = q"
  by (cases p; cases q)
    (auto simp: net_order_def addr_key_def px_canonical_def px_plain_def addr_plain_def split: addr.splits
      intro: word_uint_eq_iff[THEN iffD2])

definition net_list :: "ip_prefix list \<Rightarrow> bool" where
  "net_list ps \<longleftrightarrow> (\<forall>p \<in> set ps. px_canonical p) \<and> distinct ps \<and> sorted (map net_order ps)"

lemma parseAllow_net_list: "parseAllow ss = Inr ps \<Longrightarrow> net_list ps"
  using parse_nets_ok[of ss "[]"]
  by (auto simp: parseAllow_def net_list_def map_sum_def split: sum.splits)

lemma slash_in_prefix_String: "px_plain p \<Longrightarrow> ContainsStr (prefix_String p) ''/''"
  by (auto simp: prefix_String_def px_plain_def sublist_def)

lemma parse_net_prefix_String: "px_canonical p \<Longrightarrow> parse_net (prefix_String p) = Inr (Some p)"
proof -
  assume p: "px_canonical p"
  then have pl: "px_plain p" "Masked p = p" "\<not> Is4In6 (px_addr p)" by (auto simp: px_canonical_def px_plain_def addr_plain_def)
  have t: "TrimSpace (prefix_String p) = prefix_String p" using prefix_String_no_space[OF pl(1)] by (rule TrimSpace_id)
  have ne: "prefix_String p \<noteq> ''''" using slash_in_prefix_String[OF pl(1)] by auto
  show ?thesis using t ne slash_in_prefix_String[OF pl(1)] ParsePrefix_String[OF pl(1)] pl(2,3)
    by (simp add: parse_net_def Let_def)
qed

lemma parse_nets_prefixStrings:
  "distinct (out @ ps) \<Longrightarrow> \<forall>p \<in> set ps. px_canonical p \<Longrightarrow> parse_nets (prefixStrings ps) out = Inr (out @ ps)"
  by (induction ps arbitrary: out) (simp_all add: prefixStrings_def parse_net_prefix_String)

lemma net_list_roundtrip: "net_list ps \<Longrightarrow> parseAllow (prefixStrings ps) = Inr ps"
  using parse_nets_prefixStrings[of "[]" ps] by (simp add: net_list_def parseAllow_def sorted_sort_id sort_key_id_if_sorted)

text \<open>
  An allow list that is accepted is canonical and is read back as itself: the networks are valid, without
  zones, never IPv4 written as IPv6, with their host bits cleared, without duplicates and in order; the
  record, which stores them as text, means exactly those networks when it is read after a restart; and the
  kernel's key for each is its own.
\<close>

theorem parseAllow_canonical:
  assumes "parseAllow ss = Inr ps"
  shows "(\<forall>p \<in> set ps. px_canonical p) \<and> distinct ps \<and> sorted (map net_order ps) \<and>
    parseAllow (prefixStrings ps) = Inr ps \<and> (\<forall>p \<in> set ps. egress_net p = Some p)"
proof -
  have l: "net_list ps" using parseAllow_net_list[OF assms] .
  have "egress_net p = Some p" if "px_canonical p" for p
  proof -
    have pl: "px_plain p" "\<not> Is4In6 (px_addr p)" "px_addr p \<noteq> NoAddr" "Masked p = p"
      using that by (auto simp: px_canonical_def px_plain_def addr_plain_def)
    then have "addr_Prefix (px_addr p) (px_bits p) = Some (Masked p)"
      using Masked_simp[OF pl(1)] by (auto simp: addr_Prefix_def px_plain_def Masked_def)
    then show ?thesis using pl by (simp add: egress_net_def)
  qed
  then show ?thesis using l net_list_roundtrip[OF l] by (simp add: net_list_def)
qed

theorem parseAllow_canonical_witness:
  "\<exists>ps. parseAllow ['' 10.1.2.3/16'', ''::ffff:192.0.2.1'', ''10.1.0.0/16''] = Inr ps \<and> length ps = 2 \<and>
     parseAllow (prefixStrings ps) = Inr ps"
proof -
  let ?ps = "[\<lparr>px_addr = V4 0x0a010000, px_bits = 16\<rparr>, \<lparr>px_addr = V4 0xc0000201, px_bits = 32\<rparr>]"
  have p: "parseAllow ['' 10.1.2.3/16'', ''::ffff:192.0.2.1'', ''10.1.0.0/16''] = Inr ?ps" by code_simp
  then show ?thesis using parseAllow_canonical[OF p] by auto
qed

section \<open>What each operation does to the record\<close>

lemma put_back_simps [simp]:
  "map_of (en_pol (put_back vm prev e)) = (map_of (en_pol e))(vm := prev)"
  "en_kernel (put_back vm prev e) = en_kernel e" "en_saved (put_back vm prev e) = en_saved e"
  by (simp_all add: put_back_def split: option.split)

lemma saveLocked_frame [simp]: "en_pol (fst (saveLocked D e)) = en_pol e" "en_kernel (fst (saveLocked D e)) = en_kernel e"
  by (simp_all add: saveLocked_def split: option.split prod.split)

lemma setTaps_frame [simp]: "en_pol (fst (setTaps D taps m a e)) = en_pol e" "en_saved (fst (setTaps D taps m a e)) = en_saved e"
  by (simp_all add: setTaps_def Let_def split: prod.split)

lemma p_vm_next [simp]: "p_vm (next_policy vm mode allow source confirm actor prev now) = vm"
  "p_mode (next_policy vm mode allow source confirm actor prev now) = mode"
  "p_allow (next_policy vm mode allow source confirm actor prev now) = allow"
  by (simp_all add: next_policy_def Let_def)

text \<open>The three ways \<open>install\<close> ends: not saved, taken by no tap, or in force.\<close>

lemma install_cases:
  assumes "install D w taps vm p prev e = (e', r)" "prev = map_of (en_pol e) (p_vm p)"
  obtains (failed) err where "r = Inl err" "map_of (en_pol e') = map_of (en_pol e)"
  | (in_force) e1 failed x where "r = Inr x"
      "saveLocked D (e\<lparr>en_pol := AList.update (p_vm p) p (en_pol e)\<rparr>) = (e1, None)"
      "setTaps D taps (p_mode p) (p_allow p) e1 = (e', failed)" "length failed \<noteq> length taps"
      "map_of (en_pol e') = (map_of (en_pol e))(p_vm p \<mapsto> p)"
proof -
  let ?e0 = "e\<lparr>en_pol := AList.update (p_vm p) p (en_pol e)\<rparr>"
  obtain e1 err where s: "saveLocked D ?e0 = (e1, err)" by fastforce
  have e1: "en_pol e1 = AList.update (p_vm p) p (en_pol e)" using saveLocked_frame(1)[of D ?e0] s by simp
  show thesis
  proof (cases err)
    case (Some x)
    then show thesis using assms s e1 failed by (auto simp: install_def Let_def)
  next
    case None
    obtain e2 fl where t: "setTaps D taps (p_mode p) (p_allow p) e1 = (e2, fl)" by fastforce
    have e2: "en_pol e2 = en_pol e1" using setTaps_frame(1)[of D taps "p_mode p" "p_allow p" e1] t by simp
    show thesis
    proof (cases "length fl = length taps")
      case True
      then have "\<exists>x. r = Inl x" "map_of (en_pol e') = map_of (en_pol e)"
        using assms s None t e1 e2 by (auto simp: install_def Let_def split: option.splits)
      then show thesis using failed by blast
    next
      case False
      then have "\<exists>x. r = Inr x" "e' = e2" using assms s None t by (auto simp: install_def Let_def)
      then show thesis using in_force[of _ e1 fl] s None t False e1 e2 by auto
    qed
  qed
qed

lemma applyLocked_cases:
  assumes "applyLocked D w vm mode req confirm actor e = (e', r)"
  obtains (failed) err where "r = Inl err" "map_of (en_pol e') = map_of (en_pol e)"
  | (in_force) v allow source x e1 fl where "r = Inr x" "find (\<lambda>v. id_name v = vm) (wd_vms w) = Some v" "id_taps v \<noteq> []"
      "apply_list vm req w e = Inr (allow, source)" "length allow \<le> MaxAllow"
      "mode = Enforce \<Longrightarrow> enforce_refusal D req confirm allow e = None"
      "saveLocked D (e\<lparr>en_pol := AList.update vm (next_policy vm mode allow source confirm actor (map_of (en_pol e) vm) (wd_now w)) (en_pol e)\<rparr>) = (e1, None)"
      "setTaps D (id_taps v) mode allow e1 = (e', fl)" "length fl \<noteq> length (id_taps v)"
      "map_of (en_pol e') = (map_of (en_pol e))(vm \<mapsto> next_policy vm mode allow source confirm actor (map_of (en_pol e) vm) (wd_now w))"
proof (cases "\<exists>err. r = Inl err \<and> e' = e")
  case True
  then show thesis using failed by auto
next
  case False
  let ?find = "find (\<lambda>v. id_name v = vm) (wd_vms w)"
  obtain v where v: "?find = Some v" "id_taps v \<noteq> []"
    using False assms by (auto simp: applyLocked_def policy_find_def split: option.splits if_splits)
  obtain allow source where l: "apply_list vm req w e = Inr (allow, source)" "length allow \<le> MaxAllow"
    "mode = Enforce \<Longrightarrow> enforce_refusal D req confirm allow e = None"
    using False assms v
    by (auto simp: applyLocked_def policy_find_def Let_def split: option.splits if_splits sum.splits)
  let ?next = "next_policy vm mode allow source confirm actor (map_of (en_pol e) vm) (wd_now w)"
  have i: "install D w (id_taps v) \<lparr>vm_name = id_name v, vm_uuid = id_uuid v, vm_runtime = id_runtime v\<rparr> ?next (map_of (en_pol e) vm) e = (e', r)"
    using False assms v l by (auto simp: applyLocked_def policy_find_def Let_def split: if_splits)
  from i show thesis
  proof (rule install_cases)
    fix e1 fl x
    assume "r = Inr x" "saveLocked D (e\<lparr>en_pol := AList.update (p_vm ?next) ?next (en_pol e)\<rparr>) = (e1, None)"
      "setTaps D (id_taps v) (p_mode ?next) (p_allow ?next) e1 = (e', fl)" "length fl \<noteq> length (id_taps v)"
      "map_of (en_pol e') = (map_of (en_pol e))(p_vm ?next \<mapsto> ?next)"
    then show thesis using in_force[of x v allow source e1 fl] v l by simp
  qed (use failed in auto)
qed

lemma Remove_error: "Remove D w vm actor e = (e', Inl err) \<Longrightarrow> e' = e"
  by (auto simp: Remove_def Let_def split: prod.splits if_splits)

text \<open>
  C37. A request that fails leaves every VM's policy as it was: whatever \<open>Apply\<close> answers with an error (a bad
  request, a refusal, a record that could not be saved, a kernel that did not take it), the record the engine
  holds for every VM is the one it held before.
\<close>

theorem Apply_error_keeps_records:
  assumes "Apply D w vm req actor e = (e', Inl err)"
  shows "map_of (en_pol e') = map_of (en_pol e)"
proof -
  consider "e' = e" | confirm where "applyLocked D w vm (rq_mode req) req confirm actor e = (e', Inl err)"
    using assms by (auto simp: Apply_def dest: Remove_error split: if_splits option.splits)
  then show ?thesis
  proof cases
    case 2
    then show ?thesis by (rule applyLocked_cases) auto
  qed simp
qed

section \<open>What each operation does to the kernel\<close>

locale policy_kernel = egress_kernel "kn_Set K" "kn_Mode K" for K :: "'k Kernel_if"
begin

lemma set_taps_other: "t \<notin> set ts \<Longrightarrow> set_taps_loop K ts mode nets k f0 = (k', fl) \<Longrightarrow> kn_Mode K t k' = kn_Mode K t k"
proof (induction ts arbitrary: k f0)
  case (Cons x ts)
  obtain k1 err where s: "kn_Set K x mode nets k = (k1, err)" by fastforce
  have "kn_Mode K t k1 = kn_Mode K t k" using kset_other[of t x mode nets k] Cons.prems(1) s by auto
  then show ?case using Cons s by (cases err) auto
qed simp

lemma set_taps_mode: "set_taps_loop K ts mode nets k f0 = (k', fl) \<Longrightarrow> kn_Mode K t k' \<in> {kn_Mode K t k, mode}"
proof (induction ts arbitrary: k f0)
  case (Cons x ts)
  obtain k1 err where s: "kn_Set K x mode nets k = (k1, err)" by fastforce
  have "kn_Mode K t k1 \<in> {kn_Mode K t k, mode}"
    using kset_other[of t x mode nets k] kset_ok[of x mode nets k k1] kset_err[of x mode nets k k1] s
    by (cases err; cases "t = x") auto
  moreover obtain f1 where "set_taps_loop K ts mode nets k1 f1 = (k', fl)" using Cons.prems s by (cases err) auto
  ultimately show ?case using Cons.IH[of k1 f1] by auto
qed simp

lemma set_taps_len: "set_taps_loop K ts mode nets k f0 = (k', fl) \<Longrightarrow> length f0 \<le> length fl \<and> length fl \<le> length f0 + length ts"
proof (induction ts arbitrary: k f0)
  case (Cons x ts)
  obtain k1 err where s: "kn_Set K x mode nets k = (k1, err)" by fastforce
  then show ?case using Cons.IH[of k1] Cons.prems by (cases err) (auto, fastforce+)
qed simp

lemma set_taps_all: "set_taps_loop K ts mode nets k f0 = (k', f0) \<Longrightarrow> t \<in> set ts \<Longrightarrow> kn_Mode K t k' = mode"
proof (induction ts arbitrary: k)
  case (Cons x ts)
  obtain k1 err where s: "kn_Set K x mode nets k = (k1, err)" by fastforce
  show ?case
  proof (cases err)
    case None
    then have r: "set_taps_loop K ts mode nets k1 f0 = (k', f0)" using Cons.prems(1) s by simp
    have "kn_Mode K x k1 = mode" using kset_ok s None by simp
    then show ?thesis using Cons.IH[OF r] Cons.prems(2) set_taps_mode[OF r, of x] by auto
  next
    case (Some y)
    then show ?thesis using Cons.prems(1) s set_taps_len[of ts mode nets k1 "f0 @ [x @ '': '' @ y]" k' f0] by simp
  qed
qed simp

lemma set_taps_some: "set_taps_loop K ts mode nets k f0 = (k', fl) \<Longrightarrow> length fl < length f0 + length ts \<Longrightarrow>
    \<exists>t \<in> set ts. kn_Mode K t k' = mode"
proof (induction ts arbitrary: k f0)
  case (Cons x ts)
  obtain k1 err where s: "kn_Set K x mode nets k = (k1, err)" by fastforce
  show ?case
  proof (cases err)
    case None
    then have "kn_Mode K x k1 = mode" "set_taps_loop K ts mode nets k1 f0 = (k', fl)" using kset_ok s Cons.prems(1) by auto
    then show ?thesis using set_taps_mode[of ts mode nets k1 f0 k' fl x] by auto
  next
    case (Some y)
    then show ?thesis using Cons.IH[of k1 "f0 @ [x @ '': '' @ y]"] Cons.prems s by auto
  qed
qed simp

lemma setTaps_other: "dp_kernel D = K \<Longrightarrow> t \<notin> set ts \<Longrightarrow>
    kn_Mode K t (en_kernel (fst (setTaps D ts m a e))) = kn_Mode K t (en_kernel e)"
  using set_taps_other by (auto simp: setTaps_def Let_def split: prod.splits)

lemma setTaps_all: "dp_kernel D = K \<Longrightarrow> setTaps D ts m a e = (e', []) \<Longrightarrow> t \<in> set ts \<Longrightarrow> kn_Mode K t (en_kernel e') = mode_kernel m"
  using set_taps_all by (auto simp: setTaps_def Let_def split: prod.splits)

lemma setTaps_some: "dp_kernel D = K \<Longrightarrow> setTaps D ts m a e = (e', fl) \<Longrightarrow> length fl \<noteq> length ts \<Longrightarrow>
    \<exists>t \<in> set ts. kn_Mode K t (en_kernel e') = mode_kernel m"
proof -
  assume a: "dp_kernel D = K" "setTaps D ts m a e = (e', fl)" "length fl \<noteq> length ts"
  let ?nets = "case parseAllow a of Inl _ \<Rightarrow> [] | Inr ps \<Rightarrow> ps"
  obtain k where k: "set_taps_loop K ts (mode_kernel m) ?nets (en_kernel e) [] = (k, fl)" "en_kernel e' = k"
    using a(1,2) by (auto simp: setTaps_def Let_def split: prod.splits)
  have "length fl < length ([] :: string list) + length ts" using set_taps_len[OF k(1)] a(3) by auto
  from set_taps_some[OF k(1) this] k(2) show ?thesis by simp
qed

end

interpretation tap_policy_kernel: policy_kernel "tap_kernel_if enf" for enf
  by (simp add: policy_kernel_def tap_kernel_if_def tap_egress.egress_kernel_axioms)

section \<open>Enforcing\<close>

definition revert_target :: "Policy option \<Rightarrow> Mode \<times> string list \<times> string" where
  "revert_target prev = (case prev of
      None \<Rightarrow> (Off, [], '''')
    | Some p \<Rightarrow> (case p_revert p of
        Some r \<Rightarrow> (rv_mode r, rv_allow r, rv_source r)
      | None \<Rightarrow> (p_mode p, p_allow p, p_source p)))"

text \<open>
  C2. No VM starts to be enforced unguarded: when the daemon's engine answers a request to enforce without an
  error, the management allow list was in place, the list is not empty and within \<open>MaxAllow\<close>, the policy is in the file
  that survives a restart, some tap of the VM is enforcing, and either the request was explicitly permanent or the record
  carries a timer, at least 30 seconds and at most a day away, whose target is what the VM had before (before
  any change that was never confirmed), and nothing else.
\<close>

theorem Apply_enforce_guarded:
  assumes "rq_mode req = Enforce" "Apply (daemon_deps enf) w vm req actor e = (e', Inr x)"
  shows "\<exists>p v. map_of (en_pol e') vm = Some p \<and> p_mode p = Enforce \<and> p_allow p \<noteq> [] \<and> length (p_allow p) \<le> MaxAllow \<and>
    fst (ek_CanEnforce enf (en_kernel e)) \<and> p \<in> set (snd (OpenPolicies (en_saved e'))) \<and>
    find (\<lambda>v. id_name v = vm) (wd_vms w) = Some v \<and> (\<exists>t \<in> set (id_taps v). TapEgress t (en_kernel e') = EgressEnforce) \<and>
    (if rq_permanent req then p_revert p = None
     else \<exists>r. p_revert p = Some r \<and> wd_now w + MinConfirm \<le> rv_until r \<and> rv_until r \<le> wd_now w + MaxConfirm \<and>
       (rv_mode r, rv_allow r, rv_source r) = revert_target (map_of (en_pol e) vm))"
proof -
  let ?D = "daemon_deps enf"
  obtain confirm where c: "confirm_time (rq_confirm req) = Some confirm" "\<not> (rq_permanent req \<and> confirm > 0)"
    "applyLocked ?D w vm Enforce req confirm actor e = (e', Inr x)"
    using assms by (auto simp: Apply_def split: option.splits if_splits)
  from c(3) show ?thesis
  proof (rule applyLocked_cases)
    fix v allow source y e1 fl
    let ?p = "next_policy vm Enforce allow source confirm actor (map_of (en_pol e) vm) (wd_now w)"
    let ?e0 = "e\<lparr>en_pol := AList.update vm ?p (en_pol e)\<rparr>"
    assume v: "find (\<lambda>v. id_name v = vm) (wd_vms w) = Some v" and len: "length allow \<le> MaxAllow"
      and ref: "(Enforce :: Mode) = Enforce \<Longrightarrow> enforce_refusal ?D req confirm allow e = None"
      and save: "saveLocked ?D ?e0 = (e1, None)" and set: "setTaps ?D (id_taps v) Enforce allow e1 = (e', fl)"
      and some: "length fl \<noteq> length (id_taps v)" and pol: "map_of (en_pol e') = (map_of (en_pol e))(vm \<mapsto> ?p)"
    have guard: "fst (ek_CanEnforce enf (en_kernel e))" "allow \<noteq> []" "confirm \<noteq> 0 \<or> rq_permanent req"
      using ref by (auto simp: enforce_refusal_def daemon_deps_def tap_kernel_if_def Let_def split: prod.splits if_splits)
    have "snd (OpenPolicies (en_saved e1)) = sort_key p_vm (map snd (AList.update vm ?p (en_pol e)))"
      using save policies.save_ok by (auto simp: saveLocked_def daemon_deps_def split: prod.splits)
    moreover have "en_saved e' = en_saved e1" using setTaps_frame(2)[of ?D "id_taps v" Enforce allow e1] set by simp
    moreover have "?p \<in> snd ` set (AList.update vm ?p (en_pol e))"
      using map_of_SomeD[of "AList.update vm ?p (en_pol e)" vm ?p] by force
    ultimately have saved: "?p \<in> set (snd (OpenPolicies (en_saved e')))" by simp
    have tap: "\<exists>t \<in> set (id_taps v). TapEgress t (en_kernel e') = EgressEnforce"
      using tap_policy_kernel.setTaps_some[OF _ set some, of enf]
      by (simp add: daemon_deps_def tap_kernel_if_def mode_kernel_def)
    have timer: "if rq_permanent req then p_revert ?p = None
      else \<exists>r. p_revert ?p = Some r \<and> wd_now w + MinConfirm \<le> rv_until r \<and> rv_until r \<le> wd_now w + MaxConfirm \<and>
        (rv_mode r, rv_allow r, rv_source r) = revert_target (map_of (en_pol e) vm)"
      using c(1,2) guard(3)
      by (auto simp: next_policy_def confirm_time_def revert_to_def revert_target_def Let_def split: if_splits option.splits)
    show ?thesis using pol guard len v saved tap timer by (intro exI[of _ ?p] exI[of _ v]) simp
  qed auto
qed

section \<open>A daemon with one VM\<close>

definition web_world :: "time \<Rightarrow> world" where
  "web_world now = \<lparr>wd_vms = [web_vm], wd_now = now, wd_baselines = None\<rparr>"

definition enforce_request :: PolicyRequest where
  "enforce_request = \<lparr>rq_mode = Enforce, rq_allow = [''10.1.2.3/16''], rq_from_baseline = False, rq_confirm = ''5m'', rq_permanent = False\<rparr>"

definition no_policies :: "write_outcome list \<Rightarrow> (tapMgr, policy_file) Engine" where
  "no_policies ws = policy_New one_tap \<lparr>pf_doc = NoFile, pf_aside = False, pf_writes = ws\<rparr>"

abbreviation web_deps :: "(tapMgr, policy_file) Engine_deps" where
  "web_deps \<equiv> daemon_deps (Some web_enforcer)"

theorem Apply_error_keeps_records_witness:
  "map_of (en_pol (fst (Apply web_deps (web_world 0) ''web'' enforce_request ''ops'' (no_policies [NotWritten])))) = map_of []"
proof -
  let ?r = "Apply web_deps (web_world 0) ''web'' enforce_request ''ops'' (no_policies [NotWritten])"
  have "snd ?r = Inl (PolicyFailed ''the policy was not saved'')" by code_simp
  then have "?r = (fst ?r, Inl (PolicyFailed ''the policy was not saved''))" by (metis prod.collapse)
  from Apply_error_keeps_records[OF this] show ?thesis by (simp add: no_policies_def policy_New_def)
qed

theorem Apply_enforce_guarded_witness:
  "\<exists>p r. map_of (en_pol (fst (Apply web_deps (web_world 0) ''web'' enforce_request ''ops'' (no_policies [])))) ''web'' = Some p \<and>
     p_revert p = Some r \<and> rv_mode r = Off \<and> rv_until r \<le> 24 * hour"
proof -
  let ?r = "Apply web_deps (web_world 0) ''web'' enforce_request ''ops'' (no_policies [])"
  have "isl (snd ?r) = False" by code_simp
  then obtain x where "?r = (fst ?r, Inr x)" by (metis prod.collapse sum.collapse(2))
  moreover have "rq_mode enforce_request = Enforce" "\<not> rq_permanent enforce_request" by (simp_all add: enforce_request_def)
  ultimately show ?thesis using Apply_enforce_guarded[of enforce_request "Some web_enforcer" "web_world 0" "''web''" "''ops''" "no_policies []" "fst ?r" x]
    by (auto simp: web_world_def no_policies_def policy_New_def revert_target_def)
qed

section \<open>The pass\<close>

text \<open>What becomes of a record in one pass: nothing, until its timer runs out unconfirmed; then it is what it
  replaced.\<close>

definition reverted :: "time \<Rightarrow> Policy option \<Rightarrow> Policy option" where
  "reverted now po = (case po of
      None \<Rightarrow> None
    | Some p \<Rightarrow> (case p_revert p of
        None \<Rightarrow> Some p
      | Some r \<Rightarrow>
         (if now < rv_until r then Some p
          else if rv_mode r = Off then None
          else Some (p\<lparr>p_mode := rv_mode r, p_allow := rv_allow r, p_source := rv_source r, p_revert := None, p_applied := now\<rparr>))))"

lemma reverted_idem [simp]: "reverted now (reverted now po) = reverted now po"
  by (auto simp: reverted_def split: option.split)

lemma revert_one_pol:
  "map_of (en_pol (fst (revert_one D w n e))) = (map_of (en_pol e))(n := reverted (wd_now w) (map_of (en_pol e) n))"
  by (auto simp: revert_one_def reverted_def Let_def fun_eq_iff split: option.splits prod.splits)

lemma revert_loop_pol:
  "map_of (en_pol (fst (revert_loop D w ns e))) n =
     (if n \<in> set ns then reverted (wd_now w) (map_of (en_pol e) n) else map_of (en_pol e) n)"
proof (induction ns arbitrary: e)
  case (Cons x ns)
  obtain e1 as where r: "revert_one D w x e = (e1, as)" by fastforce
  have "map_of (en_pol e1) = (map_of (en_pol e))(x := reverted (wd_now w) (map_of (en_pol e) x))"
    using revert_one_pol[of D w x e] r by simp
  then show ?case using Cons.IH[of e1] r by (auto split: prod.split)
qed simp

lemma repair_tap_pol [simp]: "en_pol (repair_tap D p t e) = en_pol e"
proof -
  obtain e' f where s: "setTaps D [t] (p_mode p) (p_allow p) e = (e', f)" by fastforce
  have "en_pol e' = en_pol e" using setTaps_frame(1)[of D "[t]" "p_mode p" "p_allow p" e] s by simp
  then show ?thesis using s by (simp add: repair_tap_def split: list.split)
qed

lemma fold_repair_taps_pol [simp]: "en_pol (fold (repair_tap D p) ts e) = en_pol e"
  by (induction ts arbitrary: e) simp_all

lemma repair_vm_pol [simp]: "en_pol (repair_vm D v e) = en_pol e"
  by (simp add: repair_vm_def split: option.split)

lemma fold_repair_vms_pol [simp]: "en_pol (fold (repair_vm D) vs e) = en_pol e"
  by (induction vs arbitrary: e) simp_all

lemma Reconcile_split:
  obtains e1 as e2 where "revert_loop D w (sort (map fst (en_pol e))) e = (e1, as)"
    "e2 = (if as = [] then e1 else fst (saveLocked D e1))" "Reconcile D w e = (fold (repair_vm D) (wd_vms w) e2, as)"
    "en_pol e2 = en_pol e1" "en_kernel e2 = en_kernel e1"
proof -
  obtain e1 as where r: "revert_loop D w (sort (map fst (en_pol e))) e = (e1, as)" by fastforce
  show thesis using that[OF r refl] r by (simp add: Reconcile_def)
qed

lemma Reconcile_pol: "map_of (en_pol (fst (Reconcile D w e))) n = reverted (wd_now w) (map_of (en_pol e) n)"
proof -
  obtain e1 as e2 where r: "revert_loop D w (sort (map fst (en_pol e))) e = (e1, as)"
    "Reconcile D w e = (fold (repair_vm D) (wd_vms w) e2, as)" "en_pol e2 = en_pol e1"
    by (rule Reconcile_split)
  have "n \<notin> fst ` set (en_pol e) \<Longrightarrow> map_of (en_pol e) n = None" by (simp add: map_of_eq_None_iff)
  then show ?thesis using revert_loop_pol[of D w "sort (map fst (en_pol e))" e n] r by (auto simp: reverted_def)
qed

text \<open>
  C5. The timer is kept, whatever fails: after a pass of the engine, with any kernel and any store, every VM's
  record is what it was, except that one whose confirmation time has come is exactly what it replaced (no
  record at all, or the earlier mode, list and source, with no timer left). So a VM whose enforcing policy
  nobody confirmed is back to what it had at the first pass after the time, even when the daemon was down at
  that time and the record was read from disk.
\<close>

theorem Reconcile_records:
  "map_of (en_pol (fst (Reconcile D w e))) n = reverted (wd_now w) (map_of (en_pol e) n) \<and>
   (case map_of (en_pol (fst (Reconcile D w e))) n of None \<Rightarrow> True | Some p \<Rightarrow> \<not> timer_out (wd_now w) p)"
  unfolding Reconcile_pol by (auto simp: reverted_def timer_out_def split: option.splits)

section \<open>The kernel is made to match\<close>

lemma modeOf_mode_kernel: "m \<in> {Off, Audit_mode, Enforce} \<Longrightarrow> modeOf (mode_kernel m) = m"
  by (auto simp: modeOf_def mode_kernel_def)

lemma mode_kernel_le: "mode_kernel m \<le> 2"
  by (simp add: mode_kernel_def)

locale policy_kernel_live = policy_kernel K + egress_kernel_live "kn_Set K" "kn_Mode K" kup
  for K :: "'k Kernel_if" and kup :: "string \<Rightarrow> 'k \<Rightarrow> bool"
begin

lemma set_taps_stays: "set_taps_loop K ts mode nets k f0 = (k', fl) \<Longrightarrow> kup t k \<Longrightarrow> kup t k'"
proof (induction ts arbitrary: k f0)
  case (Cons x ts)
  obtain k1 err where s: "kn_Set K x mode nets k = (k1, err)" by fastforce
  have "kup t k1" using kup_stays[OF Cons.prems(2), of x mode nets] s by simp
  moreover obtain f1 where "set_taps_loop K ts mode nets k1 f1 = (k', fl)" using Cons.prems(1) s by (cases err) auto
  ultimately show ?case using Cons.IH by blast
qed simp

lemma set_taps_up:
  "set_taps_loop K ts mode nets k f0 = (k', fl) \<Longrightarrow> \<forall>t \<in> set ts. kup t k \<Longrightarrow> mode \<le> 2 \<Longrightarrow> fl = f0"
proof (induction ts arbitrary: k)
  case (Cons x ts)
  obtain k1 err where s: "kn_Set K x mode nets k = (k1, err)" by fastforce
  have up: "kup u k1" if "kup u k" for u using kup_stays[OF that, of x mode nets] s by simp
  have "err = None" using kup_set[of x k mode nets] s Cons.prems(2,3) by simp
  then show ?case using Cons.IH[of k1] Cons.prems s up by simp
qed simp

lemma setTaps_up:
  assumes "dp_kernel D = K"
  shows "kup t (en_kernel e) \<Longrightarrow> kup t (en_kernel (fst (setTaps D ts m a e)))"
    and "\<forall>t \<in> set ts. kup t (en_kernel e) \<Longrightarrow> snd (setTaps D ts m a e) = []"
  using set_taps_stays set_taps_up mode_kernel_le assms by (auto simp: setTaps_def Let_def split: prod.splits)

lemma setTaps_sets:
  assumes "dp_kernel D = K" "\<forall>t \<in> set ts. kup t (en_kernel e)" "t \<in> set ts"
  shows "kn_Mode K t (en_kernel (fst (setTaps D ts m a e))) = mode_kernel m"
  using setTaps_all[OF assms(1) _ assms(3), of m a e "fst (setTaps D ts m a e)"] setTaps_up(2)[OF assms(1,2), of m a]
  by (metis prod.collapse)

lemma repair_tap_kernel:
  assumes "dp_kernel D = K"
  shows "kup t' (en_kernel e) \<Longrightarrow> kup t' (en_kernel (repair_tap D p t e))"
    and "t' \<noteq> t \<Longrightarrow> kn_Mode K t' (en_kernel (repair_tap D p t e)) = kn_Mode K t' (en_kernel e)"
    and "kup t (en_kernel e) \<Longrightarrow> p_mode p \<in> {Off, Audit_mode, Enforce} \<Longrightarrow> modeOf (kn_Mode K t (en_kernel (repair_tap D p t e))) = p_mode p"
proof -
  let ?s = "setTaps D [t] (p_mode p) (p_allow p) e"
  have k: "en_kernel (repair_tap D p t e) = (if modeOf (kn_Mode K t (en_kernel e)) = p_mode p then en_kernel e else en_kernel (fst ?s))"
    using assms by (simp add: repair_tap_def split_beta split: list.split)
  show "kup t' (en_kernel e) \<Longrightarrow> kup t' (en_kernel (repair_tap D p t e))"
    unfolding k using setTaps_up(1)[OF assms] by simp
  show "t' \<noteq> t \<Longrightarrow> kn_Mode K t' (en_kernel (repair_tap D p t e)) = kn_Mode K t' (en_kernel e)"
    unfolding k using setTaps_other[OF assms, of t' "[t]"] by simp
  show "kup t (en_kernel e) \<Longrightarrow> p_mode p \<in> {Off, Audit_mode, Enforce} \<Longrightarrow> modeOf (kn_Mode K t (en_kernel (repair_tap D p t e))) = p_mode p"
    unfolding k using setTaps_sets[OF assms, of "[t]" e t "p_mode p" "p_allow p"] modeOf_mode_kernel by simp
qed

lemma repair_taps_kernel:
  assumes "dp_kernel D = K"
  shows "kup t' (en_kernel e) \<Longrightarrow> kup t' (en_kernel (fold (repair_tap D p) ts e))"
    and "t' \<notin> set ts \<Longrightarrow> kn_Mode K t' (en_kernel (fold (repair_tap D p) ts e)) = kn_Mode K t' (en_kernel e)"
  by (induction ts arbitrary: e) (simp_all add: repair_tap_kernel[OF assms])

lemma repair_taps_match:
  assumes "dp_kernel D = K" "p_mode p \<in> {Off, Audit_mode, Enforce}"
  shows "\<forall>t \<in> set ts. kup t (en_kernel e) \<Longrightarrow> t \<in> set ts \<Longrightarrow>
      modeOf (kn_Mode K t (en_kernel (fold (repair_tap D p) ts e))) = p_mode p"
proof (induction ts arbitrary: e)
  case (Cons x ts)
  let ?e = "repair_tap D p x e"
  have up: "\<forall>t \<in> set ts. kup t (en_kernel ?e)" using Cons.prems(1) repair_tap_kernel(1)[OF assms(1)] by simp
  show ?case
  proof (cases "t \<in> set ts")
    case True
    then show ?thesis using Cons.IH[OF up] by simp
  next
    case False
    then show ?thesis using repair_taps_kernel(2)[OF assms(1) False, of p ?e] Cons.prems repair_tap_kernel(3)[OF assms(1) _ assms(2)]
      by auto
  qed
qed simp

lemma repair_vms_kernel:
  assumes "dp_kernel D = K"
  shows "kup t' (en_kernel e) \<Longrightarrow> kup t' (en_kernel (fold (repair_vm D) vs e))"
    and "\<forall>v \<in> set vs. map_of (en_pol e) (id_name v) \<noteq> None \<longrightarrow> t' \<notin> set (id_taps v) \<Longrightarrow>
      kn_Mode K t' (en_kernel (fold (repair_vm D) vs e)) = kn_Mode K t' (en_kernel e)"
proof (induction vs arbitrary: e)
  case (Cons v vs)
  {
    case 1
    then show ?case using Cons.IH(1) repair_taps_kernel(1)[OF assms] by (simp add: repair_vm_def split: option.split)
  next
    case 2
    have "kn_Mode K t' (en_kernel (repair_vm D v e)) = kn_Mode K t' (en_kernel e)"
      using 2 repair_taps_kernel(2)[OF assms] by (simp add: repair_vm_def split: option.split)
    then show ?case using Cons.IH(2)[of "repair_vm D v e"] 2 by simp
  }
qed simp_all

lemma repair_vms_match:
  assumes "dp_kernel D = K" "\<forall>t. t \<in> set (concat (map id_taps vs)) \<longrightarrow> kup t (en_kernel e)" "distinct (concat (map id_taps vs))"
    and "v \<in> set vs" "map_of (en_pol e) (id_name v) = Some p" "p_mode p \<in> {Off, Audit_mode, Enforce}" "t \<in> set (id_taps v)"
  shows "modeOf (kn_Mode K t (en_kernel (fold (repair_vm D) vs e))) = p_mode p"
  using assms(2-)
proof (induction vs arbitrary: e)
  case (Cons x vs)
  let ?e = "repair_vm D x e"
  have up: "kup u (en_kernel ?e)" if "kup u (en_kernel e)" for u
    using repair_vms_kernel(1)[OF assms(1) that, of "[x]"] by simp
  show ?case
  proof (cases "v \<in> set vs")
    case True
    then show ?thesis using Cons.IH[of ?e] Cons.prems up by simp
  next
    case False
    then have x: "x = v" using Cons.prems(3) by simp
    have "modeOf (kn_Mode K t (en_kernel ?e)) = p_mode p"
      using repair_taps_match[OF assms(1) Cons.prems(5), of "id_taps v" e t] Cons.prems x by (simp add: repair_vm_def)
    moreover have "\<forall>u \<in> set vs. map_of (en_pol ?e) (id_name u) \<noteq> None \<longrightarrow> t \<notin> set (id_taps u)"
      using Cons.prems(2,6) x by auto
    ultimately show ?thesis using repair_vms_kernel(2)[OF assms(1), of vs ?e t] by simp
  qed
qed simp

abbreviation vm_taps :: "world \<Rightarrow> string \<Rightarrow> string list" where
  "vm_taps w n \<equiv> fst (policy_find n w)"

lemma revert_one_kernel:
  assumes "dp_kernel D = K"
  shows "kup t (en_kernel e) \<Longrightarrow> kup t (en_kernel (fst (revert_one D w n e)))"
    and "t \<notin> set (vm_taps w n) \<Longrightarrow> kn_Mode K t (en_kernel (fst (revert_one D w n e))) = kn_Mode K t (en_kernel e)"
  using setTaps_up(1)[OF assms] setTaps_other[OF assms]
  by (auto simp: revert_one_def Let_def split: option.split prod.split)

lemma revert_loop_Cons: "fst (revert_loop D w (n # ns) e) = fst (revert_loop D w ns (fst (revert_one D w n e)))"
  by (simp add: split_beta)

lemma revert_loop_kernel:
  assumes "dp_kernel D = K"
  shows "kup t (en_kernel e) \<Longrightarrow> kup t (en_kernel (fst (revert_loop D w ns e)))"
    and "\<forall>n \<in> set ns. t \<notin> set (vm_taps w n) \<Longrightarrow> kn_Mode K t (en_kernel (fst (revert_loop D w ns e))) = kn_Mode K t (en_kernel e)"
  by (induction ns arbitrary: e)
    (simp_all add: revert_loop_Cons revert_one_kernel[OF assms] del: revert_loop.simps(2))

lemma revert_loop_off:
  assumes "dp_kernel D = K" "\<forall>t \<in> set (vm_taps w n). kup t (en_kernel e)" "distinct ns" "n \<in> set ns"
    and "map_of (en_pol e) n = Some p" "p_revert p = Some r" "rv_until r \<le> wd_now w" "rv_mode r = Off"
    and "\<forall>n' \<in> set ns. n' \<noteq> n \<longrightarrow> t \<notin> set (vm_taps w n')" "t \<in> set (vm_taps w n)"
  shows "kn_Mode K t (en_kernel (fst (revert_loop D w ns e))) = 0"
  using assms(2-)
proof (induction ns arbitrary: e)
  case (Cons x ns)
  obtain e1 as where o: "revert_one D w x e = (e1, as)" by fastforce
  have step: "fst (revert_loop D w (x # ns) e) = fst (revert_loop D w ns e1)" using o by (simp split: prod.split)
  show ?case
  proof (cases "x = n")
    case True
    have "e1 = fst (setTaps D (vm_taps w n) Off [] (e\<lparr>en_pol := AList.delete n (en_pol e)\<rparr>))"
      using o True Cons.prems(4-7) by (auto simp: revert_one_def split: prod.splits)
    then have "kn_Mode K t (en_kernel e1) = mode_kernel Off"
      using setTaps_sets[OF assms(1), of "vm_taps w n" "e\<lparr>en_pol := AList.delete n (en_pol e)\<rparr>" t Off "[]"] Cons.prems(1,9) by simp
    moreover have "\<forall>n' \<in> set ns. t \<notin> set (vm_taps w n')" using Cons.prems(2,8) True by auto
    ultimately show ?thesis unfolding step using revert_loop_kernel(2)[OF assms(1), of ns t w e1] by (simp add: mode_kernel_def)
  next
    case False
    have "map_of (en_pol e1) n = Some p" using revert_one_pol[of D w x e] o False Cons.prems(4) by simp
    moreover have "\<forall>t \<in> set (vm_taps w n). kup t (en_kernel e1)"
      using revert_one_kernel(1)[OF assms(1), of _ e w x] o Cons.prems(1) by simp
    ultimately show ?thesis unfolding step using Cons.IH[of e1] Cons.prems False by simp
  qed
qed simp

end

interpretation tap_policy_live: policy_kernel_live "tap_kernel_if enf" tap_up for enf
  unfolding policy_kernel_live_def
  using tap_policy_kernel.policy_kernel_axioms tap_egress_live.egress_kernel_live_axioms
  by (simp add: tap_kernel_if_def)

lemma concat_disjoint:
  "distinct (concat (map f xs)) \<Longrightarrow> u \<in> set xs \<Longrightarrow> v \<in> set xs \<Longrightarrow> u \<noteq> v \<Longrightarrow> t \<in> set (f u) \<Longrightarrow> t \<notin> set (f v)"
  by (induction xs) auto

definition modes_ok :: "('k, 's) Engine \<Rightarrow> bool" where
  "modes_ok e \<longleftrightarrow> (\<forall>n p. map_of (en_pol e) n = Some p \<longrightarrow> p_mode p \<in> {Audit_mode, Enforce} \<and>
     (\<forall>r. p_revert p = Some r \<longrightarrow> rv_mode r \<in> {Off, Audit_mode, Enforce}))"

lemma reverted_mode: "modes_ok e \<Longrightarrow> reverted now (map_of (en_pol e) n) = Some p \<Longrightarrow> p_mode p \<in> {Off, Audit_mode, Enforce}"
proof (cases "map_of (en_pol e) n")
  case (Some q)
  assume "modes_ok e" "reverted now (map_of (en_pol e) n) = Some p"
  moreover from this(1) have "p_mode q \<in> {Audit_mode, Enforce}" "\<forall>r. p_revert q = Some r \<longrightarrow> rv_mode r \<in> {Off, Audit_mode, Enforce}"
    using Some unfolding modes_ok_def by blast+
  ultimately show ?thesis using Some by (auto simp: reverted_def split: option.splits if_splits)
qed (simp add: reverted_def)

lemma Reconcile_settles:
  assumes "\<forall>t \<in> set (concat (map id_taps (wd_vms w))). tap_up t (en_kernel e)" "distinct (concat (map id_taps (wd_vms w)))"
    and "modes_ok e" "distinct (map fst (en_pol e))" "find (\<lambda>v. id_name v = n) (wd_vms w) = Some v" "t \<in> set (id_taps v)"
  shows "case map_of (en_pol (fst (Reconcile (daemon_deps enf) w e))) n of
      Some p \<Rightarrow> modeOf (TapEgress t (en_kernel (fst (Reconcile (daemon_deps enf) w e)))) = p_mode p
    | None \<Rightarrow> map_of (en_pol e) n = None \<or> TapEgress t (en_kernel (fst (Reconcile (daemon_deps enf) w e))) = EgressOff"
proof -
  let ?D = "daemon_deps enf" and ?K = "tap_kernel_if enf"
  have D: "dp_kernel ?D = ?K" and K: "kn_Mode ?K = TapEgress" by (simp_all add: daemon_deps_def tap_kernel_if_def)
  let ?ns = "sort (map fst (en_pol e))"
  obtain e1 as e2 where r: "revert_loop ?D w ?ns e = (e1, as)" "Reconcile ?D w e = (fold (repair_vm ?D) (wd_vms w) e2, as)"
    "en_pol e2 = en_pol e1" "en_kernel e2 = en_kernel e1" by (rule Reconcile_split)
  have "fst (policy_find n w) = id_taps v" using assms(5) by (simp add: policy_find_def)
  then have v: "v \<in> set (wd_vms w)" "id_name v = n" "fst (policy_find n w) = id_taps v"
    using assms(5) by (auto simp: find_Some_iff)
  have up: "tap_up t (en_kernel e2)" if "t \<in> set (concat (map id_taps (wd_vms w)))" for t
    using that assms(1) tap_policy_live.revert_loop_kernel(1)[OF D, of t e w ?ns] r(1,4) by auto
  let ?e = "fst (Reconcile ?D w e)"
  have pol: "map_of (en_pol ?e) n = map_of (en_pol e2) n" using r by simp
  show ?thesis
  proof (cases "map_of (en_pol ?e) n")
    case (Some p)
    then have m: "p_mode p \<in> {Off, Audit_mode, Enforce}" using reverted_mode[OF assms(3)] Reconcile_pol[of ?D w e n] by simp
    have up': "\<forall>t. t \<in> set (concat (map id_taps (wd_vms w))) \<longrightarrow> tap_up t (en_kernel e2)" using up by blast
    have "map_of (en_pol e2) (id_name v) = Some p" using Some pol v(2) by simp
    from tap_policy_live.repair_vms_match[OF D up' assms(2) v(1) this m assms(6)] show ?thesis using Some r(2) K by simp
  next
    case None
    show ?thesis
    proof (cases "map_of (en_pol e) n")
      case (Some p)
      then obtain rv where rv: "p_revert p = Some rv" "rv_until rv \<le> wd_now w" "rv_mode rv = Off"
        using None Reconcile_pol[of ?D w e n] by (auto simp: reverted_def split: option.splits if_splits)
      have ns: "distinct ?ns" "n \<in> set ?ns" using assms(4) Some by (auto simp: distinct_map dest: map_of_SomeD intro: rev_image_eqI)
      have other: "\<forall>n' \<in> set ?ns. n' \<noteq> n \<longrightarrow> t \<notin> set (fst (policy_find n' w))"
      proof (intro ballI impI)
        fix n' assume ne: "n' \<noteq> n"
        show "t \<notin> set (fst (policy_find n' w))"
        proof (cases "find (\<lambda>v. id_name v = n') (wd_vms w)")
          case (Some u)
          then have "u \<in> set (wd_vms w)" "u \<noteq> v" using ne v(2) by (auto simp: find_Some_iff)
          then show ?thesis using concat_disjoint[OF assms(2) v(1) _ _ assms(6)] Some by (auto simp: policy_find_def)
        qed (simp add: policy_find_def)
      qed
      have upn: "\<forall>t \<in> set (fst (policy_find n w)). tap_up t (en_kernel e)" using assms(1) v(1,3) by auto
      have off: "TapEgress t (en_kernel e2) = 0"
        using tap_policy_live.revert_loop_off[OF D upn ns Some rv other] v(3) assms(6) r(1,4) K by simp
      have "\<forall>u \<in> set (wd_vms w). map_of (en_pol e2) (id_name u) \<noteq> None \<longrightarrow> t \<notin> set (id_taps u)"
        using concat_disjoint[OF assms(2) v(1) _ _ assms(6)] None pol v(2) by metis
      from tap_policy_live.repair_vms_kernel(2)[OF D this] off show ?thesis using None r(2) K by simp
    qed (simp add: None)
  qed
qed


definition web_enforced :: "(tapMgr, policy_file) Engine" where
  "web_enforced = fst (Apply web_deps (web_world 0) ''web'' enforce_request ''ops'' (no_policies []))"

definition web_policy :: Policy where
  "web_policy = \<lparr>p_vm = ''web'', p_mode = Enforce, p_allow = [''10.1.0.0/16''], p_source = ''manual'', p_by = ''ops'',
     p_applied = 0, p_key_id = '''', p_role = '''', p_label = '''', p_remote = '''', p_request = '''', p_op = '''',
     p_revert = Some \<lparr>rv_until = 5 * minute, rv_mode = Off, rv_allow = [], rv_source = ''''\<rparr>\<rparr>"


text \<open>
  A confirmed policy stays: when the daemon's engine answers a confirmation without an error, the VM's
  policy is the same one with no timer left, it is in the file that survives a restart, nothing else changed
  (not the kernel, not another VM's record), and no later pass, at whatever time, takes it away.
\<close>

theorem Confirm_stays:
  assumes "Confirm (daemon_deps enf) w vm actor e = (e', Inr x)"
  shows "\<exists>p0 p. map_of (en_pol e) vm = Some p0 \<and> p_revert p0 \<noteq> None \<and> p = stamp_policy (ParseActor actor) (p0\<lparr>p_revert := None\<rparr>) \<and>
    map_of (en_pol e') = (map_of (en_pol e))(vm \<mapsto> p) \<and> en_kernel e' = en_kernel e \<and>
    p \<in> set (snd (OpenPolicies (en_saved e'))) \<and> map_of (en_pol (fst (Reconcile (daemon_deps enf) w' e'))) vm = Some p"
proof -
  let ?D = "daemon_deps enf"
  obtain p0 where p0: "map_of (en_pol e) vm = Some p0" "p_revert p0 \<noteq> None"
    using assms by (auto simp: Confirm_def split: option.splits if_splits)
  let ?p = "stamp_policy (ParseActor actor) (p0\<lparr>p_revert := None\<rparr>)"
  let ?e0 = "e\<lparr>en_pol := AList.update vm ?p (en_pol e)\<rparr>"
  obtain err where save: "saveLocked ?D ?e0 = (e', err)" "err = None"
    using assms p0 by (auto simp: Confirm_def Let_def split: prod.splits if_splits)
  have e': "en_pol e' = en_pol ?e0" "en_kernel e' = en_kernel e" using saveLocked_frame[of ?D ?e0] save by auto
  have "snd (OpenPolicies (en_saved e')) = sort_key p_vm (map snd (en_pol ?e0))"
    using save policies.save_ok by (auto simp: saveLocked_def daemon_deps_def split: prod.splits)
  moreover have "?p \<in> snd ` set (en_pol ?e0)" using map_of_SomeD[of "en_pol ?e0" vm ?p] by force
  ultimately have "?p \<in> set (snd (OpenPolicies (en_saved e')))" by simp
  moreover have "p_revert ?p = None" by (simp add: stamp_policy_def)
  then have "reverted (wd_now w') (Some ?p) = Some ?p" by (simp add: reverted_def)
  ultimately show ?thesis using p0 e' by (simp add: Reconcile_pol)
qed

theorem Confirm_stays_witness:
  "map_option p_revert (map_of (en_pol (fst (Reconcile web_deps (web_world (24 * hour))
     (fst (Confirm web_deps (web_world 0) ''web'' ''ops'' web_enforced))))) ''web'') = Some None"
proof -
  let ?r = "Confirm web_deps (web_world 0) ''web'' ''ops'' web_enforced"
  have "isl (snd ?r) = False" by code_simp
  then obtain x where "?r = (fst ?r, Inr x)" by (metis prod.collapse sum.collapse(2))
  from Confirm_stays[OF this, of "web_world (24 * hour)"] show ?thesis by (auto simp: stamp_policy_def)
qed

section \<open>Where the record and the effect part\<close>

text \<open>
  A confirmation that is not saved still changes who is on record: \<open>Confirm\<close> reports that it did not take
  effect and puts the timer back, but the record's author is already the one who tried to confirm.
\<close>

theorem failed_Confirm_changes_author:
  "let e = web_enforced\<lparr>en_saved := (en_saved web_enforced)\<lparr>pf_writes := [NotWritten]\<rparr>\<rparr>;
       (e', r) = Confirm web_deps (web_world 0) ''web'' ''mallory'' e
   in isl r \<and> map_option p_by (map_of (en_pol e) ''web'') = Some ''ops'' \<and>
      map_option p_by (map_of (en_pol e') ''web'') = Some ''mallory'' \<and>
      map_option p_revert (map_of (en_pol e') ''web'') = map_option p_revert (map_of (en_pol e) ''web'')"
  by code_simp

text \<open>
  A policy reported as not applied can come into force at the next start: when the write of the record
  fails only after the new file has taken the old one's place (the directory could not be synced), \<open>Apply\<close>
  answers with an error and the engine keeps no record, but the file holds the policy, and a daemon started
  from that file enforces it at its first pass.
\<close>

theorem unsaved_policy_comes_back:
  "let (e, r) = Apply web_deps (web_world 0) ''web'' enforce_request ''ops'' (no_policies [NotSynced]);
       (f, past) = OpenPolicies (en_saved e);
       e' = fst (Reconcile web_deps (web_world minute) (policy_Restore past (policy_New (en_kernel e) f)))
   in isl r \<and> map_of (en_pol e) ''web'' = None \<and> TapEgress ''vnet0'' (en_kernel e) = EgressAudit \<and>
      TapEgress ''vnet0'' (en_kernel e') = EgressEnforce"
  by code_simp

definition two_taps :: tapMgr where
  "two_taps = one_tap\<lparr>tm_taps := [(''vnet0'', \<lparr>tl_ifindex = 7, tl_isolated = False, tl_egress = 0, tl_quarantine = False\<rparr>),
     (''vnet1'', \<lparr>tl_ifindex = 8, tl_isolated = False, tl_egress = 0, tl_quarantine = False\<rparr>)],
     km_maps := \<lparr>km_policy = [], km_egress4 = [], km_egress6 = [], km_allow4 = [], km_allow6 = []\<rparr>\<rparr>"

definition two_world :: world where
  "two_world = \<lparr>wd_vms = [web_vm\<lparr>id_taps := [''vnet0'', ''vnet1'']\<rparr>], wd_now = 0, wd_baselines = None\<rparr>"

definition audit_request :: "string \<Rightarrow> PolicyRequest" where
  "audit_request n = \<lparr>rq_mode = Audit_mode, rq_allow = [n], rq_from_baseline = False, rq_confirm = '''', rq_permanent = False\<rparr>"

definition split_lists :: "(tapMgr, policy_file) Engine" where
  "split_lists =
     (let e = fst (Apply web_deps two_world ''web'' (audit_request ''10.1.0.0/16'') ''ops'' ((no_policies [])\<lparr>en_kernel := two_taps\<rparr>));
          e = e\<lparr>en_kernel := (en_kernel e)\<lparr>km_faults := [False, False, False, True]\<rparr>\<rparr>;
          e = fst (Apply web_deps two_world ''web'' (audit_request ''10.2.0.0/16'') ''ops'' e)
      in fst (Reconcile web_deps two_world e))"

text \<open>
  The pass compares modes and not lists: a tap that missed a change of list because the kernel refused it,
  while another tap of the VM took it, stays on the old list for ever, since its mode is the right one. Here
  the change is refused on the second tap; after a pass in which nothing fails, that tap still allows the
  old network and not the new one, and the row shows no problem.
\<close>

theorem Reconcile_ignores_lists:
  "km_faults (en_kernel split_lists) = [] \<and> map_option p_allow (map_of (en_pol split_lists) ''web'') = Some [''10.2.0.0/16''] \<and>
   egress_in4 (km_maps (en_kernel split_lists)) 7 0x0a020101 \<and> \<not> egress_in4 (km_maps (en_kernel split_lists)) 8 0x0a020101 \<and>
   egress_in4 (km_maps (en_kernel split_lists)) 8 0x0a010101 \<and>
   map_option w_problem (policy_Get web_deps two_world ''web'' split_lists) = Some ''''"
  by code_simp

end
