(* ===== verification/Vmm.thy ===== *)
theory Vmm
  imports GoStrings
begin

text \<open>
  The VMM tripwires, \<open>internal/detect/vmm.go\<close>: which files opened by a VMM process are reported, and which
  calls. A rules file that is refused is an \<open>Inl\<close> with the condition that refused it; the texts of the
  messages are not modelled. \<open>path.Clean\<close> is Go's, on the rooted paths it is applied to.
\<close>

section \<open>path.Clean\<close>

text \<open>The names of a rooted path as \<open>path.Clean\<close> resolves them, innermost first: an empty name and \<open>.\<close> say
  nothing, and \<open>..\<close> takes the last name away, at the root nothing.\<close>

definition clean_step :: "string list \<Rightarrow> string \<Rightarrow> string list" where
  "clean_step st seg =
     (if seg = '''' \<or> seg = ''.'' then st else if seg = ''..'' then (case st of [] \<Rightarrow> [] | _ # st' \<Rightarrow> st') else seg # st)"

definition clean_names :: "string list \<Rightarrow> string list" where
  "clean_names segs = rev (foldl clean_step [] segs)"

definition path_Clean :: "string \<Rightarrow> string" where
  "path_Clean s = ''/'' @ Join (clean_names (SplitOn (CHR ''/'') s)) ''/''"

section \<open>Definitions\<close>

definition severities :: "string set" where
  "severities = {''low'', ''medium'', ''high'', ''critical''}"

datatype vmm_error =
    NotAbsolute string string
  | PatternTooLong string
  | MatchesEveryFile string
  | StarInName string string
  | TooManyPatterns
  | UnknownSyscall string
  | VMMSeverity string

definition DefaultVMMPaths :: "string list" where
  "DefaultVMMPaths = [
     ''/etc/shadow'', ''/etc/shadow-'', ''/etc/gshadow'', ''/etc/gshadow-'', ''/etc/sudoers'', ''/etc/sudoers.d'',
     ''/etc/ssh'', ''/root/.ssh'', ''/home/*/.ssh'',
     ''/proc/*/mem'', ''/proc/*/task/*/mem'', ''/proc/kcore'', ''/proc/kmem'', ''/proc/sysrq-trigger'',
     ''/var/run/docker.sock'', ''/run/docker.sock'', ''/run/containerd'', ''/var/run/containerd'',
     ''/etc/shukra'', ''/var/lib/shukra'',
     ''/etc/kubernetes'', ''/var/lib/rancher/k3s/server'', ''/etc/rancher'']"

definition VMMSyscalls :: "string list" where
  "VMMSyscalls = [''ptrace'', ''process_vm_writev'', ''process_vm_readv'', ''mount'', ''unshare'', ''setns'',
     ''init_module'', ''finit_module'', ''kexec_load'', ''kexec_file_load'']"

definition vmmSeverity :: "(string \<times> string) list" where
  "vmmSeverity = [
     (''ptrace'', ''critical''), (''process_vm_writev'', ''critical''), (''init_module'', ''critical''),
     (''finit_module'', ''critical''), (''kexec_load'', ''critical''), (''kexec_file_load'', ''critical''),
     (''process_vm_readv'', ''high''), (''mount'', ''high''), (''unshare'', ''high''), (''setns'', ''high'')]"

record VMMConfig =
  vc_paths :: "string list"
  vc_ignore :: "string list"
  vc_syscalls :: "string list"
  vc_defaults :: "bool option"
  vc_severity :: string

record pattern =
  pt_raw :: string
  pt_segs :: "string list"

record VMMRules =
  vr_paths :: "pattern list"
  vr_ignore :: "pattern list"
  vr_calls :: "string list"
  vr_severity :: string

definition path_segs :: "string \<Rightarrow> string list" where
  "path_segs p = SplitOn (CHR ''/'') (TrimPrefix p ''/'')"

definition compilePattern :: "string \<Rightarrow> string \<Rightarrow> vmm_error + pattern" where
  "compilePattern kind s0 =
     (let s = TrimSpace s0
      in if s = '''' \<or> \<not> HasPrefix s ''/'' then Inl (NotAbsolute kind s)
         else if 256 < length s then Inl (PatternTooLong kind)
         else
           (let p = path_Clean s; segs = path_segs p
            in if p = ''/'' then Inl (MatchesEveryFile kind)
               else if \<exists>seg \<in> set segs. CHR ''*'' \<in> set seg \<and> seg \<noteq> ''*'' then Inl (StarInName kind s)
               else Inr \<lparr>pt_raw = p, pt_segs = segs\<rparr>))"

definition pattern_matches :: "pattern \<Rightarrow> string list \<Rightarrow> bool" where
  "pattern_matches p segs \<longleftrightarrow>
     length (pt_segs p) \<le> length segs \<and> list_all (\<lambda>(want, seg). want = ''*'' \<or> want = seg) (zip (pt_segs p) segs)"

fun compile_all :: "string \<Rightarrow> string list \<Rightarrow> vmm_error + pattern list" where
  "compile_all kind [] = Inr []"
| "compile_all kind (s # ss) = (case compilePattern kind s of
      Inl e \<Rightarrow> Inl e
    | Inr p \<Rightarrow> (case compile_all kind ss of Inl e \<Rightarrow> Inl e | Inr ps \<Rightarrow> Inr (p # ps)))"

fun compile_calls :: "string list \<Rightarrow> vmm_error + string list" where
  "compile_calls [] = Inr []"
| "compile_calls (n0 # ns) =
     (let n = TrimSpace (ToLower n0)
      in if n \<notin> set VMMSyscalls then Inl (UnknownSyscall n)
         else case compile_calls ns of Inl e \<Rightarrow> Inl e | Inr cs \<Rightarrow> Inr (n # cs))"

definition no_vmm_config :: VMMConfig where
  "no_vmm_config = \<lparr>vc_paths = [], vc_ignore = [], vc_syscalls = [], vc_defaults = None, vc_severity = ''''\<rparr>"

definition compileVMM :: "VMMConfig option \<Rightarrow> vmm_error + VMMRules" where
  "compileVMM oc =
     (let c = (case oc of None \<Rightarrow> no_vmm_config | Some c \<Rightarrow> c)
      in if 256 < length (vc_paths c) \<or> 256 < length (vc_ignore c) then Inl TooManyPatterns
         else case compile_all ''path'' (if vc_defaults c \<noteq> Some False then DefaultVMMPaths else []) of
           Inl e \<Rightarrow> Inl e
         | Inr built \<Rightarrow> (case compile_all ''path'' (vc_paths c) of
             Inl e \<Rightarrow> Inl e
           | Inr own \<Rightarrow> (case compile_all ''ignore'' (vc_ignore c) of
               Inl e \<Rightarrow> Inl e
             | Inr ign \<Rightarrow> (case compile_calls (vc_syscalls c) of
                 Inl e \<Rightarrow> Inl e
               | Inr cs \<Rightarrow>
                   (if vc_severity c \<noteq> '''' \<and> vc_severity c \<notin> severities then Inl (VMMSeverity (vc_severity c))
                    else Inr \<lparr>vr_paths = built @ own, vr_ignore = ign,
                      vr_calls = (if vc_syscalls c = [] then VMMSyscalls else cs),
                      vr_severity = (if vc_severity c \<noteq> '''' then vc_severity c else ''critical'')\<rparr>)))))"

text \<open>\<open>DefaultVMMRules\<close> drops the error: were there one, the rules would be the nil pointer.\<close>

definition DefaultVMMRules :: "VMMRules option" where
  "DefaultVMMRules = (case compileVMM None of Inl _ \<Rightarrow> None | Inr r \<Rightarrow> Some r)"

definition SensitivePath :: "VMMRules option \<Rightarrow> string \<Rightarrow> string option" where
  "SensitivePath mr p = (case mr of
      None \<Rightarrow> None
    | Some r \<Rightarrow>
       (if \<not> HasPrefix p ''/'' then None
        else
          (let segs = path_segs (path_Clean p)
           in if list_ex (\<lambda>ig. pattern_matches ig segs) (vr_ignore r) then None
              else map_option pt_raw (find (\<lambda>pat. pattern_matches pat segs) (vr_paths r)))))"

definition WatchesSyscall :: "VMMRules option \<Rightarrow> string \<Rightarrow> bool" where
  "WatchesSyscall mr name = (case mr of None \<Rightarrow> False | Some r \<Rightarrow> name \<in> set (vr_calls r))"

definition OpenSeverity :: "VMMRules option \<Rightarrow> string" where
  "OpenSeverity mr = (case mr of None \<Rightarrow> ''critical'' | Some r \<Rightarrow> vr_severity r)"

definition SyscallSeverity :: "VMMRules option \<Rightarrow> string \<Rightarrow> string" where
  "SyscallSeverity mr name = (case map_of vmmSeverity name of Some s \<Rightarrow> s | None \<Rightarrow> ''high'')"

section \<open>Cleaned paths\<close>

definition ordinary :: "string \<Rightarrow> bool" where
  "ordinary seg \<longleftrightarrow> seg \<noteq> '''' \<and> seg \<noteq> ''.'' \<and> seg \<noteq> ''..'' \<and> CHR ''/'' \<notin> set seg"

definition no_slash :: "string \<Rightarrow> bool" where
  "no_slash seg \<longleftrightarrow> CHR ''/'' \<notin> set seg"

definition rooted :: "string list \<Rightarrow> string" where
  "rooted segs = ''/'' @ Join segs ''/''"

lemma rooted_prefix: "HasPrefix (rooted segs) ''/''"
  by (simp add: rooted_def)

lemma clean_step_ordinary: "ordinary seg \<Longrightarrow> clean_step st seg = seg # st"
  by (simp add: clean_step_def ordinary_def)

lemma foldl_ordinary: "list_all ordinary segs \<Longrightarrow> foldl clean_step st segs = rev segs @ st"
  by (induction segs arbitrary: st) (simp_all add: clean_step_ordinary)

lemma clean_step_keeps: "list_all ordinary st \<Longrightarrow> no_slash seg \<Longrightarrow> list_all ordinary (clean_step st seg)"
  by (cases st) (auto simp: clean_step_def ordinary_def no_slash_def)

lemma foldl_clean_keeps: "list_all ordinary st \<Longrightarrow> list_all no_slash segs \<Longrightarrow> list_all ordinary (foldl clean_step st segs)"
  by (induction segs arbitrary: st) (simp_all add: clean_step_keeps)

lemma SplitOn_no_slash: "list_all no_slash (SplitOn (CHR ''/'') s)"
  using SplitOn_parts by (fastforce simp: list_all_iff no_slash_def)

lemma clean_names_ordinary: "list_all ordinary (clean_names (SplitOn (CHR ''/'') s))"
  using foldl_clean_keeps[OF _ SplitOn_no_slash, of "[]" s] by (simp add: clean_names_def list_all_iff)

lemma SplitOn_rooted: "segs \<noteq> [] \<Longrightarrow> list_all no_slash segs \<Longrightarrow> SplitOn (CHR ''/'') (rooted segs) = [] # segs"
  by (simp add: rooted_def SplitOn_Join list_all_iff no_slash_def)

lemma clean_names_rooted: "list_all no_slash segs \<Longrightarrow> clean_names (SplitOn (CHR ''/'') (rooted segs)) = clean_names segs"
proof (cases "segs = []")
  case False
  assume "list_all no_slash segs"
  with False show ?thesis by (simp add: SplitOn_rooted clean_names_def clean_step_def)
qed (simp add: rooted_def clean_names_def clean_step_def)

lemma path_Clean_rooted: "list_all no_slash segs \<Longrightarrow> path_Clean (rooted segs) = rooted (clean_names segs)"
  by (simp add: path_Clean_def clean_names_rooted) (simp add: rooted_def)

lemma ordinary_no_slash: "list_all ordinary segs \<Longrightarrow> list_all no_slash segs"
  by (simp add: list_all_iff ordinary_def no_slash_def)

lemma path_segs_rooted: "list_all ordinary segs \<Longrightarrow> path_segs (rooted segs) = (if segs = [] then [''''] else segs)"
  by (auto simp: path_segs_def rooted_def TrimPrefix_def list_all_iff ordinary_def intro: SplitOn_Join)

lemma path_segs_ne: "path_segs p \<noteq> []"
  by (simp add: path_segs_def)

lemma path_Clean_names: "path_Clean s = rooted (clean_names (SplitOn (CHR ''/'') s))"
  by (simp add: path_Clean_def rooted_def)

lemma path_Clean_idem: "path_Clean (path_Clean s) = path_Clean s"
proof -
  let ?n = "clean_names (SplitOn (CHR ''/'') s)"
  have n: "list_all ordinary ?n" by (rule clean_names_ordinary)
  have "clean_names ?n = ?n" using foldl_ordinary[OF n, of "[]"] by (simp add: clean_names_def[of ?n])
  then show ?thesis using path_Clean_rooted[OF ordinary_no_slash[OF n]] by (simp add: path_Clean_names[of s])
qed

text \<open>
  Two ways of writing the names of a path that mean the same file where no name is a symbolic link: repeated
  slashes and \<open>.\<close> say nothing, a name followed by \<open>..\<close> cancels, and the root is its own parent.
\<close>

inductive same_file :: "string list \<Rightarrow> string list \<Rightarrow> bool" where
  same_refl: "same_file a a"
| same_empty: "same_file (a @ '''' # b) (a @ b)"
| same_dot: "same_file (a @ ''.'' # b) (a @ b)"
| same_up: "ordinary x \<Longrightarrow> same_file (a @ x # ''..'' # b) (a @ b)"
| same_top: "same_file (''..'' # b) b"
| same_sym: "same_file a b \<Longrightarrow> same_file b a"
| same_trans: "same_file a b \<Longrightarrow> same_file b c \<Longrightarrow> same_file a c"

lemma same_file_clean: "same_file a b \<Longrightarrow> clean_names a = clean_names b"
  by (induction rule: same_file.induct) (simp_all add: clean_names_def clean_step_def ordinary_def)

lemma same_file_app: "same_file a b \<Longrightarrow> same_file (a @ c) (b @ c)"
proof (induction rule: same_file.induct)
  case (same_trans a b d)
  then show ?case by (blast intro: same_file.same_trans)
qed (auto intro: same_file.intros)

lemma same_file_snoc: "list_all ordinary st \<Longrightarrow> no_slash seg \<Longrightarrow> same_file (rev st @ [seg]) (rev (clean_step st seg))"
proof (cases "ordinary seg")
  case False
  assume st: "list_all ordinary st" and "no_slash seg"
  then consider "seg = ''''" | "seg = ''.''" | "seg = ''..''" using False by (auto simp: ordinary_def no_slash_def)
  then show ?thesis
  proof cases
    case 1
    then show ?thesis using same_empty[of "rev st" "[]"] by (simp add: clean_step_def)
  next
    case 2
    then show ?thesis using same_dot[of "rev st" "[]"] by (simp add: clean_step_def)
  next
    case 3
    then show ?thesis using st same_up[of _ _ "[]"] same_top[of "[]"] by (cases st) (simp_all add: clean_step_def)
  qed
qed (simp add: clean_step_ordinary same_refl)

lemma same_file_foldl:
  "list_all ordinary st \<Longrightarrow> list_all no_slash segs \<Longrightarrow> same_file (rev st @ segs) (rev (foldl clean_step st segs))"
proof (induction segs arbitrary: st)
  case (Cons seg segs)
  have "same_file (rev st @ seg # segs) (rev (clean_step st seg) @ segs)"
    using same_file_app[OF same_file_snoc[of st seg], of segs] Cons.prems by simp
  moreover have "same_file (rev (clean_step st seg) @ segs) (rev (foldl clean_step (clean_step st seg) segs))"
    by (rule Cons.IH) (use Cons.prems in \<open>simp_all add: clean_step_keeps\<close>)
  ultimately show ?case unfolding foldl_Cons by (rule same_trans)
qed (simp add: same_refl)

lemma clean_names_same: "list_all no_slash segs \<Longrightarrow> same_file segs (clean_names segs)"
  using same_file_foldl[of "[]" segs] by (simp add: clean_names_def)

lemma same_file_iff:
  assumes "list_all no_slash a" "list_all no_slash b"
  shows "same_file a b \<longleftrightarrow> clean_names a = clean_names b"
proof
  assume "clean_names a = clean_names b"
  then show "same_file a b" using clean_names_same[OF assms(1)] clean_names_same[OF assms(2)]
    by (metis same_sym same_trans)
qed (rule same_file_clean)

lemma rooted_inj:
  assumes "list_all ordinary a" "list_all ordinary b" "rooted a = rooted b"
  shows "a = b"
proof -
  have "(if a = [] then [''''] else a) = (if b = [] then [''''] else b)"
    using path_segs_rooted[OF assms(1)] path_segs_rooted[OF assms(2)] assms(3) by (simp only:)
  moreover have "'''' \<notin> set a" "'''' \<notin> set b" using assms(1,2) by (auto simp: list_all_iff ordinary_def)
  ultimately show ?thesis by (metis list.set_intros(1))
qed

lemma clean_names_ordinary': "list_all no_slash segs \<Longrightarrow> list_all ordinary (clean_names segs)"
  using foldl_clean_keeps[of "[]" segs] by (simp add: clean_names_def list_all_iff)

lemma SensitivePath_clean:
  "HasPrefix p ''/'' \<Longrightarrow> HasPrefix q ''/'' \<Longrightarrow> path_Clean p = path_Clean q \<Longrightarrow> SensitivePath r p = SensitivePath r q"
  by (simp add: SensitivePath_def split: option.splits)

text \<open>
  C35. How a path is written does not hide it from the tripwire: two absolute paths are cleaned to the same
  text exactly when they mean the same file lexically (repeated slashes and \<open>.\<close> say nothing, a name followed
  by \<open>..\<close> cancels, the root is its own parent), and then they are judged the same under any rules.
\<close>

theorem SensitivePath_no_detour:
  assumes "list_all no_slash a" "list_all no_slash b"
  shows "(path_Clean (rooted a) = path_Clean (rooted b)) = same_file a b \<and>
    (same_file a b \<longrightarrow> SensitivePath r (rooted a) = SensitivePath r (rooted b))"
proof -
  have "(path_Clean (rooted a) = path_Clean (rooted b)) = (clean_names a = clean_names b)"
    using rooted_inj[OF clean_names_ordinary'[OF assms(1)] clean_names_ordinary'[OF assms(2)]] assms
    by (auto simp: path_Clean_rooted)
  then have "(path_Clean (rooted a) = path_Clean (rooted b)) = same_file a b" using same_file_iff[OF assms] by (rule trans[OF _ sym])
  then show ?thesis using SensitivePath_clean[OF rooted_prefix rooted_prefix, of a b r] by blast
qed

theorem SensitivePath_no_detour_witness:
  "SensitivePath DefaultVMMRules ''/etc/../etc//./ssh/x/../sshd_config'' = Some ''/etc/ssh''"
proof -
  let ?a = "[''etc'', ''..'', ''etc'', '''', ''.'', ''ssh'', ''x'', ''..'', ''sshd_config'']"
  let ?b = "[''etc'', ''ssh'', ''sshd_config'']"
  have n: "list_all no_slash ?a" "list_all no_slash ?b" by code_simp+
  have c: "path_Clean (rooted ?a) = path_Clean (rooted ?b)" by code_simp
  have "SensitivePath DefaultVMMRules (rooted ?b) = Some ''/etc/ssh''" by code_simp
  moreover have "''/etc/../etc//./ssh/x/../sshd_config'' = rooted ?a" by code_simp
  moreover have "SensitivePath DefaultVMMRules (rooted ?a) = SensitivePath DefaultVMMRules (rooted ?b)"
    using SensitivePath_no_detour[OF n, of DefaultVMMRules] c by blast
  ultimately show ?thesis by (simp only:)
qed

section \<open>What the rules report\<close>

lemma pattern_matches_nth:
  "pattern_matches p segs \<longleftrightarrow>
     length (pt_segs p) \<le> length segs \<and> (\<forall>i < length (pt_segs p). pt_segs p ! i = ''*'' \<or> pt_segs p ! i = segs ! i)"
  by (auto simp: pattern_matches_def list_all_length)

lemma compile_all_set:
  "compile_all kind ss = Inr ps \<Longrightarrow> set ps = {p. \<exists>s \<in> set ss. compilePattern kind s = Inr p}"
  by (induction ss arbitrary: ps) (auto split: sum.splits)

lemma compilePattern_ok:
  assumes "compilePattern kind s = Inr p"
  shows "HasPrefix (TrimSpace s) ''/''" "pt_raw p = path_Clean (TrimSpace s)" "pt_segs p \<noteq> []" "list_all ordinary (pt_segs p)"
    "pt_raw p = rooted (pt_segs p)"
proof -
  have c: "HasPrefix (TrimSpace s) ''/''" "pt_raw p = path_Clean (TrimSpace s)" "pt_segs p = path_segs (pt_raw p)" "pt_raw p \<noteq> ''/''"
    using assms by (auto simp: compilePattern_def Let_def split: if_splits)
  let ?n = "clean_names (SplitOn (CHR ''/'') (TrimSpace s))"
  have n: "list_all ordinary ?n" "pt_raw p = rooted ?n" using clean_names_ordinary c(2) by (auto simp: path_Clean_names)
  then have "?n \<noteq> []" using c(4) by (auto simp: rooted_def)
  then have "pt_segs p = ?n" using n c(3) by (simp add: path_segs_rooted)
  then show "HasPrefix (TrimSpace s) ''/''" "pt_raw p = path_Clean (TrimSpace s)" "pt_segs p \<noteq> []"
    "list_all ordinary (pt_segs p)" "pt_raw p = rooted (pt_segs p)"
    using c(1,2) n \<open>?n \<noteq> []\<close> by simp_all
qed


text \<open>What an entry of the rules file covers: the path it names and everything under it, \<open>*\<close> standing for one name.\<close>

definition covers :: "string list \<Rightarrow> string \<Rightarrow> bool" where
  "covers segs s \<longleftrightarrow>
     (let ns = clean_names (SplitOn (CHR ''/'') (TrimSpace s))
      in length ns \<le> length segs \<and> (\<forall>i < length ns. ns ! i = ''*'' \<or> ns ! i = segs ! i))"

lemma covers_matches:
  assumes "compilePattern kind s = Inr p"
  shows "pattern_matches p segs \<longleftrightarrow> covers segs s"
proof -
  have "rooted (pt_segs p) = rooted (clean_names (SplitOn (CHR ''/'') (TrimSpace s)))"
    using compilePattern_ok(2,5)[OF assms] by (simp add: path_Clean_names)
  then have "pt_segs p = clean_names (SplitOn (CHR ''/'') (TrimSpace s))"
    using rooted_inj[OF compilePattern_ok(4)[OF assms] clean_names_ordinary] by simp
  then show ?thesis by (simp add: pattern_matches_nth covers_def Let_def)
qed

lemma compile_all_total: "compile_all kind ss = Inr ps \<Longrightarrow> s \<in> set ss \<Longrightarrow> \<exists>p. compilePattern kind s = Inr p"
  by (induction ss arbitrary: ps) (auto split: sum.splits)

lemma compile_all_covers:
  assumes "compile_all kind ss = Inr ps"
  shows "(\<exists>p \<in> set ps. pattern_matches p segs) \<longleftrightarrow> (\<exists>s \<in> set ss. covers segs s)"
  using compile_all_set[OF assms] compile_all_total[OF assms] covers_matches by (auto; blast)

lemma compileVMM_parts:
  assumes "compileVMM (Some c) = Inr r"
  obtains built own where "compile_all ''path'' (if vc_defaults c \<noteq> Some False then DefaultVMMPaths else []) = Inr built"
    "compile_all ''path'' (vc_paths c) = Inr own" "compile_all ''ignore'' (vc_ignore c) = Inr (vr_ignore r)" "vr_paths r = built @ own"
  using assms by (auto simp: compileVMM_def Let_def split: if_splits sum.splits)

lemma SensitivePath_names:
  assumes "list_all ordinary segs" "segs \<noteq> []"
  shows "SensitivePath (Some r) (rooted segs) \<noteq> None \<longleftrightarrow>
    \<not> (\<exists>p \<in> set (vr_ignore r). pattern_matches p segs) \<and> (\<exists>p \<in> set (vr_paths r). pattern_matches p segs)"
proof -
  have "clean_names segs = segs" using foldl_ordinary[OF assms(1), of "[]"] by (simp add: clean_names_def)
  then have "path_segs (path_Clean (rooted segs)) = segs"
    using assms by (simp add: path_Clean_rooted ordinary_no_slash path_segs_rooted)
  then show ?thesis using find_None_iff[of "\<lambda>pat. pattern_matches pat segs" "vr_paths r"]
    by (simp add: SensitivePath_def list_ex_iff rooted_prefix del: not_None_eq) blast
qed

text \<open>
  The rules file decides what is reported, and nothing else does: under rules compiled from a \<open>vmm:\<close>
  section, an absolute path made of ordinary names is reported exactly when no \<open>ignore\<close> entry covers it and
  some path covers it, a configured one or (unless \<open>defaults\<close> is false) a built-in one, where an entry covers
  the path it names and everything under it on a boundary between names.
\<close>

theorem compileVMM_reports:
  assumes "compileVMM (Some c) = Inr r" "list_all ordinary segs" "segs \<noteq> []"
  shows "SensitivePath (Some r) (rooted segs) \<noteq> None \<longleftrightarrow>
    \<not> (\<exists>s \<in> set (vc_ignore c). covers segs s) \<and>
    (\<exists>s \<in> set (vc_paths c @ (if vc_defaults c = Some False then [] else DefaultVMMPaths)). covers segs s)"
proof -
  obtain built own where parts:
    "compile_all ''path'' (if vc_defaults c \<noteq> Some False then DefaultVMMPaths else []) = Inr built"
    "compile_all ''path'' (vc_paths c) = Inr own" "compile_all ''ignore'' (vc_ignore c) = Inr (vr_ignore r)" "vr_paths r = built @ own"
    by (rule compileVMM_parts[OF assms(1)])
  have "(\<exists>p \<in> set (vr_paths r). pattern_matches p segs) \<longleftrightarrow>
      (\<exists>p \<in> set built. pattern_matches p segs) \<or> (\<exists>p \<in> set own. pattern_matches p segs)" using parts(4) by auto
  also have "\<dots> \<longleftrightarrow> (\<exists>s \<in> set (vc_paths c @ (if vc_defaults c = Some False then [] else DefaultVMMPaths)). covers segs s)"
    unfolding compile_all_covers[OF parts(1)] compile_all_covers[OF parts(2)] by auto
  finally show ?thesis using SensitivePath_names[OF assms(2,3), of r] compile_all_covers[OF parts(3), of segs] by simp
qed

theorem compileVMM_reports_witness:
  "\<exists>r. compileVMM (Some (no_vmm_config\<lparr>vc_ignore := [''/etc/ssh/keys'']\<rparr>)) = Inr r \<and>
     SensitivePath (Some r) ''/etc/ssh/sshd_config'' \<noteq> None \<and> SensitivePath (Some r) ''/etc/ssh/keys/a'' = None"
proof -
  let ?c = "no_vmm_config\<lparr>vc_ignore := [''/etc/ssh/keys'']\<rparr>"
  have "\<not> isl (compileVMM (Some ?c))" by code_simp
  then obtain r where r: "compileVMM (Some ?c) = Inr r" by (metis sum.collapse(2))
  let ?a = "[''etc'', ''ssh'', ''sshd_config'']" and ?b = "[''etc'', ''ssh'', ''keys'', ''a'']"
  have o: "list_all ordinary ?a" "list_all ordinary ?b" by code_simp+
  have k: "\<not> list_ex (covers ?a) (vc_ignore ?c)" "covers ?a ''/etc/ssh''" "list_ex (covers ?b) (vc_ignore ?c)" by code_simp+
  have d: "''/etc/ssh'' \<in> set (vc_paths ?c @ (if vc_defaults ?c = Some False then [] else DefaultVMMPaths))" by code_simp
  have "SensitivePath (Some r) (rooted ?a) \<noteq> None"
    unfolding compileVMM_reports[OF r o(1) list.distinct(2)] using k(1,2) d unfolding list_ex_iff by blast
  moreover have "\<not> SensitivePath (Some r) (rooted ?b) \<noteq> None"
    unfolding compileVMM_reports[OF r o(2) list.distinct(2)] using k(3) unfolding list_ex_iff by blast
  moreover have "rooted ?a = ''/etc/ssh/sshd_config''" "rooted ?b = ''/etc/ssh/keys/a''" by code_simp+
  ultimately show ?thesis using r by metis
qed

text \<open>
  The check that refuses a pattern which would match every file is incomplete: \<open>/\<close> is refused for that
  reason, and \<open>/*\<close> is accepted and covers every absolute path.
\<close>

theorem star_matches_every_file:
  "compilePattern ''path'' ''/'' = Inl (MatchesEveryFile ''path'') \<and>
   (\<exists>r. compileVMM (Some (no_vmm_config\<lparr>vc_paths := [''/*'']\<rparr>)) = Inr r \<and>
     (\<forall>p. HasPrefix p ''/'' = (SensitivePath (Some r) p \<noteq> None)))"
proof
  show "compilePattern ''path'' ''/'' = Inl (MatchesEveryFile ''path'')" by code_simp
  let ?c = "no_vmm_config\<lparr>vc_paths := [''/*'']\<rparr>"
  have "\<not> isl (compileVMM (Some ?c))" by code_simp
  then obtain r where r: "compileVMM (Some ?c) = Inr r" by (metis sum.collapse(2))
  let ?star = "\<lparr>pt_raw = ''/*'', pt_segs = [''*'']\<rparr>"
  have star: "compile_all ''path'' (vc_paths ?c) = Inr [?star]" by code_simp
  have ign: "compile_all ''ignore'' (vc_ignore ?c) = Inr []" by code_simp
  have p: "?star \<in> set (vr_paths r)" "vr_ignore r = []"
    by (rule compileVMM_parts[OF r], use star ign in simp)+
  have m: "pattern_matches ?star segs" if "segs \<noteq> []" for segs
    using that by (cases segs) (simp_all add: pattern_matches_def)
  have "SensitivePath (Some r) q \<noteq> None" if "HasPrefix q ''/''" for q
  proof -
    have "find (\<lambda>pat. pattern_matches pat (path_segs (path_Clean q))) (vr_paths r) \<noteq> None"
      unfolding find_None_iff using p(1) m[OF path_segs_ne] by blast
    then show ?thesis using that by (simp add: SensitivePath_def p(2))
  qed
  moreover have "SensitivePath (Some r) q = None" if "\<not> HasPrefix q ''/''" for q using that by (simp add: SensitivePath_def)
  ultimately have "\<forall>p. HasPrefix p ''/'' = (SensitivePath (Some r) p \<noteq> None)" by metis
  with r show "\<exists>r. compileVMM (Some ?c) = Inr r \<and> (\<forall>p. HasPrefix p ''/'' = (SensitivePath (Some r) p \<noteq> None))"
    by (intro exI[of _ r] conjI)
qed

end
