(* ===== verification/Rules.thy ===== *)
theory Rules
  imports Complex_Main Vmm Netip Baseline
begin

text \<open>
  The detection rules: \<open>internal/detect/config.go\<close> (what a rules file may say, its checks and defaults, and the
  matching of ports, names and processes), \<open>dest.go\<close> (the destination watchlist) and \<open>suppress.go\<close> (repeats
  held back). Decoding YAML is a third-party package: the decoded document is the argument. A file that is
  refused is an \<open>Inl\<close> with the condition that refused it; the texts of the messages are not modelled. The
  watchlist uses Go's \<open>net\<close> package, modelled on the addresses of \<open>Netip\<close>.
\<close>

section \<open>Networks, as Go's net package has them\<close>

text \<open>A network with a mask of 4 bytes or of 16.\<close>

datatype ip_net = Net4 u32 nat | Net6 "128 word" nat

text \<open>\<open>dtoi\<close> of a whole string: decimal digits, leading zeros allowed, below 16777215.\<close>

definition dtoi :: "string \<Rightarrow> nat option" where
  "dtoi s = (if s = [] \<or> \<not> list_all is_digit s \<or> 0xFFFFFF \<le> digits_val s then None else Some (digits_val s))"

definition ParseCIDR :: "string \<Rightarrow> ip_net option" where
  "ParseCIDR s = (case Cut s (CHR ''/'') of
      None \<Rightarrow> None
    | Some (a, m) \<Rightarrow> (case (ParseAddr a, dtoi m) of
        (Some (V4 w), Some n) \<Rightarrow> if n \<le> 32 then (case mask_addr (V4 w) n of V4 v \<Rightarrow> Some (Net4 v n) | _ \<Rightarrow> None) else None
      | (Some (V6 w z), Some n) \<Rightarrow>
          (if z = '''' \<and> n \<le> 128 then (case mask_addr (V6 w '''') n of V6 v _ \<Rightarrow> Some (Net6 v n) | _ \<Rightarrow> None) else None)
      | _ \<Rightarrow> None))"

definition ParseIP :: "string \<Rightarrow> addr option" where
  "ParseIP s = (case ParseAddr s of
      Some (V6 w z) \<Rightarrow> if z = '''' then Some (V6 w '''') else None
    | Some a \<Rightarrow> Some a
    | None \<Rightarrow> None)"

text \<open>\<open>To4\<close> and \<open>IPNet.Contains\<close>: an IPv4 address and its IPv4-mapped form are one address, and a network of
  mapped addresses is the IPv4 network it maps.\<close>

definition To4 :: "addr \<Rightarrow> u32 option" where
  "To4 a = (case Unmap a of V4 w \<Rightarrow> Some w | _ \<Rightarrow> None)"

definition net_Contains :: "ip_net \<Rightarrow> addr \<Rightarrow> bool" where
  "net_Contains n ip = (case n of
      Net4 v b \<Rightarrow> (case To4 ip of Some w \<Rightarrow> mask_addr (V4 w) b = mask_addr (V4 v) b | None \<Rightarrow> False)
    | Net6 v b \<Rightarrow>
       (case (To4 (V6 v ''''), To4 ip, ip) of
          (Some v4, Some w, _) \<Rightarrow> mask_addr (V4 w) (b - 96) = mask_addr (V4 v4) (b - 96)
        | (None, None, V6 w _) \<Rightarrow> mask_addr (V6 w '''') b = mask_addr (V6 v '''') b
        | _ \<Rightarrow> False))"

section \<open>The destination watchlist\<close>

record DestRule =
  ds_cidr :: string
  ds_severity :: string
  ds_name :: string

datatype (plugins only: code) rule_error =
    NegativeSuppress
  | DestSeverity string
  | DestEmpty string
  | DestBad string
  | NameTwice string string
  | PortMissing string
  | PortProto string
  | PortDir string
  | RuleSeverity string string
  | NameRuleShape string string
  | VMMRejected vmm_error
  | BaselineLearn
  | BaselineAlerts
  | BaselineItems
  | BaselineAge
  | BaselineKind string
  | BaselineKindTwice string
  | BaselineSeverity string
  | MaxPerHourRange
  | EmptyNeverIsolate
  | ResponseName
  | ResponseAction string
  | ResponseMode string
  | ResponseEmptyRule string
  | ResponseSeverity string
  | ResponseEnforceAll string
  | ResponseRelease string
  | ResponseCooldown string
  | ResponseExpire string
  | ResponseTwice string
  | EmptyExecAllow
  | ThresholdName
  | ThresholdMetric string
  | ThresholdOp string
  | ThresholdValue string
  | ThresholdWindow string
  | NotYAML string

type_synonym Watchlist = "(DestRule \<times> ip_net) list"

definition compile_dest :: "DestRule \<Rightarrow> rule_error + (DestRule \<times> ip_net)" where
  "compile_dest r =
     (if ds_cidr r = '''' then Inl (DestEmpty (ds_name r))
      else
        (let r' = r\<lparr>ds_severity := (if ds_severity r = '''' then ''high'' else ds_severity r)\<rparr>
         in case ParseCIDR (ds_cidr r) of
              Some n \<Rightarrow> Inr (r', n)
            | None \<Rightarrow> (case ParseIP (ds_cidr r) of
                None \<Rightarrow> Inl (DestBad (ds_name r))
              | Some ip \<Rightarrow> (case (To4 ip, ip) of
                    (Some w, _) \<Rightarrow> Inr (r', Net4 w 32)
                  | (None, V6 w _) \<Rightarrow> Inr (r', Net6 w 128)
                  | _ \<Rightarrow> Inl (DestBad (ds_name r))))))"

fun compile_dests :: "DestRule list \<Rightarrow> rule_error + Watchlist" where
  "compile_dests [] = Inr []"
| "compile_dests (r # rs) = (case compile_dest r of
      Inl e \<Rightarrow> Inl e
    | Inr c \<Rightarrow> (case compile_dests rs of Inl e \<Rightarrow> Inl e | Inr cs \<Rightarrow> Inr (c # cs)))"

text \<open>\<open>Match\<close>: an address that did not parse is Go's nil.\<close>

definition MatchDest :: "Watchlist \<Rightarrow> addr option \<Rightarrow> DestRule option" where
  "MatchDest w ip = (case ip of None \<Rightarrow> None | Some a \<Rightarrow> map_option fst (find (\<lambda>(r, n). net_Contains n a) w))"

section \<open>Rules for ports and names\<close>

record PortRule =
  po_port :: u16
  po_proto :: string
  po_dir :: string
  po_severity :: string
  po_name :: string

record DNSRule =
  dn_name :: string
  dn_suffix :: string
  dn_exact :: string
  dn_contains :: string
  dn_severity :: string

definition dns_matches :: "DNSRule \<Rightarrow> string \<Rightarrow> bool" where
  "dns_matches r name =
     (if dn_exact r \<noteq> '''' then name = dn_exact r
      else if dn_suffix r \<noteq> '''' then name = dn_suffix r \<or> HasSuffix name (''.'' @ dn_suffix r)
      else if dn_contains r \<noteq> '''' then ContainsStr name (dn_contains r)
      else False)"

definition take_name :: "string \<Rightarrow> string \<Rightarrow> string list \<Rightarrow> rule_error + string list" where
  "take_name kind n seen = (if n \<in> set seen then Inl (NameTwice kind n) else Inr (n # seen))"

definition port_defaults :: "PortRule \<Rightarrow> PortRule" where
  "port_defaults r = r\<lparr>po_name := (if po_name r = '''' then ''port-'' @ Itoa (uint (po_port r)) else po_name r),
     po_proto := (if po_proto r = '''' then ''tcp'' else po_proto r), po_dir := (if po_dir r = '''' then ''out'' else po_dir r),
     po_severity := (if po_severity r = '''' then ''high'' else po_severity r)\<rparr>"

definition port_check :: "PortRule \<Rightarrow> rule_error option" where
  "port_check r =
     (if po_proto r \<notin> {''tcp'', ''udp'', ''any''} then Some (PortProto (po_name r))
      else if po_dir r \<notin> {''out'', ''in'', ''any''} then Some (PortDir (po_name r))
      else if po_severity r \<notin> severities then Some (RuleSeverity ''ports'' (po_name r))
      else None)"

definition port_rule :: "PortRule \<Rightarrow> rule_error + PortRule" where
  "port_rule r0 =
     (if po_port r0 = 0 then Inl (PortMissing (po_name r0))
      else (let r = port_defaults r0 in case port_check r of Some e \<Rightarrow> Inl e | None \<Rightarrow> Inr r))"

fun port_rules :: "string list \<Rightarrow> PortRule list \<Rightarrow> rule_error + (PortRule list \<times> string list)" where
  "port_rules seen [] = Inr ([], seen)"
| "port_rules seen (r # rs) = (case port_rule r of
      Inl e \<Rightarrow> Inl e
    | Inr r' \<Rightarrow> (case take_name ''ports'' (po_name r') seen of
        Inl e \<Rightarrow> Inl e
      | Inr seen' \<Rightarrow> (case port_rules seen' rs of Inl e \<Rightarrow> Inl e | Inr (out, s) \<Rightarrow> Inr (r' # out, s))))"

definition norm_name :: "string \<Rightarrow> string" where
  "norm_name v = TrimDots (ToLower (TrimSpace v))"

definition name_rule :: "string \<Rightarrow> DNSRule \<Rightarrow> rule_error + DNSRule" where
  "name_rule kind r0 =
     (let suf = norm_name (dn_suffix r0); exa = norm_name (dn_exact r0); con = ToLower (TrimSpace (dn_contains r0))
      in if length (filter (\<lambda>v. v \<noteq> '''') [suf, exa, con]) \<noteq> 1 then Inl (NameRuleShape kind (dn_name r0))
         else
           (let r = \<lparr>dn_name = (if dn_name r0 = '''' then kind @ ''-'' @ suf @ exa @ con else dn_name r0),
                     dn_suffix = suf, dn_exact = exa, dn_contains = con,
                     dn_severity = (if dn_severity r0 = '''' then ''high'' else dn_severity r0)\<rparr>
            in if dn_severity r \<notin> severities then Inl (RuleSeverity kind (dn_name r)) else Inr r))"

fun nameRules :: "string \<Rightarrow> string list \<Rightarrow> DNSRule list \<Rightarrow> rule_error + (DNSRule list \<times> string list)" where
  "nameRules kind seen [] = Inr ([], seen)"
| "nameRules kind seen (r # rs) = (case name_rule kind r of
      Inl e \<Rightarrow> Inl e
    | Inr r' \<Rightarrow> (case take_name kind (dn_name r') seen of
        Inl e \<Rightarrow> Inl e
      | Inr seen' \<Rightarrow> (case nameRules kind seen' rs of Inl e \<Rightarrow> Inl e | Inr (out, s) \<Rightarrow> Inr (r' # out, s))))"

section \<open>Baselines\<close>

record BaselineConfig =
  bc_learn :: duration
  bc_max_alerts :: int
  bc_max_items :: int
  bc_max_age :: duration
  bc_kinds :: "string list"
  bc_severity :: "(string, string) gomap"

definition BaselineOptions :: "BaselineConfig \<Rightarrow> base_options" where
  "BaselineOptions b = \<lparr>o_learn = bc_learn b, o_max_items = bc_max_items b, o_max_age = bc_max_age b,
     o_max_alerts = bc_max_alerts b\<rparr>"

definition Learns :: "BaselineConfig option \<Rightarrow> base_kind \<Rightarrow> bool" where
  "Learns b k = (case b of None \<Rightarrow> False | Some b \<Rightarrow> k \<in> set (bc_kinds b))"

definition SeverityOf :: "BaselineConfig \<Rightarrow> base_kind \<Rightarrow> string" where
  "SeverityOf b k =
     (let s = (case map_of (bc_severity b) k of None \<Rightarrow> '''' | Some s \<Rightarrow> s)
      in if s \<noteq> '''' then s else if k = DNSSuffix then ''low'' else ''medium'')"

fun check_kinds :: "string list \<Rightarrow> string list \<Rightarrow> rule_error option" where
  "check_kinds seen [] = None"
| "check_kinds seen (k # ks) =
     (if k \<notin> set Kinds then Some (BaselineKind k) else if k \<in> set seen then Some (BaselineKindTwice k)
      else check_kinds (k # seen) ks)"

definition dflt :: "int \<Rightarrow> int \<Rightarrow> int" where
  "dflt d v = (if v = 0 then d else v)"

definition baseline_defaults :: "BaselineConfig \<Rightarrow> BaselineConfig" where
  "baseline_defaults b =
     b\<lparr>bc_learn := dflt (o_learn DefaultOptions) (bc_learn b), bc_max_alerts := dflt (o_max_alerts DefaultOptions) (bc_max_alerts b),
       bc_max_items := dflt (o_max_items DefaultOptions) (bc_max_items b), bc_max_age := dflt (o_max_age DefaultOptions) (bc_max_age b),
       bc_kinds := (if bc_kinds b = [] then Kinds else bc_kinds b)\<rparr>"

definition baseline_check :: "BaselineConfig \<Rightarrow> rule_error option" where
  "baseline_check b =
     (if bc_learn b < minute \<or> bc_learn b > 90 * 24 * hour then Some BaselineLearn
      else if bc_max_alerts b < 1 \<or> bc_max_alerts b > 1000 then Some BaselineAlerts
      else if bc_max_items b < 16 \<or> bc_max_items b > 100000 then Some BaselineItems
      else if bc_max_age b < bc_learn b then Some BaselineAge
      else case check_kinds [] (bc_kinds b) of
        Some e \<Rightarrow> Some e
      | None \<Rightarrow> map_option (\<lambda>(k, sev). BaselineSeverity k)
          (find (\<lambda>(k, sev). k \<notin> set Kinds \<or> sev \<notin> severities) (bc_severity b)))"

definition baseline_validate :: "BaselineConfig \<Rightarrow> rule_error + BaselineConfig" where
  "baseline_validate b0 = (let b = baseline_defaults b0 in case baseline_check b of Some e \<Rightarrow> Inl e | None \<Rightarrow> Inr b)"

section \<open>Responses and guardrails\<close>

record Response =
  rs_name :: string
  rs_rules :: "string list"
  rs_min_severity :: string
  rs_action :: string
  rs_mode :: string
  rs_dry_run :: bool
  rs_release_after :: duration
  rs_cooldown :: duration
  rs_expire :: duration

record Guardrails =
  gd_never_isolate :: "string list"
  gd_max_per_hour :: int

definition severityRank :: "string \<Rightarrow> int" where
  "severityRank s = (if s = ''low'' then 1 else if s = ''medium'' then 2 else if s = ''high'' then 3
     else if s = ''critical'' then 4 else 0)"

definition SeverityAtLeast :: "string \<Rightarrow> string \<Rightarrow> bool" where
  "SeverityAtLeast sev mn \<longleftrightarrow> severityRank mn \<le> severityRank sev"

definition Answers :: "Response \<Rightarrow> string \<Rightarrow> string \<Rightarrow> bool" where
  "Answers r rule severity =
     (if rs_rules r \<noteq> [] \<and> rule \<notin> set (rs_rules r) then False
      else rs_min_severity r = '''' \<or> SeverityAtLeast severity (rs_min_severity r))"

definition response_defaults :: "Response \<Rightarrow> Response" where
  "response_defaults r =
     r\<lparr>rs_mode := (if rs_mode r = '''' then ''propose'' else rs_mode r),
       rs_min_severity := (if rs_rules r = [] \<and> rs_min_severity r = '''' then ''high'' else rs_min_severity r),
       rs_cooldown := dflt hour (rs_cooldown r), rs_expire := dflt (30 * minute) (rs_expire r)\<rparr>"

definition response_check :: "Response \<Rightarrow> rule_error option" where
  "response_check r =
     (if rs_name r = '''' then Some ResponseName
      else if rs_action r \<noteq> ''isolate'' then Some (ResponseAction (rs_name r))
      else if rs_mode r \<notin> {''propose'', ''enforce''} then Some (ResponseMode (rs_name r))
      else if list_ex (\<lambda>x. TrimSpace x = '''') (rs_rules r) then Some (ResponseEmptyRule (rs_name r))
      else if rs_min_severity r \<noteq> '''' \<and> rs_min_severity r \<notin> severities then Some (ResponseSeverity (rs_name r))
      else if rs_rules r = [] \<and> rs_mode r = ''enforce'' \<and> \<not> rs_dry_run r then Some (ResponseEnforceAll (rs_name r))
      else if rs_release_after r \<noteq> 0 \<and> (rs_release_after r < minute \<or> rs_release_after r > 24 * hour)
        then Some (ResponseRelease (rs_name r))
      else if rs_cooldown r < minute \<or> rs_cooldown r > 7 * 24 * hour then Some (ResponseCooldown (rs_name r))
      else if rs_expire r < minute \<or> rs_expire r > 24 * hour then Some (ResponseExpire (rs_name r))
      else None)"

text \<open>\<open>validate\<close>: its checks only read what its defaults have already set, so the defaults come first here.\<close>

definition response_validate :: "Response \<Rightarrow> rule_error + Response" where
  "response_validate r0 = (let r = response_defaults r0 in case response_check r of Some e \<Rightarrow> Inl e | None \<Rightarrow> Inr r)"

fun response_rules :: "string list \<Rightarrow> Response list \<Rightarrow> rule_error + Response list" where
  "response_rules seen [] = Inr []"
| "response_rules seen (r # rs) = (case response_validate r of
      Inl e \<Rightarrow> Inl e
    | Inr r' \<Rightarrow>
       (if rs_name r' \<in> set seen then Inl (ResponseTwice (rs_name r'))
        else case response_rules (rs_name r' # seen) rs of Inl e \<Rightarrow> Inl e | Inr out \<Rightarrow> Inr (r' # out)))"

definition guard_rules :: "Guardrails option \<Rightarrow> rule_error + Guardrails" where
  "guard_rules og = (case og of
      None \<Rightarrow> Inr \<lparr>gd_never_isolate = [], gd_max_per_hour = 3\<rparr>
    | Some g \<Rightarrow>
       (if gd_max_per_hour g < 0 \<or> gd_max_per_hour g > 100 then Inl MaxPerHourRange
        else if list_ex (\<lambda>v. TrimSpace v = '''') (gd_never_isolate g) then Inl EmptyNeverIsolate
        else Inr \<lparr>gd_never_isolate = gd_never_isolate g, gd_max_per_hour = dflt 3 (gd_max_per_hour g)\<rparr>))"

section \<open>Thresholds\<close>

text \<open>A \<open>float64\<close> as the checks see it: not a number, infinite, or finite.\<close>

datatype f64 = NaN | Inf bool | Fin rat

record Threshold =
  tr_name :: string
  tr_metric :: string
  tr_op :: string
  tr_value :: f64
  tr_window :: duration
  tr_severity :: string

definition metrics :: "string list" where
  "metrics = [''block_read_p99_ms'', ''block_write_p99_ms'', ''wakeup_delay_ms'', ''kvm_exits_per_sec'',
     ''tcp_retransmits_per_sec'', ''kvm_exit_latency_p99_ms'', ''runqueue_delay_p99_ms'', ''vcpu_preempted_ms_per_sec'',
     ''block_read_bytes_per_sec'', ''block_write_bytes_per_sec'', ''block_iops'', ''guest_drops_per_sec'',
     ''guest_connect_refused_per_sec'', ''guest_connect_timeouts_per_sec'', ''guest_inbound_per_sec'']"

definition value_ok :: "f64 \<Rightarrow> bool" where
  "value_ok v = (case v of Fin q \<Rightarrow> 0 \<le> q | _ \<Rightarrow> False)"

definition threshold_rule :: "Threshold \<Rightarrow> rule_error + Threshold" where
  "threshold_rule t0 =
     (let t = t0\<lparr>tr_op := (if tr_op t0 = '''' then ''>'' else tr_op t0), tr_window := dflt (30 * second) (tr_window t0),
                 tr_severity := (if tr_severity t0 = '''' then ''medium'' else tr_severity t0)\<rparr>
      in if tr_name t = '''' then Inl ThresholdName
         else if tr_metric t \<notin> set metrics then Inl (ThresholdMetric (tr_name t))
         else if tr_op t \<notin> {''>'', ''>=''} then Inl (ThresholdOp (tr_name t))
         else if \<not> value_ok (tr_value t) then Inl (ThresholdValue (tr_name t))
         else if tr_window t < 5 * second \<or> tr_window t > 10 * minute then Inl (ThresholdWindow (tr_name t))
         else if tr_severity t \<notin> severities then Inl (RuleSeverity ''thresholds'' (tr_name t))
         else Inr t)"

fun threshold_rules :: "string list \<Rightarrow> Threshold list \<Rightarrow> rule_error + (Threshold list \<times> string list)" where
  "threshold_rules seen [] = Inr ([], seen)"
| "threshold_rules seen (t # ts) = (case threshold_rule t of
      Inl e \<Rightarrow> Inl e
    | Inr t' \<Rightarrow> (case take_name ''thresholds'' (tr_name t') seen of
        Inl e \<Rightarrow> Inl e
      | Inr seen' \<Rightarrow> (case threshold_rules seen' ts of Inl e \<Rightarrow> Inl e | Inr (out, s) \<Rightarrow> Inr (t' # out, s))))"

section \<open>The file\<close>

record Config =
  cf_watch :: Watchlist
  cf_ports :: "PortRule list"
  cf_dns :: "DNSRule list"
  cf_tls :: "DNSRule list"
  cf_baselines :: "BaselineConfig option"
  cf_vmm :: "VMMRules option"
  cf_responses :: "Response list"
  cf_guard :: Guardrails
  cf_exec_allow :: "string list"
  cf_thresholds :: "Threshold list"
  cf_suppress :: duration

definition DefaultConfig :: Config where
  "DefaultConfig = \<lparr>cf_watch = [], cf_ports = [], cf_dns = [], cf_tls = [], cf_baselines = None, cf_vmm = DefaultVMMRules,
     cf_responses = [], cf_guard = \<lparr>gd_never_isolate = [], gd_max_per_hour = 0\<rparr>, cf_exec_allow = [], cf_thresholds = [],
     cf_suppress = 5 * minute\<rparr>"

record rules_doc =
  rd_suppress :: "duration option"
  rd_destinations :: "DestRule list"
  rd_ports :: "PortRule list"
  rd_dns :: "DNSRule list"
  rd_tls :: "DNSRule list"
  rd_baselines :: "BaselineConfig option"
  rd_vmm :: "VMMConfig option"
  rd_responses :: "Response list"
  rd_guardrails :: "Guardrails option"
  rd_exec_allow :: "string list"
  rd_thresholds :: "Threshold list"

definition exec_entries :: "string list \<Rightarrow> rule_error + string list" where
  "exec_entries xs =
     (let ys = map (\<lambda>x. ToLower (TrimSpace x)) xs in if '''' \<in> set ys then Inl EmptyExecAllow else Inr ys)"

text \<open>The sequence of the checks in \<open>Parse\<close>: the first that fails decides the error.\<close>

definition err_bind :: "'e + 'a \<Rightarrow> ('a \<Rightarrow> 'e + 'b) \<Rightarrow> 'e + 'b" where
  "err_bind x f = (case x of Inl e \<Rightarrow> Inl e | Inr a \<Rightarrow> f a)"

definition parse_doc :: "rules_doc \<Rightarrow> rule_error + Config" where
  "parse_doc d =
     (if (case rd_suppress d of Some s \<Rightarrow> s < 0 | None \<Rightarrow> False) then Inl NegativeSuppress
      else case find (\<lambda>r. ds_severity r \<noteq> '''' \<and> ds_severity r \<notin> severities) (rd_destinations d) of
        Some r \<Rightarrow> Inl (DestSeverity (ds_name r))
      | None \<Rightarrow>
         err_bind (compile_dests (rd_destinations d)) (\<lambda>watch.
         err_bind (port_rules [] (rd_ports d)) (\<lambda>(ports, seen).
         err_bind (nameRules ''dns'' seen (rd_dns d)) (\<lambda>(dns, seen).
         err_bind (nameRules ''tls'' seen (rd_tls d)) (\<lambda>(tls, seen).
         err_bind (map_sum VMMRejected id (compileVMM (rd_vmm d))) (\<lambda>vmm.
         err_bind (case rd_baselines d of None \<Rightarrow> Inr None | Some b \<Rightarrow> map_sum id Some (baseline_validate b)) (\<lambda>base.
         err_bind (guard_rules (rd_guardrails d)) (\<lambda>guard.
         err_bind (response_rules [] (rd_responses d)) (\<lambda>resp.
         err_bind (exec_entries (rd_exec_allow d)) (\<lambda>execs.
         err_bind (threshold_rules seen (rd_thresholds d)) (\<lambda>(thr, seen).
           Inr \<lparr>cf_watch = watch, cf_ports = ports, cf_dns = dns, cf_tls = tls, cf_baselines = base, cf_vmm = Some vmm,
             cf_responses = resp, cf_guard = guard, cf_exec_allow = execs, cf_thresholds = thr,
             cf_suppress = (case rd_suppress d of Some s \<Rightarrow> s | None \<Rightarrow> 5 * minute)\<rparr>)))))))))))"

definition Parse :: "(string \<Rightarrow> string + rules_doc) \<Rightarrow> string \<Rightarrow> rule_error + Config" where
  "Parse decode b = (case decode b of Inl e \<Rightarrow> Inl (NotYAML e) | Inr d \<Rightarrow> parse_doc d)"

section \<open>Matching\<close>

definition MatchPortDir :: "Config option \<Rightarrow> u16 \<Rightarrow> string \<Rightarrow> string \<Rightarrow> PortRule option" where
  "MatchPortDir oc port proto0 dir0 = (case oc of
      None \<Rightarrow> None
    | Some c \<Rightarrow>
       (if port = 0 then None
        else
          (let proto = (if proto0 = '''' then ''tcp'' else proto0); dir = (if dir0 = '''' then ''out'' else dir0)
           in find (\<lambda>r. let rdir = (if po_dir r = '''' then ''out'' else po_dir r)
                in po_port r = port \<and> (po_proto r = ''any'' \<or> po_proto r = proto \<or> (po_proto r = '''' \<and> proto = ''tcp'')) \<and>
                   (rdir = ''any'' \<or> rdir = dir)) (cf_ports c))))"

definition MatchPort :: "Config option \<Rightarrow> u16 \<Rightarrow> string \<Rightarrow> PortRule option" where
  "MatchPort oc port proto = MatchPortDir oc port proto ''out''"

definition matchName :: "DNSRule list \<Rightarrow> string \<Rightarrow> DNSRule option" where
  "matchName rules name =
     (if name = '''' then None
      else (let n = TrimSuffix (ToLower name) ''.'' in find (\<lambda>r. dns_matches r n) rules))"

definition MatchDNS :: "Config option \<Rightarrow> string \<Rightarrow> DNSRule option" where
  "MatchDNS oc name = (case oc of None \<Rightarrow> None | Some c \<Rightarrow> matchName (cf_dns c) name)"

definition MatchTLS :: "Config option \<Rightarrow> string \<Rightarrow> DNSRule option" where
  "MatchTLS oc name = (case oc of None \<Rightarrow> None | Some c \<Rightarrow> matchName (cf_tls c) name)"

definition AllowsExec :: "Config option \<Rightarrow> string \<Rightarrow> bool" where
  "AllowsExec oc comm = (case oc of
      None \<Rightarrow> False
    | Some c \<Rightarrow> (let x = ToLower (TrimSpace comm) in list_ex (\<lambda>p. HasPrefix x p) (cf_exec_allow c)))"

definition MaxWindow :: "Config option \<Rightarrow> duration" where
  "MaxWindow oc = (case oc of None \<Rightarrow> 0 | Some c \<Rightarrow> fold (\<lambda>t m. max m (tr_window t)) (cf_thresholds c) 0)"


section \<open>Repeats held back\<close>

record suppressed =
  sp_until :: time
  sp_held :: u64

type_synonym Suppressor = "(string, suppressed) gomap"

definition maxSuppressKeys :: int where
  "maxSuppressKeys = 4096"

definition drop_expired :: "time \<Rightarrow> Suppressor \<Rightarrow> Suppressor" where
  "drop_expired now seen = filter (\<lambda>(k, e). now < sp_until e) seen"

text \<open>\<open>Allow\<close>: the table, whether the detection is raised, and how many repeats were held back.\<close>

definition Allow :: "string \<Rightarrow> time \<Rightarrow> duration \<Rightarrow> Suppressor \<Rightarrow> Suppressor \<times> bool \<times> u64" where
  "Allow key now window seen =
     (if window \<le> 0 then (seen, True, 0)
      else case map_of seen key of
        Some e \<Rightarrow>
          (if now < sp_until e then (AList.update key (e\<lparr>sp_held := sp_held e + 1\<rparr>) seen, False, 0)
           else (AList.update key \<lparr>sp_until = now + window, sp_held = 0\<rparr> seen, True, sp_held e))
      | None \<Rightarrow>
          (let seen' = (if maxSuppressKeys \<le> int (length seen) then drop_expired now seen else seen)
           in if maxSuppressKeys \<le> int (length seen') then (seen', True, 0)
              else (AList.update key \<lparr>sp_until = now + window, sp_held = 0\<rparr> seen', True, 0)))"

section \<open>What a rules file that was accepted promises\<close>

definition port_ok :: "PortRule \<Rightarrow> bool" where
  "port_ok r \<longleftrightarrow> po_port r \<noteq> 0 \<and> po_proto r \<in> {''tcp'', ''udp'', ''any''} \<and> po_dir r \<in> {''out'', ''in'', ''any''} \<and>
     po_severity r \<in> severities \<and> po_name r \<noteq> ''''"

definition name_ok :: "DNSRule \<Rightarrow> bool" where
  "name_ok r \<longleftrightarrow> (dn_suffix r \<noteq> '''' \<and> dn_exact r = '''' \<and> dn_contains r = '''' \<or>
      dn_suffix r = '''' \<and> dn_exact r \<noteq> '''' \<and> dn_contains r = '''' \<or>
      dn_suffix r = '''' \<and> dn_exact r = '''' \<and> dn_contains r \<noteq> '''') \<and>
     dn_severity r \<in> severities \<and> dn_name r \<noteq> ''''"

definition response_ok :: "Response \<Rightarrow> bool" where
  "response_ok r \<longleftrightarrow> rs_name r \<noteq> '''' \<and> rs_action r = ''isolate'' \<and> rs_mode r \<in> {''propose'', ''enforce''} \<and>
     (rs_mode r = ''enforce'' \<and> \<not> rs_dry_run r \<longrightarrow> rs_rules r \<noteq> []) \<and>
     (rs_rules r = [] \<longrightarrow> rs_min_severity r \<in> severities) \<and>
     (rs_release_after r = 0 \<or> minute \<le> rs_release_after r \<and> rs_release_after r \<le> 24 * hour) \<and>
     minute \<le> rs_cooldown r \<and> minute \<le> rs_expire r \<and> rs_expire r \<le> 24 * hour"

definition threshold_ok :: "Threshold \<Rightarrow> bool" where
  "threshold_ok t \<longleftrightarrow> tr_name t \<noteq> '''' \<and> tr_metric t \<in> set metrics \<and> tr_op t \<in> {''>'', ''>=''} \<and> value_ok (tr_value t) \<and>
     5 * second \<le> tr_window t \<and> tr_window t \<le> 10 * minute \<and> tr_severity t \<in> severities"

definition rule_names :: "Config \<Rightarrow> string list" where
  "rule_names c = map po_name (cf_ports c) @ map dn_name (cf_dns c) @ map dn_name (cf_tls c) @ map tr_name (cf_thresholds c)"

definition config_ok :: "Config \<Rightarrow> bool" where
  "config_ok c \<longleftrightarrow>
     list_all (\<lambda>(r, n). ds_severity r \<in> severities) (cf_watch c) \<and> list_all port_ok (cf_ports c) \<and>
     list_all name_ok (cf_dns c) \<and> list_all name_ok (cf_tls c) \<and> list_all threshold_ok (cf_thresholds c) \<and>
     distinct (rule_names c) \<and> list_all response_ok (cf_responses c) \<and> distinct (map rs_name (cf_responses c)) \<and>
     1 \<le> gd_max_per_hour (cf_guard c) \<and> gd_max_per_hour (cf_guard c) \<le> 100 \<and>
     (case cf_baselines c of None \<Rightarrow> True | Some b \<Rightarrow> opts_ok (BaselineOptions b) \<and> set (bc_kinds b) \<subseteq> set Kinds) \<and>
     '''' \<notin> set (cf_exec_allow c) \<and> cf_vmm c \<noteq> None \<and> 0 \<le> cf_suppress c"

lemma err_bind_Inr [simp]: "(err_bind x f = Inr b) = (\<exists>a. x = Inr a \<and> f a = Inr b)"
  by (cases x) (simp_all add: err_bind_def)

lemma port_rule_ok: "port_rule r0 = Inr r \<Longrightarrow> port_ok r"
proof -
  assume "port_rule r0 = Inr r"
  then have c: "port_check r = None" "r = port_defaults r0" "po_port r0 \<noteq> 0"
    by (auto simp: port_rule_def Let_def split: option.splits if_splits)
  have "po_port r \<noteq> 0" "po_name r \<noteq> ''''" using c(3) unfolding c(2) by (simp_all add: port_defaults_def)
  then show ?thesis using c(1) by (simp add: port_check_def port_ok_def split: if_splits)
qed

lemma name_rule_ok: "kind \<noteq> '''' \<Longrightarrow> name_rule kind r0 = Inr r \<Longrightarrow> name_ok r"
  by (auto simp: name_rule_def name_ok_def Let_def split: if_splits)

lemma take_name_Inr [simp]: "(take_name kind n seen = Inr seen') = (n \<notin> set seen \<and> seen' = n # seen)"
  by (auto simp: take_name_def)

text \<open>A list of rules that was taken: each rule has the property of its kind, and its names are new.\<close>

lemma port_rules_ok:
  "port_rules seen rs = Inr (out, seen') \<Longrightarrow> distinct seen \<Longrightarrow>
     list_all port_ok out \<and> seen' = rev (map po_name out) @ seen \<and> distinct seen'"
  by (induction rs arbitrary: seen out) (fastforce split: sum.splits dest: port_rule_ok)+

lemma nameRules_ok:
  "nameRules kind seen rs = Inr (out, seen') \<Longrightarrow> kind \<noteq> '''' \<Longrightarrow> distinct seen \<Longrightarrow>
     list_all name_ok out \<and> seen' = rev (map dn_name out) @ seen \<and> distinct seen'"
  by (induction rs arbitrary: seen out) (fastforce split: sum.splits dest: name_rule_ok)+

lemma threshold_rule_ok: "threshold_rule t0 = Inr t \<Longrightarrow> threshold_ok t"
  by (auto simp: threshold_rule_def threshold_ok_def Let_def split: if_splits)

lemma threshold_rules_ok:
  "threshold_rules seen rs = Inr (out, seen') \<Longrightarrow> distinct seen \<Longrightarrow>
     list_all threshold_ok out \<and> seen' = rev (map tr_name out) @ seen \<and> distinct seen'"
  by (induction rs arbitrary: seen out) (fastforce split: sum.splits dest: threshold_rule_ok)+

lemma response_validate_ok: "response_validate r0 = Inr r \<Longrightarrow> response_ok r"
proof -
  assume r: "response_validate r0 = Inr r"
  then have c: "response_check r = None" "r = response_defaults r0"
    by (auto simp: response_validate_def Let_def split: option.splits)
  have "rs_rules r = [] \<Longrightarrow> rs_min_severity r \<noteq> ''''" unfolding c(2) by (simp add: response_defaults_def)
  then show ?thesis using c(1) by (simp add: response_check_def response_ok_def split: if_splits) auto
qed

lemma response_rules_ok:
  "response_rules seen rs = Inr out \<Longrightarrow>
     list_all response_ok out \<and> distinct (map rs_name out) \<and> set (map rs_name out) \<inter> set seen = {}"
proof (induction rs arbitrary: seen out)
  case (Cons r rs)
  then show ?case by (auto split: sum.splits if_splits dest: response_validate_ok) fastforce+
qed simp

lemma guard_rules_ok: "guard_rules og = Inr g \<Longrightarrow> 1 \<le> gd_max_per_hour g \<and> gd_max_per_hour g \<le> 100"
  by (auto simp: guard_rules_def dflt_def split: option.splits if_splits)

lemma check_kinds_ok: "check_kinds seen ks = None \<Longrightarrow> set ks \<subseteq> set Kinds"
  by (induction ks arbitrary: seen) (auto split: if_splits)

lemma baseline_validate_ok:
  "baseline_validate b0 = Inr b \<Longrightarrow> opts_ok (BaselineOptions b) \<and> set (bc_kinds b) \<subseteq> set Kinds"
proof -
  assume "baseline_validate b0 = Inr b"
  then have "baseline_check b = None" by (auto simp: baseline_validate_def Let_def split: option.splits)
  then show ?thesis using check_kinds_ok[of "[]" "bc_kinds b"]
    by (simp add: baseline_check_def BaselineOptions_def opts_ok_def split: if_splits option.splits)
qed

lemma compile_dest_ok: "compile_dest r = Inr (r', n) \<Longrightarrow>
    ds_severity r = '''' \<or> ds_severity r \<in> severities \<Longrightarrow> ds_severity r' \<in> severities"
  by (auto simp: compile_dest_def Let_def severities_def split: if_splits option.splits addr.splits)

lemma compile_dests_ok:
  "compile_dests rs = Inr w \<Longrightarrow> \<forall>r \<in> set rs. ds_severity r = '''' \<or> ds_severity r \<in> severities \<Longrightarrow>
     list_all (\<lambda>(r, n). ds_severity r \<in> severities) w"
  by (induction rs arbitrary: w) (fastforce split: sum.splits dest: compile_dest_ok)+


lemma parse_doc_Inr:
  assumes "parse_doc d = Inr c"
  obtains s1 s2 s3 s4 where
    "\<forall>r \<in> set (rd_destinations d). ds_severity r = '''' \<or> ds_severity r \<in> severities" "0 \<le> cf_suppress c"
    "compile_dests (rd_destinations d) = Inr (cf_watch c)" "port_rules [] (rd_ports d) = Inr (cf_ports c, s1)"
    "nameRules ''dns'' s1 (rd_dns d) = Inr (cf_dns c, s2)" "nameRules ''tls'' s2 (rd_tls d) = Inr (cf_tls c, s3)"
    "cf_vmm c \<noteq> None" "\<And>b. cf_baselines c = Some b \<Longrightarrow> \<exists>b0. baseline_validate b0 = Inr b"
    "guard_rules (rd_guardrails d) = Inr (cf_guard c)" "response_rules [] (rd_responses d) = Inr (cf_responses c)"
    "exec_entries (rd_exec_allow d) = Inr (cf_exec_allow c)"
    "threshold_rules s3 (rd_thresholds d) = Inr (cf_thresholds c, s4)"
proof -
  have g: "\<not> (case rd_suppress d of Some s \<Rightarrow> s < 0 | None \<Rightarrow> False)"
    "find (\<lambda>r. ds_severity r \<noteq> '''' \<and> ds_severity r \<notin> severities) (rd_destinations d) = None"
    using assms by (auto simp: parse_doc_def split: option.splits if_splits)
  obtain watch ports s1 dns s2 tls s3 vmm base guard resp execs thr s4 where e:
    "compile_dests (rd_destinations d) = Inr watch" "port_rules [] (rd_ports d) = Inr (ports, s1)"
    "nameRules ''dns'' s1 (rd_dns d) = Inr (dns, s2)" "nameRules ''tls'' s2 (rd_tls d) = Inr (tls, s3)"
    "(case rd_baselines d of None \<Rightarrow> Inr None | Some b \<Rightarrow> map_sum id Some (baseline_validate b)) = Inr base"
    "guard_rules (rd_guardrails d) = Inr guard" "response_rules [] (rd_responses d) = Inr resp"
    "exec_entries (rd_exec_allow d) = Inr execs" "threshold_rules s3 (rd_thresholds d) = Inr (thr, s4)"
    "c = \<lparr>cf_watch = watch, cf_ports = ports, cf_dns = dns, cf_tls = tls, cf_baselines = base, cf_vmm = Some vmm,
       cf_responses = resp, cf_guard = guard, cf_exec_allow = execs, cf_thresholds = thr,
       cf_suppress = (case rd_suppress d of Some s \<Rightarrow> s | None \<Rightarrow> 5 * minute)\<rparr>"
    using assms unfolding parse_doc_def if_not_P[OF g(1)] g(2) option.case err_bind_Inr split_paired_Ex prod.case
    by (elim exE conjE) (rule that; (assumption | rule refl | rule sum.inject(2)[THEN iffD1, THEN sym], assumption | simp only: sum.inject))
  have b: "\<exists>b0. baseline_validate b0 = Inr b" if "base = Some b" for b
  proof (cases "rd_baselines d")
    case (Some b1)
    then show ?thesis using e(5) that by (cases "baseline_validate b1") auto
  qed (use e(5) that in simp)
  show ?thesis
    by (rule that) (use e(1-4,6-9) g b in \<open>simp_all add: e(10) find_None_iff split: option.splits\<close>)
qed


lemma parse_doc_config_ok:
  assumes "parse_doc d = Inr c"
  shows "config_ok c"
  using assms
proof (cases rule: parse_doc_Inr)
  case p: (1 s1 s2 s3 s4)
  note ports = port_rules_ok[OF p(4) distinct.simps(1)[THEN iffD2, OF TrueI]]
  note dns = nameRules_ok[OF p(5) _ ports[THEN conjunct2, THEN conjunct2], simplified]
  note tls = nameRules_ok[OF p(6) _ dns[THEN conjunct2, THEN conjunct2], simplified]
  note thr = threshold_rules_ok[OF p(12) tls[THEN conjunct2, THEN conjunct2]]
  have r: "rule_names c = rev s4" using ports dns tls thr by (simp add: rule_names_def)
  have names: "distinct (rule_names c)" unfolding r distinct_rev using thr by blast
  have base: "case cf_baselines c of None \<Rightarrow> True | Some b \<Rightarrow> opts_ok (BaselineOptions b) \<and> set (bc_kinds b) \<subseteq> set Kinds"
    using p(8) baseline_validate_ok by (auto split: option.splits; blast)
  have ex: "'''' \<notin> set (cf_exec_allow c)"
    using p(11) unfolding exec_entries_def Let_def by (metis sum.distinct(1) sum.inject(2))
  show ?thesis unfolding config_ok_def
    using compile_dests_ok[OF p(3,1)] ports dns tls thr names base ex guard_rules_ok[OF p(9)]
      response_rules_ok[OF p(10)] p(2,7) by blast
qed


definition empty_doc :: rules_doc where
  "empty_doc = \<lparr>rd_suppress = None, rd_destinations = [], rd_ports = [], rd_dns = [], rd_tls = [], rd_baselines = None,
     rd_vmm = None, rd_responses = [], rd_guardrails = None, rd_exec_allow = [], rd_thresholds = []\<rparr>"

definition isolate_on :: "string \<Rightarrow> Response" where
  "isolate_on rule = \<lparr>rs_name = ''contain'', rs_rules = [rule], rs_min_severity = '''', rs_action = ''isolate'', rs_mode = ''enforce'',
     rs_dry_run = False, rs_release_after = 10 * minute, rs_cooldown = 0, rs_expire = 0\<rparr>"


section \<open>Names are matched by labels\<close>

abbreviation labels :: "string \<Rightarrow> string list" where
  "labels name \<equiv> SplitOn (CHR ''.'') name"

lemma SplitOn_app: "SplitOn sep (a @ sep # b) = SplitOn sep a @ SplitOn sep b"
proof (induction a)
  case (Cons c a)
  then show ?case by (cases "SplitOn sep a") auto
qed simp

lemma Join_app: "a \<noteq> [] \<Longrightarrow> b \<noteq> [] \<Longrightarrow> Join (a @ b) sep = Join a sep @ sep @ Join b sep"
proof (induction a rule: induct_list012)
  case (2 x)
  then show ?case by (cases b) simp_all
qed simp_all

lemma suffix_labels:
  "(name = s \<or> HasSuffix name (sep # s)) \<longleftrightarrow> suffix (SplitOn sep s) (SplitOn sep name)"
proof
  assume "name = s \<or> HasSuffix name (sep # s)"
  then show "suffix (SplitOn sep s) (SplitOn sep name)" by (auto simp: suffix_def SplitOn_app)
next
  assume "suffix (SplitOn sep s) (SplitOn sep name)"
  then obtain pre where pre: "SplitOn sep name = pre @ SplitOn sep s" by (auto simp: suffix_def)
  have "name = Join (pre @ SplitOn sep s) [sep]" using Join_SplitOn[of sep name] pre by simp
  then show "name = s \<or> HasSuffix name (sep # s)"
    by (cases "pre = []") (auto simp: Join_app suffix_def)
qed

text \<open>
  A suffix rule is a rule about labels: for a rule the file gave a suffix, a looked-up name (or a TLS
  server name) matches exactly when the labels of the rule's domain are the last labels of the name, whatever
  the case of either and whether or not the name ends in a dot. So \<open>example.com\<close> takes every name under
  it and never \<open>badexample.com\<close>.
\<close>

theorem suffix_rule_by_labels:
  assumes "name_rule kind r0 = Inr r" "norm_name (dn_suffix r0) \<noteq> ''''"
  shows "matchName [r] name =
    (if name \<noteq> '''' \<and> suffix (labels (norm_name (dn_suffix r0))) (labels (TrimSuffix (ToLower name) ''.'')) then Some r else None)"
proof -
  have r: "dn_suffix r = norm_name (dn_suffix r0)" "dn_exact r = ''''"
    using assms by (auto simp: name_rule_def Let_def split: if_splits)
  have "dns_matches r n \<longleftrightarrow> suffix (labels (norm_name (dn_suffix r0))) (labels n)" for n
    using suffix_labels[of n "dn_suffix r" "CHR ''.''"] assms(2) r by (simp add: dns_matches_def)
  then show ?thesis by (simp add: matchName_def Let_def)
qed

definition bad_domain :: DNSRule where
  "bad_domain = \<lparr>dn_name = '''', dn_suffix = '' Example.COM. '', dn_exact = '''', dn_contains = '''', dn_severity = ''''\<rparr>"

theorem suffix_rule_by_labels_witness:
  "\<exists>r. name_rule ''dns'' bad_domain = Inr r \<and> matchName [r] ''a.EXAMPLE.com.'' = Some r \<and> matchName [r] ''badexample.com'' = None"
proof -
  have "\<not> isl (name_rule ''dns'' bad_domain)" by code_simp
  then obtain r where r: "name_rule ''dns'' bad_domain = Inr r" by (metis sum.collapse(2))
  have n: "norm_name (dn_suffix bad_domain) \<noteq> ''''"
    "suffix (labels (norm_name (dn_suffix bad_domain))) (labels (TrimSuffix (ToLower ''a.EXAMPLE.com.'') ''.''))"
    "\<not> suffix (labels (norm_name (dn_suffix bad_domain))) (labels (TrimSuffix (ToLower ''badexample.com'') ''.''))" by code_simp+
  show ?thesis
    using suffix_rule_by_labels[OF r n(1), of "''a.EXAMPLE.com.''"] suffix_rule_by_labels[OF r n(1), of "''badexample.com''"] n(2,3) r
    by (intro exI[of _ r]) simp
qed

lemma MatchDest_mapped: "MatchDest w (Some (Unmap a)) = MatchDest w (Some a)"
proof -
  have "To4 (Unmap a) = To4 a" by (cases a) (auto simp: To4_def Unmap_def Is4In6_def)
  moreover have "To4 a = None \<Longrightarrow> Unmap a = a" by (cases a) (auto simp: To4_def Unmap_def)
  ultimately have "net_Contains n (Unmap a) = net_Contains n a" for n
    by (cases n; cases "To4 a") (auto simp: net_Contains_def split: option.splits)
  then show ?thesis by (simp add: MatchDest_def)
qed


section \<open>Nothing is silenced but a repeat\<close>

text \<open>A call of \<open>Allow\<close> and its answer.\<close>

record allow_call =
  al_key :: string
  al_now :: time
  al_window :: duration
  al_ok :: bool
  al_held :: u64

fun allow_all :: "(string \<times> time \<times> duration) list \<Rightarrow> Suppressor \<Rightarrow> Suppressor \<times> allow_call list" where
  "allow_all [] s = (s, [])"
| "allow_all ((k, now, w) # cs) s =
     (let (s1, ok, held) = Allow k now w s; (s2, out) = allow_all cs s1
      in (s2, \<lparr>al_key = k, al_now = now, al_window = w, al_ok = ok, al_held = held\<rparr> # out))"

definition supp_inv :: "Suppressor \<Rightarrow> bool" where
  "supp_inv s \<longleftrightarrow> distinct (map fst s) \<and> int (length s) \<le> maxSuppressKeys"

lemma distinct_drop_expired: "distinct (map fst s) \<Longrightarrow> distinct (map fst (drop_expired now s))"
  by (simp add: drop_expired_def distinct_map_filter)

lemma length_drop_expired: "length (drop_expired now s) \<le> length s"
  by (simp add: drop_expired_def)

lemma supp_inv_Allow: "supp_inv s \<Longrightarrow> supp_inv (fst (Allow k now w s))"
  using length_drop_expired[of now s] distinct_drop_expired[of s now] length_update[of s k]
    length_update[of "drop_expired now s" k]
  by (auto simp: supp_inv_def Allow_def Let_def distinct_update map_of_eq_None_iff image_iff split: option.splits)

text \<open>Every entry was made, and its end set, by a call that was let through.\<close>

definition backed :: "allow_call list \<Rightarrow> Suppressor \<Rightarrow> bool" where
  "backed past s \<longleftrightarrow> (\<forall>k e. map_of s k = Some e \<longrightarrow>
     (\<exists>c \<in> set past. al_ok c \<and> al_key c = k \<and> 0 < al_window c \<and> sp_until e = al_now c + al_window c))"

lemma map_of_drop_expired:
  "distinct (map fst s) \<Longrightarrow> map_of (drop_expired now s) k = Some e \<Longrightarrow> map_of s k = Some e"
  by (auto simp: drop_expired_def dest!: map_of_SomeD)

lemma backed_mono: "backed past s \<Longrightarrow> set past \<subseteq> set past' \<Longrightarrow> backed past' s"
  by (fastforce simp: backed_def)

lemma backed_update:
  "backed past s \<Longrightarrow> c \<in> set past \<Longrightarrow> al_ok c \<Longrightarrow> al_key c = k \<Longrightarrow> 0 < al_window c \<Longrightarrow> sp_until e = al_now c + al_window c \<Longrightarrow>
     backed past (AList.update k e s)"
  by (auto simp: backed_def)

lemma backed_Allow:
  assumes "backed past s" "supp_inv s" "Allow k now w s = (s', ok, held)"
  shows "backed (past @ [\<lparr>al_key = k, al_now = now, al_window = w, al_ok = ok, al_held = held\<rparr>]) s'"
proof -
  let ?c = "\<lparr>al_key = k, al_now = now, al_window = w, al_ok = ok, al_held = held\<rparr>"
  have b: "backed (past @ [?c]) s" by (rule backed_mono[OF assms(1)]) auto
  have d: "backed (past @ [?c]) (drop_expired now s)"
    using b map_of_drop_expired assms(2) unfolding backed_def supp_inv_def by blast
  have rep: "backed (past @ [?c]) (AList.update k (e\<lparr>sp_held := h\<rparr>) s)" if "map_of s k = Some e" for e h
    using b that by (auto simp: backed_def)
  show ?thesis using assms(3) b d rep backed_update[OF b, of ?c] backed_update[OF d, of ?c]
    by (auto simp: Allow_def Let_def split: if_splits option.splits)
qed

lemma Allow_silenced:
  assumes "Allow k now w s = (s', False, held)" "backed past s"
  shows "\<exists>c \<in> set past. al_ok c \<and> al_key c = k \<and> now < al_now c + al_window c"
proof -
  obtain e where "map_of s k = Some e" "now < sp_until e"
    using assms(1) by (auto simp: Allow_def Let_def split: if_splits option.splits)
  then show ?thesis using assms(2) unfolding backed_def by metis
qed

lemma allow_all_spec:
  assumes "supp_inv s" "backed past s" "allow_all cs s = (s', out)"
  shows "supp_inv s' \<and> (\<forall>i < length out. \<not> al_ok (out ! i) \<longrightarrow>
    (\<exists>c \<in> set (past @ take i out). al_ok c \<and> al_key c = al_key (out ! i) \<and> al_now (out ! i) < al_now c + al_window c))"
  using assms
proof (induction cs arbitrary: s past out)
  case (Cons x cs)
  obtain k now w where x: "x = (k, now, w)" by (cases x)
  obtain s1 ok held where a: "Allow k now w s = (s1, ok, held)" by (metis prod_cases3)
  obtain out' where o: "allow_all cs s1 = (s', out')"
    "out = \<lparr>al_key = k, al_now = now, al_window = w, al_ok = ok, al_held = held\<rparr> # out'"
    using Cons.prems(3) x a by (auto split: prod.splits)
  let ?c = "\<lparr>al_key = k, al_now = now, al_window = w, al_ok = ok, al_held = held\<rparr>"
  have inv: "supp_inv s1" using supp_inv_Allow[OF Cons.prems(1), of k now w] a by simp
  have ih: "supp_inv s' \<and> (\<forall>i < length out'. \<not> al_ok (out' ! i) \<longrightarrow>
    (\<exists>c \<in> set ((past @ [?c]) @ take i out'). al_ok c \<and> al_key c = al_key (out' ! i) \<and> al_now (out' ! i) < al_now c + al_window c))"
    by (rule Cons.IH[OF inv backed_Allow[OF Cons.prems(2,1) a] o(1)])
  have "\<exists>c \<in> set (past @ take i out). al_ok c \<and> al_key c = al_key (out ! i) \<and> al_now (out ! i) < al_now c + al_window c"
    if "i < length out" "\<not> al_ok (out ! i)" for i
  proof (cases i)
    case 0
    then show ?thesis using Allow_silenced[of k now w s s1 held past] a Cons.prems(2) that by (simp add: o(2))
  next
    case (Suc j)
    then show ?thesis using ih that by (simp add: o(2))
  qed
  then show ?case using ih by blast
qed (auto simp: supp_inv_def)

text \<open>
  C34. The suppressor silences only repeats, and its memory is bounded: over any sequence of calls, started with
  an empty table, the table never holds more than \<open>maxSuppressKeys\<close> keys, and a detection that was held back
  had the same key as an earlier one that was raised less than a window before.
\<close>

theorem suppressor_only_repeats:
  "int (length (fst (allow_all cs []))) \<le> maxSuppressKeys \<and>
   (\<forall>i. i < length (snd (allow_all cs [])) \<and> \<not> al_ok (snd (allow_all cs []) ! i) \<longrightarrow>
     (\<exists>j < i. al_ok (snd (allow_all cs []) ! j) \<and> al_key (snd (allow_all cs []) ! j) = al_key (snd (allow_all cs []) ! i) \<and>
        al_now (snd (allow_all cs []) ! i) < al_now (snd (allow_all cs []) ! j) + al_window (snd (allow_all cs []) ! j)))"
proof -
  obtain s' out where o: "allow_all cs [] = (s', out)" by fastforce
  have "supp_inv []" "backed [] []" by (simp_all add: supp_inv_def backed_def maxSuppressKeys_def)
  from allow_all_spec[OF this o] have sp: "supp_inv s'" "\<forall>i < length out. \<not> al_ok (out ! i) \<longrightarrow>
    (\<exists>c \<in> set (take i out). al_ok c \<and> al_key c = al_key (out ! i) \<and> al_now (out ! i) < al_now c + al_window c)" by simp_all
  have "\<exists>j < i. al_ok (out ! j) \<and> al_key (out ! j) = al_key (out ! i) \<and> al_now (out ! i) < al_now (out ! j) + al_window (out ! j)"
    if i: "i < length out" "\<not> al_ok (out ! i)" for i
  proof -
    obtain c where c: "c \<in> set (take i out)" "al_ok c \<and> al_key c = al_key (out ! i) \<and> al_now (out ! i) < al_now c + al_window c"
      using sp(2) i by blast
    then obtain j where "j < i" "out ! j = c" using i(1) by (auto simp: in_set_conv_nth)
    then show ?thesis using c(2) by blast
  qed
  then show ?thesis using sp(1) by (simp add: o supp_inv_def)
qed

theorem suppressor_only_repeats_witness:
  "let out = snd (allow_all [(''k'', 0, minute), (''k'', 5, minute), (''k'', 2 * minute, minute)] [])
   in map al_ok out = [True, False, True] \<and> map al_held out = [0, 0, 1] \<and> al_ok (out ! 0) \<and> al_now (out ! 1) < al_now (out ! 0) + minute"
proof -
  let ?cs = "[(''k'', 0, minute), (''k'', 5, minute), (''k'', 2 * minute, minute)]"
  have m: "map al_ok (snd (allow_all ?cs [])) = [True, False, True]" "map al_held (snd (allow_all ?cs [])) = [0, 0, 1]" by code_simp+
  have n: "1 < length (snd (allow_all ?cs []))" "\<not> al_ok (snd (allow_all ?cs []) ! 1)" "al_window (snd (allow_all ?cs []) ! 0) = minute" by code_simp+
  from suppressor_only_repeats[of ?cs, THEN conjunct2, THEN spec[of _ 1]] n
  show ?thesis using m by (auto simp: Let_def)
qed

end
