(* ===== verification/Response.thy ===== *)
theory Response
  imports State Rules GoTime "HOL-Library.Monad_Syntax"
begin

text \<open>
  The response engine, \<open>internal/response/response.go\<close>, with the record it keeps (\<open>internal/state/actions.go\<close>)
  and its files (\<open>internal/persist/actions.go\<close>). The engine holds pointers to actions, and an approval keeps
  its pointer while the lock is free, so the actions live in an explicit store: \<open>re_heap\<close> holds every action
  that was made, at its address, and \<open>re_actions\<close> the addresses that are listed. Each operation is a
  function of the engine, the shared state and the datapath behind the enforcer; \<open>None\<close> is a panic of the event
  list. The clock is an argument: \<open>now\<close> is the reading at the start of a call and \<open>later\<close> the one after the
  isolation. The bytes of an incident bundle are an argument too.
\<close>

section \<open>Actions\<close>

record Action =
  ac_id :: string
  ac_vm :: string
  ac_response :: string
  ac_mode :: string
  ac_dry_run :: bool
  ac_rule :: string
  ac_severity :: string
  ac_message :: string
  ac_created :: time
  ac_expires :: time
  ac_status :: string
  ac_decided :: time
  ac_decided_by :: string
  ac_result :: string
  ac_guardrail :: string
  ac_release_at :: time
  ac_released :: time
  ac_key_id :: string
  ac_role :: string
  ac_label :: string
  ac_remote :: string
  ac_request_id :: string
  ac_op :: string

definition zero_action :: Action where
  "zero_action = \<lparr>ac_id = '''', ac_vm = '''', ac_response = '''', ac_mode = '''', ac_dry_run = False, ac_rule = '''', ac_severity = '''',
     ac_message = '''', ac_created = 0, ac_expires = 0, ac_status = '''', ac_decided = 0, ac_decided_by = '''', ac_result = '''',
     ac_guardrail = '''', ac_release_at = 0, ac_released = 0, ac_key_id = '''', ac_role = '''', ac_label = '''', ac_remote = '''',
     ac_request_id = '''', ac_op = ''''\<rparr>"

definition StampAction :: "Action \<Rightarrow> caller \<Rightarrow> Action" where
  "StampAction a c = a\<lparr>ac_decided_by := Principal c, ac_key_id := c_key_id c, ac_role := c_role c, ac_label := c_label c,
     ac_remote := c_remote c, ac_request_id := c_request_id c, ac_op := (if c_op c \<noteq> '''' then c_op c else ac_op a)\<rparr>"

definition Statuses :: "string list" where
  "Statuses = [''pending'', ''executed'', ''executed_audit_degraded'', ''released'', ''refused'', ''rejected'', ''expired'', ''dry_run'']"

definition enforcedStatus :: "string \<Rightarrow> bool" where
  "enforcedStatus s \<longleftrightarrow> s = ''executed'' \<or> s = ''executed_audit_degraded''"

section \<open>The files\<close>

text \<open>
  What the disk does with a write, taken from a list of outcomes to come (none left: it succeeds). A write that
  is lost leaves nothing; one that could not be flushed is reported as failed and is in the file all the same.
\<close>

datatype disk_outcome = Stored | Lost | Unflushed

record action_store =
  as_log :: "Action list"
  as_bundles :: "(string, string) gomap"
  as_disk :: "disk_outcome list"

definition disk_next :: "action_store \<Rightarrow> disk_outcome \<times> action_store" where
  "disk_next st = (case as_disk st of [] \<Rightarrow> (Stored, st) | x # xs \<Rightarrow> (x, st\<lparr>as_disk := xs\<rparr>))"

definition store_Append :: "Action \<Rightarrow> action_store \<Rightarrow> action_store \<times> bool" where
  "store_Append a st0 =
     (let (x, st) = disk_next st0
      in if x = Lost then (st, False)
         else (st\<lparr>as_log := as_log st @ [a]\<rparr>,
               x = Stored \<or> ac_status a \<notin> {''executed'', ''executed_audit_degraded'', ''released''}))"

definition validID :: "string \<Rightarrow> bool" where
  "validID i \<longleftrightarrow> HasPrefix i ''a-'' \<and> list_all is_digit (drop 2 i) \<and> 1 \<le> length (drop 2 i) \<and> length (drop 2 i) \<le> 9"

definition maxIncidents :: int where
  "maxIncidents = 200"

definition prune_bundles :: "(string, string) gomap \<Rightarrow> (string, string) gomap" where
  "prune_bundles bs =
     (if int (length bs) \<le> maxIncidents then bs
      else drop (length bs - nat maxIncidents) (sort_key (\<lambda>(i, b). digits_val (drop 2 i)) bs))"

definition SaveBundle :: "string \<Rightarrow> string \<Rightarrow> action_store \<Rightarrow> action_store \<times> bool" where
  "SaveBundle i b st0 =
     (if \<not> validID i then (st0, False)
      else
        (let (x, st) = disk_next st0
         in case x of
              Lost \<Rightarrow> (st, False)
            | Unflushed \<Rightarrow> (st\<lparr>as_bundles := AList.update i b (as_bundles st)\<rparr>, False)
            | Stored \<Rightarrow> (st\<lparr>as_bundles := prune_bundles (AList.update i b (as_bundles st))\<rparr>, True)))"

definition LoadBundle :: "string \<Rightarrow> action_store \<Rightarrow> string option" where
  "LoadBundle i st = (if \<not> validID i then None else map_of (as_bundles st) i)"

text \<open>\<open>OpenActions\<close>: what the log holds, of which the newest 2000 lines are read.\<close>

definition OpenActions :: "action_store \<Rightarrow> Action list" where
  "OpenActions st = keep_newest 2000 (as_log st)"

section \<open>The engine\<close>

record resp_engine =
  re_store :: "action_store option"
  re_cfg :: "Response list"
  re_guard :: Guardrails
  re_heap :: "Action list"
  re_actions :: "nat list"
  re_next :: int
  re_last :: "(string, time) gomap"
  re_hourly :: "time list"
  re_bundles :: "(string, string) gomap"
  re_unsaved :: "string list"
  re_order :: "string list"
  re_queue :: "event list"
  re_dropped :: u64

definition maxActions :: nat where "maxActions = 500"
definition maxBundles :: nat where "maxBundles = 50"
definition queueSize :: nat where "queueSize = 256"

definition response_New :: "action_store option \<Rightarrow> resp_engine" where
  "response_New st = \<lparr>re_store = st, re_cfg = [], re_guard = \<lparr>gd_never_isolate = [], gd_max_per_hour = 0\<rparr>, re_heap = [], re_actions = [],
     re_next = 0, re_last = [], re_hourly = [], re_bundles = [], re_unsaved = [], re_order = [], re_queue = [], re_dropped = 0\<rparr>"

definition SetConfig :: "Config \<Rightarrow> resp_engine \<Rightarrow> resp_engine" where
  "SetConfig c e = e\<lparr>re_cfg := cf_responses c, re_guard := cf_guard c\<rparr>"

definition Enabled :: "resp_engine \<Rightarrow> bool" where
  "Enabled e \<longleftrightarrow> re_cfg e \<noteq> []"

definition OnDetection :: "event \<Rightarrow> resp_engine \<Rightarrow> resp_engine" where
  "OnDetection d e =
     (if length (re_queue e) < queueSize then e\<lparr>re_queue := re_queue e @ [d]\<rparr> else e\<lparr>re_dropped := re_dropped e + 1\<rparr>)"

abbreviation deref :: "resp_engine \<Rightarrow> nat \<Rightarrow> Action" where
  "deref e p \<equiv> re_heap e ! p"

definition set_at :: "nat \<Rightarrow> Action \<Rightarrow> resp_engine \<Rightarrow> resp_engine" where
  "set_at p a e = e\<lparr>re_heap := (re_heap e)[p := a]\<rparr>"

definition find_action :: "resp_engine \<Rightarrow> string \<Rightarrow> nat option" where
  "find_action e i = find (\<lambda>p. ac_id (deref e p) = i) (re_actions e)"

text \<open>What a call sees of the daemon: the engine, the shared state, and the datapath.\<close>

record 'k resp =
  rw_eng :: resp_engine
  rw_st :: State
  rw_k :: 'k

record 'k resp_deps =
  rq_enf :: "'k Enforcer_if option"
  rq_incident :: "State \<Rightarrow> string \<Rightarrow> string option"

abbreviation on_eng :: "(resp_engine \<Rightarrow> resp_engine) \<Rightarrow> 'k resp \<Rightarrow> 'k resp" where
  "on_eng f w \<equiv> w\<lparr>rw_eng := f (rw_eng w)\<rparr>"

abbreviation act_at :: "'k resp \<Rightarrow> nat \<Rightarrow> Action" where
  "act_at w p \<equiv> deref (rw_eng w) p"

definition upd_at :: "nat \<Rightarrow> (Action \<Rightarrow> Action) \<Rightarrow> 'k resp \<Rightarrow> 'k resp" where
  "upd_at p f w = on_eng (set_at p (f (act_at w p))) w"

section \<open>Recording and announcing\<close>

definition append_action :: "Action \<Rightarrow> 'k resp \<Rightarrow> 'k resp \<times> bool" where
  "append_action a w = (case re_store (rw_eng w) of
      None \<Rightarrow> (w, True)
    | Some st \<Rightarrow> (let (st', ok) = store_Append a st in (on_eng (\<lambda>e. e\<lparr>re_store := Some st'\<rparr>) w, ok)))"

definition note_failure :: "string \<Rightarrow> 'k resp \<Rightarrow> 'k resp" where
  "note_failure i w = w\<lparr>rw_st := NoteAuditFailure i (rw_st w)\<rparr>"

definition failAudit :: "Action \<Rightarrow> 'k resp \<Rightarrow> Action \<times> 'k resp" where
  "failAudit a w =
     (let w = note_failure (ac_id a) w
      in if ac_status a \<noteq> ''executed'' then (a, w)
         else
           (let a' = a\<lparr>ac_status := ''executed_audit_degraded''\<rparr>; (w', ok) = append_action a' w
            in (a', if ok then w' else note_failure (ac_id a) w')))"

text \<open>\<open>record\<close>, on a copy, and on the action at an address, which it may change.\<close>

definition record_action :: "Action \<Rightarrow> 'k resp \<Rightarrow> Action \<times> 'k resp" where
  "record_action a w = (let (w', ok) = append_action a w in if ok then (a, w') else failAudit a w')"

definition record_at :: "nat \<Rightarrow> 'k resp \<Rightarrow> 'k resp" where
  "record_at p w = (let (a, w') = record_action (act_at w p) w in on_eng (set_at p a) w')"

text \<open>An announcement is a detection, so the state hands it to the engine's own queue as well.\<close>

definition announce :: "string \<Rightarrow> string \<Rightarrow> Action \<Rightarrow> string \<Rightarrow> time \<Rightarrow> 'k resp \<Rightarrow> 'k resp option" where
  "announce kind severity a msg now w =
     (case AddEvent (zero_event\<lparr>ev_kind := KindDetection, ev_ts := now, ev_rule := ''action-'' @ kind, ev_severity := severity,
              ev_vm := no_vm\<lparr>vm_name := ac_vm a\<rparr>, ev_message := msg\<rparr>) (rw_st w) of
        None \<Rightarrow> None
      | Some (s, d) \<Rightarrow>
          Some (on_eng (case d of None \<Rightarrow> id | Some d \<Rightarrow> OnDetection d) (w\<lparr>rw_st := s\<rparr>)))"

definition protected_vm :: "resp_engine \<Rightarrow> string \<Rightarrow> bool" where
  "protected_vm e vm \<longleftrightarrow> vm \<in> set (gd_never_isolate (re_guard e))"

definition isolated_vm :: "State \<Rightarrow> string \<Rightarrow> bool" where
  "isolated_vm s vm \<longleftrightarrow> vm \<in> set (ActiveIsolations s)"

definition autoLastHour :: "time \<Rightarrow> resp_engine \<Rightarrow> resp_engine \<times> int" where
  "autoLastHour now e = (let keep = filter (\<lambda>t. time_sub now t < hour) (re_hourly e) in (e\<lparr>re_hourly := keep\<rparr>, int (length keep)))"

definition keep_bundles :: "string list \<Rightarrow> (string, string) gomap \<Rightarrow> string list \<times> (string, string) gomap" where
  "keep_bundles order bs =
     (let n = length order - maxBundles in (drop n order, fold AList.delete (take n order) bs))"

definition captureBundle :: "'k resp_deps \<Rightarrow> string \<Rightarrow> string \<Rightarrow> 'k resp \<Rightarrow> 'k resp" where
  "captureBundle dp i vm w = (case rq_incident dp (rw_st w) vm of
      None \<Rightarrow> w
    | Some b \<Rightarrow>
       (let e = rw_eng w;
            (order, bs) = keep_bundles (re_order e @ [i]) (AList.update i b (re_bundles e));
            w = w\<lparr>rw_eng := e\<lparr>re_bundles := bs, re_order := order\<rparr>\<rparr>
        in case re_store e of
             None \<Rightarrow> w
           | Some st \<Rightarrow>
              (let (st', ok) = SaveBundle i b st; w = on_eng (\<lambda>e. e\<lparr>re_store := Some st'\<rparr>) w
               in if ok then w
                  else on_eng (\<lambda>e. e\<lparr>re_unsaved := List.insert i (re_unsaved e)\<rparr>) (note_failure i w))))"

definition Bundle :: "string \<Rightarrow> resp_engine \<Rightarrow> string option" where
  "Bundle i e = (case map_of (re_bundles e) i of
      Some b \<Rightarrow> Some b
    | None \<Rightarrow> (case re_store e of None \<Rightarrow> None | Some st \<Rightarrow> LoadBundle i st))"


section \<open>Restoring\<close>

text \<open>Of several records of one id the last is the truth; the order is that of the first.\<close>

definition latest_step :: "Action \<Rightarrow> (string, Action) gomap \<Rightarrow> (string, Action) gomap" where
  "latest_step a m = AList.update (ac_id a) a m"

definition latest :: "Action list \<Rightarrow> Action list" where
  "latest xs = map snd (fold latest_step xs [])"

definition restore_next :: "Action \<Rightarrow> int \<Rightarrow> int" where
  "restore_next a n = (case Atoi (TrimPrefix (ac_id a) ''a-'') of Some k \<Rightarrow> if k > n then k else n | None \<Rightarrow> n)"

definition counts_hourly :: "time \<Rightarrow> Action \<Rightarrow> bool" where
  "counts_hourly now a \<longleftrightarrow> enforcedStatus (ac_status a) \<and> ac_mode a = ''enforce'' \<and> \<not> ac_dry_run a \<and> time_sub now (ac_decided a) < hour"

abbreviation vm_response :: "string \<Rightarrow> string \<Rightarrow> string" where
  "vm_response vm r \<equiv> vm @ ''|'' @ r"

definition restore_last :: "Action \<Rightarrow> (string, time) gomap \<Rightarrow> (string, time) gomap" where
  "restore_last a m = (if ac_status a \<noteq> '''' then AList.update (vm_response (ac_vm a) (ac_response a)) (ac_created a) m else m)"

definition response_Restore :: "time \<Rightarrow> Action list \<Rightarrow> resp_engine \<Rightarrow> resp_engine" where
  "response_Restore now xs e =
     (let as = latest xs
      in e\<lparr>re_heap := re_heap e @ as,
           re_actions := keep_newest maxActions [length (re_heap e)..<length (re_heap e) + length as],
           re_next := fold restore_next as (re_next e),
           re_hourly := re_hourly e @ map ac_decided (filter (counts_hourly now) as),
           re_last := fold restore_last as (re_last e)\<rparr>)"

section \<open>Carrying an isolation out\<close>

text \<open>The fields \<open>execute\<close> sets from what the state answered.\<close>

definition executed_action :: "Isolation \<Rightarrow> Response \<Rightarrow> string \<Rightarrow> time \<Rightarrow> bool \<Rightarrow> Action \<Rightarrow> Action" where
  "executed_action isn r actor now unsaved a =
     (let a = a\<lparr>ac_decided := now, ac_decided_by := (if ac_decided_by a = '''' then actor else ac_decided_by a)\<rparr>
      in if \<not> is_applied isn then a\<lparr>ac_status := ''refused'', ac_guardrail := ''isolate_refused'', ac_result := is_reason isn\<rparr>
         else a\<lparr>ac_status := (if unsaved then ''executed_audit_degraded'' else ''executed''), ac_result := ''isolated: '' @ is_reason isn,
                ac_release_at := (if rs_release_after r > 0 then now + rs_release_after r else ac_release_at a)\<rparr>)"

definition executed_text :: "Action \<Rightarrow> string" where
  "executed_text a = ac_id a @ '': response '' @ go_quote (ac_response a) @ '' isolated '' @ ac_vm a @ '' for '' @ ac_rule a @ '' ('' @ ac_decided_by a @ '')''
     @ (if is_zero (ac_release_at a) then '''' else ''; it releases itself at '' @ FormatRFC3339 (ac_release_at a))"

text \<open>\<open>execute\<close>, in the order of the code: the state is asked, the action is marked and recorded, and the outcome is
  announced. With the new world it gives the record of what the state did.\<close>

definition execute_mark :: "nat \<Rightarrow> Response \<Rightarrow> string \<Rightarrow> bool \<Rightarrow> time \<Rightarrow> Isolation \<Rightarrow> 'k resp \<Rightarrow> 'k resp" where
  "execute_mark p r actor auto now isn w =
     (let w = upd_at p (\<lambda>a. executed_action isn r actor now (ac_id a \<in> set (re_unsaved (rw_eng w))) a) w
      in if is_applied isn \<and> auto then on_eng (\<lambda>e. e\<lparr>re_hourly := re_hourly e @ [now]\<rparr>) w else w)"

definition execute_announce :: "nat \<Rightarrow> time \<Rightarrow> 'k resp \<Rightarrow> 'k resp option" where
  "execute_announce p now w =
     (let a = act_at w p
      in if enforcedStatus (ac_status a) then announce ''executed'' ''high'' a (executed_text a) now w
         else announce ''refused'' ''low'' a (ac_id a @ '': isolating '' @ ac_vm a @ '' was refused: '' @ ac_result a) now w)"

definition execute_after :: "nat \<Rightarrow> Response \<Rightarrow> string \<Rightarrow> bool \<Rightarrow> time \<Rightarrow> 'k resp \<Rightarrow> (State \<times> 'k) \<times> Isolation \<Rightarrow> ('k resp \<times> Isolation) option" where
  "execute_after p r actor auto now w x =
     map_option (\<lambda>w. (w, snd x))
       (execute_announce p now (record_at p (execute_mark p r actor auto now (snd x) (w\<lparr>rw_st := fst (fst x), rw_k := snd (fst x)\<rparr>))))"

definition execute :: "'k resp_deps \<Rightarrow> nat \<Rightarrow> Response \<Rightarrow> string \<Rightarrow> bool \<Rightarrow> time \<Rightarrow> 'k resp \<Rightarrow> ('k resp \<times> Isolation) option" where
  "execute dp p r actor auto now w =
     execute_after p r actor auto now w (Isolate (rq_enf dp) (ac_vm (act_at w p)) actor now (rw_st w, rw_k w))"

section \<open>Answering a detection\<close>

definition new_action :: "event \<Rightarrow> Response \<Rightarrow> time \<Rightarrow> int \<Rightarrow> Action" where
  "new_action d r now n = zero_action\<lparr>ac_id := ''a-'' @ Itoa n, ac_vm := vm_name (ev_vm d), ac_response := rs_name r, ac_mode := rs_mode r,
     ac_dry_run := rs_dry_run r, ac_rule := ev_rule d, ac_severity := ev_severity d, ac_message := ev_message d, ac_created := now\<rparr>"

definition add_action :: "Action \<Rightarrow> resp_engine \<Rightarrow> resp_engine" where
  "add_action a e = e\<lparr>re_heap := re_heap e @ [a], re_actions := keep_newest maxActions (re_actions e @ [length (re_heap e)])\<rparr>"

definition make_action :: "'k resp_deps \<Rightarrow> event \<Rightarrow> Response \<Rightarrow> time \<Rightarrow> 'k resp \<Rightarrow> 'k resp \<times> nat" where
  "make_action dp d r now w =
     (let e = rw_eng w; p = length (re_heap e); a = new_action d r now (re_next e + 1);
          e = e\<lparr>re_next := re_next e + 1, re_last := AList.update (vm_response (ac_vm a) (rs_name r)) now (re_last e)\<rparr>
      in (captureBundle dp (ac_id a) (ac_vm a) (w\<lparr>rw_eng := add_action a e\<rparr>), p))"

text \<open>What \<open>Handle\<close> leaves alone: a VM that waits for a decision, was acted on lately, or is isolated.\<close>

definition left_alone :: "Response \<Rightarrow> string \<Rightarrow> time \<Rightarrow> 'k resp \<Rightarrow> bool" where
  "left_alone r vm now w \<longleftrightarrow>
     list_ex (\<lambda>p. ac_vm (act_at w p) = vm \<and> ac_status (act_at w p) = ''pending'') (re_actions (rw_eng w)) \<or>
     (case map_of (re_last (rw_eng w)) (vm_response vm (rs_name r)) of None \<Rightarrow> False | Some t \<Rightarrow> time_sub now t < rs_cooldown r) \<or>
     isolated_vm (rw_st w) vm"

definition settle :: "nat \<Rightarrow> (Action \<Rightarrow> Action) \<Rightarrow> string \<Rightarrow> string \<Rightarrow> (Action \<Rightarrow> string) \<Rightarrow> time \<Rightarrow> 'k resp \<Rightarrow> 'k resp option" where
  "settle p f kind severity msg now w =
     (let w = record_at p (upd_at p f w) in announce kind severity (act_at w p) (msg (act_at w p)) now w)"

definition refuse_action :: "nat \<Rightarrow> string \<Rightarrow> string \<Rightarrow> string \<Rightarrow> time \<Rightarrow> 'k resp \<Rightarrow> 'k resp option" where
  "refuse_action p guardrail why rule now =
     settle p (\<lambda>a. a\<lparr>ac_status := ''refused'', ac_guardrail := guardrail, ac_result := why, ac_decided := now\<rparr>) ''refused'' ''low''
       (\<lambda>a. ac_id a @ '': response '' @ go_quote (ac_response a) @ '' would have isolated '' @ ac_vm a @ '' for '' @ rule @ '', and did not: '' @ why) now"

definition dry_run_action :: "nat \<Rightarrow> string \<Rightarrow> time \<Rightarrow> 'k resp \<Rightarrow> 'k resp option" where
  "dry_run_action p rule now =
     settle p (\<lambda>a. a\<lparr>ac_status := ''dry_run'', ac_decided := now, ac_result := ''dry run: nothing was changed''\<rparr>) ''dry-run'' ''low''
       (\<lambda>a. ac_id a @ '': response '' @ go_quote (ac_response a) @ '' would have isolated '' @ ac_vm a @ '' for '' @ rule @ '' (dry run: nothing changed)'') now"

definition propose_action :: "nat \<Rightarrow> Response \<Rightarrow> string \<Rightarrow> time \<Rightarrow> 'k resp \<Rightarrow> 'k resp option" where
  "propose_action p r rule now =
     settle p (\<lambda>a. a\<lparr>ac_status := ''pending'', ac_expires := now + rs_expire r\<rparr>) ''proposed'' ''medium''
       (\<lambda>a. ac_id a @ '': response '' @ go_quote (ac_response a) @ '' proposes isolating '' @ ac_vm a @ '' for '' @ rule
          @ '': approve or reject it (shukractl approve '' @ ac_id a @ '') within '' @ duration_String (rs_expire r)) now"

text \<open>The hourly cap, the decision about a new action, and \<open>Handle\<close>. Beside the world they give the isolation that
  was asked for.\<close>

definition enforce_auto :: "'k resp_deps \<Rightarrow> event \<Rightarrow> Response \<Rightarrow> nat \<Rightarrow> time \<Rightarrow> time \<Rightarrow> int \<Rightarrow> 'k resp \<Rightarrow> ('k resp \<times> Isolation option) option" where
  "enforce_auto dp d r p now later n w =
     (if n \<ge> gd_max_per_hour (re_guard (rw_eng w)) then
        map_option (\<lambda>w. (w, None)) (refuse_action p ''max_per_hour''
          (Itoa (gd_max_per_hour (re_guard (rw_eng w))) @ '' automatic isolations were already carried out in the last hour'') (ev_rule d) now w)
      else map_option (\<lambda>(w, isn). (w, Some isn))
        (execute dp p r (''auto:'' @ rs_name r @ '':'' @ ac_id (act_at w p)) True later w))"

definition decide :: "'k resp_deps \<Rightarrow> event \<Rightarrow> Response \<Rightarrow> time \<Rightarrow> time \<Rightarrow> 'k resp \<times> nat \<Rightarrow> ('k resp \<times> Isolation option) option" where
  "decide dp d r now later wp =
     (let w = fst wp; p = snd wp; vm = vm_name (ev_vm d); quiet = map_option (\<lambda>w. (w, None)); why = Enforcement (rq_enf dp) (rw_k w)
      in if protected_vm (rw_eng w) vm then
           quiet (refuse_action p ''never_isolate'' (vm @ '' is protected: no response may isolate it'') (ev_rule d) now w)
         else if rs_dry_run r then quiet (dry_run_action p (ev_rule d) now w)
         else if fst why \<noteq> ''tcx'' then
           quiet (refuse_action p ''isolate_unavailable'' (''isolate is not enabled: '' @ snd (snd why)) (ev_rule d) now w)
         else if rs_mode r = ''enforce'' then
           enforce_auto dp d r p now later (snd (autoLastHour now (rw_eng w))) (w\<lparr>rw_eng := fst (autoLastHour now (rw_eng w))\<rparr>)
         else quiet (propose_action p r (ev_rule d) now w))"

definition Handle :: "'k resp_deps \<Rightarrow> event \<Rightarrow> time \<Rightarrow> time \<Rightarrow> 'k resp \<Rightarrow> ('k resp \<times> Isolation option) option" where
  "Handle dp d now later w =
     (if vm_name (ev_vm d) = '''' \<or> HasPrefix (ev_rule d) ''action-'' then Some (w, None)
      else case find (\<lambda>r. Answers r (ev_rule d) (ev_severity d)) (re_cfg (rw_eng w)) of
        None \<Rightarrow> Some (w, None)
      | Some r \<Rightarrow>
         (if left_alone r (vm_name (ev_vm d)) now w then Some (w, None)
          else decide dp d r now later (make_action dp d r now w)))"

section \<open>A person's decision\<close>

datatype action_err = ErrActionNotFound | ErrActionNotPending | ProposalExpired time | ActionRefused string

definition responseNamed :: "resp_engine \<Rightarrow> string \<Rightarrow> Response option" where
  "responseNamed e name = find (\<lambda>r. rs_name r = name) (re_cfg e)"

definition bare_response :: "string \<Rightarrow> Response" where
  "bare_response name = \<lparr>rs_name = name, rs_rules = [], rs_min_severity = '''', rs_action = '''', rs_mode = '''', rs_dry_run = False,
     rs_release_after = 0, rs_cooldown = 0, rs_expire = 0\<rparr>"

abbreviation lapsed :: string where
  "lapsed \<equiv> ''the proposal lapsed before anyone decided''"

definition expire_action :: "time \<Rightarrow> Action \<Rightarrow> Action" where
  "expire_action now a = a\<lparr>ac_status := ''expired'', ac_decided := now, ac_result := lapsed\<rparr>"

text \<open>
  \<open>Approve\<close> works in two sections with the lock free between them: the checks, which give an answer or an
  approval to carry out (the pointer, the response, and whether the VM is protected), and the rest.
\<close>

datatype approval = Answer Action action_err | Carry nat Response bool

definition approve_check :: "string \<Rightarrow> string \<Rightarrow> time \<Rightarrow> 'k resp \<Rightarrow> 'k resp \<times> approval" where
  "approve_check i actor now w = (case find_action (rw_eng w) i of
      None \<Rightarrow> (w, Answer zero_action ErrActionNotFound)
    | Some p \<Rightarrow>
       (let a = act_at w p
        in if ac_status a \<noteq> ''pending'' then (w, Answer a ErrActionNotPending)
           else if ac_expires a < now then
             (let w = upd_at p (expire_action now) w; out = act_at w p
              in (snd (record_action out w), Answer out (ProposalExpired (ac_expires out))))
           else
             (let r = (case responseNamed (rw_eng w) (ac_response a) of Some r \<Rightarrow> r | None \<Rightarrow> bare_response (ac_response a))
              in (upd_at p (\<lambda>a. StampAction a (ParseActor actor)) w, Carry p r (protected_vm (rw_eng w) (ac_vm a))))))"

definition approve_who :: "Action \<Rightarrow> string \<Rightarrow> string" where
  "approve_who a actor =
     (if c_key_id (ParseActor actor) \<noteq> '''' then
        actor @ '' cause='' @ (if ac_response a \<noteq> '''' \<and> \<not> ContainsAny (ac_response a) ('' ='' @ [CHR 0x09]) then ac_response a @ '':'' @ ac_id a else ac_id a)
      else ''approved by '' @ actor @ '' ('' @ ac_response a @ '', '' @ ac_id a @ '')'')"

definition approve_refused :: "nat \<Rightarrow> (Action \<Rightarrow> Action) \<Rightarrow> 'k resp \<Rightarrow> 'k resp \<times> Action \<times> action_err option" where
  "approve_refused p f w =
     (let w = upd_at p f w; out = act_at w p in (snd (record_action out w), out, Some (ActionRefused (ac_result out))))"

definition approve_carry :: "'k resp_deps \<Rightarrow> nat \<Rightarrow> Response \<Rightarrow> bool \<Rightarrow> string \<Rightarrow> time \<Rightarrow> time \<Rightarrow> 'k resp \<Rightarrow> ('k resp \<times> Action \<times> action_err option) option" where
  "approve_carry dp p r prot actor now later w =
     (let vm = ac_vm (act_at w p)
      in if prot then
           Some (approve_refused p (\<lambda>a. a\<lparr>ac_status := ''refused'', ac_guardrail := ''never_isolate'',
             ac_result := vm @ '' is protected: no response may isolate it'', ac_decided := now\<rparr>) w)
         else if isolated_vm (rw_st w) vm then
           Some (approve_refused p (\<lambda>a. a\<lparr>ac_status := ''refused'', ac_result := vm @ '' is already isolated'', ac_decided := now\<rparr>) w)
         else do {
           (w, isn) \<leftarrow> execute dp p r (approve_who (act_at w p) actor) False later w;
           Some (w, act_at w p, if enforcedStatus (ac_status (act_at w p)) then None else Some (ActionRefused (ac_result (act_at w p))))
         })"

definition approve_rest :: "'k resp_deps \<Rightarrow> string \<Rightarrow> time \<Rightarrow> time \<Rightarrow> 'k resp \<times> approval \<Rightarrow> ('k resp \<times> Action \<times> action_err option) option" where
  "approve_rest dp actor now later x = (case snd x of
      Answer a err \<Rightarrow> Some (fst x, a, Some err)
    | Carry p r prot \<Rightarrow> approve_carry dp p r prot actor now later (fst x))"

definition Approve :: "'k resp_deps \<Rightarrow> string \<Rightarrow> string \<Rightarrow> time \<Rightarrow> time \<Rightarrow> 'k resp \<Rightarrow> ('k resp \<times> Action \<times> action_err option) option" where
  "Approve dp i actor now later w = approve_rest dp actor now later (approve_check i actor now w)"

definition rejected_action :: "string \<Rightarrow> time \<Rightarrow> Action \<Rightarrow> Action" where
  "rejected_action actor now a =
     (let a = StampAction (a\<lparr>ac_status := ''rejected'', ac_decided := now\<rparr>) (ParseActor actor)
      in a\<lparr>ac_result := ''rejected by '' @ ac_decided_by a\<rparr>)"

definition Reject :: "string \<Rightarrow> string \<Rightarrow> time \<Rightarrow> 'k resp \<Rightarrow> ('k resp \<times> Action \<times> action_err option) option" where
  "Reject i actor now w = (case find_action (rw_eng w) i of
      None \<Rightarrow> Some (w, zero_action, Some ErrActionNotFound)
    | Some p \<Rightarrow>
       (if ac_status (act_at w p) \<noteq> ''pending'' then Some (w, act_at w p, Some ErrActionNotPending)
        else
          (let w = upd_at p (rejected_action actor now) w; out = act_at w p; w = snd (record_action out w)
           in map_option (\<lambda>w. (w, out, None))
                (announce ''rejected'' ''low'' out (ac_id out @ '': '' @ ac_decided_by out @ '' rejected isolating '' @ ac_vm out) now w))))"

section \<open>Time passes\<close>

definition lapses :: "time \<Rightarrow> Action \<Rightarrow> bool" where
  "lapses now a \<longleftrightarrow> ac_status a = ''pending'' \<and> ac_expires a < now"

definition release_due :: "time \<Rightarrow> Action \<Rightarrow> bool" where
  "release_due now a \<longleftrightarrow> enforcedStatus (ac_status a) \<and> \<not> is_zero (ac_release_at a) \<and> ac_release_at a \<le> now"

definition announce_expired :: "time \<Rightarrow> nat \<Rightarrow> 'k resp \<Rightarrow> 'k resp option" where
  "announce_expired now p w =
     (let a = act_at w p in announce ''expired'' ''low'' a (ac_id a @ '': the proposal to isolate '' @ ac_vm a @ '' lapsed without a decision'') now w)"

primrec tick_expired :: "time \<Rightarrow> nat list \<Rightarrow> 'k resp \<Rightarrow> 'k resp option" where
  "tick_expired now [] w = Some w"
| "tick_expired now (p # ps) w = Option.bind (announce_expired now p (record_at p w)) (tick_expired now ps)"

definition released_action :: "Isolation \<Rightarrow> time \<Rightarrow> Action \<Rightarrow> Action" where
  "released_action isn now a = a\<lparr>ac_status := ''released'', ac_released := now,
     ac_result := ''released after '' @ TrimSpace (duration_String (duration_Round (time_sub now (ac_decided a)) second))
       @ (if is_applied isn then '''' else '' (the release request said: '' @ is_reason isn @ '')'')\<rparr>"

definition settle_release :: "time \<Rightarrow> nat \<Rightarrow> 'k resp \<Rightarrow> (State \<times> 'k) \<times> Isolation \<Rightarrow> 'k resp option" where
  "settle_release now p w x =
     settle p (released_action (snd x) now) ''released'' ''low''
       (\<lambda>a. ac_id a @ '': '' @ ac_vm a @ '' was released again, as its response said it would be'') now
       (w\<lparr>rw_st := fst (fst x), rw_k := snd (fst x)\<rparr>)"

definition tick_release :: "'k resp_deps \<Rightarrow> time \<Rightarrow> nat \<Rightarrow> 'k resp \<Rightarrow> 'k resp option" where
  "tick_release dp now p w =
     settle_release now p w
       (Release (rq_enf dp) (ac_vm (act_at w p)) (''auto:'' @ ac_id (act_at w p) @ '':timer'') now (rw_st w, rw_k w))"

primrec tick_due :: "'k resp_deps \<Rightarrow> time \<Rightarrow> nat list \<Rightarrow> 'k resp \<Rightarrow> 'k resp option" where
  "tick_due dp now [] w = Some w"
| "tick_due dp now (p # ps) w = Option.bind (tick_release dp now p w) (tick_due dp now ps)"

definition Tick :: "'k resp_deps \<Rightarrow> time \<Rightarrow> 'k resp \<Rightarrow> 'k resp option" where
  "Tick dp now w =
     (let expired = filter (\<lambda>p. lapses now (act_at w p)) (re_actions (rw_eng w));
          due = filter (\<lambda>p. release_due now (act_at w p)) (re_actions (rw_eng w))
      in Option.bind (tick_expired now expired (fold (\<lambda>p. upd_at p (expire_action now)) expired w)) (tick_due dp now due))"

section \<open>What clients see\<close>

definition response_List :: "bool \<Rightarrow> resp_engine \<Rightarrow> Action list" where
  "response_List all e = filter (\<lambda>a. all \<or> ac_status a = ''pending'') (rev (map (deref e) (re_actions e)))"

definition Counts :: "resp_engine \<Rightarrow> (string, int) gomap" where
  "Counts e = fold (\<lambda>p m. let s = ac_status (deref e p); n = (case map_of m s of None \<Rightarrow> 0 | Some n \<Rightarrow> n) in AList.update s (n + 1) m) (re_actions e) []"

definition Modes :: "resp_engine \<Rightarrow> int \<times> int \<times> int" where
  "Modes e = foldl (\<lambda>(prop, enf, dry) r.
      if rs_dry_run r then (prop, enf, dry + 1) else if rs_mode r = ''enforce'' then (prop, enf + 1, dry) else (prop + 1, enf, dry))
      (0, 0, 0) (re_cfg e)"

end
