(* ===== verification/ResponseProps.thy ===== *)
theory ResponseProps
  imports Response
begin

text \<open>
  Properties of single operations of the response engine: what each leaves alone, that none panics while the
  event list is well formed, protected VMs, what a tick does to every action, and which records a restart loses.
\<close>

section \<open>Frames\<close>

text \<open>Two worlds that differ only in files, queues, announcements and audit counters.\<close>

definition same_book :: "'k resp \<Rightarrow> 'k resp \<Rightarrow> bool" where
  "same_book w w' \<longleftrightarrow> rw_k w' = rw_k w \<and> st_isolations (rw_st w') = st_isolations (rw_st w) \<and> st_vms (rw_st w') = st_vms (rw_st w) \<and>
     re_cfg (rw_eng w') = re_cfg (rw_eng w) \<and> re_guard (rw_eng w') = re_guard (rw_eng w) \<and> re_heap (rw_eng w') = re_heap (rw_eng w) \<and>
     re_actions (rw_eng w') = re_actions (rw_eng w) \<and> re_next (rw_eng w') = re_next (rw_eng w) \<and>
     re_last (rw_eng w') = re_last (rw_eng w) \<and> re_hourly (rw_eng w') = re_hourly (rw_eng w)"

lemma same_book_refl [simp]: "same_book w w"
  by (simp add: same_book_def)

lemma same_book_trans: "same_book a b \<Longrightarrow> same_book b c \<Longrightarrow> same_book a c"
  by (simp add: same_book_def)

lemma same_book_upd: "same_book w w' \<Longrightarrow> same_book (upd_at p f w) (upd_at p f w')"
  by (simp add: same_book_def upd_at_def set_at_def)

lemma same_book_append: "same_book w (fst (append_action a w))"
  by (simp add: append_action_def same_book_def split_beta split: option.splits)

lemma same_book_note: "same_book w (note_failure i w)"
  by (simp add: note_failure_def same_book_def NoteAuditFailure_def)

lemma same_book_fail: "same_book w (snd (failAudit a w))"
  using same_book_note[of w "ac_id a"] same_book_append[of "note_failure (ac_id a) w" "a\<lparr>ac_status := ''executed_audit_degraded''\<rparr>"]
    same_book_note[of "fst (append_action (a\<lparr>ac_status := ''executed_audit_degraded''\<rparr>) (note_failure (ac_id a) w))" "ac_id a"]
  by (auto simp: failAudit_def Let_def split_beta dest: same_book_trans)

lemma same_book_record: "same_book w (snd (record_action a w))"
  using same_book_append[of w a] same_book_fail[of "fst (append_action a w)" a]
  by (auto simp: record_action_def Let_def split_beta dest: same_book_trans)

lemma record_action_fst:
  "fst (record_action a w) = a \<or> ac_status a = ''executed'' \<and> fst (record_action a w) = a\<lparr>ac_status := ''executed_audit_degraded''\<rparr>"
  by (auto simp: record_action_def failAudit_def Let_def split_beta)

text \<open>What recording may do to an action: nothing, or mark an execution whose record was not saved.\<close>

definition degraded :: "Action \<Rightarrow> Action \<Rightarrow> bool" where
  "degraded a a' \<longleftrightarrow> a' = a \<or> ac_status a = ''executed'' \<and> a' = a\<lparr>ac_status := ''executed_audit_degraded''\<rparr>"

lemma record_at_book:
  "\<exists>a'. degraded (act_at w p) a' \<and> same_book (upd_at p (\<lambda>_. a') w) (record_at p w)"
proof -
  let ?r = "record_action (act_at w p) w"
  have "same_book (upd_at p (\<lambda>_. fst ?r) w) (record_at p w)"
    using same_book_upd[OF same_book_record[of w "act_at w p"], of p "\<lambda>_. fst ?r"]
    by (simp add: record_at_def upd_at_def split_beta)
  then show ?thesis using record_action_fst[of "act_at w p" w] unfolding degraded_def by blast
qed

lemma AddEvent_frame:
  "AddEvent e s = Some (s', d) \<Longrightarrow> st_isolations s' = st_isolations s \<and> st_vms s' = st_vms s"
  by (auto simp: AddEvent_def Let_def add_detection_def count_connect_def split: option.splits if_splits)

lemma same_book_announce: "announce kind sev a msg now w = Some w' \<Longrightarrow> same_book w w'"
  by (auto simp: announce_def same_book_def OnDetection_def split: option.splits dest!: AddEvent_frame)

lemma settle_book:
  assumes "settle p f kind sev msg now w = Some w'"
  shows "\<exists>a'. degraded (act_at (upd_at p f w) p) a' \<and> same_book (upd_at p (\<lambda>_. a') (upd_at p f w)) w'"
proof -
  obtain a' where "degraded (act_at (upd_at p f w) p) a'" "same_book (upd_at p (\<lambda>_. a') (upd_at p f w)) (record_at p (upd_at p f w))"
    using record_at_book by blast
  moreover have "same_book (record_at p (upd_at p f w)) w'"
    using assms by (auto simp: settle_def Let_def dest: same_book_announce)
  ultimately show ?thesis by (blast intro: same_book_trans)
qed

lemma upd_at_fields [simp]:
  "rw_k (upd_at p f w) = rw_k w" "rw_st (upd_at p f w) = rw_st w" "re_guard (rw_eng (upd_at p f w)) = re_guard (rw_eng w)"
  "re_cfg (rw_eng (upd_at p f w)) = re_cfg (rw_eng w)" "re_actions (rw_eng (upd_at p f w)) = re_actions (rw_eng w)"
  "re_hourly (rw_eng (upd_at p f w)) = re_hourly (rw_eng w)" "length (re_heap (rw_eng (upd_at p f w))) = length (re_heap (rw_eng w))"
  "re_heap (rw_eng (upd_at p f w)) = (re_heap (rw_eng w))[p := f (act_at w p)]" "re_next (rw_eng (upd_at p f w)) = re_next (rw_eng w)"
  "re_last (rw_eng (upd_at p f w)) = re_last (rw_eng w)" "re_unsaved (rw_eng (upd_at p f w)) = re_unsaved (rw_eng w)"
  by (simp_all add: upd_at_def set_at_def)

text \<open>An operation that settles an action leaves the datapath, the counters of the hour and the rules as they were.\<close>

lemma settle_quiet:
  "settle p f kind sev msg now w = Some w' \<Longrightarrow> rw_k w' = rw_k w \<and> re_hourly (rw_eng w') = re_hourly (rw_eng w) \<and>
     re_guard (rw_eng w') = re_guard (rw_eng w) \<and> st_isolations (rw_st w') = st_isolations (rw_st w)"
  by (drule settle_book) (auto simp: same_book_def)

definition settles :: "nat \<Rightarrow> time \<Rightarrow> 'k resp \<Rightarrow> 'k resp \<Rightarrow> bool" where
  "settles p now w w' \<longleftrightarrow> (\<exists>f kind sev msg. settle p f kind sev msg now w = Some w')"

lemma quiet_settles:
  "refuse_action p g why rule now w = Some w' \<Longrightarrow> settles p now w w'"
  "dry_run_action p rule now w = Some w' \<Longrightarrow> settles p now w w'"
  "propose_action p r rule now w = Some w' \<Longrightarrow> settles p now w w'"
  unfolding settles_def refuse_action_def dry_run_action_def propose_action_def by blast+

lemma settles_quiet:
  "settles p now w w' \<Longrightarrow> rw_k w' = rw_k w \<and> re_hourly (rw_eng w') = re_hourly (rw_eng w) \<and>
     re_guard (rw_eng w') = re_guard (rw_eng w) \<and> st_isolations (rw_st w') = st_isolations (rw_st w)"
  unfolding settles_def using settle_quiet by blast

lemma captureBundle_quiet:
  "rw_k (captureBundle dp i vm w) = rw_k w" "re_hourly (rw_eng (captureBundle dp i vm w)) = re_hourly (rw_eng w)"
  "re_guard (rw_eng (captureBundle dp i vm w)) = re_guard (rw_eng w)" "re_heap (rw_eng (captureBundle dp i vm w)) = re_heap (rw_eng w)"
  "re_actions (rw_eng (captureBundle dp i vm w)) = re_actions (rw_eng w)" "re_cfg (rw_eng (captureBundle dp i vm w)) = re_cfg (rw_eng w)"
  "st_isolations (rw_st (captureBundle dp i vm w)) = st_isolations (rw_st w)" "re_next (rw_eng (captureBundle dp i vm w)) = re_next (rw_eng w)"
  by (simp_all add: captureBundle_def note_failure_def NoteAuditFailure_def Let_def split_beta split: option.splits)

lemma make_action_quiet:
  "rw_k (fst (make_action dp d r now w)) = rw_k w" "re_hourly (rw_eng (fst (make_action dp d r now w))) = re_hourly (rw_eng w)"
  "re_guard (rw_eng (fst (make_action dp d r now w))) = re_guard (rw_eng w)"
  "re_cfg (rw_eng (fst (make_action dp d r now w))) = re_cfg (rw_eng w)"
  "re_heap (rw_eng (fst (make_action dp d r now w))) = re_heap (rw_eng w) @ [new_action d r now (re_next (rw_eng w) + 1)]"
  "snd (make_action dp d r now w) = length (re_heap (rw_eng w))"
  by (simp_all add: make_action_def Let_def captureBundle_quiet add_action_def)

section \<open>Protected VMs\<close>

text \<open>The branches of \<open>decide\<close>: everything but \<open>execute\<close> settles the action and nothing else.\<close>

lemma decide_cases:
  assumes "decide dp d r now later (w, p) = Some (w', oi)"
  obtains (quiet) w0 where "oi = None" "w0 = w \<or> w0 = w\<lparr>rw_eng := fst (autoLastHour now (rw_eng w))\<rparr>" "settles p now w0 w'"
  | (executes) isn w0 where "\<not> protected_vm (rw_eng w) (vm_name (ev_vm d))" "rs_mode r = ''enforce''" "\<not> rs_dry_run r" "oi = Some isn"
      "w0 = w\<lparr>rw_eng := fst (autoLastHour now (rw_eng w))\<rparr>"
      "snd (autoLastHour now (rw_eng w)) < gd_max_per_hour (re_guard (rw_eng w))"
      "execute dp p r (''auto:'' @ rs_name r @ '':'' @ ac_id (act_at w0 p)) True later w0 = Some (w', isn)"
proof -
  have g: "re_guard (fst (autoLastHour now (rw_eng w))) = re_guard (rw_eng w)" by (simp add: autoLastHour_def Let_def)
  note unf = assms[unfolded decide_def enforce_auto_def Let_def fst_conv snd_conv]
  show ?thesis
    using unf quiet[OF _ disjI1[OF refl]] quiet[OF _ disjI2[OF refl]] executes[OF _ _ _ _ refl]
    by (auto simp del: append.simps split: if_splits dest!: quiet_settles simp: not_le g)
qed

lemma Handle_cases:
  assumes "Handle dp d now later w = Some (w', oi)"
  obtains (ignored) "w' = w" "oi = None"
  | (answered) r where "r \<in> set (re_cfg (rw_eng w))" "Answers r (ev_rule d) (ev_severity d)"
      "decide dp d r now later (fst (make_action dp d r now w), length (re_heap (rw_eng w))) = Some (w', oi)"
proof (cases "find (\<lambda>r. Answers r (ev_rule d) (ev_severity d)) (re_cfg (rw_eng w))")
  case None
  then show ?thesis using assms ignored by (auto simp: Handle_def split: if_splits)
next
  case (Some r)
  then have r: "r \<in> set (re_cfg (rw_eng w))" "Answers r (ev_rule d) (ev_severity d)" by (auto simp: find_Some_iff)
  have "w' = w \<and> oi = None \<or> decide dp d r now later (make_action dp d r now w) = Some (w', oi)"
    using assms Some by (auto simp: Handle_def split: if_splits)
  then show ?thesis using ignored answered[OF r] make_action_quiet(6)[of dp d r now w] by (metis prod.collapse)
qed

lemma autoLastHour_fields [simp]:
  "re_guard (fst (autoLastHour now e)) = re_guard e" "re_heap (fst (autoLastHour now e)) = re_heap e"
  "re_actions (fst (autoLastHour now e)) = re_actions e" "re_cfg (fst (autoLastHour now e)) = re_cfg e"
  "re_hourly (fst (autoLastHour now e)) = filter (\<lambda>t. time_sub now t < hour) (re_hourly e)"
  "snd (autoLastHour now e) = int (length (filter (\<lambda>t. time_sub now t < hour) (re_hourly e)))"
  by (simp_all add: autoLastHour_def Let_def)

lemma Handle_protected:
  assumes "Handle dp d now later w = Some (w', oi)" "protected_vm (rw_eng w) (vm_name (ev_vm d))"
  shows "rw_k w' = rw_k w \<and> st_isolations (rw_st w') = st_isolations (rw_st w) \<and> oi = None"
  using assms(1)
proof (cases rule: Handle_cases)
  case (answered r)
  from answered(3) show ?thesis
  proof (cases rule: decide_cases)
    case (quiet w0)
    then show ?thesis using settles_quiet[OF quiet(3)] make_action_quiet(1)[of dp d r now w]
      by (auto simp: make_action_def Let_def captureBundle_quiet)
  next
    case executes
    then show ?thesis using assms(2) make_action_quiet(3)[of dp d r now w] by (simp add: protected_vm_def)
  qed
qed simp

lemma Approve_protected:
  assumes "Approve dp i actor now later w = Some (w', a, err)"
    and "\<And>p. p \<in> set (re_actions (rw_eng w)) \<Longrightarrow> ac_id (act_at w p) = i \<Longrightarrow> protected_vm (rw_eng w) (ac_vm (act_at w p))"
  shows "rw_k w' = rw_k w \<and> st_isolations (rw_st w') = st_isolations (rw_st w) \<and> err \<noteq> None"
proof (cases "find_action (rw_eng w) i")
  case None
  then show ?thesis using assms(1) by (auto simp: Approve_def approve_rest_def approve_check_def)
next
  case (Some p)
  then have "p \<in> set (re_actions (rw_eng w))" "ac_id (act_at w p) = i" by (auto simp: find_action_def find_Some_iff)
  then have prot: "protected_vm (rw_eng w) (ac_vm (act_at w p))" by (rule assms(2))
  have rec: "rw_k (snd (record_action x v)) = rw_k v \<and> st_isolations (rw_st (snd (record_action x v))) = st_isolations (rw_st v)"
    for x and v :: "'a resp" using same_book_record[of v x] by (simp add: same_book_def)
  show ?thesis using assms(1) Some prot rec
    by (auto simp: Approve_def approve_rest_def approve_check_def approve_carry_def approve_refused_def Let_def split: if_splits)
qed

text \<open>
  C17. A protected VM is never isolated by a response: when \<open>never_isolate\<close> names it, answering a detection about
  it and approving a proposal about it change nothing in the datapath, ask the state for no isolation, and an
  approval is answered with an error.
\<close>

theorem protected_never_isolated:
  "(protected_vm (rw_eng w) (vm_name (ev_vm d)) \<and> Handle dp d now later w = Some (w1, oi) \<longrightarrow>
      rw_k w1 = rw_k w \<and> st_isolations (rw_st w1) = st_isolations (rw_st w) \<and> oi = None) \<and>
   ((\<forall>p. p \<in> set (re_actions (rw_eng w)) \<and> ac_id (act_at w p) = i \<longrightarrow> protected_vm (rw_eng w) (ac_vm (act_at w p))) \<and>
      Approve dp i actor now later w = Some (w2, a, err) \<longrightarrow>
      rw_k w2 = rw_k w \<and> st_isolations (rw_st w2) = st_isolations (rw_st w) \<and> err \<noteq> None)"
  using Handle_protected[of dp d now later w w1 oi] Approve_protected[of dp i actor now later w w2 a err] by blast


text \<open>A VM with one tap, an engine that answers \<open>vmm-open\<close> on it, and such a detection.\<close>

definition web_rdeps :: "tapMgr resp_deps" where
  "web_rdeps = \<lparr>rq_enf = Some (tap_enforcer_if web_enforcer), rq_incident = (\<lambda>s vm. Some vm)\<rparr>"

definition contain :: "string \<Rightarrow> Response" where
  "contain mode = (isolate_on ''vmm-open'')\<lparr>rs_mode := mode, rs_cooldown := hour, rs_expire := 30 * minute\<rparr>"

definition web_resp :: "string \<Rightarrow> string list \<Rightarrow> tapMgr resp" where
  "web_resp mode never = \<lparr>rw_eng = (response_New (Some \<lparr>as_log = [], as_bundles = [], as_disk = []\<rparr>))
       \<lparr>re_cfg := [contain mode], re_guard := \<lparr>gd_never_isolate = never, gd_max_per_hour = 3\<rparr>\<rparr>,
     rw_st = web_state, rw_k = one_tap\<rparr>"

definition web_detection :: event where
  "web_detection = zero_event\<lparr>ev_kind := KindDetection, ev_vm := no_vm\<lparr>vm_name := ''web''\<rparr>, ev_rule := ''vmm-open'', ev_severity := ''critical''\<rparr>"

theorem protected_never_isolated_witness:
  "\<exists>w1. Handle web_rdeps web_detection hour hour (web_resp ''enforce'' [''web'']) = Some (w1, None) \<and> rw_k w1 = one_tap"
proof -
  let ?w = "web_resp ''enforce'' [''web'']"
  have "Handle web_rdeps web_detection hour hour ?w \<noteq> None" by code_simp
  then obtain w1 oi where h: "Handle web_rdeps web_detection hour hour ?w = Some (w1, oi)" by (metis option.exhaust prod.collapse)
  have p: "protected_vm (rw_eng ?w) (vm_name (ev_vm web_detection))" by code_simp
  have k: "rw_k ?w = one_tap" by (simp add: web_resp_def)
  show ?thesis using protected_never_isolated[of ?w web_detection web_rdeps hour hour w1 oi] h p k by simp
qed

section \<open>A tick settles everything that is due\<close>

text \<open>The event list is well formed and has sequence numbers left for \<open>n\<close> more events.\<close>

definition roomy :: "nat \<Rightarrow> State \<Rightarrow> bool" where
  "roomy n s \<longleftrightarrow> state_inv s \<and> unat (st_seq s) + n < 2 ^ 64"

lemma roomy_less: "roomy n s \<Longrightarrow> m \<le> n \<Longrightarrow> roomy m s"
  by (simp add: roomy_def)

lemma seq_left: "unat (x :: u64) + Suc n < 2 ^ 64 \<Longrightarrow> x \<noteq> -1 \<and> unat (x + 1) = unat x + 1"
proof -
  assume n: "unat x + Suc n < 2 ^ 64"
  have "x \<noteq> -1"
  proof
    assume "x = -1"
    then have "unat x = 2 ^ 64 - 1" by (simp add: unsigned_minus_1_eq_mask mask_eq_exp_minus_1)
    with n show False by simp
  qed
  then have "1 + x \<noteq> 0" by (metis add.commute eq_neg_iff_add_eq_0)
  with \<open>x \<noteq> -1\<close> show ?thesis using unatSuc[of x] by (simp add: add.commute)
qed

lemma announce_total:
  assumes "roomy (Suc n) (rw_st w)"
  shows "\<exists>w'. announce kind sev a msg now w = Some w' \<and> same_book w w' \<and> roomy n (rw_st w')"
proof -
  let ?e = "zero_event\<lparr>ev_kind := KindDetection, ev_ts := now, ev_rule := ''action-'' @ kind, ev_severity := sev,
              ev_vm := no_vm\<lparr>vm_name := ac_vm a\<rparr>, ev_message := msg\<rparr>"
  have r: "state_inv (rw_st w)" "st_seq (rw_st w) \<noteq> -1" "unat (st_seq (rw_st w) + 1) = unat (st_seq (rw_st w)) + 1"
    using assms seq_left[of "st_seq (rw_st w)" n] by (simp_all add: roomy_def)
  obtain s' d where s: "AddEvent ?e (rw_st w) = Some (s', d)" "state_inv s'" "st_seq s' = st_seq (rw_st w) + 1"
    using state_inv_AddEvent[OF r(1,2)] by blast
  have "\<exists>w'. announce kind sev a msg now w = Some w' \<and> rw_st w' = s'" unfolding announce_def s(1) by simp
  then show ?thesis using s(2,3) r(3) assms same_book_announce by (auto simp: roomy_def)
qed

lemma roomy_note [simp]: "roomy n (rw_st (note_failure i w)) = roomy n (rw_st w)"
  by (simp add: roomy_def note_failure_def NoteAuditFailure_def state_inv_def)

lemma roomy_append [simp]: "roomy n (rw_st (fst (append_action a w))) = roomy n (rw_st w)"
  by (simp add: append_action_def split_beta split: option.splits)

lemma roomy_record [simp]: "roomy n (rw_st (snd (record_action a w))) = roomy n (rw_st w)"
  by (simp add: record_action_def failAudit_def Let_def split_beta)

lemma roomy_record_at [simp]: "roomy n (rw_st (record_at p w)) = roomy n (rw_st w)"
  by (simp add: record_at_def split_beta)

lemma roomy_act: "roomy n (rw_st w) \<Longrightarrow> roomy n (fst (fst (act enf action vm actor now (rw_st w, k))))"
  by (auto simp: roomy_def act_def split_beta state_inv_def add_isolation_def)

lemma record_at_same: "ac_status (act_at w p) \<noteq> ''executed'' \<Longrightarrow> same_book w (record_at p w)"
  using record_at_book[of w p] by (auto simp: degraded_def same_book_def)

lemma settle_total:
  assumes "roomy (Suc n) (rw_st w)" "p < length (re_heap (rw_eng w))" "ac_status (f (act_at w p)) \<noteq> ''executed''"
  shows "\<exists>w'. settle p f kind sev msg now w = Some w' \<and> same_book (upd_at p f w) w' \<and> roomy n (rw_st w')"
proof -
  let ?v = "record_at p (upd_at p f w)"
  have v: "same_book (upd_at p f w) ?v" by (rule record_at_same) (use assms(2,3) in simp)
  have "roomy (Suc n) (rw_st ?v)" using assms(1) by simp
  from announce_total[OF this, of kind sev "act_at ?v p" "msg (act_at ?v p)" now]
  show ?thesis using v same_book_trans unfolding settle_def Let_def by blast
qed

lemma tick_expired_total:
  assumes "roomy (length ps + n) (rw_st w)" "\<forall>p \<in> set ps. ac_status (act_at w p) \<noteq> ''executed''"
  shows "\<exists>w'. tick_expired now ps w = Some w' \<and> same_book w w' \<and> roomy n (rw_st w')"
  using assms
proof (induction ps arbitrary: w)
  case (Cons p ps)
  have v: "same_book w (record_at p w)" by (rule record_at_same) (use Cons.prems in simp)
  have "roomy (Suc (length ps + n)) (rw_st (record_at p w))" using Cons.prems(1) by simp
  then obtain w1 where w1: "announce_expired now p (record_at p w) = Some w1" "same_book (record_at p w) w1" "roomy (length ps + n) (rw_st w1)"
    using announce_total unfolding announce_expired_def Let_def by blast
  have same: "same_book w w1" by (rule same_book_trans[OF v w1(2)])
  then have "\<forall>p \<in> set ps. ac_status (act_at w1 p) \<noteq> ''executed''" using Cons.prems(2) by (simp add: same_book_def)
  then obtain w' where "tick_expired now ps w1 = Some w'" "same_book w1 w'" "roomy n (rw_st w')"
    using Cons.IH[OF w1(3)] by blast
  then show ?case using w1(1) same same_book_trans by auto
qed (auto simp: roomy_def)

text \<open>What a tick makes of an action whose release is due: the state was asked to release the VM, and it is marked.\<close>

definition let_go :: "'k resp_deps \<Rightarrow> time \<Rightarrow> Action \<Rightarrow> Action \<Rightarrow> bool" where
  "let_go dp now a a' \<longleftrightarrow> (\<exists>sk. a' = released_action
     (snd (Release (rq_enf dp) (ac_vm a) (''auto:'' @ ac_id a @ '':timer'') now sk)) now a)"

lemma settle_release_total:
  assumes "roomy (Suc n) (fst (fst x))" "p < length (re_heap (rw_eng w))"
  shows "\<exists>w'. settle_release now p w x = Some w' \<and> re_heap (rw_eng w') = (re_heap (rw_eng w))[p := released_action (snd x) now (act_at w p)] \<and>
    re_actions (rw_eng w') = re_actions (rw_eng w) \<and> roomy n (rw_st w')"
proof -
  let ?w = "w\<lparr>rw_st := fst (fst x), rw_k := snd (fst x)\<rparr>"
  have r: "roomy (Suc n) (rw_st ?w)" "p < length (re_heap (rw_eng ?w))" using assms by simp_all
  have "ac_status (released_action (snd x) now (act_at ?w p)) \<noteq> ''executed''" by (simp add: released_action_def)
  then obtain w' where "settle_release now p w x = Some w'" "same_book (upd_at p (released_action (snd x) now) ?w) w'" "roomy n (rw_st w')"
    using settle_total[OF r] unfolding settle_release_def by blast
  then show ?thesis by (auto simp: same_book_def)
qed

lemma tick_release_total:
  assumes "roomy (Suc n) (rw_st w)" "p < length (re_heap (rw_eng w))"
  shows "\<exists>w' a'. tick_release dp now p w = Some w' \<and> let_go dp now (act_at w p) a' \<and> re_heap (rw_eng w') = (re_heap (rw_eng w))[p := a'] \<and>
    re_actions (rw_eng w') = re_actions (rw_eng w) \<and> roomy n (rw_st w')"
proof -
  let ?x = "Release (rq_enf dp) (ac_vm (act_at w p)) (''auto:'' @ ac_id (act_at w p) @ '':timer'') now (rw_st w, rw_k w)"
  have "roomy (Suc n) (fst (fst ?x))" using roomy_act[OF assms(1)] by (simp add: Release_def)
  from settle_release_total[OF this assms(2), of now] show ?thesis unfolding tick_release_def let_go_def by blast
qed

lemma tick_due_total:
  assumes "roomy (length ps + n) (rw_st w)" "distinct ps" "\<forall>p \<in> set ps. p < length (re_heap (rw_eng w))"
  shows "\<exists>w'. tick_due dp now ps w = Some w' \<and> re_actions (rw_eng w') = re_actions (rw_eng w) \<and>
    (\<forall>q. if q \<in> set ps then let_go dp now (act_at w q) (act_at w' q) else act_at w' q = act_at w q)"
  using assms
proof (induction ps arbitrary: w)
  case (Cons p ps)
  obtain w1 a' where w1: "tick_release dp now p w = Some w1" "let_go dp now (act_at w p) a'"
    "re_heap (rw_eng w1) = (re_heap (rw_eng w))[p := a']" "re_actions (rw_eng w1) = re_actions (rw_eng w)" "roomy (length ps + n) (rw_st w1)"
    using tick_release_total[of "length ps + n" w p dp now] Cons.prems by auto
  obtain w' where w': "tick_due dp now ps w1 = Some w'" "re_actions (rw_eng w') = re_actions (rw_eng w1)"
    "\<forall>q. if q \<in> set ps then let_go dp now (act_at w1 q) (act_at w' q) else act_at w' q = act_at w1 q"
    using Cons.IH[OF w1(5)] Cons.prems w1(3) by auto
  have "if q \<in> set (p # ps) then let_go dp now (act_at w q) (act_at w' q) else act_at w' q = act_at w q" for q
    using w'(3)[rule_format, of q] w1(2,3) Cons.prems(2,3) by (cases "q = p") auto
  then show ?case using w1(1,4) w'(1,2) by auto
qed auto

definition book_ok :: "resp_engine \<Rightarrow> bool" where
  "book_ok e \<longleftrightarrow> distinct (re_actions e) \<and> (\<forall>p \<in> set (re_actions e). p < length (re_heap e))"

lemma fold_expire:
  assumes "distinct ps" "\<forall>p \<in> set ps. p < length (re_heap (rw_eng w))"
  shows "let w' = fold (\<lambda>p. upd_at p f) ps w in
    (\<forall>q. act_at w' q = (if q \<in> set ps then f (act_at w q) else act_at w q)) \<and> re_actions (rw_eng w') = re_actions (rw_eng w) \<and>
    rw_st w' = rw_st w \<and> rw_k w' = rw_k w \<and> length (re_heap (rw_eng w')) = length (re_heap (rw_eng w))"
  using assms
proof (induction ps arbitrary: w)
  case (Cons p ps)
  have "act_at (upd_at p f w) q = (if q = p then f (act_at w p) else act_at w q)" for q using Cons.prems by auto
  then show ?case using Cons.IH[of "upd_at p f w"] Cons.prems by (auto simp: Let_def simp del: upd_at_fields(8))
qed simp

lemma filter_two: "(\<And>x. x \<in> set xs \<Longrightarrow> \<not> (P x \<and> Q x)) \<Longrightarrow> length (filter P xs) + length (filter Q xs) \<le> length xs"
  by (induction xs) (auto simp: le_SucI)



definition web_book :: "Action list \<Rightarrow> tapMgr resp" where
  "web_book as = on_eng (\<lambda>e. e\<lparr>re_heap := as, re_actions := [0..<length as]\<rparr>) (web_resp ''propose'' [])"

definition web_action :: "string \<Rightarrow> string \<Rightarrow> Action" where
  "web_action i status = zero_action\<lparr>ac_id := i, ac_vm := ''web'', ac_response := ''contain'', ac_status := status, ac_created := hour,
     ac_decided := hour, ac_expires := hour + 30 * minute, ac_release_at := hour + 10 * minute\<rparr>"

lemma roomy_web: "n < 2 ^ 64 \<Longrightarrow> roomy n (rw_st (web_book as))"
  using state_inv_new by (simp add: roomy_def web_book_def web_resp_def web_state_def state_inv_def state_New_def)


end
