(* ===== verification/ResponseRun.thy ===== *)
theory ResponseRun
  imports ResponseProps
begin

text \<open>
  The response engine as it runs: detections, ticks, approvals, rejections and changes of the rules interleave.
  An approval is two steps, because \<open>Approve\<close> frees the lock between its checks and the isolation; \<open>Handle\<close> and
  \<open>Tick\<close> are one step each, since one goroutine runs both. \<open>sy_auto\<close> is the history of automatic isolations
  that took effect, which no part of the program keeps.
\<close>

section \<open>The steps\<close>

record 'k sys =
  sy_w :: "'k resp"
  sy_flying :: "(nat \<times> Response \<times> bool \<times> string \<times> time) list"
  sy_now :: time
  sy_auto :: "time list"

definition auto_times :: "Isolation option \<Rightarrow> time \<Rightarrow> time list" where
  "auto_times oi t = (case oi of None \<Rightarrow> [] | Some isn \<Rightarrow> if is_applied isn then [t] else [])"

inductive resp_step :: "'k resp_deps \<Rightarrow> int \<Rightarrow> 'k sys \<Rightarrow> 'k sys \<Rightarrow> bool" for dp M where
  detect: "resp_step dp M s (s\<lparr>sy_w := on_eng (OnDetection d) (sy_w s)\<rparr>)"
| handle: "re_queue (rw_eng (sy_w s)) = d # q \<Longrightarrow> sy_now s \<le> now \<Longrightarrow> now \<le> later \<Longrightarrow>
    Handle dp d now later (on_eng (\<lambda>e. e\<lparr>re_queue := q\<rparr>) (sy_w s)) = Some (w', oi) \<Longrightarrow>
    resp_step dp M s (s\<lparr>sy_w := w', sy_now := later, sy_auto := sy_auto s @ auto_times oi later\<rparr>)"
| tick: "sy_now s \<le> now \<Longrightarrow> Tick dp now (sy_w s) = Some w' \<Longrightarrow> resp_step dp M s (s\<lparr>sy_w := w', sy_now := now\<rparr>)"
| answer: "sy_now s \<le> now \<Longrightarrow> approve_check i actor now (sy_w s) = (w', Answer a err) \<Longrightarrow>
    resp_step dp M s (s\<lparr>sy_w := w', sy_now := now\<rparr>)"
| approve: "sy_now s \<le> now \<Longrightarrow> approve_check i actor now (sy_w s) = (w', Carry p r prot) \<Longrightarrow>
    resp_step dp M s (s\<lparr>sy_w := w', sy_now := now, sy_flying := sy_flying s @ [(p, r, prot, actor, now)]\<rparr>)"
| carry: "sy_flying s = fs @ (p, r, prot, actor, now) # gs \<Longrightarrow> sy_now s \<le> later \<Longrightarrow>
    approve_carry dp p r prot actor now later (sy_w s) = Some (w', a, err) \<Longrightarrow>
    resp_step dp M s (s\<lparr>sy_w := w', sy_now := later, sy_flying := fs @ gs\<rparr>)"
| reject: "sy_now s \<le> now \<Longrightarrow> Reject i actor now (sy_w s) = Some (w', a, err) \<Longrightarrow> resp_step dp M s (s\<lparr>sy_w := w', sy_now := now\<rparr>)"
| config: "gd_max_per_hour (cf_guard c) \<le> M \<Longrightarrow> resp_step dp M s (s\<lparr>sy_w := on_eng (SetConfig c) (sy_w s)\<rparr>)"

inductive resp_reach :: "'k resp_deps \<Rightarrow> int \<Rightarrow> 'k sys \<Rightarrow> 'k sys \<Rightarrow> bool" for dp M s0 where
  start: "resp_reach dp M s0 s0"
| step: "resp_reach dp M s0 s \<Longrightarrow> resp_step dp M s s' \<Longrightarrow> resp_reach dp M s0 s'"

section \<open>What leaves the hourly count alone\<close>

definition calm :: "'k resp \<Rightarrow> 'k resp \<Rightarrow> bool" where
  "calm w w' \<longleftrightarrow> re_hourly (rw_eng w') = re_hourly (rw_eng w) \<and> re_guard (rw_eng w') = re_guard (rw_eng w)"

lemma calm_refl [simp]: "calm w w"
  by (simp add: calm_def)

lemma calm_trans: "calm a b \<Longrightarrow> calm b c \<Longrightarrow> calm a c"
  by (simp add: calm_def)

lemma calm_book: "same_book w w' \<Longrightarrow> calm w w'"
  by (simp add: same_book_def calm_def)

lemma calm_upd [simp]: "calm w (upd_at p f w)"
  by (simp add: calm_def)

lemma calm_record_at: "calm w (record_at p w)"
  using record_at_book[of w p] by (auto simp: same_book_def calm_def)

lemma calm_settle: "settle p f kind sev msg now w = Some w' \<Longrightarrow> calm w w'"
  by (drule settle_quiet) (simp add: calm_def)

lemma calm_tick_expired: "tick_expired now ps w = Some w' \<Longrightarrow> calm w w'"
proof (induction ps arbitrary: w)
  case (Cons p ps)
  obtain w1 where w1: "announce_expired now p (record_at p w) = Some w1" "tick_expired now ps w1 = Some w'"
    using Cons.prems by (auto simp: Option.bind_eq_Some_conv)
  have "calm (record_at p w) w1" using w1(1) by (auto simp: announce_expired_def Let_def intro: calm_book same_book_announce)
  then show ?case using Cons.IH[OF w1(2)] calm_record_at[of w p] by (blast intro: calm_trans)
qed simp

lemma calm_tick_due: "tick_due dp now ps w = Some w' \<Longrightarrow> calm w w'"
proof (induction ps arbitrary: w)
  case (Cons p ps)
  obtain w1 where w1: "tick_release dp now p w = Some w1" "tick_due dp now ps w1 = Some w'"
    using Cons.prems by (auto simp: Option.bind_eq_Some_conv)
  have "calm w w1" using w1(1) calm_settle unfolding tick_release_def settle_release_def by (fastforce simp: calm_def)
  then show ?case using Cons.IH[OF w1(2)] by (rule calm_trans)
qed simp

lemma calm_fold_upd: "calm w (fold (\<lambda>p. upd_at p f) ps w)"
proof (induction ps arbitrary: w)
  case (Cons p ps)
  have "calm (upd_at p f w) (fold (\<lambda>p. upd_at p f) ps (upd_at p f w))" by (rule Cons.IH)
  then show ?case using calm_trans[OF calm_upd] by simp
qed simp

lemma calm_Tick: "Tick dp now w = Some w' \<Longrightarrow> calm w w'"
  unfolding Tick_def Let_def Option.bind_eq_Some_conv
  by (auto dest!: calm_tick_due calm_tick_expired intro: calm_trans[OF calm_fold_upd] calm_trans)

lemma calm_approve_check: "approve_check i actor now w = (w', c) \<Longrightarrow> calm w w'"
proof -
  assume c: "approve_check i actor now w = (w', c)"
  have r: "calm v (snd (record_action a v))" for a and v :: "'a resp" by (rule calm_book[OF same_book_record])
  have "\<exists>v f p. v = upd_at p f w \<and> (w' = w \<or> w' = v \<or> (\<exists>a. w' = snd (record_action a v)))"
    using c by (auto simp: approve_check_def Let_def split: option.splits if_splits)
  then show ?thesis using calm_trans[OF calm_upd r] by auto
qed

lemma calm_Reject: "Reject i actor now w = Some (w', a, err) \<Longrightarrow> calm w w'"
proof -
  assume c: "Reject i actor now w = Some (w', a, err)"
  have r: "calm v (snd (record_action a v))" for a and v :: "'a resp" by (rule calm_book[OF same_book_record])
  have "w' = w \<or> (\<exists>p f x kind sev y msg. announce kind sev y msg now (snd (record_action x (upd_at p f w))) = Some w')"
    using c unfolding Reject_def Let_def by (auto split: option.splits if_splits)
  then show ?thesis using r calm_trans[OF calm_trans[OF calm_upd r] calm_book[OF same_book_announce]] by auto
qed

section \<open>What an isolation does to the count\<close>

lemma execute_mark_hourly:
  "re_hourly (rw_eng (execute_mark p r actor auto now isn w)) = re_hourly (rw_eng w) @ (if is_applied isn \<and> auto then [now] else [])"
  "re_guard (rw_eng (execute_mark p r actor auto now isn w)) = re_guard (rw_eng w)"
  by (simp_all add: execute_mark_def Let_def)

lemma calm_execute_announce: "execute_announce p now w = Some w' \<Longrightarrow> calm w w'"
  by (auto simp: execute_announce_def Let_def intro: calm_book same_book_announce split: if_splits)

lemma execute_hourly:
  assumes "execute dp p r actor auto now w = Some (w', isn)"
  shows "re_hourly (rw_eng w') = re_hourly (rw_eng w) @ (if is_applied isn \<and> auto then [now] else [])"
    "re_guard (rw_eng w') = re_guard (rw_eng w)"
proof -
  let ?x = "Isolate (rq_enf dp) (ac_vm (act_at w p)) actor now (rw_st w, rw_k w)"
  let ?v = "execute_mark p r actor auto now (snd ?x) (w\<lparr>rw_st := fst (fst ?x), rw_k := snd (fst ?x)\<rparr>)"
  have "isn = snd ?x" "execute_announce p now (record_at p ?v) = Some w'"
    using assms unfolding execute_def execute_after_def by (auto simp only: option.map prod.inject map_option_eq_Some)
  then have "isn = snd ?x" "calm ?v w'" using calm_execute_announce calm_record_at calm_trans by blast+
  then show "re_hourly (rw_eng w') = re_hourly (rw_eng w) @ (if is_applied isn \<and> auto then [now] else [])"
    "re_guard (rw_eng w') = re_guard (rw_eng w)" by (simp_all add: calm_def execute_mark_hourly)
qed

lemma calm_approve_carry: "approve_carry dp p r prot actor now later w = Some (w', a, err) \<Longrightarrow> calm w w'"
proof -
  assume c: "approve_carry dp p r prot actor now later w = Some (w', a, err)"
  have r: "calm v (snd (record_action a v))" for a and v :: "'a resp" by (rule calm_book[OF same_book_record])
  have "(\<exists>f x. w' = snd (record_action x (upd_at p f w))) \<or> (\<exists>who isn. execute dp p r who False later w = Some (w', isn))"
    using c unfolding approve_carry_def approve_refused_def Let_def
    by (auto simp: Option.bind_eq_Some_conv split: if_splits)
  then show ?thesis using execute_hourly calm_trans[OF calm_upd r] by (fastforce simp: calm_def)
qed

lemma Handle_hourly:
  assumes "Handle dp d now later w = Some (w', oi)"
  obtains (counted) isn where "oi = Some isn" "is_applied isn"
      "re_hourly (rw_eng w') = filter (\<lambda>t. time_sub now t < hour) (re_hourly (rw_eng w)) @ [later]"
      "int (length (filter (\<lambda>t. time_sub now t < hour) (re_hourly (rw_eng w)))) < gd_max_per_hour (re_guard (rw_eng w))"
      "re_guard (rw_eng w') = re_guard (rw_eng w)"
  | (same) "auto_times oi later = []" "re_guard (rw_eng w') = re_guard (rw_eng w)"
      "re_hourly (rw_eng w') = re_hourly (rw_eng w) \<or> re_hourly (rw_eng w') = filter (\<lambda>t. time_sub now t < hour) (re_hourly (rw_eng w))"
  using assms
proof (cases rule: Handle_cases)
  case ignored
  then show ?thesis using same by (simp add: auto_times_def)
next
  case (answered r)
  from answered(3) show ?thesis
  proof (cases rule: decide_cases)
    case (quiet w0)
    then show ?thesis using settles_quiet[OF quiet(3)] same make_action_quiet(2,3)[of dp d r now w]
      by (auto simp: auto_times_def)
  next
    case (executes isn w0)
    note e = execute_hourly[OF executes(7)]
    show ?thesis
    proof (cases "is_applied isn")
      case True
      then show ?thesis using counted[OF executes(4)] e executes(5,6) make_action_quiet(2,3)[of dp d r now w] by simp
    next
      case False
      then show ?thesis using same e executes(4,5) make_action_quiet(2,3)[of dp d r now w] by (simp add: auto_times_def)
    qed
  qed
qed


section \<open>The hourly cap\<close>

definition in_hour :: "time \<Rightarrow> time list \<Rightarrow> time list" where
  "in_hour t xs = filter (\<lambda>x. t \<le> x \<and> x < t + hour) xs"

definition recent :: "time \<Rightarrow> time list \<Rightarrow> time list" where
  "recent now xs = filter (\<lambda>x. now - x < hour) xs"

text \<open>The engine's count agrees with the history over the last hour, and no hour of the history holds more than \<open>M\<close>.\<close>

definition cap_inv :: "int \<Rightarrow> 'k sys \<Rightarrow> bool" where
  "cap_inv M s \<longleftrightarrow> gd_max_per_hour (re_guard (rw_eng (sy_w s))) \<le> M \<and> (\<forall>x \<in> set (sy_auto s). x \<le> sy_now s) \<and>
     recent (sy_now s) (re_hourly (rw_eng (sy_w s))) = recent (sy_now s) (sy_auto s) \<and>
     (\<forall>t. int (length (in_hour t (sy_auto s))) \<le> max 0 M)"

lemma recent_later: "now \<le> now' \<Longrightarrow> recent now' (recent now xs) = recent now' xs"
  by (induction xs) (auto simp: recent_def)

lemma recent_eq_later: "recent now xs = recent now ys \<Longrightarrow> now \<le> now' \<Longrightarrow> recent now' xs = recent now' ys"
  by (metis recent_later)

lemma cap_inv_calm:
  assumes "cap_inv M s" "calm (sy_w s) w'" "sy_now s \<le> now"
  shows "cap_inv M (s\<lparr>sy_w := w', sy_now := now\<rparr>)" "cap_inv M (s\<lparr>sy_w := w', sy_now := now, sy_flying := fs\<rparr>)"
  using assms recent_eq_later[of "sy_now s" "re_hourly (rw_eng (sy_w s))" "sy_auto s" now]
  by (auto simp: cap_inv_def calm_def)

text \<open>One more automatic isolation, made when fewer than \<open>M\<close> were counted, keeps every hour within \<open>M\<close>.\<close>

lemma in_hour_snoc:
  assumes "\<forall>x \<in> set xs. x \<le> now" "now \<le> later" "int (length (recent now xs)) < M" "\<forall>t. int (length (in_hour t xs)) \<le> max 0 M"
  shows "int (length (in_hour t (xs @ [later]))) \<le> max 0 M"
proof (cases "t \<le> later \<and> later < t + hour")
  case True
  have "length (in_hour t xs) \<le> length (recent now xs)"
    unfolding in_hour_def recent_def using True assms(1,2) by (induction xs) (auto simp: le_SucI)
  then show ?thesis using True assms(3) by (simp add: in_hour_def)
next
  case False
  then show ?thesis using assms(4)[rule_format, of t] by (auto simp: in_hour_def)
qed

lemma cap_inv_handle:
  assumes inv: "cap_inv M s" and times: "sy_now s \<le> now" "now \<le> later"
    and h: "Handle dp d now later (on_eng (\<lambda>e. e\<lparr>re_queue := q\<rparr>) (sy_w s)) = Some (w', oi)"
  shows "cap_inv M (s\<lparr>sy_w := w', sy_now := later, sy_auto := sy_auto s @ auto_times oi later\<rparr>)"
proof -
  let ?h = "re_hourly (rw_eng (sy_w s))" and ?w = "on_eng (\<lambda>e. e\<lparr>re_queue := q\<rparr>) (sy_w s)"
  have old: "\<forall>x \<in> set (sy_auto s). x \<le> now" "\<forall>t. int (length (in_hour t (sy_auto s))) \<le> max 0 M"
    "gd_max_per_hour (re_guard (rw_eng (sy_w s))) \<le> M" using inv times(1) by (auto simp: cap_inv_def)
  have now: "recent now ?h = recent now (sy_auto s)"
    by (rule recent_eq_later[OF _ times(1)]) (use inv in \<open>simp add: cap_inv_def\<close>)
  then have late: "recent later ?h = recent later (sy_auto s)" by (rule recent_eq_later[OF _ times(2)])
  have flt: "filter (\<lambda>t. time_sub now t < hour) ?h = recent now ?h" by (simp add: recent_def)
  from h show ?thesis
  proof (cases rule: Handle_hourly)
    case (counted isn)
    then have "int (length (recent now (sy_auto s))) < M" using old(3) now by (simp add: recent_def)
    from in_hour_snoc[OF old(1) times(2) this old(2)]
    have "\<forall>t. int (length (in_hour t (sy_auto s @ [later]))) \<le> max 0 M" by blast
    moreover have "recent later (re_hourly (rw_eng w')) = recent later (sy_auto s @ [later])"
      using counted(3) recent_later[OF times(2), of ?h] late by (simp add: flt) (simp add: recent_def)
    ultimately show ?thesis using counted(1,2,5) old(1,3) times by (auto simp: cap_inv_def auto_times_def)
  next
    case same
    have "recent later (re_hourly (rw_eng w')) = recent later (sy_auto s)"
      using same(3) recent_later[OF times(2), of ?h] late by (auto simp: recent_def[symmetric])
    then show ?thesis using same(1,2) old times by (auto simp: cap_inv_def)
  qed
qed

lemma cap_inv_step: "resp_step dp M s s' \<Longrightarrow> cap_inv M s \<Longrightarrow> cap_inv M s'"
proof (induction rule: resp_step.induct)
  case (detect s d)
  then show ?case by (simp add: cap_inv_def OnDetection_def)
next
  case (handle s d q now later w' oi)
  then show ?case by (blast intro: cap_inv_handle)
next
  case (tick s now w')
  then show ?case by (blast intro: cap_inv_calm calm_Tick)
next
  case (answer s now i actor w' a err)
  then show ?case by (blast intro: cap_inv_calm calm_approve_check)
next
  case (approve s now i actor w' p r prot)
  then show ?case by (blast intro: cap_inv_calm calm_approve_check)
next
  case (carry s fs p r prot actor now gs later w' a err)
  then show ?case by (blast intro: cap_inv_calm calm_approve_carry)
next
  case (reject s now i actor w' a err)
  then show ?case by (blast intro: cap_inv_calm calm_Reject)
next
  case (config c s)
  then show ?case by (simp add: cap_inv_def SetConfig_def)
qed

definition fresh_sys :: "'k resp \<Rightarrow> time \<Rightarrow> 'k sys" where
  "fresh_sys w now = \<lparr>sy_w = w, sy_flying = [], sy_now = now, sy_auto = []\<rparr>"

text \<open>
  C3. The hourly cap holds, over every interleaving: while no rules file sets \<open>max_per_hour\<close> above \<open>M\<close>, in no
  hour of the engine's life are more than \<open>M\<close> automatic isolations carried out, whatever detections come,
  whichever proposals are approved or rejected in between, and however the rules change. A restart begins a
  new history.
\<close>

theorem hourly_cap:
  assumes "resp_reach dp M (fresh_sys w t0) s" "re_hourly (rw_eng w) = []" "gd_max_per_hour (re_guard (rw_eng w)) \<le> M" "0 \<le> M"
  shows "int (length (in_hour t (sy_auto s))) \<le> M"
proof -
  have "cap_inv M (fresh_sys w t0)" using assms(2,3) by (simp add: cap_inv_def fresh_sys_def recent_def in_hour_def)
  with assms(1) have "cap_inv M s" by (induction rule: resp_reach.induct) (blast intro: cap_inv_step)+
  then show ?thesis using assms(4) by (auto simp: cap_inv_def)
qed

text \<open>The queue holds one detection; it is answered by an isolation.\<close>

definition web_queued :: "tapMgr resp" where
  "web_queued = on_eng (OnDetection web_detection) (web_resp ''enforce'' [])"

theorem hourly_cap_witness:
  "\<exists>s. resp_reach web_rdeps 3 (fresh_sys web_queued 0) s \<and> sy_auto s = [hour] \<and> int (length (in_hour 0 (sy_auto s @ []))) \<le> 3"
proof -
  let ?w = "on_eng (\<lambda>e. e\<lparr>re_queue := []\<rparr>) web_queued"
  have "Handle web_rdeps web_detection hour hour ?w \<noteq> None" by code_simp
  then obtain w' oi where h: "Handle web_rdeps web_detection hour hour ?w = Some (w', oi)" by (metis option.exhaust prod.collapse)
  have "map_option (\<lambda>x. auto_times (snd x) hour) (Handle web_rdeps web_detection hour hour ?w) = Some [hour]" by code_simp
  then have a: "auto_times oi hour = [hour]" using h by simp
  let ?s = "(fresh_sys web_queued 0)\<lparr>sy_w := w', sy_now := hour, sy_auto := sy_auto (fresh_sys web_queued 0) @ auto_times oi hour\<rparr>"
  have "resp_step web_rdeps 3 (fresh_sys web_queued 0) ?s"
    by (rule resp_step.handle[of _ web_detection "[]" hour]) (use h in \<open>simp_all add: fresh_sys_def web_queued_def OnDetection_def web_resp_def response_New_def queueSize_def\<close>)
  then have r: "resp_reach web_rdeps 3 (fresh_sys web_queued 0) ?s" by (rule resp_reach.step[OF resp_reach.start])
  have w: "re_hourly (rw_eng web_queued) = []" "gd_max_per_hour (re_guard (rw_eng web_queued)) \<le> 3" by code_simp+
  have auto: "sy_auto ?s = [hour]" using a by (simp add: fresh_sys_def)
  from hourly_cap[OF r w] show ?thesis using r auto by (metis append_Nil2 zero_le_numeral)
qed

section \<open>What the interleaving and a restart allow\<close>

text \<open>A proposal that is rejected while its approval is under way, and what the approval then does.\<close>

definition race_begun :: "tapMgr resp \<times> approval" where
  "race_begun = approve_check ''a-1'' ''alice'' (hour + minute) (web_book [web_action ''a-1'' ''pending''])"

definition race_rejected :: "(tapMgr resp \<times> Action \<times> action_err option) option" where
  "race_rejected = Reject ''a-1'' ''bob'' (hour + minute) (fst race_begun)"

definition race_carried :: "(tapMgr resp \<times> Action \<times> action_err option) option" where
  "race_carried = Option.bind race_rejected (approve_carry web_rdeps 0 (contain ''propose'') False ''alice'' (hour + minute) (hour + minute) \<circ> fst)"

text \<open>
  A rejected proposal can still be carried out: \<open>Approve\<close> frees the lock between checking that the proposal is
  pending and isolating. When a rejection comes in between, it is accepted and recorded, the VM is not isolated at
  that moment, and then the approval isolates it and overwrites the rejection, without an error.
\<close>

theorem rejected_and_isolated:
  "snd race_begun = Carry 0 (contain ''propose'') False \<and>
   (\<exists>w a. race_rejected = Some (w, a, None) \<and> ac_status a = ''rejected'' \<and> \<not> TapIsolated ''vnet0'' (rw_k w)) \<and>
   (\<exists>w a. race_carried = Some (w, a, None) \<and> ac_status (act_at w 0) = ''executed'' \<and> TapIsolated ''vnet0'' (rw_k w))"
proof -
  let ?f = "\<lambda>x :: tapMgr resp \<times> Action \<times> action_err option. (ac_status (fst (snd x)), TapIsolated ''vnet0'' (rw_k (fst x)), snd (snd x) = None)"
  let ?g = "\<lambda>x :: tapMgr resp \<times> Action \<times> action_err option. (ac_status (act_at (fst x) 0), TapIsolated ''vnet0'' (rw_k (fst x)), snd (snd x) = None)"
  have "snd race_begun = Carry 0 (contain ''propose'') False" by code_simp
  moreover have "map_option ?f race_rejected = Some (''rejected'', False, True)" by code_simp
  moreover have "map_option ?g race_carried = Some (''executed'', True, True)" by code_simp
  ultimately show ?thesis by auto
qed

text \<open>
  The hourly cap does not survive a restart: an automatic isolation that has released itself since is not
  counted again when the engine is restored from its log, although it was carried out minutes ago.
\<close>

theorem restart_forgets_released:
  "let a = (web_action ''a-1'' ''executed'')\<lparr>ac_mode := ''enforce''\<rparr>;
       released = a\<lparr>ac_status := ''released'', ac_released := hour + 10 * minute\<rparr>;
       now = hour + 20 * minute
   in re_hourly (response_Restore now [a] (response_New None)) = [hour] \<and>
      re_hourly (response_Restore now [a, released] (response_New None)) = []"
  by code_simp

definition stuck_world :: "tapMgr resp" where
  "stuck_world = (web_book [web_action ''a-1'' ''executed''])
     \<lparr>rw_k := fst (SetTapIsolated ''vnet0'' True one_tap)\<lparr>km_faults := [True]\<rparr>\<rparr>"

text \<open>
  A release that fails is not tried again: when the time of an isolation has come and the kernel refuses the
  update, the tick marks the action released all the same, so later ticks leave the VM isolated.
\<close>

theorem failed_release_not_retried:
  "\<exists>w w'. Tick web_rdeps (hour + 10 * minute) stuck_world = Some w \<and> ac_status (act_at w 0) = ''released'' \<and>
     Tick web_rdeps (hour + 20 * minute) w = Some w' \<and> TapIsolated ''vnet0'' (rw_k w')"
proof -
  let ?t = "Tick web_rdeps (hour + 10 * minute) stuck_world"
  let ?t2 = "Option.bind ?t (Tick web_rdeps (hour + 20 * minute))"
  have "map_option (\<lambda>w. ac_status (act_at w 0)) ?t = Some ''released''" by code_simp
  then obtain w where w: "?t = Some w" "ac_status (act_at w 0) = ''released''" by auto
  have "map_option (\<lambda>w. TapIsolated ''vnet0'' (rw_k w)) ?t2 = Some True" by code_simp
  then obtain w' where "?t2 = Some w'" "TapIsolated ''vnet0'' (rw_k w')" by auto
  then show ?thesis using w by auto
qed

end
