(* ===== verification/Md5.thy ===== *)
theory Md5
  imports Netip
begin

text \<open>
  Bytes, and Go's \<open>crypto/md5\<close> and \<open>encoding/hex\<close> on them, as far as the JA3 fingerprint of
  \<open>internal/observe/tls.go\<close> uses them.
\<close>

unbundle bit_operations_syntax

section \<open>Bytes\<close>

type_synonym bytes = "u8 list"

definition be :: "bytes \<Rightarrow> int" where
  "be bs = foldl (\<lambda>n b. n * 256 + uint b) 0 bs"

definition le :: "bytes \<Rightarrow> int" where
  "le bs = be (rev bs)"

definition slice :: "nat \<Rightarrow> nat \<Rightarrow> bytes \<Rightarrow> bytes" where
  "slice i j b = take (j - i) (drop i b)"

definition byte_char :: "u8 \<Rightarrow> char" where
  "byte_char b = char_of (unat b)"

definition char_byte :: "char \<Rightarrow> u8" where
  "char_byte c = word_of_int (of_char c)"

definition le_bytes :: "nat \<Rightarrow> int \<Rightarrow> bytes" where
  "le_bytes n v = map (\<lambda>i. word_of_int (v div 256 ^ i)) [0..<n]"

section \<open>The digest\<close>

definition md5_shift :: "nat list" where
  "md5_shift = concat (replicate 4 [7, 12, 17, 22]) @ concat (replicate 4 [5, 9, 14, 20]) @
     concat (replicate 4 [4, 11, 16, 23]) @ concat (replicate 4 [6, 10, 15, 21])"

definition md5_table :: "u32 list" where
  "md5_table = [
     0xd76aa478, 0xe8c7b756, 0x242070db, 0xc1bdceee, 0xf57c0faf, 0x4787c62a, 0xa8304613, 0xfd469501,
     0x698098d8, 0x8b44f7af, 0xffff5bb1, 0x895cd7be, 0x6b901122, 0xfd987193, 0xa679438e, 0x49b40821,
     0xf61e2562, 0xc040b340, 0x265e5a51, 0xe9b6c7aa, 0xd62f105d, 0x2441453, 0xd8a1e681, 0xe7d3fbc8,
     0x21e1cde6, 0xc33707d6, 0xf4d50d87, 0x455a14ed, 0xa9e3e905, 0xfcefa3f8, 0x676f02d9, 0x8d2a4c8a,
     0xfffa3942, 0x8771f681, 0x6d9d6122, 0xfde5380c, 0xa4beea44, 0x4bdecfa9, 0xf6bb4b60, 0xbebfbc70,
     0x289b7ec6, 0xeaa127fa, 0xd4ef3085, 0x4881d05, 0xd9d4d039, 0xe6db99e5, 0x1fa27cf8, 0xc4ac5665,
     0xf4292244, 0x432aff97, 0xab9423a7, 0xfc93a039, 0x655b59c3, 0x8f0ccc92, 0xffeff47d, 0x85845dd1,
     0x6fa87e4f, 0xfe2ce6e0, 0xa3014314, 0x4e0811a1, 0xf7537e82, 0xbd3af235, 0x2ad7d2bb, 0xeb86d391]"

type_synonym md5_state = "u32 \<times> u32 \<times> u32 \<times> u32"

definition md5_mix :: "nat \<Rightarrow> u32 \<Rightarrow> u32 \<Rightarrow> u32 \<Rightarrow> u32 \<times> nat" where
  "md5_mix i b c d =
     (if i < 16 then ((b AND c) OR (NOT b AND d), i)
      else if i < 32 then ((d AND b) OR (NOT d AND c), (5 * i + 1) mod 16)
      else if i < 48 then (b XOR c XOR d, (3 * i + 5) mod 16)
      else (c XOR (b OR NOT d), (7 * i) mod 16))"

definition md5_round :: "u32 list \<Rightarrow> nat \<Rightarrow> md5_state \<Rightarrow> md5_state" where
  "md5_round m i = (\<lambda>(a, b, c, d).
     let (f, g) = md5_mix i b c d in (d, b + word_rotl (md5_shift ! i) (a + f + md5_table ! i + m ! g), b, c))"

definition md5_block :: "md5_state \<Rightarrow> bytes \<Rightarrow> md5_state" where
  "md5_block s block =
     (let m = map (\<lambda>k. word_of_int (le (slice (4 * k) (4 * k + 4) block))) [0..<16];
          (a, b, c, d) = s; (a', b', c', d') = fold (md5_round m) [0..<64] s
      in (a + a', b + b', c + c', d + d'))"

fun blocks :: "nat \<Rightarrow> bytes \<Rightarrow> bytes list" where
  "blocks 0 bs = []"
| "blocks (Suc n) bs = take 64 bs # blocks n (drop 64 bs)"

definition md5_pad :: "bytes \<Rightarrow> bytes" where
  "md5_pad bs = bs @ [0x80] @ replicate ((119 - length bs mod 64) mod 64) 0 @ le_bytes 8 (8 * int (length bs))"

definition md5_Sum :: "bytes \<Rightarrow> bytes" where
  "md5_Sum bs =
     (let p = md5_pad bs;
          (a, b, c, d) = foldl md5_block (0x67452301, 0xefcdab89, 0x98badcfe, 0x10325476) (blocks (length p div 64) p)
      in concat (map (\<lambda>w. le_bytes 4 (uint w)) [a, b, c, d]))"

definition hex_Encode :: "bytes \<Rightarrow> string" where
  "hex_Encode bs = concat (map (\<lambda>b. [hex_char (uint b div 16), hex_char (uint b mod 16)]) bs)"

section \<open>Shape of the digest\<close>

lemma length_hex_Encode [simp]: "length (hex_Encode bs) = 2 * length bs"
  by (induction bs) (simp_all add: hex_Encode_def)

lemma length_md5_Sum [simp]: "length (md5_Sum bs) = 16"
  by (simp add: md5_Sum_def Let_def le_bytes_def split_beta)

lemma hex_char_safe: "0 \<le> d \<Longrightarrow> d < 16 \<Longrightarrow> hex_char d \<in> set ''0123456789abcdef''"
proof -
  assume "0 \<le> d" "d < 16"
  then have "d = 0 \<or> d = 1 \<or> d = 2 \<or> d = 3 \<or> d = 4 \<or> d = 5 \<or> d = 6 \<or> d = 7 \<or> d = 8 \<or> d = 9 \<or> d = 10 \<or> d = 11 \<or>
    d = 12 \<or> d = 13 \<or> d = 14 \<or> d = 15" by presburger
  then show ?thesis by (elim disjE; hypsubst; code_simp)
qed

lemma hex_Encode_safe: "set (hex_Encode bs) \<subseteq> set ''0123456789abcdef''"
proof
  fix c assume "c \<in> set (hex_Encode bs)"
  then obtain b :: u8 where c: "c = hex_char (uint b div 16) \<or> c = hex_char (uint b mod 16)" by (auto simp: hex_Encode_def)
  have "uint b div 16 < 16" "0 \<le> uint b div 16" using uint_bounded[of b] by (auto simp: pos_imp_zdiv_nonneg_iff)
  with c show "c \<in> set ''0123456789abcdef''" by (elim disjE) (simp_all only: hex_char_safe pos_mod_bound pos_mod_sign)
qed

end
