(* ===== verification/Decode.thy ===== *)
theory Decode
  imports Md5 Event Netip
begin

text \<open>
  The decoders of the samples the kernel programs send: \<open>internal/observe/decode.go\<close> (process events), \<open>tap.go\<close>
  and \<open>tap_bpf.go\<close> (connects seen on a tap), \<open>dns.go\<close> (questions a guest asked), \<open>tls.go\<close> (ClientHellos) and
  \<open>vmm.go\<close> (what a VMM process did). Bytes are words of eight bits. Every decoder checks the length first, which
  puts each fixed offset it reads in range; where the code walks a slice with an index, the model walks what
  is left of it.
\<close>

section \<open>Fields\<close>

definition u16_at :: "nat \<Rightarrow> bytes \<Rightarrow> u16" where
  "u16_at i b = word_of_int (le (slice i (i + 2) b))"

definition u32_at :: "nat \<Rightarrow> bytes \<Rightarrow> u32" where
  "u32_at i b = word_of_int (le (slice i (i + 4) b))"

definition u64_at :: "nat \<Rightarrow> bytes \<Rightarrow> u64" where
  "u64_at i b = word_of_int (le (slice i (i + 8) b))"

text \<open>\<open>net.IP.String\<close> of four bytes and of sixteen.\<close>

definition ip4_text :: "bytes \<Rightarrow> string" where
  "ip4_text b = addr_String (V4 (word_of_int (be b)))"

definition ip16_text :: "bytes \<Rightarrow> string" where
  "ip16_text b = addr_String (Unmap (V6 (word_of_int (be b)) ''''))"

text \<open>The addresses of a sample, by its family byte.\<close>

definition addrs_at :: "u8 \<Rightarrow> nat \<Rightarrow> nat \<Rightarrow> bytes \<Rightarrow> (string \<times> string) option" where
  "addrs_at family s d b =
     (if family = 2 then Some (ip4_text (slice s (s + 4) b), ip4_text (slice d (d + 4) b))
      else if family = 10 then Some (ip16_text (slice s (s + 16) b), ip16_text (slice d (d + 16) b))
      else None)"

definition cString :: "bytes \<Rightarrow> string" where
  "cString b = map byte_char (takeWhile (\<lambda>c. c \<noteq> 0) b)"

section \<open>Process events\<close>

definition ring_kind :: "u32 \<Rightarrow> event_kind option" where
  "ring_kind k =
     (if k = 1 then Some KindExec else if k = 2 then Some KindTCPConnect else if k = 3 then Some KindTCPRetransmit
      else if k = 4 then Some KindBlockSlow else if k = 5 then Some KindSchedDelay else if k = 6 then Some KindExit
      else if k = 7 then Some KindReclaim else if k = 8 then Some KindOOM else None)"

definition ring_dst :: "bytes \<Rightarrow> string" where
  "ring_dst b =
     (if u16_at 22 b = 10 then ip16_text (slice 56 72 b)
      else if u16_at 22 b = 2 \<and> u32_at 24 b \<noteq> 0 then ip4_text (slice 24 28 b)
      else '''')"

definition DecodeRing :: "bytes \<Rightarrow> event option" where
  "DecodeRing b =
     (if length b < 72 then None
      else case ring_kind (u32_at 16 b) of
        None \<Rightarrow> None
      | Some ek \<Rightarrow>
         (let e = zero_event\<lparr>ev_kind := ek, ev_pid := u32_at 8 b, ev_tgid := u32_at 12 b, ev_ppid := u32_at 28 b,
                ev_comm := cString (slice 40 56 b)\<rparr>;
              e = (if ek = KindTCPConnect \<or> ek = KindTCPRetransmit then e\<lparr>ev_dport := u16_at 20 b, ev_dst := ring_dst b\<rparr> else e)
          in Some (if ek = KindBlockSlow \<or> ek = KindSchedDelay \<or> ek = KindReclaim then e\<lparr>ev_latency_ns := u64_at 32 b\<rparr> else e)))"

section \<open>Connects on a tap\<close>

definition policyName :: "u8 \<Rightarrow> string" where
  "policyName b = (if b = 1 then ''audit'' else if b = 2 then ''enforce'' else '''')"

definition tap_kind :: "u8 \<Rightarrow> u8 \<Rightarrow> (event_kind \<times> string) option" where
  "tap_kind proto dir =
     (if proto = 0 \<or> proto = 6 then Some (if dir = 1 then KindGuestInbound else KindGuestConnect, ''tcp'')
      else if proto = 17 then Some (KindGuestFlow, ''udp'')
      else None)"

definition decodeTap :: "bytes \<Rightarrow> (u32 \<Rightarrow> string) \<Rightarrow> event option" where
  "decodeTap b name =
     (if length b < 56 then None
      else case (tap_kind (b ! 18) (b ! 19), addrs_at (b ! 16) 24 40 b) of
        (Some (k, proto), Some (src, dst)) \<Rightarrow>
          (if name (u32_at 8 b) = '''' then None
           else Some (zero_event\<lparr>ev_iface := name (u32_at 8 b), ev_dport := u16_at 12 b, ev_blocked := (b ! 17 \<noteq> 0),
             ev_policy := policyName (b ! 20), ev_kind := k, ev_proto := proto, ev_src := src, ev_dst := dst\<rparr>))
      | _ \<Rightarrow> None)"

section \<open>DNS questions\<close>

definition qtypeNames :: "(int \<times> string) list" where
  "qtypeNames = [(1, ''A''), (2, ''NS''), (5, ''CNAME''), (6, ''SOA''), (12, ''PTR''), (15, ''MX''), (16, ''TXT''), (28, ''AAAA''),
     (33, ''SRV''), (35, ''NAPTR''), (43, ''DS''), (48, ''DNSKEY''), (52, ''TLSA''), (64, ''SVCB''), (65, ''HTTPS''), (255, ''ANY'')]"

definition qtypeName :: "u16 \<Rightarrow> string" where
  "qtypeName t = (case map_of qtypeNames (uint t) of Some n \<Rightarrow> n | None \<Rightarrow> ''TYPE'' @ Itoa (uint t))"

text \<open>A byte a guest chose, as a character that is safe to show: \<open>writeLabel\<close> and \<open>printable\<close> agree on it.\<close>

definition printable_byte :: "u8 \<Rightarrow> char" where
  "printable_byte c =
     (if 0x41 \<le> c \<and> c \<le> 0x5a then byte_char (c + 32) else if 0x20 < c \<and> c < 0x7f then byte_char c else CHR ''?'')"

definition writeLabel :: "string \<Rightarrow> bytes \<Rightarrow> string" where
  "writeLabel sb label = sb @ (if sb \<noteq> [] then ''.'' else []) @ map printable_byte label"

definition maxDNSName :: nat where
  "maxDNSName = 253"

text \<open>The name, the type, whether the name ended and its type was there, and whether it is a plain question.\<close>

function qname_loop :: "string \<Rightarrow> bytes \<Rightarrow> string \<times> u16 \<times> bool \<times> bool" where
  "qname_loop sb [] = (sb, 0, False, True)"
| "qname_loop sb (b # bs) =
     (if b = 0 then (if length bs < 2 then (sb, 0, False, True) else (sb, word_of_int (be (take 2 bs)), True, True))
      else if 63 < b then ('''', 0, False, False)
      else if length bs < unat b then (writeLabel sb bs, 0, False, True)
      else
        (let sb' = writeLabel sb (take (unat b) bs)
         in if maxDNSName < length sb' then (take maxDNSName sb', 0, False, True) else qname_loop sb' (drop (unat b) bs)))"
  by pat_completeness auto
termination by (relation "measure (length \<circ> snd)") auto

definition parseQName :: "bytes \<Rightarrow> string \<times> u16 \<times> bool \<times> bool" where
  "parseQName raw = qname_loop [] raw"

definition dns_event :: "bytes \<Rightarrow> string \<Rightarrow> string \<times> string \<Rightarrow> string \<times> u16 \<times> bool \<times> bool \<Rightarrow> event option" where
  "dns_event b iface sd q = (case q of (qname, qtype, fin, ok) \<Rightarrow>
     if \<not> ok then None
     else Some (zero_event\<lparr>ev_kind := KindGuestDNS, ev_proto := ''udp'', ev_dport := 53, ev_iface := iface,
       ev_blocked := (b ! 13 AND 1 \<noteq> 0), ev_src := fst sd, ev_dst := snd sd,
       ev_dns_name := (if qname = '''' then ''.'' else qname), ev_qtype := (if fin then qtypeName qtype else ''''),
       ev_dns_truncated := (\<not> fin)\<rparr>))"

definition decodeDNS :: "bytes \<Rightarrow> (u32 \<Rightarrow> string) \<Rightarrow> event option" where
  "decodeDNS b name =
     (if length b < 176 then None
      else case addrs_at (b ! 12) 16 32 b of
        None \<Rightarrow> None
      | Some sd \<Rightarrow>
         (if name (u32_at 8 b) = '''' then None
          else dns_event b (name (u32_at 8 b)) sd (parseQName (slice 48 (48 + min 128 (unat (u16_at 14 b))) b))))"

section \<open>ClientHellos\<close>

record clientHello =
  ch_sni :: string
  ch_alpn :: string
  ch_version :: string
  ch_ja3 :: string
  ch_ech :: bool
  ch_truncated :: bool

definition no_hello :: clientHello where
  "no_hello = \<lparr>ch_sni = '''', ch_alpn = '''', ch_version = '''', ch_ja3 = '''', ch_ech = False, ch_truncated = False\<rparr>"

definition isGrease :: "u16 \<Rightarrow> bool" where
  "isGrease v \<longleftrightarrow> v AND 0x0f0f = 0x0a0a \<and> drop_bit 8 v = v AND 0xff"

definition tlsVersionName :: "u16 \<Rightarrow> string" where
  "tlsVersionName v =
     (if v = 0x0304 then ''1.3'' else if v = 0x0303 then ''1.2'' else if v = 0x0302 then ''1.1'' else if v = 0x0301 then ''1.0''
      else if v = 0x0300 then ''SSL3'' else '''')"

definition printable :: "bytes \<Rightarrow> nat \<Rightarrow> string" where
  "printable b n = map printable_byte (take n b)"

text \<open>\<open>reader\<close>: what is left, and whether a read ran off the end.\<close>

record reader =
  rd_b :: bytes
  rd_bad :: bool

definition rd_take :: "nat \<Rightarrow> reader \<Rightarrow> bytes \<times> reader" where
  "rd_take n r =
     (if rd_bad r \<or> n > length (rd_b r) then ([], r\<lparr>rd_bad := True\<rparr>) else (take n (rd_b r), r\<lparr>rd_b := drop n (rd_b r)\<rparr>))"

definition rd_num :: "nat \<Rightarrow> reader \<Rightarrow> nat \<times> reader" where
  "rd_num n r = (let (v, r') = rd_take n r in (nat (be v), r'))"

abbreviation rd_u8 :: "reader \<Rightarrow> nat \<times> reader" where "rd_u8 \<equiv> rd_num 1"
abbreviation rd_u16 :: "reader \<Rightarrow> nat \<times> reader" where "rd_u16 \<equiv> rd_num 2"
abbreviation rd_u24 :: "reader \<Rightarrow> nat \<times> reader" where "rd_u24 \<equiv> rd_num 3"

text \<open>The pairs of bytes of a list, a lone last byte left out.\<close>

fun u16s :: "bytes \<Rightarrow> u16 list" where
  "u16s (a # b # bs) = word_of_int (be [a, b]) # u16s bs"
| "u16s bs = []"

definition decimals :: "u16 list \<Rightarrow> string list" where
  "decimals vs = map (\<lambda>v. Itoa (uint v)) (filter (\<lambda>v. \<not> isGrease v) vs)"

definition ja3 :: "nat \<Rightarrow> string list \<Rightarrow> string list \<Rightarrow> string list \<Rightarrow> string list \<Rightarrow> string" where
  "ja3 version ciphers exts groups formats =
     (let s = Join [Itoa (int version), Join ciphers ''-'', Join exts ''-'', Join groups ''-'', Join formats ''-''] '',''
      in hex_Encode (md5_Sum (map char_byte s)))"

text \<open>The first host name of the list in a server_name extension.\<close>

function server_loop :: "bytes \<Rightarrow> string" where
  "server_loop l =
     (if length l < 3 then ''''
      else
        (let n = nat (be (slice 1 3 l)); rest = drop 3 l
         in if l ! 0 = 0 then TrimDots (printable (take n rest) 253) else server_loop (drop n rest)))"
  by pat_completeness auto
termination by (relation "measure length") auto

declare server_loop.simps [simp del]

definition serverName :: "bytes \<Rightarrow> string" where
  "serverName data =
     (let (n, r) = rd_u16 \<lparr>rd_b = data, rd_bad = False\<rparr> in if rd_bad r then '''' else server_loop (take n (rd_b r)))"

function alpn_loop :: "nat \<Rightarrow> bytes \<Rightarrow> string list" where
  "alpn_loop k l =
     (if k = 0 \<or> l = [] then []
      else
        (let n = unat (hd l); p = take n (tl l); rest = drop n (tl l)
         in if p \<noteq> [] then printable p 32 # alpn_loop (k - 1) rest else alpn_loop k rest))"
  by pat_completeness auto
termination by (relation "measure (length \<circ> snd)") (auto simp: le_imp_less_Suc length_greater_0_conv[symmetric] simp del: length_greater_0_conv)

declare alpn_loop.simps [simp del]

definition alpn :: "bytes \<Rightarrow> string" where
  "alpn data =
     (let (n, r) = rd_u16 \<lparr>rd_b = data, rd_bad = False\<rparr>
      in take 64 (Join (if rd_bad r then [] else alpn_loop 8 (take n (rd_b r))) '',''))"

text \<open>What the loop over the extensions gathers.\<close>

record ext_state =
  es_h :: clientHello
  es_ex :: "string list"
  es_groups :: "string list"
  es_formats :: "string list"
  es_best :: u16

definition best_version :: "u16 list \<Rightarrow> u16 \<Rightarrow> u16" where
  "best_version vs best = foldl (\<lambda>m v. if tlsVersionName v \<noteq> '''' \<and> m < v then v else m) best vs"

definition ext_step :: "u16 \<Rightarrow> bytes \<Rightarrow> ext_state \<Rightarrow> ext_state" where
  "ext_step typ data st0 =
     (let st = (if isGrease typ then st0 else st0\<lparr>es_ex := es_ex st0 @ [Itoa (uint typ)]\<rparr>); h = es_h st
      in if typ = 0 then st\<lparr>es_h := h\<lparr>ch_sni := serverName data\<rparr>\<rparr>
         else if typ = 16 then st\<lparr>es_h := h\<lparr>ch_alpn := alpn data\<rparr>\<rparr>
         else if typ = 43 then st\<lparr>es_best := best_version (u16s (drop 1 data)) (es_best st)\<rparr>
         else if typ = 10 then st\<lparr>es_groups := es_groups st @ decimals (u16s (drop 2 data))\<rparr>
         else if typ = 11 then st\<lparr>es_formats := es_formats st @ map (\<lambda>b. Itoa (uint b)) (drop 1 data)\<rparr>
         else if typ = 0xfe0d then st\<lparr>es_h := h\<lparr>ch_ech := True\<rparr>\<rparr>
         else st)"

function ext_loop :: "bytes \<Rightarrow> ext_state \<Rightarrow> ext_state" where
  "ext_loop e st =
     (if length e < 4 then (if e = [] then st else st\<lparr>es_h := (es_h st)\<lparr>ch_truncated := True\<rparr>\<rparr>)
      else
        (let n = nat (be (slice 2 4 e)); rest = drop 4 e
         in if n > length rest then st\<lparr>es_h := (es_h st)\<lparr>ch_truncated := True\<rparr>\<rparr>
            else ext_loop (drop n rest) (ext_step (word_of_int (be (slice 0 2 e))) (take n rest) st)))"
  by pat_completeness auto
termination by (relation "measure (length \<circ> fst)") auto

declare ext_loop.simps [simp del]

text \<open>The fixed part of the body: the version, the ciphers, and what follows the compression methods.\<close>

definition hello_head :: "bytes \<Rightarrow> nat \<times> bytes \<times> reader" where
  "hello_head body =
     (let (legacy, b) = rd_u16 \<lparr>rd_b = body, rd_bad = False\<rparr>; (_, b) = rd_take 32 b;
          (sid, b) = rd_u8 b; (_, b) = rd_take sid b;
          (n, b) = rd_u16 b; (ciphers, b) = rd_take n b;
          (comp, b) = rd_u8 b; (_, b) = rd_take comp b
      in (legacy, ciphers, b))"

definition hello_exts :: "nat \<Rightarrow> string list \<Rightarrow> bool \<Rightarrow> bytes \<Rightarrow> clientHello" where
  "hello_exts legacy cs truncated rest =
     (let n = nat (be (take 2 rest)); exts = drop 2 rest;
          st = ext_loop (take n exts) \<lparr>es_h = no_hello\<lparr>ch_truncated := (truncated \<or> n > length exts)\<rparr>, es_ex = [], es_groups = [],
            es_formats = [], es_best = 0\<rparr>;
          h = (es_h st)\<lparr>ch_version := tlsVersionName (if es_best st \<noteq> 0 then es_best st else of_nat legacy)\<rparr>
      in if ch_truncated h then h else h\<lparr>ch_ja3 := ja3 legacy cs (es_ex st) (es_groups st) (es_formats st)\<rparr>)"

definition hello_body :: "bool \<Rightarrow> bytes \<Rightarrow> clientHello" where
  "hello_body truncated body =
     (let (legacy, ciphers, b) = hello_head body; cs = decimals (u16s ciphers)
      in if rd_bad b then no_hello\<lparr>ch_truncated := True\<rparr>
         else if length (rd_b b) < 2 then
           (if truncated then no_hello\<lparr>ch_truncated := True\<rparr>
            else no_hello\<lparr>ch_version := tlsVersionName (of_nat legacy), ch_ja3 := ja3 legacy cs [] [] []\<rparr>)
         else hello_exts legacy cs truncated (rd_b b))"

definition parseClientHello :: "bytes \<Rightarrow> clientHello option" where
  "parseClientHello raw =
     (if length raw < 6 \<or> raw ! 0 \<noteq> 0x16 \<or> raw ! 1 \<noteq> 3 \<or> raw ! 2 > 4 \<or> raw ! 5 \<noteq> 1 then None
      else
        (let (_, r) = rd_u8 \<lparr>rd_b = drop 5 raw, rd_bad = False\<rparr>; (want, r) = rd_u24 r
         in if rd_bad r \<or> want > 16384 then None
            else Some (hello_body (want > length (rd_b r)) (take want (rd_b r)))))"

definition tls_event :: "bytes \<Rightarrow> string \<Rightarrow> string \<times> string \<Rightarrow> clientHello \<Rightarrow> event" where
  "tls_event b iface sd h = zero_event\<lparr>ev_kind := KindGuestTLS, ev_proto := ''tcp'', ev_iface := iface, ev_dport := u16_at 18 b,
     ev_blocked := (b ! 13 AND 1 \<noteq> 0), ev_src := fst sd, ev_dst := snd sd, ev_sni := ch_sni h, ev_alpn := ch_alpn h,
     ev_tls_version := ch_version h, ev_ja3 := ch_ja3 h, ev_ech := ch_ech h, ev_tls_truncated := ch_truncated h\<rparr>"

definition decodeTLS :: "bytes \<Rightarrow> (u32 \<Rightarrow> string) \<Rightarrow> event option" where
  "decodeTLS b name =
     (if length b < 1560 then None
      else case addrs_at (b ! 12) 24 40 b of
        None \<Rightarrow> None
      | Some sd \<Rightarrow>
         (if name (u32_at 8 b) = '''' then None
          else map_option (tls_event b (name (u32_at 8 b)) sd)
            (parseClientHello (slice 56 (56 + min 1504 (unat (u16_at 14 b))) b))))"

section \<open>What a VMM process did\<close>

definition vmmCalls :: "(int \<times> string) list" where
  "vmmCalls = [(1, ''openat''), (2, ''openat2''), (3, ''open''), (10, ''ptrace''), (11, ''process_vm_writev''), (12, ''process_vm_readv''),
     (13, ''mount''), (14, ''unshare''), (15, ''setns''), (16, ''init_module''), (17, ''finit_module''), (18, ''kexec_load''),
     (19, ''kexec_file_load''), (255, ''flood'')]"

definition ptraceRequests :: "(int \<times> string) list" where
  "ptraceRequests = [(0, ''TRACEME''), (1, ''PEEKTEXT''), (2, ''PEEKDATA''), (4, ''POKETEXT''), (5, ''POKEDATA''), (16, ''ATTACH''),
     (17, ''DETACH''), (0x4206, ''SEIZE'')]"

definition cloneNamespaces :: "(u64 \<times> string) list" where
  "cloneNamespaces = [(0x20000, ''mount''), (0x10000000, ''user''), (0x20000000, ''pid''), (0x40000000, ''net''), (0x2000000, ''cgroup''),
     (0x4000000, ''uts''), (0x8000000, ''ipc'')]"

definition path_byte :: "u8 \<Rightarrow> char" where
  "path_byte c = (if 0x20 \<le> c \<and> c < 0x7f then byte_char c else CHR ''?'')"

definition printablePath :: "bytes \<Rightarrow> string" where
  "printablePath b = map path_byte b"

definition namespaces :: "u64 \<Rightarrow> string" where
  "namespaces flags = Join (map snd (filter (\<lambda>n. flags AND fst n \<noteq> 0) cloneNamespaces)) '', ''"

text \<open>\<open>%d\<close> of \<open>int32(a)\<close>, and \<open>%#x\<close>.\<close>

definition int32_text :: "'a::len word \<Rightarrow> string" where
  "int32_text a = Itoa (sint (ucast a :: u32))"

definition hex_text :: "u64 \<Rightarrow> string" where
  "hex_text a = ''0x'' @ hex_digits (uint a)"

definition ptrace_text :: "u64 \<Rightarrow> string" where
  "ptrace_text a0 = (case map_of ptraceRequests (uint a0) of
      Some n \<Rightarrow> Itoa (uint a0) @ '' ('' @ n @ '')'' | None \<Rightarrow> Itoa (uint a0))"

definition vmmDetail :: "u32 \<Rightarrow> u64 \<Rightarrow> u64 \<Rightarrow> string" where
  "vmmDetail call a0 a1 =
     (if call = 10 then ''request '' @ ptrace_text a0 @ '' on pid '' @ int32_text a1
      else if call = 11 then ''writes the memory of pid '' @ int32_text a0
      else if call = 12 then ''reads the memory of pid '' @ int32_text a0
      else if call = 13 then ''flags '' @ hex_text a0
      else if call = 14 then (if namespaces a0 \<noteq> '''' then ''new '' @ namespaces a0 @ '' namespace'' else ''no namespace flag'')
      else if call = 15 then ''into the namespace of fd '' @ int32_text a0 @ '', type '' @ hex_text a1
      else if call = 17 then ''module fd '' @ int32_text a0 @ '', flags '' @ hex_text a1
      else '''')"

text \<open>\<open>indexNUL\<close> and the cut at it: what stands before the first zero byte.\<close>

definition before_NUL :: "bytes \<Rightarrow> bytes" where
  "before_NUL b = takeWhile (\<lambda>c. c \<noteq> 0) b"

definition vmm_path :: "bytes \<Rightarrow> string" where
  "vmm_path b = printablePath (before_NUL (slice 72 (72 + min 256 (unat (u16_at 48 b))) b))"

definition vmm_opens :: "u32 \<Rightarrow> bool" where
  "vmm_opens call \<longleftrightarrow> call = 1 \<or> call = 2 \<or> call = 3"

definition open_writes :: "u32 \<Rightarrow> u32 \<Rightarrow> bool" where
  "open_writes call flags \<longleftrightarrow> call \<noteq> 2 \<and> (flags AND 3 \<noteq> 0 \<or> flags AND 0x40 \<noteq> 0 \<or> flags AND 0x200 \<noteq> 0)"

definition open_detail :: "u32 \<Rightarrow> string \<Rightarrow> string" where
  "open_detail dfd path =
     (if sint dfd \<noteq> -100 \<and> \<not> HasPrefix path ''/'' \<and> path \<noteq> '''' then ''relative to fd '' @ int32_text dfd else '''')"

definition decodeVMM :: "bytes \<Rightarrow> event option" where
  "decodeVMM b =
     (if length b < 328 then None
      else case map_of vmmCalls (uint (u32_at 20 b)) of
        None \<Rightarrow> None
      | Some name \<Rightarrow>
         (let call = u32_at 20 b;
              e = zero_event\<lparr>ev_tgid := u32_at 8 b, ev_pid := u32_at 12 b, ev_comm := printablePath (before_NUL (slice 56 72 b)),
                ev_syscall := name\<rparr>
          in Some (if vmm_opens call then
                     e\<lparr>ev_kind := KindVMMOpen, ev_write := open_writes call (u32_at 28 b), ev_path := vmm_path b,
                       ev_detail := open_detail (u32_at 24 b) (vmm_path b)\<rparr>
                   else if call = 255 then e\<lparr>ev_kind := KindVMMCall, ev_count := u64_at 32 b\<rparr>
                   else e\<lparr>ev_kind := KindVMMCall, ev_detail := vmmDetail call (u64_at 32 b) (u64_at 40 b)\<rparr>)))"

section \<open>Reading a ring\<close>

text \<open>\<open>readTapRing\<close> and \<open>readRing\<close>: each read of the ring gives a record, an error, or that the ring was closed. What the
  handler was called with, in order, and the process-wide count of what was lost.\<close>

datatype ring_read = RingRecord bytes | RingError | RingClosed

record ring_out =
  ro_handled :: "event list"
  ro_lost :: u64

definition ring_record :: "(bytes \<Rightarrow> event option) \<Rightarrow> bytes \<Rightarrow> ring_out \<Rightarrow> ring_out" where
  "ring_record dec raw st = (case dec raw of
      Some e \<Rightarrow> st\<lparr>ro_handled := ro_handled st @ [e]\<rparr>
    | None \<Rightarrow> st\<lparr>ro_lost := ro_lost st + 1\<rparr>)"

fun readTapRing :: "(bytes \<Rightarrow> event option) \<Rightarrow> ring_read list \<Rightarrow> ring_out \<Rightarrow> ring_out" where
  "readTapRing dec [] st = st"
| "readTapRing dec (RingClosed # rs) st = st"
| "readTapRing dec (RingError # rs) st = readTapRing dec rs (st\<lparr>ro_lost := ro_lost st + 1\<rparr>)"
| "readTapRing dec (RingRecord raw # rs) st = readTapRing dec rs (ring_record dec raw st)"

definition readRing :: "ring_read list \<Rightarrow> ring_out \<Rightarrow> ring_out" where
  "readRing = readTapRing DecodeRing"

end
