(* ===== verification/DecodeProps.thy ===== *)
theory DecodeProps
  imports Decode
begin

text \<open>
  What the decoders promise: a DNS question is read back; text that a guest or a VMM process chose is shown as printable
  ASCII of bounded length; bytes of a record that are not the packet's are never read; a ClientHello that was cut short
  never shows a part of a name, and never a fingerprint.
\<close>

section \<open>Text that is safe to show\<close>

definition shown_char :: "char \<Rightarrow> bool" where
  "shown_char c \<longleftrightarrow> (let n = of_char c :: int in 0x20 < n \<and> n < 0x7f \<and> \<not> (0x41 \<le> n \<and> n \<le> 0x5a))"

abbreviation shown :: "string \<Rightarrow> bool" where
  "shown s \<equiv> list_all shown_char s"

lemma of_char_byte: "(of_char (byte_char b) :: int) = uint b"
proof -
  have "unat b < 256" using unsigned_less[of b, where 'a = nat] by simp
  then have "(of_char (byte_char b) :: nat) = unat b" by (simp add: byte_char_def)
  then have "int (of_char (byte_char b)) = int (unat b)" by simp
  then show ?thesis by (simp only: of_nat_of_char of_nat_unat)
qed

lemma printable_byte_shown [simp]: "shown_char (printable_byte c)"
proof -
  have "of_char CHR ''?'' = (63::int)" by code_simp
  moreover have "uint (c + 32) = uint c + 32" if "c \<le> 0x5a"
    using that by (simp add: uint_plus_simple_iff[symmetric] word_le_def uint_word_ariths)
  ultimately show ?thesis
    unfolding shown_char_def printable_byte_def Let_def
    by (auto simp: of_char_byte word_le_def word_less_def)
qed

lemma shown_dot [simp]: "shown_char (CHR ''.'')" "shown_char (CHR '','')"
  by code_simp+

lemma shown_printable [simp]: "shown (printable b n)"
  by (simp add: printable_def list_all_iff)

lemma shown_TrimDots [simp]: "shown s \<Longrightarrow> shown (TrimDots s)"
  by (auto simp: TrimDots_def trim_by_def list_all_iff dest!: set_dropWhileD)

lemma length_TrimDots: "length (TrimDots s) \<le> length s"
  by (simp add: TrimDots_def trim_by_def) (metis length_dropWhile_le length_rev order_trans)

lemma shown_Join [simp]: "list_all shown ws \<Longrightarrow> shown sep \<Longrightarrow> shown (Join ws sep)"
  by (induction ws sep rule: Join.induct) auto

lemma shown_take [simp]: "shown s \<Longrightarrow> shown (take n s)"
  by (auto simp: list_all_iff dest: in_set_takeD)

section \<open>DNS questions\<close>

definition wire_labels :: "bytes list \<Rightarrow> bytes" where
  "wire_labels ls = concat (map (\<lambda>l. of_nat (length l) # l) ls)"

definition label_text :: "bytes \<Rightarrow> string" where
  "label_text l = map printable_byte l"

lemma qname_loop_label:
  assumes "l \<noteq> []" "length l \<le> 63" "length (writeLabel sb l) \<le> maxDNSName"
  shows "qname_loop sb (of_nat (length l) # l @ bs) = qname_loop (writeLabel sb l) bs"
proof -
  let ?n = "of_nat (length l) :: u8"
  have n: "unat ?n = length l" using assms(2) by (simp add: unsigned_of_nat take_bit_nat_eq_self)
  then have u: "uint ?n = int (length l)" by (simp only: uint_nat)
  from u have "\<not> 63 < ?n" using assms(2) by (simp add: word_less_def)
  moreover from u have "?n \<noteq> 0" using assms(1) by (metis length_0_conv of_nat_eq_0_iff uint_0_eq)
  ultimately show ?thesis using n assms(3) by (simp add: Let_def)
qed

lemma length_foldl_writeLabel: "length sb \<le> length (foldl writeLabel sb ls)"
  proof (induction ls arbitrary: sb)
  case (Cons l ls)
  have "length sb \<le> length (writeLabel sb l)" by (simp add: writeLabel_def)
  with Cons[of "writeLabel sb l"] show ?case by simp
qed simp

lemma qname_loop_labels:
  assumes "\<forall>l \<in> set ls. l \<noteq> [] \<and> length l \<le> 63" "length (foldl writeLabel sb ls) \<le> maxDNSName"
  shows "qname_loop sb (wire_labels ls @ bs) = qname_loop (foldl writeLabel sb ls) bs"
  using assms
proof (induction ls arbitrary: sb)
  case (Cons l ls)
  then have "length (writeLabel sb l) \<le> maxDNSName"
    using length_foldl_writeLabel[of "writeLabel sb l" ls] by simp
  then have "qname_loop sb (wire_labels (l # ls) @ bs) = qname_loop (writeLabel sb l) (wire_labels ls @ bs)"
    using Cons.prems(1) qname_loop_label[of l sb "wire_labels ls @ bs"] by (simp add: wire_labels_def)
  with Cons show ?case by simp
qed (simp add: wire_labels_def)

lemma foldl_writeLabel: "sb \<noteq> [] \<Longrightarrow> foldl writeLabel sb ls = Join (sb # map label_text ls) ''.''"
proof (induction ls arbitrary: sb)
  case (Cons l ls)
  have "writeLabel sb l = sb @ ''.'' @ label_text l" using Cons.prems by (simp add: writeLabel_def label_text_def)
  then have "foldl writeLabel sb (l # ls) = Join ((sb @ ''.'' @ label_text l) # map label_text ls) ''.''"
    using Cons by simp
  also have "\<dots> = Join (sb # map label_text (l # ls)) ''.''" by (cases ls) simp_all
  finally show ?case .
qed simp

lemma foldl_writeLabel_Nil: "\<forall>l \<in> set ls. l \<noteq> [] \<Longrightarrow> foldl writeLabel [] ls = Join (map label_text ls) ''.''"
  by (cases ls) (simp_all add: writeLabel_def foldl_writeLabel label_text_def)

text \<open>C33. A question in wire format is read back: a name of labels of 1 to 63 bytes whose text fits in 253 characters, followed
  by a zero byte and a type, gives its labels, made lower-case and printable and joined with dots, and the type; the name is
  complete, and what follows the type is not read.\<close>

theorem parseQName_roundtrip:
  assumes "\<forall>l \<in> set ls. l \<noteq> [] \<and> length l \<le> 63" "length (Join (map label_text ls) ''.'') \<le> maxDNSName"
  shows "parseQName (wire_labels ls @ [0, x, y] @ rest) = (Join (map label_text ls) ''.'', word_of_int (be [x, y]), True, True)"
proof -
  have *: "foldl writeLabel [] ls = Join (map label_text ls) ''.''" using assms(1) foldl_writeLabel_Nil by blast
  show ?thesis
    unfolding parseQName_def using assms qname_loop_labels[of ls "[]" "[0, x, y] @ rest"] unfolding * by simp
qed

theorem parseQName_roundtrip_witness:
  "parseQName (wire_labels [map char_byte ''WWW'', map char_byte ''Example'', map char_byte ''com''] @ [0, 0, 28] @ [0, 1]) =
     (''www.example.com'', 28, True, True)"
  using parseQName_roundtrip[of "[map char_byte ''WWW'', map char_byte ''Example'', map char_byte ''com'']" 0 28 "[0, 1]"]
  by code_simp

lemma shown_writeLabel [simp]: "shown (writeLabel sb l) \<longleftrightarrow> shown sb"
  by (simp add: writeLabel_def list_all_iff ball_Un)

lemma length_writeLabel: "length (writeLabel sb l) \<le> length sb + 1 + length l"
  by (simp add: writeLabel_def)

lemma qname_loop_safe:
  "shown sb \<Longrightarrow> qname_loop sb bs = (n, t, fin, ok) \<Longrightarrow> shown n \<and> length n \<le> length sb + length bs"
proof (induction sb bs rule: qname_loop.induct)
  case (2 sb b bs)
  let ?sb = "writeLabel sb (take (unat b) bs)"
  have l: "length ?sb \<le> length sb + 1 + unat b" using length_writeLabel[of sb "take (unat b) bs"] by simp
  have c: "length (writeLabel sb bs) \<le> Suc (length sb + length bs)" using length_writeLabel[of sb bs] by simp
  consider "b = 0" | "b \<noteq> 0" "63 < b" | "b \<noteq> 0" "\<not> 63 < b" "length bs < unat b"
    | "b \<noteq> 0" "\<not> 63 < b" "\<not> length bs < unat b" "maxDNSName < length ?sb"
    | "b \<noteq> 0" "\<not> 63 < b" "\<not> length bs < unat b" "\<not> maxDNSName < length ?sb" by blast
  then show ?case
  proof cases
    case 5
    with 2 have "shown n \<and> length n \<le> length ?sb + length (drop (unat b) bs)" by (simp add: Let_def)
    with l 5 show ?thesis by auto
  qed (use 2 l c in \<open>auto split: if_splits simp: Let_def\<close>)
qed auto

text \<open>A decoded DNS question is safe to show: the name is never empty, at most 128 characters, printable ASCII without
  capitals or spaces, whatever the guest sent; the type is there exactly when the name was not cut short; and the event
  names a tap that is still tracked.\<close>

theorem decodeDNS_safe:
  assumes "decodeDNS b name = Some e"
  shows "shown (ev_dns_name e) \<and> ev_dns_name e \<noteq> '''' \<and> length (ev_dns_name e) \<le> 128 \<and>
    (ev_qtype e = '''' \<longleftrightarrow> ev_dns_truncated e) \<and> ev_iface e = name (u32_at 8 b) \<and> ev_iface e \<noteq> '''' \<and> ev_kind e = KindGuestDNS"
proof -
  define raw where "raw = slice 48 (48 + min 128 (unat (u16_at 14 b))) b"
  obtain qn t fin ok where q: "parseQName raw = (qn, t, fin, ok)" by (metis prod.exhaust)
  have "length raw \<le> 128" by (simp add: raw_def slice_def)
  with q have n: "shown qn" "length qn \<le> 128" using qname_loop_safe[of "[]" raw qn t fin ok] by (simp_all add: parseQName_def)
  have t: "qtypeName t \<noteq> ''''" by (auto simp: qtypeName_def qtypeNames_def split: option.splits dest!: map_of_SomeD)
  from assms obtain sd where "dns_event b (name (u32_at 8 b)) sd (qn, t, fin, ok) = Some e" "name (u32_at 8 b) \<noteq> ''''"
    unfolding decodeDNS_def raw_def[symmetric] q by (auto split: if_splits option.splits)
  then show ?thesis using n t by (auto simp: dns_event_def split: if_splits)
qed

definition web_taps :: "u32 \<Rightarrow> string" where
  "web_taps i = (if i = 7 then ''vnet0'' else '''')"

definition web_question :: bytes where
  "web_question = replicate 8 0 @ [7, 0, 0, 0] @ [2, 0, 12, 0] @ [10, 0, 0, 9] @ replicate 12 0 @ [8, 8, 8, 8] @ replicate 12 0 @
     [3, 119, 10, 119, 2, 73, 79, 0, 0, 28, 0, 1] @ replicate 116 65"

theorem decodeDNS_safe_witness:
  "map_option (\<lambda>e. (ev_dns_name e, ev_qtype e, ev_dst e, shown (ev_dns_name e))) (decodeDNS web_question web_taps) =
     Some (''w?w.io'', ''AAAA'', ''8.8.8.8'', True)"
proof -
  have *: "map_option (\<lambda>e. (ev_dns_name e, ev_qtype e, ev_dst e)) (decodeDNS web_question web_taps) = Some (''w?w.io'', ''AAAA'', ''8.8.8.8'')"
    by code_simp
  then obtain e where e: "decodeDNS web_question web_taps = Some e" by (auto simp del: web_question_def)
  with * decodeDNS_safe[OF e] show ?thesis by simp
qed

section \<open>ClientHellos\<close>

lemma server_loop_safe: "shown (server_loop l) \<and> length (server_loop l) \<le> 253"
proof (induction l rule: server_loop.induct)
  case (1 l)
  have "length (TrimDots (printable b 253)) \<le> 253" for b
    using length_TrimDots[of "printable b 253"] by (simp add: printable_def)
  with 1 show ?case by (subst (1 2) server_loop.simps) (simp add: Let_def)
qed

lemma serverName_safe: "shown (serverName d) \<and> length (serverName d) \<le> 253"
  using server_loop_safe by (simp add: serverName_def split: prod.splits)

lemma alpn_loop_shown: "list_all shown (alpn_loop k l)"
proof (induction k l rule: alpn_loop.induct)
  case (1 k l)
  then show ?case by (subst alpn_loop.simps) (simp add: Let_def)
qed

lemma alpn_safe: "shown (alpn d) \<and> length (alpn d) \<le> 64"
  using alpn_loop_shown by (simp add: alpn_def split: prod.splits)

text \<open>The extensions a list holds whole, and whether it ends in the middle of one: what the loop is measured against.\<close>

function ext_split :: "bytes \<Rightarrow> (u16 \<times> bytes) list \<times> bool" where
  "ext_split e =
     (if length e < 4 then ([], e \<noteq> [])
      else if nat (be (slice 2 4 e)) > length (drop 4 e) then ([], True)
      else
        (let rest = drop 4 e; n = nat (be (slice 2 4 e))
         in apfst (Cons (word_of_int (be (slice 0 2 e)), take n rest)) (ext_split (drop n rest))))"
  by pat_completeness auto
termination by (relation "measure length") auto

declare ext_split.simps [simp del]

definition mark_cut :: "bool \<Rightarrow> ext_state \<Rightarrow> ext_state" where
  "mark_cut c st = (if c then st\<lparr>es_h := (es_h st)\<lparr>ch_truncated := True\<rparr>\<rparr> else st)"

abbreviation ext_fold :: "(u16 \<times> bytes) list \<Rightarrow> ext_state \<Rightarrow> ext_state" where
  "ext_fold xs st \<equiv> fold (\<lambda>(t, d). ext_step t d) xs st"

lemma ext_loop_split: "ext_loop e st = mark_cut (snd (ext_split e)) (ext_fold (fst (ext_split e)) st)"
proof (induction e st rule: ext_loop.induct)
  case (1 e st)
  then show ?case by (subst ext_loop.simps, subst (1 2) ext_split.simps) (simp add: Let_def mark_cut_def)
qed

lemma slice_take: "j \<le> k \<Longrightarrow> slice i j (take k b) = slice i j b"
  by (simp add: slice_def drop_take min_def)

lemma ext_split_take: "prefix (fst (ext_split (take k e))) (fst (ext_split e))"
proof (induction e arbitrary: k rule: ext_split.induct)
  case (1 e)
  let ?n = "nat (be (slice 2 4 e))"
  show ?case
  proof (cases "length (take k e) < 4 \<or> ?n > length (drop 4 (take k e))")
    case True
    then have "fst (ext_split (take k e)) = []"
      by (subst ext_split.simps) (auto simp: slice_take not_less)
    then show ?thesis by simp
  next
    case False
    then have k: "4 \<le> k" "?n \<le> k - 4" "\<not> length e < 4" "\<not> ?n > length (drop 4 e)" by auto
    have "drop ?n (drop 4 (take k e)) = take (k - 4 - ?n) (drop ?n (drop 4 e))" "take ?n (drop 4 (take k e)) = take ?n (drop 4 e)"
      using k(2) by (simp_all add: drop_take min_absorb1 del: drop_drop)
    then have "ext_split (take k e) = apfst (Cons (word_of_int (be (slice 0 2 e)), take ?n (drop 4 e))) (ext_split (take (k - 4 - ?n) (drop ?n (drop 4 e))))"
      using False k by (subst ext_split.simps) (simp add: Let_def slice_take del: drop_drop)
    moreover have "ext_split e = apfst (Cons (word_of_int (be (slice 0 2 e)), take ?n (drop 4 e))) (ext_split (drop ?n (drop 4 e)))"
      using k by (subst ext_split.simps) (simp add: Let_def)
    ultimately show ?thesis using 1[OF k(3,4) refl refl, of "k - 4 - ?n"] by (simp del: drop_drop)
  qed
qed

text \<open>Reading a cut record: each read gives what it gave on the whole one, or runs off the end.\<close>

definition rd_cut :: "reader \<Rightarrow> reader \<Rightarrow> bool" where
  "rd_cut r' r \<longleftrightarrow> rd_bad r' \<or> \<not> rd_bad r \<and> prefix (rd_b r') (rd_b r)"

definition same_read :: "'a \<times> reader \<Rightarrow> 'a \<times> reader \<Rightarrow> bool" where
  "same_read p' p \<longleftrightarrow> rd_bad (snd p') \<or> fst p' = fst p \<and> rd_cut (snd p') (snd p)"

lemma rd_take_cut: "rd_cut r' r \<Longrightarrow> same_read (rd_take n r') (rd_take n r)"
  by (auto simp: rd_take_def rd_cut_def same_read_def prefix_def)

lemma rd_num_cut: "rd_cut r' r \<Longrightarrow> same_read (rd_num n r') (rd_num n r)"
  using rd_take_cut[of r' r n] by (auto simp: rd_num_def same_read_def split_beta)

lemma rd_take_bad: "rd_bad r \<Longrightarrow> rd_bad (snd (rd_take n r))"
  by (simp add: rd_take_def)

lemma rd_num_bad: "rd_bad r \<Longrightarrow> rd_bad (snd (rd_num n r))"
  by (simp add: rd_num_def rd_take_bad split_beta)

lemma same_read_then:
  assumes "same_read p' p"
  shows "same_read (rd_take n (snd p')) (rd_take n (snd p))" "same_read (rd_num n (snd p')) (rd_num n (snd p))"
  using assms rd_take_cut rd_num_cut rd_take_bad rd_num_bad unfolding same_read_def by metis+

lemma same_read_counted: "same_read q' q \<Longrightarrow> same_read (rd_take (fst q') (snd q')) (rd_take (fst q) (snd q))"
  using rd_take_cut rd_take_bad unfolding same_read_def by metis

text \<open>The reads of the fixed part, one by one.\<close>

definition head_reads :: "bytes \<Rightarrow> (nat \<times> reader) \<times> (bytes \<times> reader) \<times> (bytes \<times> reader)" where
  "head_reads body =
     (let legacy = rd_u16 \<lparr>rd_b = body, rd_bad = False\<rparr>; sid = rd_u8 (snd (rd_take 32 (snd legacy)));
          n = rd_u16 (snd (rd_take (fst sid) (snd sid))); ciphers = rd_take (fst n) (snd n); comp = rd_u8 (snd ciphers)
      in (legacy, ciphers, rd_take (fst comp) (snd comp)))"

lemma hello_head_reads:
  assumes "head_reads body = (l, c, m)"
  shows "hello_head body = (fst l, fst c, snd m)" "rd_bad (snd l) \<or> rd_bad (snd c) \<Longrightarrow> rd_bad (snd m)"
  using assms by (auto simp: head_reads_def hello_head_def Let_def split_beta rd_take_bad rd_num_bad)

lemma head_reads_cut:
  assumes "rd_cut \<lparr>rd_b = b', rd_bad = False\<rparr> \<lparr>rd_b = b, rd_bad = False\<rparr>"
    "head_reads b' = (l', c', m')" "head_reads b = (l, c, m)"
  shows "same_read l' l \<and> same_read c' c \<and> same_read m' m"
proof -
  from assms(2,3) have "same_read l' l" using rd_num_cut[OF assms(1)] by (auto simp: head_reads_def Let_def)
  with assms(2,3) show ?thesis by (auto simp: head_reads_def Let_def intro!: same_read_then same_read_counted)
qed

lemma hello_head_cut:
  assumes "prefix b' b" "hello_head b' = (l', c', r')" "hello_head b = (l, c, r)" "\<not> rd_bad r'"
  shows "l' = l \<and> c' = c \<and> rd_cut r' r"
proof -
  obtain x y z x' y' z' where h: "head_reads b' = (x', y', z')" "head_reads b = (x, y, z)" by (metis prod.exhaust)
  have "rd_cut \<lparr>rd_b = b', rd_bad = False\<rparr> \<lparr>rd_b = b, rd_bad = False\<rparr>" using assms(1) by (simp add: rd_cut_def)
  from head_reads_cut[OF this h] hello_head_reads[OF h(1)] hello_head_reads[OF h(2)] assms(2-4) show ?thesis
    by (auto simp: same_read_def)
qed

text \<open>The extensions of a hello that are there whole.\<close>

definition body_exts :: "bytes \<Rightarrow> (u16 \<times> bytes) list" where
  "body_exts body =
     (let (l, c, b) = hello_head body
      in if rd_bad b \<or> length (rd_b b) < 2 then [] else fst (ext_split (take (nat (be (take 2 (rd_b b)))) (drop 2 (rd_b b)))))"

definition hello_want :: "bytes \<Rightarrow> nat" where
  "hello_want raw = nat (be (slice 6 9 raw))"

definition sent_exts :: "bytes \<Rightarrow> (u16 \<times> bytes) list" where
  "sent_exts raw = body_exts (take (hello_want raw) (drop 9 raw))"

lemma rd_num_reads:
  "n \<le> length b \<Longrightarrow> rd_num n \<lparr>rd_b = b, rd_bad = False\<rparr> = (nat (be (take n b)), \<lparr>rd_b = drop n b, rd_bad = False\<rparr>)"
  "length b < n \<Longrightarrow> rd_bad (snd (rd_num n \<lparr>rd_b = b, rd_bad = False\<rparr>))"
  by (simp_all add: rd_num_def rd_take_def)

lemma parseClientHello_eq:
  assumes "9 \<le> length raw"
  shows "parseClientHello raw =
    (if raw ! 0 \<noteq> 0x16 \<or> raw ! 1 \<noteq> 3 \<or> raw ! 2 > 4 \<or> raw ! 5 \<noteq> 1 \<or> hello_want raw > 16384 then None
     else Some (hello_body (hello_want raw > length (drop 9 raw)) (take (hello_want raw) (drop 9 raw))))"
proof -
  have "rd_num 1 \<lparr>rd_b = drop 5 raw, rd_bad = False\<rparr> = (nat (be (take 1 (drop 5 raw))), \<lparr>rd_b = drop 6 raw, rd_bad = False\<rparr>)"
    "rd_num 3 \<lparr>rd_b = drop 6 raw, rd_bad = False\<rparr> = (hello_want raw, \<lparr>rd_b = drop 9 raw, rd_bad = False\<rparr>)"
    using assms by (subst rd_num_reads(1); simp add: hello_want_def slice_def)+
  then show ?thesis using assms by (simp add: parseClientHello_def del: One_nat_def)
qed

lemma parseClientHello_short: "length raw < 9 \<Longrightarrow> parseClientHello raw = None"
proof -
  assume "length raw < 9"
  then have "rd_bad (snd (rd_num 3 (snd (rd_num 1 \<lparr>rd_b = drop 5 raw, rd_bad = False\<rparr>))))"
    by (cases "length raw < 6") (auto simp: rd_num_def rd_take_def)
  then show ?thesis by (auto simp: parseClientHello_def split_beta Let_def simp del: One_nat_def)
qed

lemma body_exts_prefix: "prefix b' b \<Longrightarrow> prefix (body_exts b') (body_exts b)"
proof -
  assume b: "prefix b' b"
  obtain l c r l' c' r' where h: "hello_head b' = (l', c', r')" "hello_head b = (l, c, r)" by (metis prod.exhaust)
  show ?thesis
  proof (cases "rd_bad r' \<or> length (rd_b r') < 2")
    case False
    with hello_head_cut[OF b h] have r: "\<not> rd_bad r" "prefix (rd_b r') (rd_b r)" by (auto simp: rd_cut_def)
    then have "take (length (rd_b r')) (rd_b r) = rd_b r'" by (auto simp: prefix_def)
    then have e: "take 2 (rd_b r') = take 2 (rd_b r)" "drop 2 (rd_b r') = take (length (rd_b r') - 2) (drop 2 (rd_b r))"
      using False by (metis take_take min_absorb1 linorder_not_less, metis drop_take)
    have "length (rd_b r) \<ge> 2" using False r(2) prefix_length_le by fastforce
    then show ?thesis
      using False h r e ext_split_take[of "length (rd_b r') - 2" "take (nat (be (take 2 (rd_b r)))) (drop 2 (rd_b r))"]
      by (simp add: body_exts_def min.commute)
  qed (simp add: body_exts_def h)
qed

text \<open>The name a list of extensions gives: that of the last server_name.\<close>

abbreviation names_in :: "(u16 \<times> bytes) list \<Rightarrow> bytes list" where
  "names_in xs \<equiv> map snd (filter (\<lambda>x. fst x = 0) xs)"

definition name_of :: "(u16 \<times> bytes) list \<Rightarrow> string" where
  "name_of xs = (if names_in xs = [] then '''' else serverName (last (names_in xs)))"

lemma ext_fold_sni: "ch_sni (es_h (ext_fold xs st)) = (if names_in xs = [] then ch_sni (es_h st) else name_of xs)"
  by (induction xs rule: rev_induct) (auto simp: name_of_def ext_step_def Let_def)

lemma ext_step_alpn:
  "shown (ch_alpn (es_h st)) \<and> length (ch_alpn (es_h st)) \<le> 64 \<Longrightarrow>
   shown (ch_alpn (es_h (ext_step t d st))) \<and> length (ch_alpn (es_h (ext_step t d st))) \<le> 64"
  using alpn_safe[of d] by (simp add: ext_step_def Let_def)

lemma ext_fold_alpn:
  "shown (ch_alpn (es_h st)) \<and> length (ch_alpn (es_h st)) \<le> 64 \<Longrightarrow>
   shown (ch_alpn (es_h (ext_fold xs st))) \<and> length (ch_alpn (es_h (ext_fold xs st))) \<le> 64"
proof (induction xs arbitrary: st)
  case (Cons x xs)
  then show ?case using ext_step_alpn[of st "fst x" "snd x"] by (simp add: split_beta)
qed simp

lemma ext_fold_ja3: "ch_ja3 (es_h (ext_fold xs st)) = ch_ja3 (es_h st)"
  by (induction xs arbitrary: st) (auto simp: ext_step_def Let_def split_beta)

lemma mark_cut_sel [simp]:
  "ch_sni (es_h (mark_cut c st)) = ch_sni (es_h st)" "ch_alpn (es_h (mark_cut c st)) = ch_alpn (es_h st)"
  "ch_ja3 (es_h (mark_cut c st)) = ch_ja3 (es_h st)"
  by (simp_all add: mark_cut_def)

lemma ja3_shape: "length (ja3 v cs ex gs fs) = 32 \<and> set (ja3 v cs ex gs fs) \<subseteq> set ''0123456789abcdef''"
  using hex_Encode_safe by (simp only: ja3_def Let_def length_hex_Encode length_md5_Sum) simp

lemma hello_exts_sni:
  "ch_sni (hello_exts legacy cs t rest) = name_of (fst (ext_split (take (nat (be (take 2 rest))) (drop 2 rest))))"
  by (simp add: hello_exts_def Let_def ext_loop_split ext_fold_sni no_hello_def) (simp add: name_of_def)

lemma hello_body_sni: "ch_sni (hello_body t body) = name_of (body_exts body)"
  by (simp add: hello_body_def body_exts_def hello_exts_sni no_hello_def name_of_def Let_def split: prod.splits)

lemma name_of_safe: "shown (name_of xs) \<and> length (name_of xs) \<le> 253"
  using serverName_safe by (simp add: name_of_def)

lemma hello_exts_alpn:
  "shown (ch_alpn (hello_exts legacy cs t rest)) \<and> length (ch_alpn (hello_exts legacy cs t rest)) \<le> 64"
  by (simp add: hello_exts_def Let_def ext_loop_split) (rule ext_fold_alpn, simp add: no_hello_def)

lemma hello_body_alpn: "shown (ch_alpn (hello_body t body)) \<and> length (ch_alpn (hello_body t body)) \<le> 64"
  using hello_exts_alpn by (auto simp: hello_body_def no_hello_def Let_def split: prod.splits)

lemma ja3_nonempty [simp]: "ja3 v cs ex gs fs \<noteq> ''''"
  using ja3_shape[of v cs ex gs fs] by auto

text \<open>The fingerprint is there exactly when the hello was seen whole.\<close>

definition ja3_ok :: "clientHello \<Rightarrow> bool" where
  "ja3_ok h \<longleftrightarrow> (if ch_truncated h then ch_ja3 h = '''' else length (ch_ja3 h) = 32 \<and> set (ch_ja3 h) \<subseteq> set ''0123456789abcdef'')"

lemma hello_exts_ja3: "ja3_ok (hello_exts legacy cs t rest)"
  by (simp only: hello_exts_def Let_def ext_loop_split ja3_ok_def) (auto simp: ext_fold_ja3 no_hello_def ja3_shape simp del: set_simps)

lemma hello_body_ja3: "ja3_ok (hello_body t body)"
  using hello_exts_ja3 ja3_shape
  by (auto simp: hello_body_def Let_def ja3_ok_def no_hello_def simp del: set_simps split: prod.splits)

lemma ext_fold_truncated: "ch_truncated (es_h (ext_fold xs st)) = ch_truncated (es_h st)"
  by (induction xs arbitrary: st) (auto simp: ext_step_def Let_def split_beta)

lemma hello_body_cut: "ch_truncated (hello_body True body)"
  by (simp add: hello_body_def hello_exts_def Let_def ext_loop_split mark_cut_def ext_fold_truncated split: prod.splits)

lemma name_of_prefix: "prefix ys xs \<Longrightarrow> length (names_in xs) \<le> 1 \<Longrightarrow> name_of ys = '''' \<or> name_of ys = name_of xs"
proof -
  assume "prefix ys xs" "length (names_in xs) \<le> 1"
  then obtain zs where "names_in xs = names_in ys @ zs" "length (names_in ys @ zs) \<le> 1" by (auto simp: prefix_def)
  then show ?thesis by (cases "names_in ys") (auto simp: name_of_def)
qed

text \<open>C23. A ClientHello that was cut short never shows a part of a name. Let a hello with at most one server_name extension be
  read from any prefix of its bytes: the name is absent or it is the name of the whole hello; and unless the result says it is
  truncated, it is the result of the whole hello, fingerprint included.\<close>

theorem cut_hello_no_half_name:
  assumes "parseClientHello raw = Some h" "parseClientHello (take k raw) = Some h'" "length (names_in (sent_exts raw)) \<le> 1"
  shows "(ch_sni h' = '''' \<or> ch_sni h' = ch_sni h) \<and> (ch_truncated h' \<or> h' = h)"
proof -
  let ?d = "drop 9 raw" and ?w = "hello_want raw"
  from assms(1,2) have l: "9 \<le> length raw" "9 \<le> length (take k raw)"
    using parseClientHello_short by (metis linorder_not_less option.distinct(1))+
  then have k: "9 \<le> k" "hello_want (take k raw) = ?w" "drop 9 (take k raw) = take (k - 9) ?d"
    by (auto simp: hello_want_def slice_take drop_take)
  from assms(1) have h: "h = hello_body (?w > length ?d) (take ?w ?d)"
    by (simp add: parseClientHello_eq[OF l(1)] split: if_splits)
  from assms(2) have h': "h' = hello_body (?w > length (take (k - 9) ?d)) (take ?w (take (k - 9) ?d))"
    by (simp only: parseClientHello_eq[OF l(2)] k split: if_splits) auto
  have "prefix (take ?w (take (k - 9) ?d)) (take ?w ?d)" by (metis take_is_prefix take_take min.commute)
  then have "prefix (body_exts (take ?w (take (k - 9) ?d))) (sent_exts raw)"
    unfolding sent_exts_def by (rule body_exts_prefix)
  from name_of_prefix[OF this assms(3)] have "ch_sni h' = '''' \<or> ch_sni h' = ch_sni h"
    unfolding h h' hello_body_sni sent_exts_def .
  moreover have "ch_truncated h' \<or> h' = h"
  proof (cases "?w > length (take (k - 9) ?d)")
    case False
    then have "?w \<le> k - 9" "\<not> ?w > length ?d" by simp_all
    then have "take ?w (take (k - 9) ?d) = take ?w ?d" "\<not> ?w > length ?d" by (simp_all add: min_absorb1)
    with False show ?thesis unfolding h h' by simp
  qed (simp add: h' hello_body_cut)
  ultimately show ?thesis ..
qed

text \<open>A hello of a client that asks for \<open>db.io\<close> and offers TLS 1.3, as bytes.\<close>

definition web_hello :: bytes where
  "web_hello = [22, 3, 1, 0, 0] @ [1, 0, 0, 66] @ [3, 3] @ replicate 32 9 @ [0] @ [0, 2, 19, 1] @ [1, 0] @ [0, 23] @
     [0, 0, 0, 10, 0, 8, 0, 0, 5, 100, 98, 46, 105, 111] @ [0, 43, 0, 5, 4, 3, 4, 10, 10]"

definition hello_like :: "bytes \<Rightarrow> bool" where
  "hello_like raw \<longleftrightarrow> 9 \<le> length raw \<and>
     \<not> (raw ! 0 \<noteq> 0x16 \<or> raw ! 1 \<noteq> 3 \<or> raw ! 2 > 4 \<or> raw ! 5 \<noteq> 1 \<or> hello_want raw > 16384)"

lemma hello_like_read:
  assumes "hello_like raw"
  obtains h where "parseClientHello raw = Some h" "ch_sni h = name_of (sent_exts raw)" "hello_want raw > length (drop 9 raw) \<Longrightarrow> ch_truncated h"
  using assms parseClientHello_eq[of raw] unfolding hello_like_def by (auto simp: hello_body_sni sent_exts_def hello_body_cut)

theorem cut_hello_no_half_name_witness:
  "map_option (\<lambda>h. (ch_sni h = '''' \<or> ch_sni h = ''db.io'', ch_truncated h)) (parseClientHello (take 70 web_hello)) = Some (True, True)"
proof -
  have n: "name_of (sent_exts web_hello) = ''db.io''" by code_simp
  have "hello_like web_hello" by code_simp
  then obtain h where h: "parseClientHello web_hello = Some h" "ch_sni h = ''db.io''" unfolding n[symmetric] by (rule hello_like_read)
  have "hello_like (take 70 web_hello)" by code_simp
  moreover have "hello_want (take 70 web_hello) > length (drop 9 (take 70 web_hello))" by code_simp
  ultimately obtain h' where h': "parseClientHello (take 70 web_hello) = Some h'" "ch_truncated h'" by (metis hello_like_read)
  have "length (names_in (sent_exts web_hello)) \<le> 1" by code_simp
  from cut_hello_no_half_name[OF h(1) h'(1) this] h(2) h' show ?thesis by simp
qed

text \<open>A decoded ClientHello is safe to show, whatever the guest sent: the name (at most 253 characters) and the protocols (at
  most 64) are printable ASCII without capitals or spaces; the fingerprint is 32 lower-case hexadecimal digits when the hello
  was seen whole, and absent when it was cut short; and the event names a tap that is still tracked.\<close>

theorem decodeTLS_safe:
  assumes "decodeTLS b name = Some e"
  shows "shown (ev_sni e) \<and> length (ev_sni e) \<le> 253 \<and> shown (ev_alpn e) \<and> length (ev_alpn e) \<le> 64 \<and>
    (if ev_tls_truncated e then ev_ja3 e = '''' else length (ev_ja3 e) = 32 \<and> set (ev_ja3 e) \<subseteq> set ''0123456789abcdef'') \<and>
    ev_iface e = name (u32_at 8 b) \<and> ev_iface e \<noteq> ''''"
proof -
  define raw where "raw = slice 56 (56 + min 1504 (unat (u16_at 14 b))) b"
  from assms obtain sd h where e: "parseClientHello raw = Some h" "e = tls_event b (name (u32_at 8 b)) sd h" "name (u32_at 8 b) \<noteq> ''''"
    unfolding decodeTLS_def raw_def[symmetric] by (auto split: if_splits option.splits)
  then have "9 \<le> length raw" using parseClientHello_short by (metis linorder_not_less option.distinct(1))
  from e(1) parseClientHello_eq[OF this] obtain t body where "h = hello_body t body" by (auto split: if_splits)
  with e(2,3) show ?thesis
    using name_of_safe[of "body_exts body"] hello_body_alpn[of t body] hello_body_ja3[of t body]
    by (simp add: tls_event_def hello_body_sni ja3_ok_def del: set_simps)
qed

definition web_segment :: bytes where
  "web_segment = replicate 8 0 @ [7, 0, 0, 0] @ [2, 0, 70, 0] @ [0, 0, 187, 1] @ replicate 4 0 @ [10, 0, 0, 9] @ replicate 12 0 @
     [1, 1, 1, 1] @ replicate 12 0 @ take 70 web_hello @ replicate 1434 0"

theorem decodeTLS_safe_witness:
  "map_option (\<lambda>e. (ev_sni e, length (ev_sni e) \<le> 253, ev_ja3 e)) (decodeTLS web_segment web_taps) = Some (''db.io'', True, '''')"
proof -
  have raw: "slice 56 (56 + min 1504 (unat (u16_at 14 web_segment))) web_segment = take 70 web_hello" by code_simp
  have n: "name_of (sent_exts (take 70 web_hello)) = ''db.io''" by code_simp
  have "hello_like (take 70 web_hello)" by code_simp
  moreover have "hello_want (take 70 web_hello) > length (drop 9 (take 70 web_hello))" by code_simp
  ultimately obtain h where h: "parseClientHello (take 70 web_hello) = Some h" "ch_sni h = ''db.io''" "ch_truncated h"
    unfolding n[symmetric] by (metis hello_like_read)
  have "length web_segment = 1560" "web_taps (u32_at 8 web_segment) = ''vnet0''"
    "addrs_at (web_segment ! 12) 24 40 web_segment = Some (''10.0.0.9'', ''1.1.1.1'')" by code_simp+
  then have e: "decodeTLS web_segment web_taps = Some (tls_event web_segment ''vnet0'' (''10.0.0.9'', ''1.1.1.1'') h)"
    unfolding decodeTLS_def raw h(1) by simp
  from decodeTLS_safe[OF e] h show ?thesis by (simp add: e tls_event_def del: set_simps)
qed

section \<open>Bytes that are not the packet's\<close>

text \<open>How much of a record is meant: its header, and as many bytes after it as the header says, up to what fits.\<close>

definition dns_used :: "bytes \<Rightarrow> nat" where
  "dns_used b = 48 + min 128 (unat (u16_at 14 b))"

definition tls_used :: "bytes \<Rightarrow> nat" where
  "tls_used b = 56 + min 1504 (unat (u16_at 14 b))"

definition vmm_used :: "bytes \<Rightarrow> nat" where
  "vmm_used b = 72 + min 256 (unat (u16_at 48 b))"

lemma slice_agree: "take n b = take n b' \<Longrightarrow> j \<le> n \<Longrightarrow> slice i j b = slice i j b'"
  by (metis slice_take)

lemma field_agree:
  assumes "take n b = take n b'"
  shows "i + 2 \<le> n \<Longrightarrow> u16_at i b = u16_at i b'" "i + 4 \<le> n \<Longrightarrow> u32_at i b = u32_at i b'" "i + 8 \<le> n \<Longrightarrow> u64_at i b = u64_at i b'"
  using slice_agree[OF assms] by (simp_all add: u16_at_def u32_at_def u64_at_def)

lemma nth_agree: "take n b = take n b' \<Longrightarrow> i < n \<Longrightarrow> b ! i = b' ! i"
  by (metis nth_take)

lemma addrs_agree:
  assumes "take n b = take n b'" "s + 16 \<le> n" "d + 16 \<le> n"
  shows "addrs_at f s d b = addrs_at f s d b'"
  using slice_agree[OF assms(1)] assms(2,3) by (simp add: addrs_at_def)

lemma decodeDNS_agree:
  assumes "176 \<le> length b" "176 \<le> length b'" "take (dns_used b) b = take (dns_used b) b'"
  shows "decodeDNS b name = decodeDNS b' name"
proof -
  have n: "48 \<le> dns_used b" by (simp add: dns_used_def)
  note f = field_agree[OF assms(3)] nth_agree[OF assms(3)] addrs_agree[OF assms(3)]
  have h: "u16_at 14 b = u16_at 14 b'" "u32_at 8 b = u32_at 8 b'" "b ! 12 = b' ! 12" "b ! 13 = b' ! 13" "addrs_at g 16 32 b = addrs_at g 16 32 b'" for g
    using n by (auto intro!: f)
  have "slice 48 (48 + min 128 (unat (u16_at 14 b))) b = slice 48 (48 + min 128 (unat (u16_at 14 b))) b'"
    by (rule slice_agree[OF assms(3)]) (simp add: dns_used_def)
  moreover have "dns_event b i sd q = dns_event b' i sd q" for i sd q unfolding dns_event_def h(4) ..
  ultimately show ?thesis using h assms(1,2) by (simp add: decodeDNS_def not_less split: option.split)
qed

lemma decodeTLS_agree:
  assumes "1560 \<le> length b" "1560 \<le> length b'" "take (tls_used b) b = take (tls_used b) b'"
  shows "decodeTLS b name = decodeTLS b' name"
proof -
  have n: "56 \<le> tls_used b" by (simp add: tls_used_def)
  note f = field_agree[OF assms(3)] nth_agree[OF assms(3)] addrs_agree[OF assms(3)]
  have h: "u16_at 14 b = u16_at 14 b'" "u16_at 18 b = u16_at 18 b'" "u32_at 8 b = u32_at 8 b'" "b ! 12 = b' ! 12" "b ! 13 = b' ! 13"
    "addrs_at g 24 40 b = addrs_at g 24 40 b'" for g
    using n by (auto intro!: f)
  have "slice 56 (56 + min 1504 (unat (u16_at 14 b))) b = slice 56 (56 + min 1504 (unat (u16_at 14 b))) b'"
    by (rule slice_agree[OF assms(3)]) (simp add: tls_used_def)
  moreover have "tls_event b i sd = tls_event b' i sd" for i sd using h by (simp add: tls_event_def fun_eq_iff)
  ultimately show ?thesis using h assms(1,2) by (simp add: decodeTLS_def not_less split: option.split)
qed

lemma decodeVMM_agree:
  assumes "328 \<le> length b" "328 \<le> length b'" "take (vmm_used b) b = take (vmm_used b) b'"
  shows "decodeVMM b = decodeVMM b'"
proof -
  have n: "72 \<le> vmm_used b" by (simp add: vmm_used_def)
  note f = field_agree[OF assms(3)] slice_agree[OF assms(3)]
  have h: "u32_at 8 b = u32_at 8 b'" "u32_at 12 b = u32_at 12 b'" "u32_at 20 b = u32_at 20 b'" "u32_at 24 b = u32_at 24 b'"
    "u32_at 28 b = u32_at 28 b'" "u64_at 32 b = u64_at 32 b'" "u64_at 40 b = u64_at 40 b'" "u16_at 48 b = u16_at 48 b'"
    "slice 56 72 b = slice 56 72 b'"
    using n by (auto intro!: f)
  have "vmm_path b = vmm_path b'"
    unfolding vmm_path_def h(8)[symmetric] by (subst slice_agree[OF assms(3)]) (simp_all add: vmm_used_def)
  with h assms(1,2) show ?thesis by (simp only: decodeVMM_def not_less[symmetric] simp_thms if_False)
qed

text \<open>C27. Bytes a record holds from an earlier one are never read. Two samples of full size that agree on the header and on as
  many bytes after it as the header says decode to the same event, for DNS questions, ClientHellos and VMM calls alike.\<close>

theorem decoders_ignore_stale_bytes:
  "(176 \<le> length b \<and> 176 \<le> length b' \<and> take (dns_used b) b = take (dns_used b) b' \<longrightarrow> decodeDNS b name = decodeDNS b' name) \<and>
   (1560 \<le> length b \<and> 1560 \<le> length b' \<and> take (tls_used b) b = take (tls_used b) b' \<longrightarrow> decodeTLS b name = decodeTLS b' name) \<and>
   (328 \<le> length b \<and> 328 \<le> length b' \<and> take (vmm_used b) b = take (vmm_used b) b' \<longrightarrow> decodeVMM b = decodeVMM b')"
  using decodeDNS_agree decodeTLS_agree decodeVMM_agree by blast

theorem decoders_ignore_stale_bytes_witness:
  "decodeDNS (take 60 web_question @ replicate 116 0) web_taps = decodeDNS web_question web_taps \<and> decodeDNS web_question web_taps \<noteq> None"
proof -
  have "176 \<le> length (take 60 web_question @ replicate 116 0) \<and> 176 \<le> length web_question \<and>
    take (dns_used (take 60 web_question @ replicate 116 0)) (take 60 web_question @ replicate 116 0) =
    take (dns_used (take 60 web_question @ replicate 116 0)) web_question"
    by code_simp
  with decoders_ignore_stale_bytes[of "take 60 web_question @ replicate 116 0" web_question web_taps]
  have "decodeDNS (take 60 web_question @ replicate 116 0) web_taps = decodeDNS web_question web_taps" by blast
  moreover have "decodeDNS web_question web_taps \<noteq> None" by code_simp
  ultimately show ?thesis by blast
qed

section \<open>A ring and its decoder\<close>

text \<open>What the reader of a ring relies on: a record shorter than its struct is refused, and every event is of a kind the ring
  carries.\<close>

abbreviation ring_served :: "ring_read list \<Rightarrow> ring_read list" where
  "ring_served rs \<equiv> takeWhile (\<lambda>r. r \<noteq> RingClosed) rs"

locale ring_decoder =
  fixes dec :: "bytes \<Rightarrow> event option" and size :: nat and kinds :: "event_kind list"
  assumes dec_short: "length b < size \<Longrightarrow> dec b = None"
    and dec_kind: "dec b = Some e \<Longrightarrow> ev_kind e \<in> set kinds"
begin

lemma ring_accounts:
  "of_nat (length (ro_handled (readTapRing dec rs st))) + ro_lost (readTapRing dec rs st) =
   of_nat (length (ro_handled st)) + ro_lost st + of_nat (length (ring_served rs))"
  by (induction dec rs st rule: readTapRing.induct) (simp_all add: ring_record_def ac_simps split: option.split)

lemma ring_handles:
  "ro_handled (readTapRing dec rs st) = ro_handled st @ List.map_filter (\<lambda>r. case r of RingRecord b \<Rightarrow> dec b | _ \<Rightarrow> None) (ring_served rs)"
  by (induction dec rs st rule: readTapRing.induct) (simp_all add: ring_record_def map_filter_simps split: option.split)

lemma ring_kinds:
  assumes "e \<in> set (ro_handled (readTapRing dec rs st))" "e \<notin> set (ro_handled st)"
  shows "\<exists>b. RingRecord b \<in> set rs \<and> size \<le> length b \<and> dec b = Some e \<and> ev_kind e \<in> set kinds"
proof -
  from assms obtain r where r: "r \<in> set rs" "(case r of RingRecord b \<Rightarrow> dec b | _ \<Rightarrow> None) = Some e"
    unfolding ring_handles by (auto simp: List.map_filter_def dest: set_takeWhileD)
  then obtain b where b: "r = RingRecord b" "dec b = Some e" by (auto split: ring_read.splits)
  then have "size \<le> length b" using dec_short[of b] by (cases "length b < size") auto
  with r b dec_kind show ?thesis by blast
qed

end

interpretation exec_ring: ring_decoder DecodeRing 72 "[KindExec, KindTCPConnect, KindTCPRetransmit, KindBlockSlow, KindSchedDelay, KindExit, KindReclaim, KindOOM]"
  by unfold_locales (auto simp: DecodeRing_def ring_kind_def Let_def split: if_splits)

interpretation tap_ring: ring_decoder "\<lambda>b. decodeTap b name" 56 "[KindGuestInbound, KindGuestConnect, KindGuestFlow]"
  by unfold_locales (auto simp: decodeTap_def tap_kind_def split: if_splits option.splits prod.splits)

interpretation dns_ring: ring_decoder "\<lambda>b. decodeDNS b name" 176 "[KindGuestDNS]"
  by unfold_locales (auto simp: decodeDNS_def dns_event_def split: if_splits option.splits prod.splits)

interpretation tls_ring: ring_decoder "\<lambda>b. decodeTLS b name" 1560 "[KindGuestTLS]"
  by unfold_locales (auto simp: decodeTLS_def tls_event_def split: if_splits option.splits)

interpretation vmm_ring: ring_decoder decodeVMM 328 "[KindVMMOpen, KindVMMCall]"
  by unfold_locales (auto simp: decodeVMM_def Let_def split: if_splits option.splits)

text \<open>Nothing a ring delivers goes unaccounted: after any reads, the events handed on and the count of lost samples together
  grew by exactly the number of reads up to the ring's closing, and every event handed on came from one of its records of
  full size. Here for the ring of DNS questions; the other rings have the same facts from their interpretations.\<close>

theorem dns_ring_accounts:
  "of_nat (length (ro_handled (readTapRing (\<lambda>b. decodeDNS b name) rs st))) + ro_lost (readTapRing (\<lambda>b. decodeDNS b name) rs st) =
     of_nat (length (ro_handled st)) + ro_lost st + of_nat (length (ring_served rs)) \<and>
   (e \<in> set (ro_handled (readTapRing (\<lambda>b. decodeDNS b name) rs st)) \<and> e \<notin> set (ro_handled st) \<longrightarrow>
     (\<exists>b. RingRecord b \<in> set rs \<and> 176 \<le> length b \<and> decodeDNS b name = Some e))"
  using dns_ring.ring_accounts dns_ring.ring_kinds by blast

end
