(* ===== verification/Hist.thy ===== *)
theory Hist
  imports Prelude "HOL-Library.Log_Nat"
begin

text \<open>
  Log2 latency histograms, \<open>internal/hist/hist.go\<close>, and the floating point arithmetic it and the threshold rules use. A
  \<open>float64\<close> in the normal range is a rational number; each operation rounds its exact result to 53 significant bits, to
  the nearest and on a tie to the even one.
\<close>

section \<open>Floating point\<close>

definition half_even :: "rat \<Rightarrow> int" where
  "half_even y =
     (let q = \<lfloor>y\<rfloor>; r = y - of_int q in if r < 1 / 2 \<or> r = 1 / 2 \<and> even q then q else q + 1)"

text \<open>The exponent of a positive number: the \<open>k\<close> with \<open>2 ^ k \<le> x < 2 ^ (k + 1)\<close>.\<close>

definition exponent :: "rat \<Rightarrow> int" where
  "exponent x = (let (a, b) = quotient_of x; k = bitlen a - bitlen b in if 2 powi k \<le> x then k else k - 1)"

definition ulp :: "rat \<Rightarrow> rat" where
  "ulp x = 2 powi (exponent x - 52)"

definition rnd :: "rat \<Rightarrow> rat" where
  "rnd x = (if x = 0 then 0 else of_int (half_even (x / ulp x)) * ulp x)"

definition float64 :: "u64 \<Rightarrow> rat" where
  "float64 w = rnd (of_int (uint w))"

definition trunc64 :: "rat \<Rightarrow> u64" where
  "trunc64 x = word_of_int \<lfloor>x\<rfloor>"

section \<open>Histograms\<close>

definition Buckets :: nat where
  "Buckets = 64"

definition Bucket :: "u64 \<Rightarrow> nat" where
  "Bucket ns = (if ns = 0 then 0 else let b = nat (bitlen (uint ns) - 1) in if b \<ge> Buckets then Buckets - 1 else b)"

definition edge :: "int \<Rightarrow> u64" where
  "edge b = (if b < 0 then 0 else if b \<ge> 63 then 2 ^ 63 - 1 else 2 ^ nat (b + 1))"

fun percentile_loop :: "u64 \<Rightarrow> u64 \<Rightarrow> nat \<Rightarrow> u64 list \<Rightarrow> u64" where
  "percentile_loop target cum i [] = edge (int i - 1)"
| "percentile_loop target cum i (c # cs) =
     (if cum + c \<ge> target then edge (int i) else percentile_loop target (cum + c) (Suc i) cs)"

definition percentile_target :: "u64 \<Rightarrow> rat \<Rightarrow> u64" where
  "percentile_target tot p =
     (let t = trunc64 (rnd (rnd (rnd (float64 tot * p) / 100) + rnd (999999 / 1000000))) in if t = 0 then 1 else t)"

definition Percentile :: "u64 list \<Rightarrow> rat \<Rightarrow> u64" where
  "Percentile counts p =
     (let p = min 100 (max 0 p); tot = sum_list counts
      in if tot = 0 then 0 else percentile_loop (percentile_target tot p) 0 0 counts)"

section \<open>Rounding\<close>

lemma half_even_near: "\<bar>of_int (half_even y) - y\<bar> \<le> 1 / 2"
proof -
  have "of_int \<lfloor>y\<rfloor> \<le> y" "y < of_int \<lfloor>y\<rfloor> + 1" by linarith+
  then show ?thesis by (simp add: half_even_def Let_def abs_if) linarith
qed

lemma half_even_int [simp]: "half_even (of_int n) = n"
  by (simp add: half_even_def)

lemma exponent_le: "0 < x \<Longrightarrow> 2 powi exponent x \<le> x"
proof -
  assume x: "0 < x"
  obtain a b where q: "quotient_of x = (a, b)" by fastforce
  then have b: "0 < b" and e: "x = of_int a / of_int b" by (simp_all add: quotient_of_denom_pos quotient_of_div)
  then have a: "0 < a" using x by (simp add: zero_less_divide_iff)
  let ?k = "bitlen a - bitlen b"
  have "2 ^ nat (bitlen a - 1) \<le> a" "b < 2 ^ nat (bitlen b)" using bitlen_bounds[OF a] bitlen_bounds[OF b] by auto
  then have *: "(of_int (2 ^ nat (bitlen a - 1)) :: rat) \<le> of_int a" "(of_int b :: rat) \<le> of_int (2 ^ nat (bitlen b))"
    by (simp_all only: of_int_le_iff less_imp_le)
  have n: "bitlen a - 1 \<ge> 0" "bitlen b \<ge> 0" using a bitlen_nonneg by (auto simp: bitlen_eq_zero_iff) (metis a bitlen_eq_zero_iff bitlen_nonneg dual_order.antisym linorder_not_less zle_diff1_eq)
  have "(2 :: rat) powi (?k - 1) = 2 powi (bitlen a - 1) / 2 powi bitlen b" by (simp add: power_int_diff power_int_add)
  also have "\<dots> = of_int (2 ^ nat (bitlen a - 1)) / of_int (2 ^ nat (bitlen b))" using n by (simp add: power_int_def)
  also have "\<dots> \<le> of_int a / of_int b" using * b a by (intro frac_le) auto
  finally have "(2 :: rat) powi (?k - 1) \<le> x" using e by simp
  then show ?thesis by (simp add: exponent_def q Let_def)
qed

lemma ulp_pos [simp]: "0 < ulp x"
  by (simp add: ulp_def)

lemma rnd_near: "0 < x \<Longrightarrow> \<bar>rnd x - x\<bar> \<le> ulp x / 2"
proof -
  assume x: "0 < x"
  have "rnd x - x = (of_int (half_even (x / ulp x)) - x / ulp x) * ulp x"
    using x ulp_pos[of x] by (simp add: rnd_def left_diff_distrib less_imp_neq[symmetric])
  then have "\<bar>rnd x - x\<bar> = \<bar>of_int (half_even (x / ulp x)) - x / ulp x\<bar> * ulp x" by (simp add: abs_mult less_imp_le)
  also have "\<dots> \<le> 1 / 2 * ulp x" by (rule mult_right_mono[OF half_even_near]) (simp add: less_imp_le)
  finally show ?thesis by simp
qed

lemma ulp_small: "0 < x \<Longrightarrow> x < 2 powi n \<Longrightarrow> ulp x \<le> 2 powi (n - 53)"
proof -
  assume "0 < x" "x < 2 powi n"
  then have "(2 :: rat) powi exponent x < 2 powi n" using exponent_le by (metis le_less_trans)
  then have "exponent x < n" by (meson linorder_not_less one_le_numeral power_int_increasing)
  then show ?thesis unfolding ulp_def by (intro power_int_increasing) auto
qed

lemma rnd_int: "0 \<le> n \<Longrightarrow> n < 2 ^ 53 \<Longrightarrow> rnd (of_int n) = of_int n"
proof -
  assume n: "0 \<le> n" "n < 2 ^ 53"
  show ?thesis
  proof (cases "n = 0")
    case False
    let ?x = "of_int n :: rat"
    have x: "0 < ?x" using n False by simp
    have "?x < of_int (2 ^ 53)" using n(2) by (simp only: of_int_less_iff)
    then have "(2 :: rat) powi exponent ?x < 2 powi 53" using exponent_le[OF x] by simp
    then have "exponent ?x - 52 \<le> 0" by (smt (verit) one_le_numeral power_int_increasing linorder_not_less)
    then have "ulp ?x = 1 / 2 ^ nat (52 - exponent ?x)" by (simp add: ulp_def power_int_def field_simps)
    then have "?x / ulp ?x = of_int (n * 2 ^ nat (52 - exponent ?x))" by simp
    then have "rnd ?x = of_int (n * 2 ^ nat (52 - exponent ?x)) * ulp ?x" using x unfolding rnd_def by (metis half_even_int order_less_irrefl)
    then show ?thesis using \<open>ulp ?x = _\<close> by simp
  qed (simp add: rnd_def)
qed

lemma rnd_near_33: "0 < x \<Longrightarrow> x < 2 ^ 33 \<Longrightarrow> x - 1 / 2097152 \<le> rnd x \<and> rnd x \<le> x + 1 / 2097152"
proof -
  assume x: "0 < x" "x < 2 ^ 33"
  have "(2 :: rat) powi (33 - 53) = 1 / 1048576" by code_simp
  then have "ulp x \<le> 1 / 1048576" using ulp_small[of x 33] x by simp
  then show ?thesis using rnd_near[OF x(1)] by (simp only: abs_le_iff) linarith
qed

lemma nines: "rnd (999999 / 1000000) = 9007190247541737 / 9007199254740992"
  by code_simp

text \<open>Up to four billion samples, the rank computed in floating point is the exact one.\<close>

lemma rank_floor:
  assumes "0 \<le> m" "m < 100 * 2 ^ 32"
  shows "\<lfloor>rnd (rnd (of_int m / 100) + rnd (999999 / 1000000))\<rfloor> = (m + 99) div 100"
proof -
  define n k where "n = m div 100" and "k = m mod 100"
  then have m: "m = 100 * n + k" "0 \<le> k" "k < 100" "0 \<le> n" "n < 2 ^ 32" using assms by auto
  then have x: "(of_int m / 100 :: rat) = of_int n + of_int k / 100" by simp
  have nr: "(0 :: rat) \<le> of_int n" "(of_int n :: rat) \<le> of_int (2 ^ 32)" "0 \<le> (of_int k :: rat)" "(of_int k :: rat) \<le> of_int 99"
    using m by (simp_all only: of_int_le_iff of_int_0_le_iff)
  define y where "y = rnd (of_int m / 100)"
  have y: "of_int n + of_int k / 100 - (if k = 0 then 0 else 1 / 2097152) \<le> y \<and> y \<le> of_int n + of_int k / 100 + (if k = 0 then 0 else 1 / 2097152)"
  proof (cases "k = 0")
    case True
    then show ?thesis using rnd_int[of n] m unfolding y_def x by simp
  next
    case False
    then have "0 < (of_int m / 100 :: rat)" "(of_int m / 100 :: rat) < 2 ^ 33" using nr m(2) unfolding x by (auto intro: add_nonneg_pos)
    with False show ?thesis using rnd_near_33 unfolding y_def x by simp
  qed
  let ?s = "y + rnd (999999 / 1000000)"
  have k1: "(1 :: rat) \<le> of_int k" if "k \<noteq> 0" using that m(2) by (metis of_int_1_le_iff zless_imp_add1_zle add_0 order_less_le)
  have "(2 :: rat) ^ 33 = 8589934592" "(of_int (2 ^ 32) :: rat) = 4294967296" by simp_all
  then have s: "0 < ?s" "?s < 2 ^ 33" using y nr k1 unfolding nines by (simp_all split: if_splits)
  then have z: "?s - 1 / 2097152 \<le> rnd ?s" "rnd ?s \<le> ?s + 1 / 2097152" using rnd_near_33 by blast+
  show ?thesis
  proof (cases "k = 0")
    case True
    then have "y = of_int n" using y by simp
    then have "of_int n \<le> rnd ?s" "rnd ?s < of_int n + 1" using z unfolding nines by linarith+
    then have "\<lfloor>rnd ?s\<rfloor> = n" by (rule floor_unique)
    with True m show ?thesis unfolding y_def by simp
  next
    case False
    then have "of_int n + 1 / 100 - 1 / 2097152 \<le> y" "y \<le> of_int n + 99 / 100 + 1 / 2097152" using y k1 nr by simp_all
    then have "of_int (n + 1) \<le> rnd ?s" "rnd ?s < of_int (n + 1) + 1" using z unfolding nines of_int_add of_int_1 by linarith+
    then have "\<lfloor>rnd ?s\<rfloor> = n + 1" by (rule floor_unique)
    moreover have "(m + 99) div 100 = n + 1"
      using int_div_pos_eq[of "m + 99" 100 "n + 1" "k - 1"] False m(1-3) by simp
    ultimately show ?thesis unfolding y_def by simp
  qed
qed

lemma percentile_target_exact:
  assumes "uint tot < 2 ^ 32" "1 \<le> q" "q \<le> 100" "tot \<noteq> 0"
  shows "uint (percentile_target tot (of_int q)) = (uint tot * q + 99) div 100"
proof -
  have u: "0 < uint tot" using assms(4) by (simp add: word_less_def[symmetric] word_neq_0_conv[symmetric] uint_0_iff order_less_le)
  have m: "uint tot * q \<le> uint tot * 100" "1 \<le> uint tot * q" using assms u by (auto intro: mult_left_mono simp: mult_pos_pos int_one_le_iff_zero_less)
  then have "float64 tot * of_int q = of_int (uint tot * q)" using assms(1) unfolding float64_def by (subst rnd_int) simp_all
  moreover have "rnd (of_int (uint tot * q)) = of_int (uint tot * q)" using m assms(1) by (intro rnd_int) auto
  moreover have "\<lfloor>rnd (rnd (of_int (uint tot * q) / 100) + rnd (999999 / 1000000))\<rfloor> = (uint tot * q + 99) div 100"
    using m assms(1) by (intro rank_floor) auto
  ultimately have t: "trunc64 (rnd (rnd (rnd (float64 tot * of_int q) / 100) + rnd (999999 / 1000000))) = word_of_int ((uint tot * q + 99) div 100)"
    by (simp only: trunc64_def)
  have b: "1 \<le> (uint tot * q + 99) div 100" "(uint tot * q + 99) div 100 < 2 ^ 33" using m assms(1) by auto
  then have "uint (word_of_int ((uint tot * q + 99) div 100) :: u64) = (uint tot * q + 99) div 100" by (simp add: uint_word_of_int)
  moreover from this b have "(word_of_int ((uint tot * q + 99) div 100) :: u64) \<noteq> 0" by (metis uint_0_eq not_one_le_zero)
  ultimately show ?thesis unfolding percentile_target_def Let_def t by simp
qed

section \<open>The percentile of what was measured\<close>

text \<open>The histogram of some latencies: how many fall in each bucket.\<close>

definition histogram :: "u64 list \<Rightarrow> u64 list" where
  "histogram xs = map (\<lambda>i. of_nat (length (filter (\<lambda>x. Bucket x = i) xs))) [0..<Buckets]"

text \<open>The smallest value that at least \<open>q\<close> percent of the latencies do not exceed.\<close>

definition rank :: "nat \<Rightarrow> nat \<Rightarrow> nat" where
  "rank n q = (n * q + 99) div 100"

definition order_statistic :: "u64 list \<Rightarrow> nat \<Rightarrow> u64" where
  "order_statistic xs q = sort xs ! (rank (length xs) q - 1)"

lemma Bucket_bitlen: "ns \<noteq> 0 \<Longrightarrow> int (Bucket ns) = bitlen (uint ns) - 1 \<and> Bucket ns < 64"
proof -
  assume "ns \<noteq> 0"
  then have u: "0 < uint ns" by (simp add: order_less_le uint_0_iff)
  have "uint ns < 2 ^ 64" using uint_bounded[of ns] by simp
  then have "bitlen (uint ns) \<le> 64" using u by (simp add: bitlen_le_iff_power)
  moreover have "1 \<le> bitlen (uint ns)" using u by (metis bitlen_eq_zero_iff bitlen_nonneg dual_order.antisym linorder_not_less zle_diff1_eq int_one_le_iff_zero_less)
  ultimately show ?thesis using \<open>ns \<noteq> 0\<close> by (auto simp: Bucket_def Buckets_def Let_def)
qed

lemma Bucket_less: "Bucket x < 64"
  by (cases "x = 0") (simp_all add: Bucket_bitlen, simp add: Bucket_def)

lemma Bucket_bounds:
  assumes "ns \<noteq> 0"
  shows "2 ^ Bucket ns \<le> uint ns" "uint ns < 2 ^ (Bucket ns + 1)"
proof -
  have u: "0 < uint ns" using assms by (simp add: order_less_le uint_0_iff)
  have "nat (bitlen (uint ns) - 1) = Bucket ns" "nat (bitlen (uint ns)) = Bucket ns + 1" using Bucket_bitlen[OF assms] by auto
  with bitlen_bounds[OF u] show "2 ^ Bucket ns \<le> uint ns" "uint ns < 2 ^ (Bucket ns + 1)" by (metis, metis)
qed

lemma Bucket_mono: "x \<le> y \<Longrightarrow> Bucket x \<le> Bucket y"
proof (cases "x = 0")
  case False
  assume "x \<le> y"
  then have le: "uint x \<le> uint y" by (simp add: word_le_def)
  then have y: "y \<noteq> 0" using False by (metis word_le_0_iff \<open>x \<le> y\<close>)
  have "(2 :: int) ^ Bucket x < 2 ^ (Bucket y + 1)" using Bucket_bounds[OF False] Bucket_bounds[OF y] le by linarith
  then have "Bucket x < Bucket y + 1" by (rule power_less_imp_less_exp[rotated]) simp
  then show ?thesis by simp
qed (simp add: Bucket_def)

lemma percentile_loop_first:
  "j < length cs \<Longrightarrow> \<forall>j' < j. cum + sum_list (take (Suc j') cs) < target \<Longrightarrow> target \<le> cum + sum_list (take (Suc j) cs) \<Longrightarrow>
   percentile_loop target cum i cs = edge (int (i + j))"
proof (induction cs arbitrary: j cum i)
  case (Cons c cs)
  show ?case
  proof (cases j)
    case (Suc j1)
    have "cum + c < target" using Cons.prems(2) Suc by force
    then have "\<not> target \<le> cum + c" by simp
    moreover have "\<forall>j' < j1. (cum + c) + sum_list (take (Suc j') cs) < target"
      using Cons.prems(2) Suc by (auto simp: add.assoc dest!: spec[of _ "Suc _"])
    ultimately show ?thesis using Cons.IH[of j1 "cum + c" "Suc i"] Cons.prems Suc by (simp add: add.assoc)
  qed (use Cons.prems in simp)
qed simp

lemma sum_take_histogram:
  "j < Buckets \<Longrightarrow> sum_list (take (Suc j) (histogram xs)) = of_nat (length (filter (\<lambda>x. Bucket x \<le> j) xs))"
proof (induction j)
  case (Suc j)
  have "length (filter (\<lambda>x. Bucket x \<le> Suc j) xs) = length (filter (\<lambda>x. Bucket x \<le> j) xs) + length (filter (\<lambda>x. Bucket x = Suc j) xs)"
    by (induction xs) auto
  moreover have "take (Suc (Suc j)) (histogram xs) = take (Suc j) (histogram xs) @ [of_nat (length (filter (\<lambda>x. Bucket x = Suc j) xs))]"
    using Suc.prems by (simp add: histogram_def take_map)
  ultimately show ?case using Suc by simp
qed (simp add: histogram_def Buckets_def upt_rec[of 0])

lemma filter_sort_length: "length (filter P (sort xs)) = length (filter P xs)"
  by (metis filter_sort length_sort)

lemma sorted_rank_count:
  assumes "sorted ys" "k < length ys"
  shows "k < length (filter (\<lambda>x. Bucket x \<le> Bucket (ys ! k)) ys)" "j < Bucket (ys ! k) \<Longrightarrow> length (filter (\<lambda>x. Bucket x \<le> j) ys) \<le> k"
proof -
  have "ys = take (Suc k) ys @ drop (Suc k) ys" by simp
  moreover have "filter (\<lambda>x. Bucket x \<le> Bucket (ys ! k)) (take (Suc k) ys) = take (Suc k) ys"
    using assms by (intro filter_True) (auto simp: in_set_conv_nth intro!: Bucket_mono sorted_nth_mono)
  ultimately have "filter (\<lambda>x. Bucket x \<le> Bucket (ys ! k)) ys = take (Suc k) ys @ filter (\<lambda>x. Bucket x \<le> Bucket (ys ! k)) (drop (Suc k) ys)"
    by (metis filter_append)
  then show "k < length (filter (\<lambda>x. Bucket x \<le> Bucket (ys ! k)) ys)" using assms(2) by simp
next
  assume j: "j < Bucket (ys ! k)"
  have "ys = take k ys @ drop k ys" by simp
  moreover have "filter (\<lambda>x. Bucket x \<le> j) (drop k ys) = []"
  proof (intro filter_False ballI)
    fix x assume "x \<in> set (drop k ys)"
    then obtain i where "x = ys ! (k + i)" "k + i < length ys" by (auto simp: in_set_conv_nth)
    then have "Bucket (ys ! k) \<le> Bucket x" using assms(1) by (auto intro!: Bucket_mono sorted_nth_mono)
    with j show "\<not> Bucket x \<le> j" by simp
  qed
  ultimately have "filter (\<lambda>x. Bucket x \<le> j) ys = filter (\<lambda>x. Bucket x \<le> j) (take k ys)" by (metis append_Nil2 filter_append)
  then show "length (filter (\<lambda>x. Bucket x \<le> j) ys) \<le> k" by (metis length_filter_le length_take min.cobounded2 order_trans)
qed

lemma edge_Bucket:
  assumes "0 < x" "x < 2 ^ 63"
  shows "uint x < uint (edge (int (Bucket x)))" "uint (edge (int (Bucket x))) \<le> 2 * uint x"
proof -
  have nz: "x \<noteq> 0" using assms(1) by auto
  note b = Bucket_bounds[OF nz]
  have "uint x < 2 ^ 63" using assms(2) by (simp add: word_less_def)
  with b(1) have "(2 :: int) ^ Bucket x < 2 ^ 63" by linarith
  then have B: "Bucket x < 63" by (rule power_less_imp_less_exp[rotated]) simp
  then have e: "edge (int (Bucket x)) = 2 ^ (Bucket x + 1)" by (simp add: edge_def nat_add_distrib)
  have "(2 :: int) ^ (Bucket x + 1) < 2 ^ 64" using B by (intro power_strict_increasing) simp_all
  then have "uint (word_of_int (2 ^ (Bucket x + 1)) :: u64) = 2 ^ (Bucket x + 1)" by (subst uint_word_of_int) simp
  then have "uint (2 ^ (Bucket x + 1) :: u64) = 2 ^ (Bucket x + 1)" by simp
  with b e show "uint x < uint (edge (int (Bucket x)))" "uint (edge (int (Bucket x))) \<le> 2 * uint x" by simp_all
qed

lemma rank_bounds: "q \<le> 100 \<Longrightarrow> rank n q \<le> n" "0 < n \<Longrightarrow> 0 < q \<Longrightarrow> 0 < rank n q"
proof -
  assume "q \<le> 100"
  then have "(n * q + 99) div 100 \<le> (n * 100 + 99) div 100" by (intro div_le_mono) simp
  then show "rank n q \<le> n" by (simp add: rank_def)
next
  assume "0 < n" "0 < q"
  then have "1 \<le> n * q" by simp
  then have "100 div 100 \<le> (n * q + 99) div 100" by (intro div_le_mono) simp
  then show "0 < rank n q" by (simp add: rank_def)
qed

lemma Percentile_histogram:
  assumes "xs \<noteq> []" "length xs < 2 ^ 32" "1 \<le> q" "q \<le> 100"
  shows "Percentile (histogram xs) (of_nat q) = edge (int (Bucket (order_statistic xs q)))"
proof -
  let ?n = "length xs" and ?k = "rank (length xs) q"
  let ?c = "\<lambda>j. length (filter (\<lambda>x. Bucket x \<le> j) xs)"
  have cn: "?c j \<le> ?n" for j by (rule length_filter_le)
  have un: "uint (of_nat m :: u64) = int m" if "m \<le> ?n" for m
    using that assms(2) by (simp add: unsigned_of_nat take_bit_nat_eq_self)
  have n: "0 < ?n" using assms(1) by simp
  have k: "1 \<le> ?k" "?k \<le> ?n" using rank_bounds(1)[of q ?n] rank_bounds(2)[of ?n q] assms n by auto
  have le63: "\<forall>x. Bucket x \<le> 63" using Bucket_less by (simp add: less_Suc_eq_le[symmetric])
  from le63 have "?c 63 = ?n" by simp
  moreover have "sum_list (histogram xs) = sum_list (take (Suc 63) (histogram xs))" by (simp add: histogram_def Buckets_def)
  ultimately have tot: "sum_list (histogram xs) = of_nat ?n" using sum_take_histogram[of 63 xs] by (simp add: Buckets_def)
  have ut: "uint (of_nat ?n :: u64) = int ?n" by (rule un) simp
  then have tz: "(of_nat ?n :: u64) \<noteq> 0" using n by (metis uint_0_eq of_nat_0_eq_iff less_numeral_extra(3))
  have "uint (percentile_target (of_nat ?n) (of_int (int q))) = (int ?n * int q + 99) div 100"
    using percentile_target_exact[of "of_nat ?n" "int q"] assms tz unfolding ut by simp
  then have target: "uint (percentile_target (of_nat ?n) (of_nat q)) = int ?k" by (simp add: rank_def zdiv_int)
  have st: "sorted (sort xs)" "?k - 1 < length (sort xs)" using k by simp_all
  let ?B = "Bucket (order_statistic xs q)"
  have B: "?B < length (histogram xs)" "?B < Buckets" using Bucket_less by (simp_all add: histogram_def Buckets_def)
  have hi: "?k \<le> ?c ?B" and lo: "j < ?B \<Longrightarrow> ?c j < ?k" for j
    using sorted_rank_count[OF st] k(1) unfolding order_statistic_def filter_sort_length by (fastforce, fastforce)
  have "percentile_loop (percentile_target (of_nat ?n) (of_nat q)) 0 0 (histogram xs) = edge (int (0 + ?B))"
  proof (rule percentile_loop_first[OF B(1)])
    show "\<forall>j' < ?B. 0 + sum_list (take (Suc j') (histogram xs)) < percentile_target (of_nat ?n) (of_nat q)"
      using lo B(2) cn un target by (simp add: sum_take_histogram word_less_def)
    show "percentile_target (of_nat ?n) (of_nat q) \<le> 0 + sum_list (take (Suc ?B) (histogram xs))"
      using hi B(2) cn un target by (simp add: sum_take_histogram word_le_def)
  qed
  moreover have "min 100 (max 0 (of_nat q)) = (of_nat q :: rat)" using assms(4) by simp
  ultimately show ?thesis using tz by (simp add: Percentile_def tot)
qed

text \<open>C25. A percentile read off the log2 histogram is at most twice the true one and never below it. For up to four billion
  latencies between 1 ns and \<open>2 ^ 63\<close> ns, and for a whole percentage, the bucket edge that \<open>Percentile\<close> returns lies above
  the latency of that rank and is at most twice it: the rank, computed in 64-bit floating point, is the exact one.\<close>

theorem Percentile_within_twice:
  assumes "xs \<noteq> []" "length xs < 2 ^ 32" "\<forall>x \<in> set xs. 0 < x \<and> x < 2 ^ 63" "1 \<le> q" "q \<le> 100"
  shows "uint (order_statistic xs q) < uint (Percentile (histogram xs) (of_nat q)) \<and>
    uint (Percentile (histogram xs) (of_nat q)) \<le> 2 * uint (order_statistic xs q)"
proof -
  have "rank (length xs) q \<le> length xs" using assms(5) by (rule rank_bounds)
  then have "order_statistic xs q \<in> set (sort xs)" using assms(1) unfolding order_statistic_def by (intro nth_mem) (cases xs, auto)
  then have "0 < order_statistic xs q" "order_statistic xs q < 2 ^ 63" using assms(3) by auto
  then show ?thesis using edge_Bucket Percentile_histogram[OF assms(1,2,4,5)] by simp
qed

theorem Percentile_within_twice_witness:
  "Percentile (histogram [3, 900, 5, 7]) 99 = 1024 \<and> order_statistic [3, 900, 5, 7] 99 = 900 \<and> (1024 :: int) \<le> 2 * 900"
proof -
  have v: "order_statistic [3, 900, 5, 7] 99 = 900" "Percentile (histogram [3, 900, 5, 7]) 99 = 1024" by code_simp+
  from Percentile_within_twice[of "[3, 900, 5, 7]" 99] have "uint (Percentile (histogram [3, 900, 5, 7]) 99) \<le> 2 * uint (order_statistic [3, 900, 5, 7] 99)"
    by simp
  with v show ?thesis by simp
qed

end
