(* ===== verification/Aggregate.thy ===== *)
theory Aggregate
  imports Hist State
begin

text \<open>
  \<open>internal/aggregate/aggregate.go\<close>: the counters the kernel programs keep per thread, folded onto the VMs the scan found,
  and the rows made of them. A histogram that is \<open>nil\<close> is the empty list. Iteration over a Go map follows the order of
  the list; what is stated here does not depend on it.
\<close>

section \<open>Counters\<close>

type_synonym hist = "u64 list"

record Counters =
  ct_exits :: "(u32, u64) gomap"
  ct_exit_ns :: "(u32, u64) gomap"
  ct_kvm_lat :: hist
  ct_entries :: u64
  ct_mmio :: u64
  ct_pio :: u64
  ct_on_cpu_ns :: u64
  ct_wakeup_delay_ns :: u64
  ct_wakeup_count :: u64
  ct_sched_hist :: hist
  ct_preempt_ns :: u64
  ct_preempt_count :: u64
  ct_preemptors :: "(string, u64) gomap"
  ct_block_read :: hist
  ct_block_write :: hist
  ct_block_read_max :: u64
  ct_block_write_max :: u64
  ct_block_read_ops :: u64
  ct_block_write_ops :: u64
  ct_block_read_bytes :: u64
  ct_block_write_bytes :: u64
  ct_block_issues :: u64
  ct_block_q_read :: hist
  ct_block_q_write :: hist
  ct_block_read_errors :: u64
  ct_block_write_errors :: u64
  ct_reclaim_hist :: hist
  ct_reclaim_ns :: u64
  ct_reclaim_count :: u64
  ct_oom_kills :: u64
  ct_connects :: u64
  ct_retransmits :: u64

definition zero_counters :: Counters where
  "zero_counters = \<lparr>ct_exits = [], ct_exit_ns = [], ct_kvm_lat = [], ct_entries = 0, ct_mmio = 0, ct_pio = 0, ct_on_cpu_ns = 0,
     ct_wakeup_delay_ns = 0, ct_wakeup_count = 0, ct_sched_hist = [], ct_preempt_ns = 0, ct_preempt_count = 0, ct_preemptors = [],
     ct_block_read = [], ct_block_write = [], ct_block_read_max = 0, ct_block_write_max = 0, ct_block_read_ops = 0,
     ct_block_write_ops = 0, ct_block_read_bytes = 0, ct_block_write_bytes = 0, ct_block_issues = 0, ct_block_q_read = [],
     ct_block_q_write = [], ct_block_read_errors = 0, ct_block_write_errors = 0, ct_reclaim_hist = [], ct_reclaim_ns = 0,
     ct_reclaim_count = 0, ct_oom_kills = 0, ct_connects = 0, ct_retransmits = 0\<rparr>"

text \<open>A Go map of counters: a key that is not there reads as zero.\<close>

definition at_key :: "('k, u64) gomap \<Rightarrow> 'k \<Rightarrow> u64" where
  "at_key m k = (case map_of m k of Some v \<Rightarrow> v | None \<Rightarrow> 0)"

definition bump :: "'k \<Rightarrow> u64 \<Rightarrow> ('k, u64) gomap \<Rightarrow> ('k, u64) gomap" where
  "bump k v m = AList.update k (at_key m k + v) m"

definition add_map :: "('k, u64) gomap \<Rightarrow> ('k, u64) gomap \<Rightarrow> ('k, u64) gomap" where
  "add_map dst src = fold (\<lambda>(k, v). bump k v) src dst"

fun add_buckets :: "hist \<Rightarrow> hist \<Rightarrow> hist" where
  "add_buckets (x # a) (y # b) = (x + y) # add_buckets a b"
| "add_buckets a b = a"

definition addHist :: "hist \<Rightarrow> hist \<Rightarrow> hist" where
  "addHist a b = (if b = [] then a else add_buckets (if a = [] then replicate Buckets 0 else a) b)"

definition counters_add :: "Counters \<Rightarrow> Counters \<Rightarrow> Counters" where
  "counters_add dst src = \<lparr>
     ct_exits = add_map (ct_exits dst) (ct_exits src),
     ct_exit_ns = add_map (ct_exit_ns dst) (ct_exit_ns src),
     ct_kvm_lat = addHist (ct_kvm_lat dst) (ct_kvm_lat src),
     ct_entries = ct_entries dst + ct_entries src,
     ct_mmio = ct_mmio dst + ct_mmio src,
     ct_pio = ct_pio dst + ct_pio src,
     ct_on_cpu_ns = ct_on_cpu_ns dst + ct_on_cpu_ns src,
     ct_wakeup_delay_ns = ct_wakeup_delay_ns dst + ct_wakeup_delay_ns src,
     ct_wakeup_count = ct_wakeup_count dst + ct_wakeup_count src,
     ct_sched_hist = addHist (ct_sched_hist dst) (ct_sched_hist src),
     ct_preempt_ns = ct_preempt_ns dst + ct_preempt_ns src,
     ct_preempt_count = ct_preempt_count dst + ct_preempt_count src,
     ct_preemptors = add_map (ct_preemptors dst) (ct_preemptors src),
     ct_block_read = addHist (ct_block_read dst) (ct_block_read src),
     ct_block_write = addHist (ct_block_write dst) (ct_block_write src),
     ct_block_read_max = (if ct_block_read_max src > ct_block_read_max dst then ct_block_read_max src else ct_block_read_max dst),
     ct_block_write_max = (if ct_block_write_max src > ct_block_write_max dst then ct_block_write_max src else ct_block_write_max dst),
     ct_block_read_ops = ct_block_read_ops dst + ct_block_read_ops src,
     ct_block_write_ops = ct_block_write_ops dst + ct_block_write_ops src,
     ct_block_read_bytes = ct_block_read_bytes dst + ct_block_read_bytes src,
     ct_block_write_bytes = ct_block_write_bytes dst + ct_block_write_bytes src,
     ct_block_issues = ct_block_issues dst + ct_block_issues src,
     ct_block_q_read = addHist (ct_block_q_read dst) (ct_block_q_read src),
     ct_block_q_write = addHist (ct_block_q_write dst) (ct_block_q_write src),
     ct_block_read_errors = ct_block_read_errors dst + ct_block_read_errors src,
     ct_block_write_errors = ct_block_write_errors dst + ct_block_write_errors src,
     ct_reclaim_hist = addHist (ct_reclaim_hist dst) (ct_reclaim_hist src),
     ct_reclaim_ns = ct_reclaim_ns dst + ct_reclaim_ns src,
     ct_reclaim_count = ct_reclaim_count dst + ct_reclaim_count src,
     ct_oom_kills = ct_oom_kills dst + ct_oom_kills src,
     ct_connects = ct_connects dst + ct_connects src,
     ct_retransmits = ct_retransmits dst + ct_retransmits src\<rparr>"

definition counters_Sum :: "Counters list \<Rightarrow> Counters" where
  "counters_Sum cs = foldl counters_add zero_counters cs"

definition TotalExits :: "Counters \<Rightarrow> u64" where
  "TotalExits c = sum_list (map snd (ct_exits c))"

section \<open>Counters over a window\<close>

definition sub :: "u64 \<Rightarrow> u64 \<Rightarrow> u64" where
  "sub cur base = (if cur < base then cur else cur - base)"

definition sub_map :: "('k, u64) gomap \<Rightarrow> ('k, u64) gomap \<Rightarrow> ('k, u64) gomap" where
  "sub_map cur base = map (\<lambda>(k, v). (k, sub v (at_key base k))) cur"

fun subHist :: "hist \<Rightarrow> hist \<Rightarrow> hist" where
  "subHist [] base = []"
| "subHist (v # cur) [] = sub v 0 # subHist cur []"
| "subHist (v # cur) (b # base) = sub v b # subHist cur base"

definition Delta :: "Counters \<Rightarrow> Counters \<Rightarrow> Counters" where
  "Delta cur base = \<lparr>
     ct_exits = sub_map (ct_exits cur) (ct_exits base),
     ct_exit_ns = sub_map (ct_exit_ns cur) (ct_exit_ns base),
     ct_kvm_lat = subHist (ct_kvm_lat cur) (ct_kvm_lat base),
     ct_entries = sub (ct_entries cur) (ct_entries base),
     ct_mmio = sub (ct_mmio cur) (ct_mmio base),
     ct_pio = sub (ct_pio cur) (ct_pio base),
     ct_on_cpu_ns = sub (ct_on_cpu_ns cur) (ct_on_cpu_ns base),
     ct_wakeup_delay_ns = sub (ct_wakeup_delay_ns cur) (ct_wakeup_delay_ns base),
     ct_wakeup_count = sub (ct_wakeup_count cur) (ct_wakeup_count base),
     ct_sched_hist = subHist (ct_sched_hist cur) (ct_sched_hist base),
     ct_preempt_ns = sub (ct_preempt_ns cur) (ct_preempt_ns base),
     ct_preempt_count = sub (ct_preempt_count cur) (ct_preempt_count base),
     ct_preemptors = sub_map (ct_preemptors cur) (ct_preemptors base),
     ct_block_read = subHist (ct_block_read cur) (ct_block_read base),
     ct_block_write = subHist (ct_block_write cur) (ct_block_write base),
     ct_block_read_max = ct_block_read_max cur,
     ct_block_write_max = ct_block_write_max cur,
     ct_block_read_ops = sub (ct_block_read_ops cur) (ct_block_read_ops base),
     ct_block_write_ops = sub (ct_block_write_ops cur) (ct_block_write_ops base),
     ct_block_read_bytes = sub (ct_block_read_bytes cur) (ct_block_read_bytes base),
     ct_block_write_bytes = sub (ct_block_write_bytes cur) (ct_block_write_bytes base),
     ct_block_issues = sub (ct_block_issues cur) (ct_block_issues base),
     ct_block_q_read = subHist (ct_block_q_read cur) (ct_block_q_read base),
     ct_block_q_write = subHist (ct_block_q_write cur) (ct_block_q_write base),
     ct_block_read_errors = sub (ct_block_read_errors cur) (ct_block_read_errors base),
     ct_block_write_errors = sub (ct_block_write_errors cur) (ct_block_write_errors base),
     ct_reclaim_hist = subHist (ct_reclaim_hist cur) (ct_reclaim_hist base),
     ct_reclaim_ns = sub (ct_reclaim_ns cur) (ct_reclaim_ns base),
     ct_reclaim_count = sub (ct_reclaim_count cur) (ct_reclaim_count base),
     ct_oom_kills = sub (ct_oom_kills cur) (ct_oom_kills base),
     ct_connects = sub (ct_connects cur) (ct_connects base),
     ct_retransmits = sub (ct_retransmits cur) (ct_retransmits base)\<rparr>"

definition counters_Clone :: "Counters \<Rightarrow> Counters" where
  "counters_Clone c = c\<lparr>ct_exits := sub_map (ct_exits c) [], ct_exit_ns := sub_map (ct_exit_ns c) [], ct_preemptors := sub_map (ct_preemptors c) [],
     ct_kvm_lat := [] @ ct_kvm_lat c, ct_sched_hist := [] @ ct_sched_hist c, ct_block_read := [] @ ct_block_read c,
     ct_block_write := [] @ ct_block_write c, ct_block_q_read := [] @ ct_block_q_read c, ct_block_q_write := [] @ ct_block_q_write c,
     ct_reclaim_hist := [] @ ct_reclaim_hist c\<rparr>"

section \<open>Folding onto VMs\<close>

abbreviation Host :: string where
  "Host \<equiv> ''_host''"

definition PID32 :: "int \<Rightarrow> u32" where
  "PID32 n = (if n \<le> 0 then 0 else if n \<le> 4294967295 then word_of_int n else 0)"

definition Owns :: "vm_info \<Rightarrow> u32 \<Rightarrow> bool" where
  "Owns vm pid \<longleftrightarrow> pid \<noteq> 0 \<and> (PID32 (id_pid vm) = pid \<or> (\<exists>t \<in> set (id_threads vm). PID32 t = pid))"

record bucket =
  bk_name :: string
  bk_runtime :: string
  bk_c :: Counters

definition new_bucket :: "string \<Rightarrow> string \<Rightarrow> bucket" where
  "new_bucket name runtime = \<lparr>bk_name = name, bk_runtime = runtime, bk_c = zero_counters\<rparr>"

definition own :: "string \<Rightarrow> int \<Rightarrow> (u32, string) gomap \<Rightarrow> (u32, string) gomap" where
  "own name pid m = (if PID32 pid \<noteq> 0 then AList.update (PID32 pid) name m else m)"

definition owned_by :: "vm_info list \<Rightarrow> (u32, string) gomap" where
  "owned_by vms = fold (\<lambda>vm m. fold (own (id_name vm)) (id_threads vm) (own (id_name vm) (id_pid vm) m)) vms []"

definition row_index :: "vm_info list \<Rightarrow> (string, nat) gomap" where
  "row_index vms = fold (\<lambda>(i, vm). AList.update (id_name vm) i) (enumerate 0 vms) []"

definition add_into :: "Counters \<Rightarrow> bucket \<Rightarrow> bucket" where
  "add_into c b = b\<lparr>bk_c := counters_add (bk_c b) c\<rparr>"

text \<open>One thread's counters: into its VM's row, or into the host's. Whether the host row is used is whether it is there.\<close>

definition group_step :: "(u32, string) gomap \<Rightarrow> (string, nat) gomap \<Rightarrow> u32 \<times> Counters \<Rightarrow> bucket list \<times> bucket option \<Rightarrow> bucket list \<times> bucket option" where
  "group_step owned index pc st = (case map_of owned (fst pc) of
      None \<Rightarrow> (fst st, Some (add_into (snd pc) (case snd st of Some h \<Rightarrow> h | None \<Rightarrow> new_bucket Host '''')))
    | Some name \<Rightarrow>
        (let i = (case map_of index name of Some i \<Rightarrow> i | None \<Rightarrow> 0) in ((fst st)[i := add_into (snd pc) (fst st ! i)], snd st)))"

definition group :: "vm_info list \<Rightarrow> (u32, Counters) gomap \<Rightarrow> bucket list" where
  "group vms byPID =
     (let (rows, host) = fold (group_step (owned_by vms) (row_index vms)) byPID (map (\<lambda>vm. new_bucket (id_name vm) (id_runtime vm)) vms, None)
      in rows @ (case host of Some h \<Rightarrow> [h] | None \<Rightarrow> []))"

definition PerVM :: "vm_info list \<Rightarrow> (u32, Counters) gomap \<Rightarrow> (string, Counters) gomap" where
  "PerVM vms byPID = fold (\<lambda>b m. if bk_name b \<noteq> Host then AList.update (bk_name b) (bk_c b) m else m) (group vms byPID) []"

definition filter_rows :: "bucket list \<Rightarrow> string \<Rightarrow> bucket list" where
  "filter_rows rows vm = (if vm = '''' then rows else filter (\<lambda>r. bk_name r = vm) rows)"

section \<open>Rows\<close>

record Reason =
  rs_reason :: u32
  rs_count :: u64
  rs_total_ns :: u64
  rs_name :: string

record KVMRow =
  kr_vm :: string
  kr_runtime :: string
  kr_exits :: u64
  kr_entries :: u64
  kr_mmio :: u64
  kr_pio :: u64
  kr_top :: "Reason list"
  kr_top_by_time :: "Reason list"
  kr_all :: "Reason list"
  kr_p50 :: u64
  kr_p99 :: u64
  kr_hist :: hist
  kr_measured :: bool

text \<open>The insertion sorts: \<open>sink\<close> moves a reason left past every smaller one; the prefix is kept last first.\<close>

fun sink :: "('a \<Rightarrow> u64) \<Rightarrow> 'a \<Rightarrow> 'a list \<Rightarrow> 'a list" where
  "sink key x [] = [x]"
| "sink key x (y # ys) = (if key x > key y then y # sink key x ys else x # y # ys)"

definition sort_by :: "('a \<Rightarrow> u64) \<Rightarrow> 'a list \<Rightarrow> 'a list" where
  "sort_by key rs = rev (fold (sink key) rs [])"

definition sortReasons :: "Reason list \<Rightarrow> Reason list" where
  "sortReasons = sort_by rs_count"

definition sortReasonsByTime :: "Reason list \<Rightarrow> Reason list" where
  "sortReasonsByTime = sort_by rs_total_ns"

definition reasons_of :: "Counters \<Rightarrow> Reason list" where
  "reasons_of c = map (\<lambda>(r, n). \<lparr>rs_reason = r, rs_count = n, rs_total_ns = at_key (ct_exit_ns c) r, rs_name = ''''\<rparr>) (ct_exits c)"

definition kvm_row :: "bucket \<Rightarrow> KVMRow" where
  "kvm_row b =
     (let c = bk_c b; top = sortReasons (reasons_of c)
      in \<lparr>kr_vm = bk_name b, kr_runtime = bk_runtime b, kr_exits = TotalExits c, kr_entries = ct_entries c, kr_mmio = ct_mmio c,
          kr_pio = ct_pio c, kr_top = take 3 top, kr_top_by_time = take 3 (sortReasonsByTime (reasons_of c)), kr_all = top,
          kr_p50 = Percentile (ct_kvm_lat c) 50, kr_p99 = Percentile (ct_kvm_lat c) 99, kr_hist = ct_kvm_lat c,
          kr_measured = (TotalExits c + ct_entries c + ct_mmio c + ct_pio c > 0)\<rparr>)"

definition KVM :: "vm_info list \<Rightarrow> (u32, Counters) gomap \<Rightarrow> string \<Rightarrow> KVMRow list" where
  "KVM vms byPID vm = map kvm_row (filter_rows (group vms byPID) vm)"

record Preemptor =
  pr_who :: string
  pr_ns :: u64

definition TopPreemptors :: "(string, u64) gomap \<Rightarrow> nat \<Rightarrow> Preemptor list" where
  "TopPreemptors m n = take n (sort_key (\<lambda>p. - uint (pr_ns p)) (sort_key pr_who
     (map (\<lambda>(who, ns). \<lparr>pr_who = who, pr_ns = ns\<rparr>) (filter (\<lambda>(who, ns). ns > 0) m))))"

record SchedRow =
  sr_vm :: string
  sr_on_cpu_ns :: u64
  sr_wakeup_delay_ns :: u64
  sr_wakeup_count :: u64
  sr_p50 :: u64
  sr_p99 :: u64
  sr_hist :: hist
  sr_preempted_ns :: u64
  sr_preempted_count :: u64
  sr_preemptors :: "Preemptor list"
  sr_all_preemptors :: "Preemptor list"
  sr_measured :: bool

definition sched_row :: "bucket \<Rightarrow> SchedRow" where
  "sched_row b =
     (let c = bk_c b
      in \<lparr>sr_vm = bk_name b, sr_on_cpu_ns = ct_on_cpu_ns c, sr_wakeup_delay_ns = ct_wakeup_delay_ns c,
          sr_wakeup_count = ct_wakeup_count c, sr_p50 = Percentile (ct_sched_hist c) 50, sr_p99 = Percentile (ct_sched_hist c) 99,
          sr_hist = ct_sched_hist c, sr_preempted_ns = ct_preempt_ns c, sr_preempted_count = ct_preempt_count c,
          sr_preemptors = TopPreemptors (ct_preemptors c) 5,
          sr_all_preemptors = TopPreemptors (ct_preemptors c) (length (ct_preemptors c)),
          sr_measured = (ct_on_cpu_ns c + ct_wakeup_count c > 0)\<rparr>)"

definition Sched :: "vm_info list \<Rightarrow> (u32, Counters) gomap \<Rightarrow> string \<Rightarrow> SchedRow list" where
  "Sched vms byPID vm = map sched_row (filter_rows (group vms byPID) vm)"

record ThreadRow =
  tr_vm :: string
  tr_tid :: int
  tr_comm :: string
  tr_role :: string
  tr_on_cpu_ns :: u64
  tr_wakeup_delay_ns :: u64
  tr_wakeup_count :: u64
  tr_p99 :: u64
  tr_preempted_ns :: u64

definition thread_row :: "string \<Rightarrow> vm_thread \<Rightarrow> Counters \<Rightarrow> ThreadRow" where
  "thread_row vm t c = \<lparr>tr_vm = vm, tr_tid = th_tid t, tr_comm = th_comm t, tr_role = th_role t, tr_on_cpu_ns = ct_on_cpu_ns c,
     tr_wakeup_delay_ns = ct_wakeup_delay_ns c, tr_wakeup_count = ct_wakeup_count c, tr_p99 = Percentile (ct_sched_hist c) 99,
     tr_preempted_ns = ct_preempt_ns c\<rparr>"

definition threads_of :: "vm_info \<Rightarrow> vm_thread list" where
  "threads_of v = (if id_thread_info v = [] then map (\<lambda>t. \<lparr>th_tid = t, th_comm = '''', th_role = ''unknown''\<rparr>) (id_threads v) else id_thread_info v)"

definition SchedThreads :: "vm_info list \<Rightarrow> (u32, Counters) gomap \<Rightarrow> string \<Rightarrow> ThreadRow list" where
  "SchedThreads vms byPID vm =
     concat (map (\<lambda>v. List.map_filter (\<lambda>t. if PID32 (th_tid t) = 0 then None else map_option (thread_row (id_name v) t) (map_of byPID (PID32 (th_tid t))))
       (threads_of v)) (filter (\<lambda>v. vm = '''' \<or> id_name v = vm) vms))"

record BlockRow =
  br_vm :: string
  br_issues :: u64
  br_read_p50 :: u64
  br_read_p99 :: u64
  br_write_p50 :: u64
  br_write_p99 :: u64
  br_read_max :: u64
  br_write_max :: u64
  br_read_ops :: u64
  br_write_ops :: u64
  br_read_bytes :: u64
  br_write_bytes :: u64
  br_read_hist :: hist
  br_write_hist :: hist
  br_q_read_p50 :: u64
  br_q_read_p99 :: u64
  br_q_write_p50 :: u64
  br_q_write_p99 :: u64
  br_q_read_hist :: hist
  br_q_write_hist :: hist
  br_read_errors :: u64
  br_write_errors :: u64
  br_measured :: bool

definition block_row :: "bucket \<Rightarrow> BlockRow" where
  "block_row b =
     (let c = bk_c b
      in \<lparr>br_vm = bk_name b, br_issues = ct_block_issues c,
          br_read_p50 = Percentile (ct_block_read c) 50, br_read_p99 = Percentile (ct_block_read c) 99,
          br_write_p50 = Percentile (ct_block_write c) 50, br_write_p99 = Percentile (ct_block_write c) 99,
          br_read_max = ct_block_read_max c, br_write_max = ct_block_write_max c,
          br_read_ops = ct_block_read_ops c, br_write_ops = ct_block_write_ops c,
          br_read_bytes = ct_block_read_bytes c, br_write_bytes = ct_block_write_bytes c,
          br_read_hist = ct_block_read c, br_write_hist = ct_block_write c,
          br_q_read_p50 = Percentile (ct_block_q_read c) 50, br_q_read_p99 = Percentile (ct_block_q_read c) 99,
          br_q_write_p50 = Percentile (ct_block_q_write c) 50, br_q_write_p99 = Percentile (ct_block_q_write c) 99,
          br_q_read_hist = ct_block_q_read c, br_q_write_hist = ct_block_q_write c,
          br_read_errors = ct_block_read_errors c, br_write_errors = ct_block_write_errors c,
          br_measured = (ct_block_issues c > 0)\<rparr>)"

definition Block :: "vm_info list \<Rightarrow> (u32, Counters) gomap \<Rightarrow> string \<Rightarrow> BlockRow list" where
  "Block vms byPID vm = map block_row (filter_rows (group vms byPID) vm)"

record MemoryRow =
  mr_vm :: string
  mr_reclaim_count :: u64
  mr_reclaim_ns :: u64
  mr_reclaim_p99 :: u64
  mr_reclaim_hist :: hist
  mr_oom_kills :: u64
  mr_measured :: bool

definition memory_row :: "bucket \<Rightarrow> MemoryRow" where
  "memory_row b =
     (let c = bk_c b
      in \<lparr>mr_vm = bk_name b, mr_reclaim_count = ct_reclaim_count c, mr_reclaim_ns = ct_reclaim_ns c,
          mr_reclaim_p99 = Percentile (ct_reclaim_hist c) 99, mr_reclaim_hist = ct_reclaim_hist c, mr_oom_kills = ct_oom_kills c,
          mr_measured = (ct_reclaim_count c > 0 \<or> ct_oom_kills c > 0)\<rparr>)"

definition Memory :: "vm_info list \<Rightarrow> (u32, Counters) gomap \<Rightarrow> string \<Rightarrow> MemoryRow list" where
  "Memory vms byPID vm = map memory_row
     (filter (\<lambda>b. \<not> (ct_reclaim_count (bk_c b) = 0 \<and> ct_oom_kills (bk_c b) = 0 \<and> vm = '''')) (filter_rows (group vms byPID) vm))"

record NetRow =
  nr_vm :: string
  nr_connects :: u64
  nr_retransmits :: u64
  nr_attribution :: string
  nr_guest_attributed :: bool
  nr_note :: string

definition net_row :: "bucket \<Rightarrow> NetRow" where
  "net_row b = \<lparr>nr_vm = bk_name b, nr_connects = ct_connects (bk_c b), nr_retransmits = ct_retransmits (bk_c b),
     nr_attribution = (if bk_name b \<noteq> Host then ''qemu-process'' else ''unattributed''), nr_guest_attributed = False,
     nr_note = (if bk_name b \<noteq> Host
       then ''Connects and retransmits from the QEMU process, not the guest. Tap/TCX attribution is not attached.''
       else ''Not a QEMU thread. Not guest traffic.'')\<rparr>"

definition Net :: "vm_info list \<Rightarrow> (u32, Counters) gomap \<Rightarrow> string \<Rightarrow> NetRow list" where
  "Net vms byPID vm = map net_row (filter_rows (group vms byPID) vm)"

record TapTotals =
  tt_foreign_drops :: u64
  tt_drops_ok :: bool
  tt_out_refused :: u64
  tt_out_timeout :: u64
  tt_in_syn :: u64
  tt_outcomes_ok :: bool

end
