(* ===== verification/AggregateProps.thy ===== *)
theory AggregateProps
  imports Aggregate
begin

text \<open>
  The aggregation neither loses nor invents a counter: the rows add up to the threads; each VM's row is the sum of the
  threads that VM owns and the host's row the sum of all others; and what accumulated over a window, added to where the
  window began, is where it ended.
\<close>

section \<open>Fields that add up\<close>

definition scalar_fields :: "(Counters \<Rightarrow> u64) list" where
  "scalar_fields = [ct_entries, ct_mmio, ct_pio, ct_on_cpu_ns, ct_wakeup_delay_ns, ct_wakeup_count, ct_preempt_ns, ct_preempt_count,
     ct_block_read_ops, ct_block_write_ops, ct_block_read_bytes, ct_block_write_bytes, ct_block_issues, ct_block_read_errors,
     ct_block_write_errors, ct_reclaim_ns, ct_reclaim_count, ct_oom_kills, ct_connects, ct_retransmits]"

definition adds_up :: "(Counters \<Rightarrow> u64) \<Rightarrow> bool" where
  "adds_up f \<longleftrightarrow> f zero_counters = 0 \<and> (\<forall>a b. f (counters_add a b) = f a + f b)"

lemma scalar_adds_up: "f \<in> set scalar_fields \<Longrightarrow> adds_up f"
  unfolding scalar_fields_def by (auto simp: adds_up_def zero_counters_def counters_add_def)

lemma adds_up_add_into [simp]: "adds_up f \<Longrightarrow> f (bk_c (add_into c b)) = f (bk_c b) + f c"
  by (simp add: adds_up_def add_into_def)

lemma adds_up_new [simp]: "adds_up f \<Longrightarrow> f (bk_c (new_bucket n r)) = 0"
  by (simp add: adds_up_def new_bucket_def)

section \<open>Who owns a thread\<close>

lemma map_of_own: "map_of (own n p m) = (if PID32 p \<noteq> 0 then (map_of m)(PID32 p \<mapsto> n) else map_of m)"
  by (simp add: own_def)

lemma map_of_owns: "map_of (fold (own n) ts m) q = (if q \<noteq> 0 \<and> (\<exists>t \<in> set ts. PID32 t = q) then Some n else map_of m q)"
  by (induction ts arbitrary: m) (auto simp: map_of_own)

lemma map_of_owned_step:
  "map_of (fold (own (id_name vm)) (id_threads vm) (own (id_name vm) (id_pid vm) m)) q = (if Owns vm q then Some (id_name vm) else map_of m q)"
  by (auto simp: map_of_owns map_of_own Owns_def)

text \<open>The last VM of the list that has a thread owns it.\<close>

lemma owned_by_snoc: "map_of (owned_by (vms @ [vm])) q = (if Owns vm q then Some (id_name vm) else map_of (owned_by vms) q)"
  by (simp add: owned_by_def map_of_owned_step)

lemma owned_by_Some: "map_of (owned_by vms) q = Some n \<Longrightarrow> \<exists>vm \<in> set vms. id_name vm = n \<and> Owns vm q"
  by (induction vms rule: rev_induct) (auto simp: owned_by_snoc owned_by_def[of "[]"] split: if_splits)

lemma owned_by_None: "map_of (owned_by vms) q = None \<longleftrightarrow> (\<forall>vm \<in> set vms. \<not> Owns vm q)"
  by (induction vms rule: rev_induct) (auto simp: owned_by_snoc owned_by_def[of "[]"])

lemma row_index_snoc: "map_of (row_index (vms @ [vm])) = (map_of (row_index vms))(id_name vm \<mapsto> length vms)"
  by (simp add: row_index_def enumerate_append_eq)

lemma row_index_less: "map_of (row_index vms) n = Some i \<Longrightarrow> i < length vms \<and> id_name (vms ! i) = n"
  by (induction vms rule: rev_induct) (auto simp: row_index_snoc row_index_def[of "[]"] nth_append split: if_splits)

lemma row_index_None: "map_of (row_index vms) n = None \<longleftrightarrow> n \<notin> id_name ` set vms"
  by (induction vms rule: rev_induct) (auto simp: row_index_snoc row_index_def[of "[]"])

lemma owned_row:
  assumes "map_of (owned_by vms) q = Some n"
  obtains i where "map_of (row_index vms) n = Some i" "i < length vms" "id_name (vms ! i) = n"
proof -
  have "n \<in> id_name ` set vms" using owned_by_Some[OF assms] by auto
  then obtain i where "map_of (row_index vms) n = Some i" using row_index_None[of vms n] by auto
  with row_index_less that show ?thesis by blast
qed

section \<open>The rows add up\<close>

abbreviation group_fold :: "vm_info list \<Rightarrow> (u32, Counters) gomap \<Rightarrow> bucket list \<times> bucket option \<Rightarrow> bucket list \<times> bucket option" where
  "group_fold vms byPID st \<equiv> fold (group_step (owned_by vms) (row_index vms)) byPID st"

abbreviation host_rows :: "bucket option \<Rightarrow> bucket list" where
  "host_rows h \<equiv> (case h of Some b \<Rightarrow> [b] | None \<Rightarrow> [])"

abbreviation total_of :: "(Counters \<Rightarrow> u64) \<Rightarrow> bucket list \<Rightarrow> u64" where
  "total_of f rows \<equiv> sum_list (map (\<lambda>b. f (bk_c b)) rows)"

lemma total_of_update: "i < length rows \<Longrightarrow> adds_up f \<Longrightarrow> total_of f (rows[i := add_into c (rows ! i)]) = total_of f rows + f c"
  by (induction rows arbitrary: i) (auto simp: nth_Cons' ac_simps split: nat.splits)

lemma group_step_total:
  assumes "adds_up f" "length rows = length vms" "group_step (owned_by vms) (row_index vms) pc (rows, h) = (rows', h')"
  shows "length rows' = length vms \<and> total_of f (rows' @ host_rows h') = total_of f (rows @ host_rows h) + f (snd pc)"
proof (cases "map_of (owned_by vms) (fst pc)")
  case None
  with assms show ?thesis by (auto simp: group_step_def ac_simps split: option.splits)
next
  case (Some n)
  then obtain i where "map_of (row_index vms) n = Some i" "i < length vms" by (rule owned_row)
  with Some assms show ?thesis by (auto simp: group_step_def total_of_update ac_simps)
qed

lemma group_fold_total:
  assumes "adds_up f" "length (fst st) = length vms"
  shows "total_of f (fst (group_fold vms byPID st) @ host_rows (snd (group_fold vms byPID st))) =
    total_of f (fst st @ host_rows (snd st)) + sum_list (map (f \<circ> snd) byPID)"
  using assms(2)
proof (induction byPID arbitrary: st)
  case (Cons pc byPID)
  obtain r' h' where g: "group_step (owned_by vms) (row_index vms) pc (fst st, snd st) = (r', h')" by fastforce
  from group_step_total[OF assms(1) Cons.prems g] Cons.IH[of "(r', h')"] g show ?case by (simp add: ac_simps)
qed simp

lemma group_eq:
  "group vms byPID = fst (group_fold vms byPID (map (\<lambda>vm. new_bucket (id_name vm) (id_runtime vm)) vms, None)) @
     host_rows (snd (group_fold vms byPID (map (\<lambda>vm. new_bucket (id_name vm) (id_runtime vm)) vms, None)))"
  by (simp add: group_def split_beta)


section \<open>Each row is its own\<close>

definition sum_where :: "(Counters \<Rightarrow> u64) \<Rightarrow> (u32 \<Rightarrow> bool) \<Rightarrow> (u32, Counters) gomap \<Rightarrow> u64" where
  "sum_where f P byPID = sum_list (map (f \<circ> snd) (filter (P \<circ> fst) byPID))"

lemma sum_where_simps [simp]:
  "sum_where f P [] = 0" "sum_where f P (pc # l) = (if P (fst pc) then f (snd pc) else 0) + sum_where f P l"
  by (simp_all add: sum_where_def)

lemma group_step_row:
  assumes "adds_up f" "distinct (map id_name vms)" "length (fst st) = length vms" "i < length vms"
    and "st' = group_step (owned_by vms) (row_index vms) pc st"
  shows "length (fst st') = length vms \<and> bk_name (fst st' ! i) = bk_name (fst st ! i) \<and>
    f (bk_c (fst st' ! i)) = f (bk_c (fst st ! i)) + (if map_of (owned_by vms) (fst pc) = Some (id_name (vms ! i)) then f (snd pc) else 0)"
proof (cases "map_of (owned_by vms) (fst pc)")
  case (Some n)
  then obtain j where j: "map_of (row_index vms) n = Some j" "j < length vms" "id_name (vms ! j) = n" by (rule owned_row)
  have "id_name (vms ! i) = n \<longleftrightarrow> i = j" using assms(2,4) j(2,3) by (metis length_map nth_eq_iff_index_eq nth_map)
  with Some j assms(1,3-5) show ?thesis by (auto simp: group_step_def nth_list_update add_into_def adds_up_def)
qed (use assms in \<open>simp add: group_step_def\<close>)

lemma group_fold_row:
  assumes "adds_up f" "distinct (map id_name vms)" "length (fst st) = length vms" "i < length vms"
  shows "length (fst (group_fold vms byPID st)) = length vms \<and> bk_name (fst (group_fold vms byPID st) ! i) = bk_name (fst st ! i) \<and>
    f (bk_c (fst (group_fold vms byPID st) ! i)) = f (bk_c (fst st ! i)) + sum_where f (\<lambda>q. map_of (owned_by vms) q = Some (id_name (vms ! i))) byPID"
  using assms(3)
proof (induction byPID arbitrary: st)
  case (Cons pc byPID)
  note g = group_step_row[OF assms(1,2) Cons.prems assms(4) refl, of pc]
  with Cons.IH[of "group_step (owned_by vms) (row_index vms) pc st"] show ?case by (simp add: ac_simps)
qed simp

lemma group_fold_host:
  assumes "adds_up f" "\<forall>b. snd st = Some b \<longrightarrow> bk_name b = Host"
  shows "(\<forall>b. snd (group_fold vms byPID st) = Some b \<longrightarrow> bk_name b = Host) \<and>
    total_of f (host_rows (snd (group_fold vms byPID st))) = total_of f (host_rows (snd st)) + sum_where f (\<lambda>q. map_of (owned_by vms) q = None) byPID"
  using assms(2)
proof (induction byPID arbitrary: st)
  case (Cons pc byPID)
  let ?st = "group_step (owned_by vms) (row_index vms) pc st"
  have "(\<forall>b. snd ?st = Some b \<longrightarrow> bk_name b = Host) \<and>
    total_of f (host_rows (snd ?st)) = total_of f (host_rows (snd st)) + (if map_of (owned_by vms) (fst pc) = None then f (snd pc) else 0)"
    using Cons.prems assms(1) by (auto simp: group_step_def Let_def add_into_def new_bucket_def adds_up_def split: option.splits)
  with Cons.IH[of ?st] show ?case by (simp add: ac_simps)
qed simp

text \<open>VMs that share no thread.\<close>

definition threads_disjoint :: "vm_info list \<Rightarrow> bool" where
  "threads_disjoint vms \<longleftrightarrow> (\<forall>i < length vms. \<forall>j < length vms. \<forall>q. Owns (vms ! i) q \<longrightarrow> Owns (vms ! j) q \<longrightarrow> i = j)"

lemma owned_by_iff:
  assumes "distinct (map id_name vms)" "threads_disjoint vms" "i < length vms"
  shows "map_of (owned_by vms) q = Some (id_name (vms ! i)) \<longleftrightarrow> Owns (vms ! i) q"
proof
  assume "map_of (owned_by vms) q = Some (id_name (vms ! i))"
  then obtain j where "j < length vms" "id_name (vms ! j) = id_name (vms ! i)" "Owns (vms ! j) q"
    using owned_by_Some by (fastforce simp: in_set_conv_nth)
  moreover from this have "j = i" using assms(1,3) by (metis length_map nth_eq_iff_index_eq nth_map)
  ultimately show "Owns (vms ! i) q" by simp
next
  assume o: "Owns (vms ! i) q"
  then have "map_of (owned_by vms) q \<noteq> None" using assms(3) owned_by_None by (metis nth_mem)
  then obtain n where n: "map_of (owned_by vms) q = Some n" by blast
  then obtain j where "j < length vms" "id_name (vms ! j) = n" "Owns (vms ! j) q" using owned_by_Some by (fastforce simp: in_set_conv_nth)
  with assms(2,3) o have "j = i" unfolding threads_disjoint_def by blast
  with n \<open>id_name (vms ! j) = n\<close> show "map_of (owned_by vms) q = Some (id_name (vms ! i))" by simp
qed

lemma group_rows:
  assumes "distinct (map id_name vms)" "threads_disjoint vms" "f \<in> set scalar_fields" "i < length vms"
  shows "bk_name (group vms byPID ! i) = id_name (vms ! i) \<and> f (bk_c (group vms byPID ! i)) = sum_where f (Owns (vms ! i)) byPID \<and>
    list_all (\<lambda>b. bk_name b = Host) (drop (length vms) (group vms byPID)) \<and>
    total_of f (drop (length vms) (group vms byPID)) = sum_where f (\<lambda>q. list_all (\<lambda>vm. \<not> Owns vm q) vms) byPID"
proof -
  let ?st = "(map (\<lambda>vm. new_bucket (id_name vm) (id_runtime vm)) vms, None :: bucket option)"
  have f: "adds_up f" using assms(3) by (rule scalar_adds_up)
  then have z: "f zero_counters = 0" by (simp add: adds_up_def)
  note r = group_fold_row[OF f assms(1) _ assms(4), of ?st byPID]
  note h = group_fold_host[OF f, of ?st vms byPID]
  have n: "map_of (owned_by vms) q = None \<longleftrightarrow> list_all (\<lambda>vm. \<not> Owns vm q) vms" for q by (simp add: owned_by_None list_all_iff)
  show ?thesis
    using r h z assms(4) unfolding group_eq owned_by_iff[OF assms(1,2,4)] n
    by (auto simp: nth_append new_bucket_def split: option.splits)
qed

text \<open>A counter is attributed to the VM that owns the thread and to no other. With distinct names and no thread in two VMs,
  the row of the \<open>i\<close>-th VM carries its name and the sum over exactly the threads it owns; what is left of the rows is
  the host's, the sum over exactly the threads no VM owns.\<close>

theorem group_attributes:
  assumes "distinct (map id_name vms)" "threads_disjoint vms" "f \<in> set scalar_fields" "i < length vms"
  shows "bk_name (group vms byPID ! i) = id_name (vms ! i) \<and> f (bk_c (group vms byPID ! i)) = sum_where f (Owns (vms ! i)) byPID \<and>
    list_all (\<lambda>b. bk_name b = Host) (drop (length vms) (group vms byPID)) \<and>
    total_of f (drop (length vms) (group vms byPID)) = sum_where f (\<lambda>q. list_all (\<lambda>vm. \<not> Owns vm q) vms) byPID"
  using assms by (rule group_rows)

text \<open>Two VMs and three threads, one of them nobody's.\<close>

definition web_vms :: "vm_info list" where
  "web_vms = [zero_vm\<lparr>id_name := ''web'', id_pid := 10, id_threads := [10, 11]\<rparr>, zero_vm\<lparr>id_name := ''db'', id_pid := 20\<rparr>]"

definition web_sample :: "(u32, Counters) gomap" where
  "web_sample = [(10, zero_counters\<lparr>ct_connects := 3\<rparr>), (7, zero_counters\<lparr>ct_connects := 100\<rparr>), (11, zero_counters\<lparr>ct_connects := 4\<rparr>)]"


lemma web_vms_disjoint: "threads_disjoint web_vms"
  by (auto simp: threads_disjoint_def web_vms_def Owns_def PID32_def zero_vm_def less_Suc_eq)

theorem group_attributes_witness:
  "bk_name (group web_vms web_sample ! 0) = ''web'' \<and> ct_connects (bk_c (group web_vms web_sample ! 0)) = 7 \<and>
   total_of ct_connects (drop 2 (group web_vms web_sample)) = 100"
proof -
  have "distinct (map id_name web_vms)" "length web_vms = 2" by (simp_all add: web_vms_def zero_vm_def)
  moreover have "ct_connects \<in> set scalar_fields" by (simp add: scalar_fields_def)
  moreover have "sum_where ct_connects (Owns (web_vms ! 0)) web_sample = 7"
    "sum_where ct_connects (\<lambda>q. list_all (\<lambda>vm. \<not> Owns vm q) web_vms) web_sample = 100" "id_name (web_vms ! 0) = ''web''" by code_simp+
  ultimately show ?thesis using group_attributes[OF _ web_vms_disjoint, of ct_connects 0 web_sample] by simp
qed

section \<open>Windows\<close>

lemma sub_restores: "\<not> cur < base \<Longrightarrow> base + sub cur base = cur"
  by (simp add: sub_def)

lemma sub_reset: "cur < base \<Longrightarrow> sub cur base = cur"
  by (simp add: sub_def)

lemma sub_never_more: "sub cur base \<le> cur"
  by (auto simp: sub_def word_sub_le)

lemma Delta_scalar: "f \<in> set scalar_fields \<Longrightarrow> f (Delta cur base) = sub (f cur) (f base)"
  unfolding scalar_fields_def by (auto simp: Delta_def)

lemma add_buckets_subHist: "length base = length cur \<Longrightarrow> list_all2 (\<le>) base cur \<Longrightarrow> add_buckets base (subHist cur base) = cur"
  by (induction base cur rule: list_induct2) (auto simp: sub_restores not_less)

lemma length_subHist [simp]: "length (subHist cur base) = length cur"
  by (induction cur base rule: subHist.induct) simp_all

lemma addHist_subHist: "list_all2 (\<le>) base cur \<Longrightarrow> base \<noteq> [] \<Longrightarrow> addHist base (subHist cur base) = cur"
  using add_buckets_subHist[of base cur] list_all2_lengthD[of "(\<le>)" base cur] length_subHist[of cur base]
  by (auto simp: addHist_def simp del: length_subHist)

lemma map_of_sub_map: "map_of (sub_map cur base) k = map_option (\<lambda>v. sub v (at_key base k)) (map_of cur k)"
  by (induction cur) (auto simp: sub_map_def)

lemma sub_map_Nil: "sub_map m [] = m"
  by (induction m) (auto simp: sub_map_def sub_def at_key_def)

lemma counters_Clone_id: "counters_Clone c = c"
  by (simp add: counters_Clone_def sub_map_Nil)

text \<open>What a window shows is what accumulated in it. For every counter: when it did not go backwards, the window's value added
  to the value at the start gives the value at the end; when it did, it was reset, and the window shows what accumulated
  since; either way the window never shows more than the end does. The same holds of every bucket of a histogram that
  was measured at both ends, and the two maxima are passed on as they are.\<close>

theorem Delta_accounts:
  assumes "f \<in> set scalar_fields"
  shows "(if f cur < f base then f (Delta cur base) = f cur else f base + f (Delta cur base) = f cur) \<and> f (Delta cur base) \<le> f cur \<and>
    (ct_block_read base \<noteq> [] \<longrightarrow> list_all2 (\<le>) (ct_block_read base) (ct_block_read cur) \<longrightarrow>
      addHist (ct_block_read base) (ct_block_read (Delta cur base)) = ct_block_read cur) \<and>
    ct_block_read_max (Delta cur base) = ct_block_read_max cur"
  using sub_restores sub_reset sub_never_more addHist_subHist unfolding Delta_scalar[OF assms] by (simp add: Delta_def)

theorem Delta_accounts_witness:
  "ct_connects (Delta (zero_counters\<lparr>ct_connects := 9\<rparr>) (zero_counters\<lparr>ct_connects := 4\<rparr>)) = 5 \<and>
   ct_connects (Delta (zero_counters\<lparr>ct_connects := 2\<rparr>) (zero_counters\<lparr>ct_connects := 4\<rparr>)) = 2"
proof -
  have c: "ct_connects \<in> set scalar_fields" by (simp add: scalar_fields_def)
  have "4 + ct_connects (Delta (zero_counters\<lparr>ct_connects := 9\<rparr>) (zero_counters\<lparr>ct_connects := 4\<rparr>)) = 9"
    using Delta_accounts[OF c, of "zero_counters\<lparr>ct_connects := 9\<rparr>" "zero_counters\<lparr>ct_connects := 4\<rparr>"] by simp
  then have "ct_connects (Delta (zero_counters\<lparr>ct_connects := 9\<rparr>) (zero_counters\<lparr>ct_connects := 4\<rparr>)) = 9 - 4" by (metis add_diff_cancel_left')
  moreover have "ct_connects (Delta (zero_counters\<lparr>ct_connects := 2\<rparr>) (zero_counters\<lparr>ct_connects := 4\<rparr>)) = 2"
    using Delta_accounts[OF c, of "zero_counters\<lparr>ct_connects := 2\<rparr>" "zero_counters\<lparr>ct_connects := 4\<rparr>"] by simp
  ultimately show ?thesis by simp
qed

section \<open>Orders\<close>

lemma mset_sink: "mset (sink key x acc) = add_mset x (mset acc)"
  by (induction acc) auto

lemma filter_sink: "filter (\<lambda>y. key y = k) (sink key x acc) = (if key x = k then x # filter (\<lambda>y. key y = k) acc else filter (\<lambda>y. key y = k) acc)"
  by (induction acc) auto

lemma sorted_sink: "sorted (map key acc) \<Longrightarrow> sorted (map key (sink key x acc))"
proof (induction acc)
  case (Cons y ys)
  have "set (sink key x ys) = insert x (set ys)" by (metis mset_sink set_mset_add_mset_insert set_mset_mset)
  with Cons show ?case by auto
qed simp

lemma fold_sink:
  "mset (fold (sink key) rs acc) = mset rs + mset acc"
  "filter (\<lambda>y. key y = k) (fold (sink key) rs acc) = rev (filter (\<lambda>y. key y = k) rs) @ filter (\<lambda>y. key y = k) acc"
  "sorted (map key acc) \<Longrightarrow> sorted (map key (fold (sink key) rs acc))"
  by (induction rs arbitrary: acc) (auto simp: mset_sink filter_sink intro!: sorted_sink)

text \<open>The insertion sort of the exit reasons is the stable sort by descending key.\<close>

lemma sort_by_stable: "sort_by key rs = sort_key (\<lambda>r. - uint (key r)) rs"
proof (rule properties_for_sort_key[symmetric])
  show "mset (sort_by key rs) = mset rs" by (simp add: sort_by_def fold_sink)
  have "filter (\<lambda>x. key r = key x) (sort_by key rs) = filter (\<lambda>x. key r = key x) rs" for r
    by (simp add: sort_by_def fold_sink eq_commute[of "key r"] flip: rev_filter)
  then show "filter (\<lambda>x. - uint (key r) = - uint (key x)) (sort_by key rs) = filter (\<lambda>x. - uint (key r) = - uint (key x)) rs" for r
    by (simp add: word_uint_eq_iff)
  have "sorted (map key (fold (sink key) rs []))" by (simp add: fold_sink)
  then show "sorted (map (\<lambda>r. - uint (key r)) (sort_by key rs))"
    by (auto simp: sort_by_def sorted_map sorted_wrt_rev word_le_def)
qed

lemma sorted_unique_by:
  "sort_key f (sort_key g xs) = sort_key f (sort_key g ys)" if "mset xs = mset ys" "inj_on g (set xs)"
proof -
  have "sort_key g xs = sort_key g ys" using that by (intro sort_key_inj_key_eq) auto
  then show ?thesis by simp
qed

text \<open>The list of preemptors does not depend on the order in which the map is walked.\<close>

lemma TopPreemptors_order: "mset m = mset m' \<Longrightarrow> distinct (map fst m) \<Longrightarrow> TopPreemptors m n = TopPreemptors m' n"
  unfolding TopPreemptors_def
  by (rule arg_cong[where f = "take n"], rule sorted_unique_by) (auto simp: inj_on_def dest: eq_key_imp_eq_value)

end
