(* ===== verification/Sampler.thy ===== *)
theory Sampler
  imports AggregateProps Decode
begin

text \<open>
  \<open>internal/observe/sample_bpf.go\<close>, \<open>fold.go\<close>, \<open>preempt.go\<close> and \<open>drops.go\<close>: reading the maps of the kernel programs
  into counters per thread. A map that is not there is empty, except that of the
  scheduler's counters, whose absence ends the read. What a read does is a list of updates, each
  to the counters of one thread, in the order the maps are walked.
\<close>

section \<open>Threads and preemptors\<close>

record ThreadRef =
  tf_vm :: string
  tf_role :: string

type_synonym threads = "(u32, ThreadRef) gomap"

text \<open>A command name without its per-CPU suffix; a slash at the very front is no suffix.\<close>

definition command_label :: "string \<Rightarrow> string" where
  "command_label comm =
     (let c = TrimSpace comm; stem = takeWhile (\<lambda>x. x \<noteq> CHR ''/'') c; c = (if stem \<noteq> '''' then stem else c)
      in if c = '''' then ''unknown'' else c)"

definition preemptorLabel :: "u32 \<Rightarrow> string \<Rightarrow> threads \<Rightarrow> string" where
  "preemptorLabel byTid comm owners = (case map_of owners byTid of
      Some r \<Rightarrow> if tf_vm r \<noteq> '''' then ''vm:'' @ tf_vm r else command_label comm
    | None \<Rightarrow> command_label comm)"

definition commString :: "bytes \<Rightarrow> string" where
  "commString b = map byte_char (takeWhile (\<lambda>c. c \<noteq> 0) b)"

section \<open>The kernel's maps\<close>

record sched_val =
  sv_on_cpu :: u64
  sv_wakeup_delay :: u64
  sv_wakeup_count :: u64
  sv_last_on :: u64
  sv_preempt_ns :: u64
  sv_preempt_count :: u64

record preempt_val =
  pv_count :: u64
  pv_ns :: u64
  pv_comm :: bytes

record blk_val =
  bv_ops :: u64
  bv_bytes :: u64
  bv_max_ns :: u64
  bv_errors :: u64

record kernel_maps =
  km_kvm_exits :: "(u32 \<times> u32, u64) gomap"
  km_kvm_reason_ns :: "(u32 \<times> u32, u64) gomap"
  km_kvm_lat :: "(u32 \<times> u32, u64) gomap"
  km_kvm_entries :: "(u32, u64) gomap"
  km_kvm_mmio :: "(u32, u64) gomap"
  km_kvm_pio :: "(u32, u64) gomap"
  km_sched_stats :: "(u32, sched_val) gomap option"
  km_sched_hist :: "(u32 \<times> u32, u64) gomap"
  km_preempt_by :: "(u32 \<times> u32, preempt_val) gomap"
  km_blk_hist :: "(u32 \<times> u8 \<times> u8, u64) gomap"
  km_blk_issues :: "(u32, u64) gomap"
  km_blk_io :: "(u32 \<times> u32, blk_val) gomap"
  km_blk_qhist :: "(u32 \<times> u8 \<times> u8, u64) gomap"
  km_net_retrans :: "(u32, u64) gomap"
  km_net_connects :: "(u32, u64) gomap"
  km_reclaim_hist :: "(u32 \<times> u32, u64) gomap"
  km_reclaim_ns :: "(u32, u64) gomap"
  km_reclaim_count :: "(u32, u64) gomap"
  km_oom_kills :: "(u32, u64) gomap"

definition no_maps :: kernel_maps where
  "no_maps = \<lparr>km_kvm_exits = [], km_kvm_reason_ns = [], km_kvm_lat = [], km_kvm_entries = [], km_kvm_mmio = [], km_kvm_pio = [],
     km_sched_stats = None, km_sched_hist = [], km_preempt_by = [], km_blk_hist = [], km_blk_issues = [], km_blk_io = [],
     km_blk_qhist = [], km_net_retrans = [], km_net_connects = [], km_reclaim_hist = [], km_reclaim_ns = [],
     km_reclaim_count = [], km_oom_kills = []\<rparr>"

section \<open>Updates\<close>

type_synonym update = "u32 \<times> (Counters \<Rightarrow> Counters)"

text \<open>\<open>slot\<close>: the counters of a thread, made on first use, then changed in place.\<close>

definition slot_update :: "update \<Rightarrow> (u32, Counters) gomap \<Rightarrow> (u32, Counters) gomap" where
  "slot_update u by = AList.update (fst u) (snd u (case map_of by (fst u) of Some c \<Rightarrow> c | None \<Rightarrow> zero_counters)) by"

text \<open>\<open>schedSlot\<close>: a thread that no VM owns is counted in the host's slot, 0.\<close>

definition sched_pid :: "threads \<Rightarrow> u32 \<Rightarrow> u32" where
  "sched_pid ts pid = (case map_of ts pid of Some r \<Rightarrow> pid | None \<Rightarrow> 0)"

definition bucket_add :: "nat \<Rightarrow> u64 \<Rightarrow> hist \<Rightarrow> hist" where
  "bucket_add k v h =
     (let h = (if h = [] then replicate Buckets 0 else h) in if k < length h then h[k := h ! k + v] else h)"

definition is_vcpu :: "threads \<Rightarrow> u32 \<Rightarrow> bool" where
  "is_vcpu ts pid \<longleftrightarrow> (case map_of ts pid of Some r \<Rightarrow> tf_role r = ''vcpu'' | None \<Rightarrow> False)"

definition readKVM :: "kernel_maps \<Rightarrow> update list" where
  "readKVM m =
     map (\<lambda>((pid, reason), v). (pid, ct_exits_update (bump reason v))) (km_kvm_exits m) @
     map (\<lambda>((pid, reason), v). (pid, ct_exit_ns_update (bump reason v))) (km_kvm_reason_ns m) @
     map (\<lambda>((pid, b), v). (pid, ct_kvm_lat_update (bucket_add (unat b) v))) (km_kvm_lat m) @
     map (\<lambda>(pid, v). (pid, ct_entries_update (\<lambda>x. x + v))) (km_kvm_entries m) @
     map (\<lambda>(pid, v). (pid, ct_mmio_update (\<lambda>x. x + v))) (km_kvm_mmio m) @
     map (\<lambda>(pid, v). (pid, ct_pio_update (\<lambda>x. x + v))) (km_kvm_pio m)"

definition sched_update :: "threads \<Rightarrow> u32 \<Rightarrow> sched_val \<Rightarrow> Counters \<Rightarrow> Counters" where
  "sched_update ts pid v c =
     (let c = c\<lparr>ct_on_cpu_ns := ct_on_cpu_ns c + sv_on_cpu v, ct_wakeup_delay_ns := ct_wakeup_delay_ns c + sv_wakeup_delay v,
            ct_wakeup_count := ct_wakeup_count c + sv_wakeup_count v\<rparr>
      in if is_vcpu ts pid
         then c\<lparr>ct_preempt_ns := ct_preempt_ns c + sv_preempt_ns v, ct_preempt_count := ct_preempt_count c + sv_preempt_count v\<rparr>
         else c)"

definition readPreemptors :: "threads \<Rightarrow> kernel_maps \<Rightarrow> update list" where
  "readPreemptors ts m =
     map (\<lambda>((victim, by), v). (victim, ct_preemptors_update (bump (preemptorLabel by (commString (pv_comm v)) ts) (pv_ns v))))
       (filter (\<lambda>((victim, by), v). is_vcpu ts victim) (km_preempt_by m))"

definition readSched :: "threads \<Rightarrow> kernel_maps \<Rightarrow> update list" where
  "readSched ts m = (case km_sched_stats m of
      None \<Rightarrow> []
    | Some stats \<Rightarrow>
        map (\<lambda>(pid, v). (sched_pid ts pid, sched_update ts pid v)) stats @
        map (\<lambda>((pid, b), v). (sched_pid ts pid, ct_sched_hist_update (bucket_add (unat b) v))) (km_sched_hist m) @
        readPreemptors ts m)"

definition blk_update :: "bool \<Rightarrow> blk_val \<Rightarrow> Counters \<Rightarrow> Counters" where
  "blk_update write v c =
     (if write then c\<lparr>ct_block_write_ops := ct_block_write_ops c + bv_ops v, ct_block_write_bytes := ct_block_write_bytes c + bv_bytes v,
        ct_block_write_max := max (ct_block_write_max c) (bv_max_ns v), ct_block_write_errors := ct_block_write_errors c + bv_errors v\<rparr>
      else c\<lparr>ct_block_read_ops := ct_block_read_ops c + bv_ops v, ct_block_read_bytes := ct_block_read_bytes c + bv_bytes v,
        ct_block_read_max := max (ct_block_read_max c) (bv_max_ns v), ct_block_read_errors := ct_block_read_errors c + bv_errors v\<rparr>)"

definition readBlock :: "kernel_maps \<Rightarrow> update list" where
  "readBlock m =
     map (\<lambda>((pid, w, b), v). (pid, (if w \<noteq> 0 then ct_block_write_update else ct_block_read_update) (bucket_add (unat b) v))) (km_blk_hist m) @
     map (\<lambda>(pid, v). (pid, ct_block_issues_update (\<lambda>x. x + v))) (km_blk_issues m) @
     map (\<lambda>((pid, w), v). (pid, blk_update (w \<noteq> 0) v)) (km_blk_io m) @
     map (\<lambda>((pid, w, b), v). (pid, (if w \<noteq> 0 then ct_block_q_write_update else ct_block_q_read_update) (bucket_add (unat b) v))) (km_blk_qhist m)"

definition readRetrans :: "kernel_maps \<Rightarrow> update list" where
  "readRetrans m =
     map (\<lambda>(pid, v). (pid, ct_retransmits_update (\<lambda>x. x + v))) (km_net_retrans m) @
     map (\<lambda>(pid, v). (pid, ct_connects_update (\<lambda>x. x + v))) (km_net_connects m)"

definition readMemory :: "kernel_maps \<Rightarrow> update list" where
  "readMemory m =
     map (\<lambda>((pid, b), v). (pid, ct_reclaim_hist_update (bucket_add (unat b) v))) (km_reclaim_hist m) @
     map (\<lambda>(pid, v). (pid, ct_reclaim_ns_update (\<lambda>x. x + v))) (km_reclaim_ns m) @
     map (\<lambda>(pid, v). (pid, ct_reclaim_count_update (\<lambda>x. x + v))) (km_reclaim_count m) @
     map (\<lambda>(pid, v). (pid, ct_oom_kills_update (\<lambda>x. x + v))) (km_oom_kills m)"

definition read_all :: "threads \<Rightarrow> kernel_maps \<Rightarrow> update list" where
  "read_all ts m = readKVM m @ readSched ts m @ readBlock m @ readRetrans m @ readMemory m"

definition Sample :: "threads \<Rightarrow> kernel_maps list \<Rightarrow> (u32, Counters) gomap" where
  "Sample ts colls = fold slot_update (concat (map (read_all ts) colls)) []"

section \<open>Dropped packets\<close>

definition dropReasonLabel :: "(u32, string) gomap \<Rightarrow> u32 \<Rightarrow> string" where
  "dropReasonLabel names code = (case map_of names code of
      Some n \<Rightarrow> if n \<noteq> '''' then TrimPrefix n ''SKB_DROP_REASON_'' else ''reason '' @ Itoa (uint code)
    | None \<Rightarrow> ''reason '' @ Itoa (uint code))"

definition locationLabel :: "string \<Rightarrow> bool \<Rightarrow> u64 \<Rightarrow> string" where
  "locationLabel symbol ok addr = (if addr = 0 then '''' else if ok then symbol else hex_text addr)"

section \<open>From the kernel's counters to the rows\<close>

lemma keys_slot_update: "distinct (map fst tbl) \<Longrightarrow> distinct (map fst (slot_update u tbl))"
  by (simp add: slot_update_def distinct_update)

definition steady :: "(Counters \<Rightarrow> u64) \<Rightarrow> (Counters \<Rightarrow> Counters) \<Rightarrow> bool" where
  "steady f g \<longleftrightarrow> (\<forall>c. f (g c) = f c + f (g zero_counters))"

lemma sum_where_slot:
  assumes "distinct (map fst tbl)" "steady f g" "f zero_counters = 0"
  shows "sum_where f P (slot_update (k, g) tbl) = sum_where f P tbl + (if P k then f (g zero_counters) else 0)"
  using assms
proof (induction tbl)
  case (Cons kc tbl)
  have s: "f (g c) = f c + f (g zero_counters)" for c using assms(2) unfolding steady_def by blast
  show ?case
  proof (cases "fst kc = k")
    case True
    then show ?thesis using s[of "snd kc"] by (cases kc) (simp add: slot_update_def ac_simps)
  next
    case False
    then have "slot_update (k, g) (kc # tbl) = kc # slot_update (k, g) tbl" by (cases kc) (simp add: slot_update_def)
    with Cons show ?thesis by (simp add: ac_simps)
  qed
qed (simp add: slot_update_def)

definition gained :: "(Counters \<Rightarrow> u64) \<Rightarrow> (u32 \<Rightarrow> bool) \<Rightarrow> update list \<Rightarrow> u64" where
  "gained f P us = sum_list (map (\<lambda>u. if P (fst u) then f (snd u zero_counters) else 0) us)"

lemma gained_Nil [simp]: "gained f P [] = 0"
  by (simp add: gained_def)

lemma gained_append [simp]: "gained f P (us @ vs) = gained f P us + gained f P vs"
  by (simp add: gained_def)

lemma sum_where_updates:
  assumes "distinct (map fst tbl)" "list_all (\<lambda>u. steady f (snd u)) us" "f zero_counters = 0"
  shows "sum_where f P (fold slot_update us tbl) = sum_where f P tbl + gained f P us"
  using assms(1,2)
proof (induction us arbitrary: tbl)
  case (Cons u us)
  then have "sum_where f P (fold slot_update us (slot_update u tbl)) = sum_where f P (slot_update u tbl) + gained f P us"
    by (simp add: keys_slot_update)
  with Cons.prems assms(3) sum_where_slot[of tbl f "snd u" P "fst u"] show ?case by (simp add: gained_def ac_simps)
qed (simp add: gained_def)

text \<open>The counters that only the scheduler's map feeds.\<close>

definition sched_fields :: "((Counters \<Rightarrow> u64) \<times> (sched_val \<Rightarrow> u64)) list" where
  "sched_fields = [(ct_on_cpu_ns, sv_on_cpu), (ct_wakeup_delay_ns, sv_wakeup_delay), (ct_wakeup_count, sv_wakeup_count)]"

definition sched_entries :: "kernel_maps list \<Rightarrow> (u32 \<times> sched_val) list" where
  "sched_entries colls = concat (map (\<lambda>m. case km_sched_stats m of None \<Rightarrow> [] | Some s \<Rightarrow> s) colls)"

definition kernel_sum :: "(sched_val \<Rightarrow> u64) \<Rightarrow> (u32 \<Rightarrow> bool) \<Rightarrow> kernel_maps list \<Rightarrow> u64" where
  "kernel_sum h P colls = sum_list (map (h \<circ> snd) (filter (P \<circ> fst) (sched_entries colls)))"

definition quiet :: "(Counters \<Rightarrow> u64) \<Rightarrow> update list \<Rightarrow> bool" where
  "quiet f us \<longleftrightarrow> list_all (\<lambda>u. \<forall>c. f (snd u c) = f c) us"

lemma quiet_append [simp]: "quiet f (us @ vs) \<longleftrightarrow> quiet f us \<and> quiet f vs"
  by (simp add: quiet_def)

lemma quiet_gained: "quiet f us \<Longrightarrow> f zero_counters = 0 \<Longrightarrow> gained f P us = 0"
  by (induction us) (auto simp: quiet_def gained_def)

lemma quiet_steady: "quiet f us \<Longrightarrow> f zero_counters = 0 \<Longrightarrow> list_all (\<lambda>u. steady f (snd u)) us"
  by (auto simp: quiet_def steady_def list_all_iff)

lemma quiet_reads:
  assumes "(f, h) \<in> set sched_fields"
  shows "quiet f (readKVM m)" "quiet f (readBlock m)" "quiet f (readRetrans m)" "quiet f (readMemory m)" "quiet f (readPreemptors ts m)"
    "quiet f (map (\<lambda>((pid, b), v). (p (pid :: u32), ct_sched_hist_update (bucket_add (unat (b :: u32)) v))) xs)"
  using assms unfolding sched_fields_def
  by (auto simp: quiet_def list_all_iff readKVM_def readBlock_def readRetrans_def readMemory_def readPreemptors_def blk_update_def)

lemma sched_update_gain:
  "(f, h) \<in> set sched_fields \<Longrightarrow> f (sched_update ts pid v c) = f c + h v"
  unfolding sched_fields_def by (auto simp: sched_update_def Let_def)

lemma sched_field_zero: "(f, h) \<in> set sched_fields \<Longrightarrow> f zero_counters = 0"
  unfolding sched_fields_def by (auto simp: zero_counters_def)

lemma gained_sched_updates:
  assumes "(f, h) \<in> set sched_fields"
  shows "gained f P (map (\<lambda>(pid, v). (p pid, sched_update ts pid v)) stats) = sum_list (map (h \<circ> snd) (filter (P \<circ> p \<circ> fst) stats))"
  by (induction stats) (auto simp: gained_def sched_update_gain[OF assms] sched_field_zero[OF assms])

lemma gained_read_all:
  assumes "(f, h) \<in> set sched_fields"
  shows "gained f P (read_all ts m) = kernel_sum h (P \<circ> sched_pid ts) [m]" "list_all (\<lambda>u. steady f (snd u)) (read_all ts m)"
proof -
  note z = sched_field_zero[OF assms] and q = quiet_reads[OF assms]
  show "gained f P (read_all ts m) = kernel_sum h (P \<circ> sched_pid ts) [m]"
    using q[THEN quiet_gained, OF z] gained_sched_updates[OF assms]
    by (simp add: read_all_def readSched_def kernel_sum_def sched_entries_def comp_assoc split: option.split)
  have "list_all (\<lambda>u. steady f (snd u)) (map (\<lambda>(pid, v). (sched_pid ts pid, sched_update ts pid v)) stats)" for stats
    by (auto simp: list_all_iff steady_def sched_update_gain[OF assms] z)
  then show "list_all (\<lambda>u. steady f (snd u)) (read_all ts m)"
    using q[THEN quiet_steady, OF z] by (simp add: read_all_def readSched_def split: option.split)
qed

lemma Sample_sum:
  assumes "(f, h) \<in> set sched_fields"
  shows "sum_where f P (Sample ts colls) = kernel_sum h (P \<circ> sched_pid ts) colls"
proof -
  have "list_all (\<lambda>u. steady f (snd u)) (concat (map (read_all ts) colls))"
    using gained_read_all(2)[OF assms] by (induction colls) simp_all
  moreover have "gained f P (concat (map (read_all ts) colls)) = kernel_sum h (P \<circ> sched_pid ts) colls"
  proof (induction colls)
    case (Cons m colls)
    then show ?case using gained_read_all(1)[OF assms, of P ts m] by (simp add: kernel_sum_def sched_entries_def comp_def)
  qed (simp add: gained_def kernel_sum_def sched_entries_def)
  ultimately show ?thesis using sum_where_updates[of "[]" f] sched_field_zero[OF assms] by (simp add: Sample_def)
qed

text \<open>The thread table and the VM list come from the same scan.\<close>

definition same_scan :: "threads \<Rightarrow> vm_info list \<Rightarrow> bool" where
  "same_scan ts vms \<longleftrightarrow> (\<forall>q. map_of ts q \<noteq> None \<longleftrightarrow> \<not> list_all (\<lambda>vm. \<not> Owns vm q) vms)"

lemma kernel_sum_cong: "(\<And>q. P q \<longleftrightarrow> Q q) \<Longrightarrow> kernel_sum h P colls = kernel_sum h Q colls"
  by (simp add: kernel_sum_def comp_def)

lemma sched_pid_owned:
  assumes "same_scan ts vms" "i < length vms"
  shows "Owns (vms ! i) (sched_pid ts q) \<longleftrightarrow> Owns (vms ! i) q"
proof (cases "map_of ts q")
  case None
  then have "\<not> Owns (vms ! i) q" using assms unfolding same_scan_def list_all_length by blast
  with None show ?thesis by (simp add: sched_pid_def Owns_def)
qed (simp add: sched_pid_def)

lemma sched_pid_host:
  assumes "same_scan ts vms"
  shows "list_all (\<lambda>vm. \<not> Owns vm (sched_pid ts q)) vms \<longleftrightarrow> list_all (\<lambda>vm. \<not> Owns vm q) vms"
proof (cases "map_of ts q")
  case None
  then have "list_all (\<lambda>vm. \<not> Owns vm q) vms" using assms unfolding same_scan_def by blast
  with None show ?thesis by (simp add: sched_pid_def Owns_def list_all_iff)
qed (simp add: sched_pid_def)

text \<open>C21. The scheduler row of a VM is exactly what the kernel counted for its threads. With the thread table and the VM list of
  one scan, distinct names and no thread in two VMs, the time on a CPU in the \<open>i\<close>-th row is the sum of the kernel's
  entries of the threads that VM owns, and the same holds of the wakeup delay and count; the host's rows sum the entries of
  all other threads. Summing those in slot 0 while sampling, which saves one record per host thread, is not visible.\<close>

theorem sched_rows_are_kernel_sums:
  assumes "distinct (map id_name vms)" "threads_disjoint vms" "same_scan ts vms" "i < length vms"
  shows "sr_vm (Sched vms (Sample ts colls) '''' ! i) = id_name (vms ! i) \<and>
    sr_on_cpu_ns (Sched vms (Sample ts colls) '''' ! i) = kernel_sum sv_on_cpu (Owns (vms ! i)) colls \<and>
    sr_wakeup_delay_ns (Sched vms (Sample ts colls) '''' ! i) = kernel_sum sv_wakeup_delay (Owns (vms ! i)) colls \<and>
    sr_wakeup_count (Sched vms (Sample ts colls) '''' ! i) = kernel_sum sv_wakeup_count (Owns (vms ! i)) colls \<and>
    total_of ct_on_cpu_ns (drop (length vms) (group vms (Sample ts colls))) = kernel_sum sv_on_cpu (\<lambda>q. list_all (\<lambda>vm. \<not> Owns vm q) vms) colls"
proof -
  have l: "i < length (group vms (Sample ts colls))"
    using group_fold_row[OF scalar_adds_up[of ct_entries] assms(1) _ assms(4), of "(map (\<lambda>vm. new_bucket (id_name vm) (id_runtime vm)) vms, None)" "Sample ts colls"] assms(4)
    unfolding group_eq by (simp add: scalar_fields_def)
  then have r: "Sched vms (Sample ts colls) '''' ! i = sched_row (group vms (Sample ts colls) ! i)"
    by (simp add: Sched_def filter_rows_def)
  have f: "f (bk_c (group vms (Sample ts colls) ! i)) = kernel_sum h (Owns (vms ! i)) colls" if "(f, h) \<in> set sched_fields" for f h
  proof -
    have "f \<in> set scalar_fields" using that by (auto simp: sched_fields_def scalar_fields_def)
    then have "f (bk_c (group vms (Sample ts colls) ! i)) = sum_where f (Owns (vms ! i)) (Sample ts colls)"
      using group_rows[OF assms(1,2) _ assms(4)] by blast
    also have "\<dots> = kernel_sum h (Owns (vms ! i)) colls"
      unfolding Sample_sum[OF that] by (rule kernel_sum_cong) (simp add: sched_pid_owned[OF assms(3,4)])
    finally show ?thesis .
  qed
  have "ct_on_cpu_ns \<in> set scalar_fields" by (simp add: scalar_fields_def)
  then have "total_of ct_on_cpu_ns (drop (length vms) (group vms (Sample ts colls))) = sum_where ct_on_cpu_ns (\<lambda>q. list_all (\<lambda>vm. \<not> Owns vm q) vms) (Sample ts colls)"
    using group_rows[OF assms(1,2) _ assms(4)] by blast
  also have "\<dots> = kernel_sum sv_on_cpu (\<lambda>q. list_all (\<lambda>vm. \<not> Owns vm q) vms) colls"
    by (subst Sample_sum[of _ sv_on_cpu]) (auto simp: sched_fields_def sched_pid_host[OF assms(3)] intro: kernel_sum_cong)
  finally have h: "total_of ct_on_cpu_ns (drop (length vms) (group vms (Sample ts colls))) = kernel_sum sv_on_cpu (\<lambda>q. list_all (\<lambda>vm. \<not> Owns vm q) vms) colls" .
  have "bk_name (group vms (Sample ts colls) ! i) = id_name (vms ! i)"
    using group_rows[OF assms(1,2) _ assms(4), of ct_on_cpu_ns] by (simp add: scalar_fields_def)
  with f h show ?thesis unfolding r by (simp add: sched_row_def Let_def sched_fields_def)
qed

definition web_threads :: threads where
  "web_threads = [(10, \<lparr>tf_vm = ''web'', tf_role = ''vcpu''\<rparr>), (11, \<lparr>tf_vm = ''web'', tf_role = ''iothread''\<rparr>), (20, \<lparr>tf_vm = ''db'', tf_role = ''main''\<rparr>)]"

definition sched_entry :: "u64 \<Rightarrow> sched_val" where
  "sched_entry n = \<lparr>sv_on_cpu = n, sv_wakeup_delay = 0, sv_wakeup_count = 1, sv_last_on = 0, sv_preempt_ns = 0, sv_preempt_count = 0\<rparr>"

definition web_kernel :: "kernel_maps list" where
  "web_kernel = [no_maps, no_maps\<lparr>km_sched_stats := Some [(10, sched_entry 5), (7, sched_entry 100), (11, sched_entry 6), (8, sched_entry 200)]\<rparr>]"

lemma web_same_scan: "same_scan web_threads web_vms"
  by (simp add: same_scan_def web_threads_def web_vms_def Owns_def PID32_def zero_vm_def)

theorem sched_rows_are_kernel_sums_witness:
  "sr_on_cpu_ns (Sched web_vms (Sample web_threads web_kernel) '''' ! 0) = 11 \<and>
   total_of ct_on_cpu_ns (drop 2 (group web_vms (Sample web_threads web_kernel))) = 300"
proof -
  have "distinct (map id_name web_vms)" "length web_vms = 2" by (simp_all add: web_vms_def zero_vm_def)
  moreover have "kernel_sum sv_on_cpu (Owns (web_vms ! 0)) web_kernel = 11"
    "kernel_sum sv_on_cpu (\<lambda>q. list_all (\<lambda>vm. \<not> Owns vm q) web_vms) web_kernel = 300" by code_simp+
  ultimately show ?thesis using sched_rows_are_kernel_sums[OF _ web_vms_disjoint web_same_scan, of 0 web_kernel] by simp
qed

end
