(* ===== verification/Thresholds.thy ===== *)
theory Thresholds
  imports Aggregate Rules
begin

text \<open>
  \<open>internal/detect/threshold.go\<close>: the threshold rules, judged against a snapshot of each VM's counters one window ago.
  Values are 64-bit floating point: each operation rounds (see \<open>Hist\<close>), a division by zero is infinite or not a number,
  and a comparison with what is not a number is false. The text of the detection is not modelled.
\<close>

section \<open>Floating point results\<close>

definition fdiv :: "rat \<Rightarrow> rat \<Rightarrow> f64" where
  "fdiv x y = (if y \<noteq> 0 then Fin (rnd (x / y)) else if x = 0 then NaN else Inf True)"

fun f64_less :: "f64 \<Rightarrow> f64 \<Rightarrow> bool" where
  "f64_less (Fin x) (Fin y) \<longleftrightarrow> x < y"
| "f64_less (Inf s) (Fin y) \<longleftrightarrow> \<not> s"
| "f64_less (Fin x) (Inf s) \<longleftrightarrow> s"
| "f64_less (Inf s) (Inf t) \<longleftrightarrow> \<not> s \<and> t"
| "f64_less NaN y \<longleftrightarrow> False"
| "f64_less x NaN \<longleftrightarrow> False"

definition f64_le :: "f64 \<Rightarrow> f64 \<Rightarrow> bool" where
  "f64_le x y \<longleftrightarrow> f64_less x y \<or> x = y \<and> x \<noteq> NaN"

text \<open>\<open>Duration.Seconds\<close> of a duration that is not negative.\<close>

definition Seconds :: "duration \<Rightarrow> rat" where
  "Seconds d = rnd (of_int (d div second) + rnd (of_int (d mod second) / 1000000000))"

section \<open>Snapshots\<close>

record vmSnap =
  vs_exits :: u64
  vs_delay_ns :: u64
  vs_wakeups :: u64
  vs_retrans :: u64
  vs_preempt_ns :: u64
  vs_sched_on :: bool
  vs_read_bytes :: u64
  vs_write_bytes :: u64
  vs_ops :: u64
  vs_read :: hist
  vs_write :: hist
  vs_kvm_lat :: hist
  vs_sched_hist :: hist
  vs_tap :: TapTotals

record snapshot =
  ss_at :: time
  ss_vms :: "(string, vmSnap) gomap"

record Evaluator =
  ev_history :: "snapshot list"
  ev_taps :: "(string, TapTotals) gomap"

definition no_tap_totals :: TapTotals where
  "no_tap_totals = \<lparr>tt_foreign_drops = 0, tt_drops_ok = False, tt_out_refused = 0, tt_out_timeout = 0, tt_in_syn = 0, tt_outcomes_ok = False\<rparr>"

definition SetTapTotals :: "(string, TapTotals) gomap \<Rightarrow> Evaluator \<Rightarrow> Evaluator" where
  "SetTapTotals m e = e\<lparr>ev_taps := m\<rparr>"

definition snap :: "Counters \<Rightarrow> TapTotals \<Rightarrow> vmSnap" where
  "snap c t = \<lparr>vs_exits = TotalExits c, vs_delay_ns = ct_wakeup_delay_ns c, vs_wakeups = ct_wakeup_count c,
     vs_retrans = ct_retransmits c, vs_preempt_ns = ct_preempt_ns c, vs_sched_on = (ct_on_cpu_ns c + ct_wakeup_count c > 0),
     vs_read_bytes = ct_block_read_bytes c, vs_write_bytes = ct_block_write_bytes c, vs_ops = ct_block_read_ops c + ct_block_write_ops c,
     vs_read = ct_block_read c, vs_write = ct_block_write c, vs_kvm_lat = ct_kvm_lat c, vs_sched_hist = ct_sched_hist c, vs_tap = t\<rparr>"

definition snapOf :: "Evaluator \<Rightarrow> string \<Rightarrow> Counters \<Rightarrow> vmSnap" where
  "snapOf e name c = snap c (case map_of (ev_taps e) name of Some t \<Rightarrow> t | None \<Rightarrow> no_tap_totals)"

section \<open>Metrics\<close>

definition grown :: "u64 \<Rightarrow> u64 \<Rightarrow> u64 option" where
  "grown cur old = (if cur < old then None else Some (cur - old))"

definition per_sec :: "u64 \<Rightarrow> u64 \<Rightarrow> rat \<Rightarrow> f64 option" where
  "per_sec cur old secs = map_option (\<lambda>d. fdiv (float64 d) secs) (grown cur old)"

text \<open>The differences bucket by bucket; none when one went backwards.\<close>

fun window_hist :: "hist \<Rightarrow> hist \<Rightarrow> hist option" where
  "window_hist old [] = Some []"
| "window_hist [] (c # cur) = (case window_hist [] cur of None \<Rightarrow> None | Some d \<Rightarrow> Some (c # d))"
| "window_hist (b # old) (c # cur) = (if c < b then None else case window_hist old cur of None \<Rightarrow> None | Some d \<Rightarrow> Some ((c - b) # d))"

definition p99ms :: "hist \<Rightarrow> hist \<Rightarrow> f64 option" where
  "p99ms old cur =
     (if cur = [] then None
      else case window_hist old cur of
        None \<Rightarrow> None
      | Some d \<Rightarrow> if sum_list d = 0 then None else Some (fdiv (float64 (Percentile d 99)) 1000000))"

definition wakeup_metric :: "vmSnap \<Rightarrow> vmSnap \<Rightarrow> f64 option" where
  "wakeup_metric old cur = (case (grown (vs_delay_ns cur) (vs_delay_ns old), grown (vs_wakeups cur) (vs_wakeups old)) of
      (Some dn, Some dc) \<Rightarrow> if dc = 0 then None else Some (fdiv (rnd (float64 dn / float64 dc)) 1000000)
    | _ \<Rightarrow> None)"

definition preempt_metric :: "vmSnap \<Rightarrow> vmSnap \<Rightarrow> rat \<Rightarrow> f64 option" where
  "preempt_metric old cur secs =
     (if \<not> vs_sched_on old \<or> \<not> vs_sched_on cur then None
      else map_option (\<lambda>d. fdiv (rnd (float64 d / 1000000)) secs) (grown (vs_preempt_ns cur) (vs_preempt_ns old)))"

definition outcome_metric :: "(TapTotals \<Rightarrow> u64) \<Rightarrow> vmSnap \<Rightarrow> vmSnap \<Rightarrow> rat \<Rightarrow> f64 option" where
  "outcome_metric get old cur secs =
     (if \<not> tt_outcomes_ok (vs_tap old) \<or> \<not> tt_outcomes_ok (vs_tap cur) then None
      else per_sec (get (vs_tap cur)) (get (vs_tap old)) secs)"

definition metric :: "string \<Rightarrow> vmSnap \<Rightarrow> vmSnap \<Rightarrow> duration \<Rightarrow> f64 option" where
  "metric name old cur dur =
     (if name = ''kvm_exits_per_sec'' then per_sec (vs_exits cur) (vs_exits old) (Seconds dur)
      else if name = ''tcp_retransmits_per_sec'' then per_sec (vs_retrans cur) (vs_retrans old) (Seconds dur)
      else if name = ''wakeup_delay_ms'' then wakeup_metric old cur
      else if name = ''vcpu_preempted_ms_per_sec'' then preempt_metric old cur (Seconds dur)
      else if name = ''block_read_p99_ms'' then p99ms (vs_read old) (vs_read cur)
      else if name = ''block_write_p99_ms'' then p99ms (vs_write old) (vs_write cur)
      else if name = ''kvm_exit_latency_p99_ms'' then p99ms (vs_kvm_lat old) (vs_kvm_lat cur)
      else if name = ''runqueue_delay_p99_ms'' then p99ms (vs_sched_hist old) (vs_sched_hist cur)
      else if name = ''block_read_bytes_per_sec'' then per_sec (vs_read_bytes cur) (vs_read_bytes old) (Seconds dur)
      else if name = ''block_write_bytes_per_sec'' then per_sec (vs_write_bytes cur) (vs_write_bytes old) (Seconds dur)
      else if name = ''block_iops'' then per_sec (vs_ops cur) (vs_ops old) (Seconds dur)
      else if name = ''guest_drops_per_sec'' then
        (if \<not> tt_drops_ok (vs_tap old) \<or> \<not> tt_drops_ok (vs_tap cur) then None
         else per_sec (tt_foreign_drops (vs_tap cur)) (tt_foreign_drops (vs_tap old)) (Seconds dur))
      else if name = ''guest_connect_refused_per_sec'' then outcome_metric tt_out_refused old cur (Seconds dur)
      else if name = ''guest_connect_timeouts_per_sec'' then outcome_metric tt_out_timeout old cur (Seconds dur)
      else if name = ''guest_inbound_per_sec'' then outcome_metric tt_in_syn old cur (Seconds dur)
      else None)"

section \<open>Evaluation\<close>

record Fired =
  fd_rule :: Threshold
  fd_vm :: string
  fd_value :: f64
  fd_actual :: duration

text \<open>Drop from the front while the next snapshot is old enough too.\<close>

fun trim_history :: "time \<Rightarrow> snapshot list \<Rightarrow> snapshot list" where
  "trim_history edge_at (s0 # s1 # ss) = (if ss_at s1 \<le> edge_at then trim_history edge_at (s1 # ss) else s0 # s1 # ss)"
| "trim_history edge_at ss = ss"

definition new_snapshot :: "Evaluator \<Rightarrow> time \<Rightarrow> (string, Counters) gomap \<Rightarrow> snapshot" where
  "new_snapshot e now cur = \<lparr>ss_at = now, ss_vms = map (\<lambda>(n, c). (n, snapOf e n c)) cur\<rparr>"

definition eval_record :: "time \<Rightarrow> (string, Counters) gomap \<Rightarrow> duration \<Rightarrow> Evaluator \<Rightarrow> Evaluator" where
  "eval_record now cur keep e = e\<lparr>ev_history := trim_history (now - keep) (ev_history e @ [new_snapshot e now cur])\<rparr>"

definition base_of :: "snapshot list \<Rightarrow> time \<Rightarrow> duration \<Rightarrow> snapshot option" where
  "base_of h now window = find (\<lambda>s. ss_at s \<le> now - window) (rev h)"

definition crossed :: "Threshold \<Rightarrow> f64 \<Rightarrow> bool" where
  "crossed r v \<longleftrightarrow> tr_op r = ''>'' \<and> f64_less (tr_value r) v \<or> tr_op r = ''>='' \<and> f64_le (tr_value r) v"

definition judge_vm :: "Threshold \<Rightarrow> snapshot \<Rightarrow> duration \<Rightarrow> string \<Rightarrow> vmSnap option \<Rightarrow> Fired option" where
  "judge_vm r b dur vm cur = (case (map_of (ss_vms b) vm, cur) of
      (Some old, Some c) \<Rightarrow> (case metric (tr_metric r) old c dur of
          None \<Rightarrow> None
        | Some v \<Rightarrow> if crossed r v then Some \<lparr>fd_rule = r, fd_vm = vm, fd_value = v, fd_actual = dur\<rparr> else None)
    | _ \<Rightarrow> None)"

definition judge_rule :: "Evaluator \<Rightarrow> snapshot list \<Rightarrow> time \<Rightarrow> (string, Counters) gomap \<Rightarrow> Threshold \<Rightarrow> Fired list" where
  "judge_rule e h now cur r = (case base_of h now (tr_window r) of
      None \<Rightarrow> []
    | Some b \<Rightarrow> List.map_filter (\<lambda>vm. judge_vm r b (time_sub now (ss_at b)) vm (map_option (snapOf e vm) (map_of cur vm))) (sort (map fst cur)))"

definition longest :: "Threshold list \<Rightarrow> duration" where
  "longest rules = fold (\<lambda>r k. max k (tr_window r)) rules 0"

definition Evaluate :: "time \<Rightarrow> (string, Counters) gomap \<Rightarrow> Threshold list \<Rightarrow> Evaluator \<Rightarrow> Fired list \<times> Evaluator" where
  "Evaluate now cur rules e =
     (if rules = [] then ([], e\<lparr>ev_history := []\<rparr>)
      else let e' = eval_record now cur (longest rules) e
           in (concat (map (judge_rule e' (ev_history e') now cur) rules), e'))"

section \<open>What is kept is enough\<close>

text \<open>One call: the time, the counters of each VM, and what the taps told before it.\<close>

type_synonym eval_call = "time \<times> (string, Counters) gomap \<times> (string, TapTotals) gomap"

fun eval_run :: "Threshold list \<Rightarrow> Evaluator \<Rightarrow> eval_call list \<Rightarrow> Fired list list" where
  "eval_run rules e [] = []"
| "eval_run rules e ((now, cur, taps) # cs) =
     (let r = Evaluate now cur rules (SetTapTotals taps e) in fst r # eval_run rules (snd r) cs)"

text \<open>The reference: every snapshot ever taken is kept.\<close>

definition taps_only :: "(string, TapTotals) gomap \<Rightarrow> Evaluator" where
  "taps_only taps = \<lparr>ev_history = [], ev_taps = taps\<rparr>"

fun eval_ref :: "Threshold list \<Rightarrow> snapshot list \<Rightarrow> eval_call list \<Rightarrow> Fired list list" where
  "eval_ref rules h [] = []"
| "eval_ref rules h ((now, cur, taps) # cs) =
     (let h' = h @ [new_snapshot (taps_only taps) now cur]
      in concat (map (judge_rule (taps_only taps) h' now cur) rules) # eval_ref rules h' cs)"

lemma snapOf_taps: "ev_taps e = ev_taps e' \<Longrightarrow> snapOf e = snapOf e'"
  by (simp add: snapOf_def fun_eq_iff)

lemma judge_rule_taps: "ev_taps e = ev_taps e' \<Longrightarrow> judge_rule e = judge_rule e'"
  by (simp add: judge_rule_def fun_eq_iff snapOf_taps[of e e'] split: option.split)

lemma new_snapshot_taps: "ev_taps e = ev_taps e' \<Longrightarrow> new_snapshot e = new_snapshot e'"
  by (simp add: new_snapshot_def fun_eq_iff snapOf_taps[of e e'])

lemma trim_history_suffix:
  "\<exists>pre. h = pre @ trim_history t h \<and> (pre \<noteq> [] \<longrightarrow> trim_history t h \<noteq> [] \<and> ss_at (hd (trim_history t h)) \<le> t)"
proof (induction t h rule: trim_history.induct)
  case (1 t s0 s1 ss)
  show ?case
  proof (cases "ss_at s1 \<le> t")
    case True
    with 1 obtain pre where "s1 # ss = pre @ trim_history t (s1 # ss)"
      "pre \<noteq> [] \<longrightarrow> trim_history t (s1 # ss) \<noteq> [] \<and> ss_at (hd (trim_history t (s1 # ss))) \<le> t" by blast
    with True show ?thesis by (intro exI[of _ "s0 # pre"]) (cases pre; auto)
  qed (intro exI[of _ "[]"], simp)
qed simp_all

lemma find_SomeD: "find P xs = Some x \<Longrightarrow> P x \<and> x \<in> set xs"
  by (induction xs) (auto split: if_splits)

lemma base_of_suffix:
  assumes "s \<in> set h" "ss_at s \<le> now - w"
  shows "base_of (pre @ h) now w = base_of h now w"
proof -
  have "find (\<lambda>s. ss_at s \<le> now - w) (rev h) \<noteq> None" using assms by (auto simp: find_None_iff)
  then show ?thesis by (auto simp: base_of_def find_append)
qed

lemma fold_longest: "k \<le> fold (\<lambda>r k. max k (tr_window r)) rules k \<and> (\<forall>r \<in> set rules. tr_window r \<le> fold (\<lambda>r k. max k (tr_window r)) rules k)"
proof (induction rules arbitrary: k)
  case (Cons r rules)
  from Cons[of "max k (tr_window r)"] show ?case by auto
qed simp

lemma longest_ge: "r \<in> set rules \<Longrightarrow> tr_window r \<le> longest rules"
  using fold_longest[of 0 rules] by (simp add: longest_def)

text \<open>The kept history is the end of the full one, and unless nothing was dropped it begins a whole window back.\<close>

definition keeps_enough :: "Threshold list \<Rightarrow> time \<Rightarrow> snapshot list \<Rightarrow> snapshot list \<Rightarrow> bool" where
  "keeps_enough rules now full h \<longleftrightarrow> (\<exists>pre. full = pre @ h \<and> (pre \<noteq> [] \<longrightarrow> h \<noteq> [] \<and> ss_at (hd h) \<le> now - longest rules))"

lemma keeps_enough_step:
  assumes "keeps_enough rules t0 full h" "t0 \<le> now"
  shows "keeps_enough rules now (full @ [s]) (trim_history (now - longest rules) (h @ [s]))"
proof -
  from assms obtain pre where pre: "full = pre @ h" "pre \<noteq> [] \<longrightarrow> h \<noteq> [] \<and> ss_at (hd h) \<le> now - longest rules"
    unfolding keeps_enough_def by fastforce
  obtain pre2 where t: "h @ [s] = pre2 @ trim_history (now - longest rules) (h @ [s])"
    "pre2 \<noteq> [] \<longrightarrow> trim_history (now - longest rules) (h @ [s]) \<noteq> [] \<and> ss_at (hd (trim_history (now - longest rules) (h @ [s]))) \<le> now - longest rules"
    using trim_history_suffix by blast
  let ?t = "trim_history (now - longest rules) (h @ [s])"
  have "full @ [s] = (pre @ pre2) @ ?t" using pre(1) t(1) by simp
  moreover have "pre @ pre2 \<noteq> [] \<longrightarrow> ?t \<noteq> [] \<and> ss_at (hd ?t) \<le> now - longest rules"
  proof (cases "pre2 = []")
    case True
    then have "?t = h @ [s]" using t(1) by simp
    with True pre(2) show ?thesis by auto
  qed (use t(2) in blast)
  ultimately show ?thesis unfolding keeps_enough_def by blast
qed

lemma keeps_enough_base:
  assumes "keeps_enough rules now full h" "r \<in> set rules"
  shows "base_of full now (tr_window r) = base_of h now (tr_window r)"
proof -
  from assms(1) obtain pre where pre: "full = pre @ h" "pre \<noteq> [] \<longrightarrow> h \<noteq> [] \<and> ss_at (hd h) \<le> now - longest rules"
    unfolding keeps_enough_def by blast
  show ?thesis
  proof (cases "pre = []")
    case False
    with pre longest_ge[OF assms(2)] show ?thesis unfolding pre(1) by (intro base_of_suffix[of "hd h"]) auto
  qed (simp add: pre(1))
qed

lemma eval_run_ref:
  assumes "rules \<noteq> []" "keeps_enough rules t0 full (ev_history e)" "sorted (t0 # map fst cs)"
  shows "eval_run rules e cs = eval_ref rules full cs"
  using assms(2,3)
proof (induction cs arbitrary: t0 full e)
  case (Cons c cs)
  obtain now cur taps where c: "c = (now, cur, taps)" by (metis prod.exhaust)
  let ?e = "SetTapTotals taps e"
  let ?e' = "eval_record now cur (longest rules) ?e"
  let ?s = "new_snapshot (taps_only taps) now cur"
  have tp: "ev_taps ?e = ev_taps (taps_only taps)" "ev_taps ?e' = ev_taps (taps_only taps)" "ev_history ?e = ev_history e"
    by (simp_all add: SetTapTotals_def eval_record_def taps_only_def)
  then have h: "ev_history ?e' = trim_history (now - longest rules) (ev_history e @ [?s])"
    by (simp add: eval_record_def new_snapshot_taps[OF tp(1)])
  have k: "keeps_enough rules now (full @ [?s]) (ev_history ?e')"
    unfolding h using Cons.prems by (intro keeps_enough_step) (auto simp: c)
  have "judge_rule ?e' (ev_history ?e') now cur r = judge_rule (taps_only taps) (full @ [?s]) now cur r" if "r \<in> set rules" for r
    unfolding judge_rule_taps[OF tp(2)] using keeps_enough_base[OF k that] by (simp add: judge_rule_def)
  then have "concat (map (judge_rule ?e' (ev_history ?e') now cur) rules) = concat (map (judge_rule (taps_only taps) (full @ [?s]) now cur) rules)"
    by (intro arg_cong[where f = concat] map_cong) auto
  moreover have "eval_run rules ?e' cs = eval_ref rules (full @ [?s]) cs" using Cons.IH[OF k] Cons.prems by (simp add: c)
  ultimately show ?case using assms(1) by (simp only: c Evaluate_def Let_def if_False eval_run.simps eval_ref.simps fst_conv snd_conv)
qed simp

text \<open>C28. The history the evaluator keeps is enough. With fixed rules and times that do not run backwards, from an evaluator with
  no history, the detections of every call are those of a reference that keeps every snapshot ever taken and judges each
  rule against the newest one at least a window old: dropping old snapshots never changes a verdict.\<close>

theorem Evaluate_keeps_enough:
  assumes "rules \<noteq> []" "sorted (map fst cs)" "ev_history e = []"
  shows "eval_run rules e cs = eval_ref rules [] cs"
proof (cases cs)
  case (Cons c cs')
  have "keeps_enough rules (fst c) [] (ev_history e)" using assms(3) by (simp add: keeps_enough_def)
  then show ?thesis using eval_run_ref[OF assms(1), of "fst c" "[]" e cs] assms(2) Cons by simp
qed simp

definition web_rule :: Threshold where
  "web_rule = \<lparr>tr_name = ''exits'', tr_metric = ''kvm_exits_per_sec'', tr_op = ''>'', tr_value = Fin 2, tr_window = 30 * second, tr_severity = ''medium''\<rparr>"

definition exits_at :: "time \<Rightarrow> u64 \<Rightarrow> eval_call" where
  "exits_at t n = (t * second, [(''web'', zero_counters\<lparr>ct_exits := [(1, n)]\<rparr>)], [])"

definition web_calls :: "eval_call list" where
  "web_calls = [exits_at 0 0, exits_at 10 10, exits_at 30 50, exits_at 40 100]"

theorem Evaluate_keeps_enough_witness:
  "eval_ref [web_rule] [] web_calls = eval_run [web_rule] (taps_only []) web_calls \<and>
   map (map (\<lambda>f. (fd_vm f, fd_value f, fd_actual f))) (eval_run [web_rule] (taps_only []) web_calls) = [[], [], [], [(''web'', Fin 3, 30 * second)]]"
proof -
  have "sorted (map fst web_calls)" by (simp add: web_calls_def exits_at_def)
  then have "eval_run [web_rule] (taps_only []) web_calls = eval_ref [web_rule] [] web_calls"
    by (intro Evaluate_keeps_enough) (simp_all add: taps_only_def)
  moreover have "map (map (\<lambda>f. (fd_vm f, fd_value f, fd_actual f))) (eval_run [web_rule] (taps_only []) web_calls) = [[], [], [], [(''web'', Fin 3, 30 * second)]]"
    by code_simp
  ultimately show ?thesis by simp
qed

text \<open>What fires was seen over a whole window, and the VM was there at its start.\<close>

lemma judge_rule_full_window:
  assumes "f \<in> set (judge_rule e h now cur r)"
  shows "\<exists>b \<in> set h. ss_at b \<le> now - tr_window r \<and> fd_actual f = time_sub now (ss_at b) \<and> map_of (ss_vms b) (fd_vm f) \<noteq> None \<and>
    map_of cur (fd_vm f) \<noteq> None \<and> fd_rule f = r \<and> crossed r (fd_value f)"
proof -
  from assms obtain b where b: "base_of h now (tr_window r) = Some b"
    "f \<in> set (List.map_filter (\<lambda>vm. judge_vm r b (time_sub now (ss_at b)) vm (map_option (snapOf e vm) (map_of cur vm))) (sort (map fst cur)))"
    by (cases "base_of h now (tr_window r)") (auto simp: judge_rule_def)
  from b(1) have "b \<in> set h" "ss_at b \<le> now - tr_window r" unfolding base_of_def by (auto dest: find_SomeD)
  moreover obtain vm where "judge_vm r b (time_sub now (ss_at b)) vm (map_option (snapOf e vm) (map_of cur vm)) = Some f"
    using b(2) by (auto simp: map_filter_def)
  then have "fd_actual f = time_sub now (ss_at b) \<and> map_of (ss_vms b) (fd_vm f) \<noteq> None \<and> map_of cur (fd_vm f) \<noteq> None \<and> fd_rule f = r \<and> crossed r (fd_value f)"
    by (auto simp: judge_vm_def split: option.splits if_splits)
  ultimately show ?thesis by blast
qed

end
