(* ===== verification/Agent.thy ===== *)
theory Agent
  imports State Rules Baseline Thresholds
begin

text \<open>
  The agent, \<open>internal/agent\<close>: it joins each discrete event to a VM of the latest scan, stores it, applies the
  detection rules to it and holds back repeats (\<open>agent.go\<close>, \<open>baselines.go\<close>, \<open>vmm.go\<close>, \<open>netlink.go\<close>), runs the threshold
  rules, and turns changes of the scan into events. A rule is a function from the event and the rules to the
  alerts it raises, each with the key its repeats are held back under; \<open>raise_all\<close> raises them in order. What the
  agent reads from \<open>/proc\<close> about one process is an argument, \<open>agent_env\<close>. \<open>None\<close> is a panic of the event list, and
  \<open>ag_log\<close> is history: every event stored so far, in order.
\<close>

section \<open>The agent\<close>

record trackedVM =
  tk_vm :: vm_info
  tk_misses :: int

record netlinkLinkState =
  ns_mtu :: u32
  ns_oper_state :: string
  ns_master :: "32 word"

record Agent =
  ag_state :: State
  ag_cfg :: Config
  ag_sup :: Suppressor
  ag_vms :: "(int, trackedVM) gomap"
  ag_firstScan :: bool
  ag_base :: "base_store option"
  ag_basePersisted :: bool
  ag_eval :: Evaluator
  ag_seen :: "(string, time) gomap"
  ag_covered :: "(string, bool) gomap"
  ag_netlinks :: "(32 word, netlinkLinkState) gomap"
  ag_log :: "event list"

text \<open>What \<open>/proc\<close> says of a process: its status file, its working directory, what a descriptor of it names.\<close>

record agent_env =
  ae_root :: string
  ae_status :: "u32 \<Rightarrow> string option"
  ae_cwd :: "u32 \<Rightarrow> string option"
  ae_fd :: "u32 \<Rightarrow> int \<Rightarrow> string option"

definition vm_of :: "vm_info \<Rightarrow> event_vm" where
  "vm_of vm = \<lparr>vm_name = id_name vm, vm_uuid = id_uuid vm, vm_runtime = id_runtime vm\<rparr>"

abbreviation decimal :: "'a::len word \<Rightarrow> string" where
  "decimal n \<equiv> Itoa (uint n)"

section \<open>The rules file\<close>

text \<open>\<open>reload\<close>, with the file's bytes; what fails leaves the rules as they were.\<close>

definition set_base_options :: "Config \<Rightarrow> base_store option \<Rightarrow> base_store option" where
  "set_base_options c base = (case (base, cf_baselines c) of
      (Some s, Some bc) \<Rightarrow> Some (SetOptions (BaselineOptions bc) s)
    | _ \<Rightarrow> base)"

definition reload :: "(string \<Rightarrow> string + rules_doc) \<Rightarrow> string + string \<Rightarrow> Agent \<Rightarrow> Agent \<times> (string + rule_error) option" where
  "reload decode file a = (case file of
      Inl err \<Rightarrow> (a, Some (Inl err))
    | Inr b \<Rightarrow> (case Parse decode b of
        Inl err \<Rightarrow> (a, Some (Inr err))
      | Inr c \<Rightarrow> (a\<lparr>ag_cfg := c, ag_base := set_base_options c (ag_base a)\<rparr>, None)))"

definition Reload :: "(string \<Rightarrow> string + rules_doc) \<Rightarrow> string \<Rightarrow> string + string \<Rightarrow> Agent \<Rightarrow> Agent \<times> (string + rule_error) option" where
  "Reload decode watchPath file a = (if watchPath = '''' then (a, None) else reload decode file a)"

definition SetBaselines :: "base_store option \<Rightarrow> bool \<Rightarrow> Agent \<Rightarrow> Agent" where
  "SetBaselines s persisted a = a\<lparr>ag_base := set_base_options (ag_cfg a) s, ag_basePersisted := persisted\<rparr>"

definition new_agent :: "State \<Rightarrow> Agent" where
  "new_agent st = \<lparr>ag_state = st, ag_cfg = DefaultConfig, ag_sup = [], ag_vms = [], ag_firstScan = True, ag_base = None,
     ag_basePersisted = False, ag_eval = \<lparr>ev_history = [], ev_taps = []\<rparr>, ag_seen = [], ag_covered = [],
     ag_netlinks = [], ag_log = []\<rparr>"

text \<open>\<open>New\<close>: an agent, unless the rules file cannot be used.\<close>

definition agent_New :: "(string \<Rightarrow> string + rules_doc) \<Rightarrow> string \<Rightarrow> string + string \<Rightarrow> State \<Rightarrow> (string + rule_error) + Agent" where
  "agent_New decode watchPath file st =
     (case Reload decode watchPath file (new_agent st) of (a, None) \<Rightarrow> Inr a | (a, Some err) \<Rightarrow> Inl err)"

section \<open>Storing and raising\<close>

definition add_event :: "event \<Rightarrow> Agent \<Rightarrow> Agent option" where
  "add_event e a = (case AddEvent e (ag_state a) of
      None \<Rightarrow> None
    | Some (s, _) \<Rightarrow> Some (a\<lparr>ag_state := s, ag_log := ag_log a @ [(Normalize e)\<lparr>ev_seq := st_seq s\<rparr>]\<rparr>))"

definition held_note :: "u64 \<Rightarrow> event \<Rightarrow> event" where
  "held_note held det =
     (if held > 0 then det\<lparr>ev_message := ev_message det @ '' ('' @ decimal held @ '' similar suppressed)''\<rparr> else det)"

definition raise :: "time \<Rightarrow> Config \<Rightarrow> string \<times> event \<Rightarrow> Agent \<Rightarrow> Agent option" where
  "raise now cfg alert a =
     (let (sup, ok, held) = Allow (fst alert) now (cf_suppress cfg) (ag_sup a);
          a = a\<lparr>ag_sup := sup\<rparr>
      in if \<not> ok then Some (a\<lparr>ag_state := AddSuppressed 1 (ag_state a)\<rparr>)
         else add_event (Normalize (held_note held (snd alert))) a)"

fun raise_all :: "time \<Rightarrow> Config \<Rightarrow> (string \<times> event) list \<Rightarrow> Agent \<Rightarrow> Agent option" where
  "raise_all now cfg [] a = Some a"
| "raise_all now cfg (x # xs) a = (case raise now cfg x a of None \<Rightarrow> None | Some a' \<Rightarrow> raise_all now cfg xs a')"

text \<open>The closure that makes a detection out of the event it is about.\<close>

definition detection :: "event \<Rightarrow> string \<Rightarrow> string \<Rightarrow> string \<Rightarrow> event" where
  "detection e rule severity msg = e\<lparr>ev_kind := KindDetection, ev_rule := rule, ev_severity := severity, ev_message := msg\<rparr>"

section \<open>Rules on a connection\<close>

definition or_tcp :: "string \<Rightarrow> string" where
  "or_tcp proto = (if proto = '''' then ''tcp'' else proto)"

definition dnsRules :: "event \<Rightarrow> Config \<Rightarrow> (string \<times> event) list" where
  "dnsRules e cfg = (case MatchDNS (Some cfg) (ev_dns_name e) of
      None \<Rightarrow> []
    | Some r \<Rightarrow> [(''dns|'' @ dn_name r @ ''|'' @ vm_name (ev_vm e) @ ''|'' @ ev_dns_name e,
        detection e (dn_name r) (dn_severity r) (dn_name r @ '': looked up '' @ ev_dns_name e @ '' ('' @ ev_qtype e @ '')''))])"

definition tlsRules :: "event \<Rightarrow> Config \<Rightarrow> (string \<times> event) list" where
  "tlsRules e cfg = (case MatchTLS (Some cfg) (ev_sni e) of
      None \<Rightarrow> []
    | Some r \<Rightarrow> [(''tls|'' @ dn_name r @ ''|'' @ vm_name (ev_vm e) @ ''|'' @ ev_sni e,
        detection e (dn_name r) (dn_severity r)
          (dn_name r @ '': connected to '' @ ev_sni e @ '' (TLS, port '' @ decimal (ev_dport e) @ '')''))])"

definition inboundRules :: "event \<Rightarrow> Config \<Rightarrow> (string \<times> event) list" where
  "inboundRules e cfg =
     (if ev_src e = '''' then []
      else case MatchDest (cf_watch cfg) (ParseIP (ev_src e)) of
        None \<Rightarrow> []
      | Some r \<Rightarrow> [(''dest-in|'' @ ds_name r @ ''|'' @ vm_name (ev_vm e) @ ''|'' @ ev_attribution e @ ''|'' @ ev_src e,
          detection e (ds_name r) (ds_severity r) (ds_name r @ '' connected in from '' @ ev_src e))])
     @ (case MatchPortDir (Some cfg) (ev_dport e) ''tcp'' ''in'' of
        None \<Rightarrow> []
      | Some r \<Rightarrow> [(''port-in|'' @ po_name r @ ''|'' @ vm_name (ev_vm e) @ ''|'' @ ev_src e @ ''|'' @ ev_dst e @ '':'' @ decimal (ev_dport e),
          detection e (po_name r) (po_severity r)
            (po_name r @ '' port '' @ decimal (ev_dport e) @ '' connected in from '' @ ev_src e))])"

definition connectRules :: "event \<Rightarrow> Config \<Rightarrow> (string \<times> event) list" where
  "connectRules e cfg =
     (let proto = or_tcp (ev_proto e)
      in if ev_kind e = KindGuestInbound then inboundRules e cfg
         else if ev_kind e = KindGuestDNS then dnsRules e cfg
         else if ev_kind e = KindGuestTLS then tlsRules e cfg
         else
           (if ev_dst e = '''' then []
            else case MatchDest (cf_watch cfg) (ParseIP (ev_dst e)) of
              None \<Rightarrow> []
            | Some r \<Rightarrow> [(''dest|'' @ ds_name r @ ''|'' @ vm_name (ev_vm e) @ ''|'' @ ev_attribution e @ ''|'' @ proto @ ''|'' @ ev_dst e,
                detection e (ds_name r) (ds_severity r) (ds_name r @ '' destination '' @ ev_dst e))])
           @ (case MatchPort (Some cfg) (ev_dport e) proto of
              None \<Rightarrow> []
            | Some r \<Rightarrow> [(''port|'' @ po_name r @ ''|'' @ vm_name (ev_vm e) @ ''|'' @ ev_attribution e @ ''|'' @ proto @ ''|'' @ ev_dst e @ '':'' @ decimal (ev_dport e),
                detection e (po_name r) (po_severity r)
                  (po_name r @ '' port '' @ decimal (ev_dport e) @ (if proto \<noteq> ''tcp'' then '' ('' @ proto @ '')'' else '''') @ '' to '' @ ev_dst e))]))"

section \<open>Rules on a guest's event\<close>

definition policyRules :: "event \<Rightarrow> (string \<times> event) list" where
  "policyRules e =
     (let proto = or_tcp (ev_proto e);
          verdict = (if ev_policy e = ''audit'' then Some (''egress-policy-audit'', ''low'', ''would have been dropped (audit mode)'')
            else if ev_policy e = ''enforce'' then Some (''egress-policy-blocked'', ''medium'', ''was dropped'') else None)
      in case verdict of
           None \<Rightarrow> []
         | Some (rule, severity, what) \<Rightarrow>
             [(''policy|'' @ ev_policy e @ ''|'' @ vm_name (ev_vm e) @ ''|'' @ base_Prefix (ev_dst e) @ ''|'' @ proto,
               detection e rule severity (vm_name (ev_vm e) @ '' opened '' @ proto @ '' to '' @ ev_dst e @ '':'' @ decimal (ev_dport e)
                 @ '', outside its egress policy: it '' @ what))])"

text \<open>What an event teaches; the empty item is nothing.\<close>

definition baselineItem :: "event \<Rightarrow> base_kind \<times> string" where
  "baselineItem e =
     (if ev_kind e = KindGuestConnect \<or> ev_kind e = KindGuestFlow then (Destination, base_Prefix (ev_dst e))
      else if ev_kind e = KindGuestInbound then (InboundPeer, base_Prefix (ev_src e))
      else if ev_kind e = KindGuestDNS then
        (if ev_dns_truncated e then ('''', '''') else (DNSSuffix, Registrable (ev_dns_name e)))
      else if ev_kind e = KindGuestTLS then
        (if ParseIP (ev_sni e) \<noteq> None then ('''', '''') else (DNSSuffix, Registrable (ev_sni e)))
      else ('''', ''''))"

definition newItemMessage :: "event \<Rightarrow> base_kind \<Rightarrow> string \<Rightarrow> string" where
  "newItemMessage e kind item =
     (let vm = vm_name (ev_vm e)
      in if kind = DNSSuffix then
           (if ev_kind e = KindGuestTLS
            then vm @ '' connected to '' @ item @ '' for the first time (TLS server name '' @ ev_sni e @ '', port '' @ decimal (ev_dport e) @ '')''
            else vm @ '' looked up '' @ item @ '' for the first time ('' @ ev_dns_name e @ '', '' @ ev_qtype e @ '')'')
         else if kind = InboundPeer then
           vm @ '' was connected to from '' @ item @ '' for the first time ('' @ ev_src e @ '', to port '' @ decimal (ev_dport e) @ '')''
         else vm @ '' contacted '' @ item @ '' for the first time ('' @ or_tcp (ev_proto e) @ '' to '' @ ev_dst e @ '':'' @ decimal (ev_dport e) @ '')'')"

text \<open>The store after an event has been learned from, and the alerts; nothing when the rules learn nothing.\<close>

definition observeBaseline :: "event \<Rightarrow> Config \<Rightarrow> base_store option \<Rightarrow> base_store option \<times> (string \<times> event) list" where
  "observeBaseline e cfg base = (case (cf_baselines cfg, base) of
      (Some bc, Some s) \<Rightarrow>
        (let vm = vm_name (ev_vm e); (kind, item) = baselineItem e
         in if vm = '''' \<or> item = '''' \<or> \<not> Learns (Some bc) kind then (base, [])
            else
              (let (s, res) = Observe vm kind item (ev_ts e) s
               in (Some s,
                   (if r_verdict res = New
                    then [(''baseline|'' @ kind @ ''|'' @ vm @ ''|'' @ item, detection e (''new-'' @ kind) (SeverityOf bc kind) (newItemMessage e kind item))]
                    else [])
                   @ (if r_cap_reached res
                    then [(''baseline-cap|'' @ vm, detection e ''baseline-cap'' ''low''
                      (vm @ '' has used its '' @ Itoa (bc_max_alerts bc) @ '' new-item alerts for the day: further new items are learned but not reported until tomorrow (shukractl baseline '' @ vm @ '' shows them)''))]
                    else []))))
    | _ \<Rightarrow> (base, []))"

text \<open>The join of a guest's event: the last VM, and the last of its taps, that matches.\<close>

definition join_tap :: "vm_info list \<Rightarrow> event \<Rightarrow> event" where
  "join_tap vms e0 = fold (\<lambda>vm e. fold (\<lambda>t e.
     if t = ev_iface e then e\<lparr>ev_vm := vm_of vm, ev_tgid := PID32 (id_pid vm), ev_attribution := AttributionGuestTap\<rparr> else e)
     (id_taps vm) e) vms e0"

definition ingestGuest :: "event \<Rightarrow> Config \<Rightarrow> Agent \<Rightarrow> Agent option" where
  "ingestGuest e cfg a =
     (let e = Normalize (join_tap (st_vms (ag_state a)) e)
      in case add_event e a of
           None \<Rightarrow> None
         | Some a \<Rightarrow>
             (if vm_name (ev_vm e) = '''' then Some a
              else case raise_all (ev_ts e) cfg (connectRules e cfg) a of
                None \<Rightarrow> None
              | Some a \<Rightarrow>
                  (let (base, alerts) = observeBaseline e cfg (ag_base a)
                   in raise_all (ev_ts e) cfg (alerts @ policyRules e) (a\<lparr>ag_base := base\<rparr>))))"


section \<open>The VMM tripwires\<close>

definition descriptorOf :: "string \<Rightarrow> int option" where
  "descriptorOf detail =
     (if \<not> HasPrefix detail ''relative to fd '' then None
      else case Atoi (TrimPrefix detail ''relative to fd '') of
        Some n \<Rightarrow> if 0 \<le> n then Some n else None
      | None \<Rightarrow> None)"

text \<open>What a relative path is relative to: the link that was read and how the message calls it.\<close>

definition relative_base :: "agent_env \<Rightarrow> event \<Rightarrow> (string option \<times> string) option" where
  "relative_base env e =
     (if HasPrefix (ev_detail e) ''relative to fd ''
      then map_option (\<lambda>fd. (ae_fd env (ev_pid e) fd, ''fd '' @ Itoa fd)) (descriptorOf (ev_detail e))
      else Some (ae_cwd env (ev_pid e), (''the process'' @ [CHR 0x27] @ ''s working directory'')))"

definition resolveRelative :: "agent_env \<Rightarrow> event \<Rightarrow> event" where
  "resolveRelative env e =
     (if ev_path e = '''' \<or> HasPrefix (ev_path e) ''/'' \<or> ev_pid e = 0 then e
      else case relative_base env e of
        Some (Some base, from) \<Rightarrow>
          (if \<not> HasPrefix base ''/'' then e
           else e\<lparr>ev_detail := ''opened as '' @ go_quote (ev_path e) @ '', resolved from '' @ from @ '' ('' @ base @ '')'',
                  ev_path := path_Clean (base @ ''/'' @ ev_path e)\<rparr>)
      | _ \<Rightarrow> e)"

definition vmm_who :: "event \<Rightarrow> string" where
  "vmm_who e = ev_comm e @ '' (pid '' @ decimal (ev_pid e) @ '') in '' @ vm_name (ev_vm e) @ [CHR 0x27] @ ''s VMM process tree''"

definition vmmRules :: "event \<Rightarrow> Config \<Rightarrow> (string \<times> event) list" where
  "vmmRules e cfg =
     (let vm = vm_name (ev_vm e)
      in if ev_kind e = KindVMMOpen then
           (case SensitivePath (cf_vmm cfg) (ev_path e) of
              None \<Rightarrow> []
            | Some pat \<Rightarrow> [(''vmm-open|'' @ vm @ ''|'' @ path_Clean (ev_path e) @ ''|'' @ ev_comm e,
                detection e ''vmm-sensitive-open'' (OpenSeverity (cf_vmm cfg))
                  (vmm_who e @ '' '' @ (if ev_write e then ''opened for writing'' else ''opened'') @ '' '' @ ev_path e
                   @ '', which matches '' @ pat @ '': a VMM has no reason to''))])
         else if ev_kind e = KindVMMCall then
           (if ev_syscall e = ''flood'' then
              [(''vmm-flood|'' @ vm @ ''|'' @ ev_comm e,
                detection e ''vmm-flood'' ''critical'' (vmm_who e @ '' made '' @ decimal (ev_count e)
                  @ '' more file opens and calls in a second than the tripwire reports: a VMM in steady state makes none''))]
            else if \<not> WatchesSyscall (cf_vmm cfg) (ev_syscall e) then []
            else [(''vmm-call|'' @ vm @ ''|'' @ ev_syscall e @ ''|'' @ ev_comm e,
                detection e ''vmm-syscall'' (SyscallSeverity (cf_vmm cfg) (ev_syscall e))
                  (vmm_who e @ '' called '' @ ev_syscall e @ (if ev_detail e \<noteq> '''' then '' ('' @ ev_detail e @ '')'' else '''')
                   @ '': a VMM has no business doing that''))])
         else [])"

definition ingestVMM :: "agent_env \<Rightarrow> event \<Rightarrow> Config \<Rightarrow> Agent \<Rightarrow> Agent option" where
  "ingestVMM env e cfg a =
     (let e = (case find (\<lambda>vm. Owns vm (ev_tgid e)) (st_vms (ag_state a)) of
                 None \<Rightarrow> e
               | Some vm \<Rightarrow> e\<lparr>ev_vm := vm_of vm, ev_tgid := word_of_int (id_pid vm)\<rparr>);
          e = Normalize (if ev_kind e = KindVMMOpen then resolveRelative env e else e)
      in case add_event e a of
           None \<Rightarrow> None
         | Some a \<Rightarrow> if vm_name (ev_vm e) = '''' then Some a else raise_all (ev_ts e) cfg (vmmRules e cfg) a)"

section \<open>Changes of the network\<close>

definition vmForInterface :: "vm_info list \<Rightarrow> string \<Rightarrow> vm_info option" where
  "vmForInterface vms iface = (if iface = '''' then None else find (\<lambda>vm. iface \<in> set (id_taps vm)) vms)"

definition link_state :: "netlink \<Rightarrow> netlinkLinkState" where
  "link_state n = \<lparr>ns_mtu = nl_mtu n, ns_oper_state = nl_oper_state n, ns_master = nl_master_index n\<rparr>"

text \<open>What was known of the link before, and what is known now.\<close>

definition updateNetlinkState :: "event \<Rightarrow> (32 word, netlinkLinkState) gomap \<Rightarrow> (32 word, netlinkLinkState) gomap \<times> netlinkLinkState option" where
  "updateNetlinkState e links = (case ev_netlink e of
      None \<Rightarrow> (links, None)
    | Some n \<Rightarrow>
       (if ev_kind e \<noteq> KindNetlinkLink \<or> sint (nl_ifindex n) \<le> 0 then (links, None)
        else (if nl_action n = ''delete'' then AList.delete (nl_ifindex n) links else AList.update (nl_ifindex n) (link_state n) links,
              map_of links (nl_ifindex n))))"

abbreviation int32 :: "32 word \<Rightarrow> string" where
  "int32 n \<equiv> Itoa (sint n)"

text \<open>The finding on a link of a VM: rule, severity, key and message, in the order the code asks.\<close>

definition classify_link :: "netlink \<Rightarrow> string \<Rightarrow> string \<Rightarrow> netlinkLinkState option \<Rightarrow> (string \<times> string \<times> string \<times> string) option" where
  "classify_link n iface keySuffix previous =
     (if nl_action n = ''delete'' then
        Some (''tap-link-deleted'', ''high'', ''netlink-tap-deleted|'' @ keySuffix, ''VM interface '' @ iface @ '' was deleted from the host'')
      else if nl_oper_state n = ''down'' \<or> nl_oper_state n = ''lower-layer-down'' then
        Some (''tap-link-down'', ''high'', ''netlink-tap-down|'' @ keySuffix, ''VM interface '' @ iface @ '' changed to '' @ nl_oper_state n)
      else case previous of
        None \<Rightarrow> None
      | Some p \<Rightarrow>
         (if ns_mtu p \<noteq> 0 \<and> nl_mtu n \<noteq> 0 \<and> ns_mtu p \<noteq> nl_mtu n then
            Some (''tap-mtu-changed'', ''medium'', ''netlink-tap-mtu|'' @ keySuffix,
              ''VM interface '' @ iface @ '' MTU changed from '' @ decimal (ns_mtu p) @ '' to '' @ decimal (nl_mtu n))
          else if ns_master p \<noteq> nl_master_index n then
            Some (''tap-master-changed'', ''high'', ''netlink-tap-master|'' @ keySuffix,
              ''VM interface '' @ iface @ '' master changed from ifindex '' @ int32 (ns_master p) @ '' to '' @ int32 (nl_master_index n))
          else None))"

definition classifyNetlink :: "event \<Rightarrow> bool \<Rightarrow> netlinkLinkState option \<Rightarrow> (string \<times> string \<times> string \<times> string) option" where
  "classifyNetlink e ownsInterface previous = (case ev_netlink e of
      None \<Rightarrow> None
    | Some n \<Rightarrow>
       (let iface = (if nl_interface n = '''' then ''ifindex '' @ int32 (nl_ifindex n) else nl_interface n);
            keySuffix = nl_interface n @ ''|'' @ int32 (nl_ifindex n)
        in if ev_kind e = KindNetlinkError then
             Some (''netlink-overrun'', ''high'', ''netlink-overrun'',
               ''kernel Netlink observation lost messages or returned error '' @ int32 (nl_error n) @ ''; network-change history may be incomplete'')
           else if ev_kind e = KindNetlinkRoute then
             (if nl_action n = ''delete'' \<and> (nl_destination n = ''0.0.0.0/0'' \<or> nl_destination n = ''::/0'') then
                Some (''default-route-removed'', ''high'', ''netlink-default-route-removed|'' @ nl_family n @ ''|'' @ decimal (nl_table n),
                  ''kernel removed the '' @ nl_family n @ '' default route from table '' @ decimal (nl_table n) @ '' via '' @ iface)
              else None)
           else if ev_kind e = KindNetlinkNeighbor then
             (if ContainsStr (nl_state n) ''failed'' then
                Some (''neighbor-failed'', ''medium'', ''netlink-neighbor-failed|'' @ keySuffix @ ''|'' @ nl_address n,
                  ''neighbor resolution failed for '' @ nl_address n @ '' on '' @ iface)
              else None)
           else if ev_kind e = KindNetlinkAddress then
             (if ownsInterface \<and> nl_action n = ''delete'' then
                Some (''tap-address-removed'', ''medium'', ''netlink-tap-address-removed|'' @ keySuffix @ ''|'' @ nl_address n,
                  ''address '' @ nl_address n @ ''/'' @ decimal (nl_prefix_len n) @ '' was removed from VM interface '' @ iface)
              else None)
           else if ev_kind e = KindNetlinkLink then (if ownsInterface then classify_link n iface keySuffix previous else None)
           else None))"

definition ingestNetlink :: "event \<Rightarrow> Config \<Rightarrow> Agent \<Rightarrow> Agent option" where
  "ingestNetlink e cfg a = (case ev_netlink e of
      None \<Rightarrow> Some a
    | Some n \<Rightarrow>
       (let owner = vmForInterface (st_vms (ag_state a)) (nl_interface n);
            e = Normalize (case owner of None \<Rightarrow> e | Some vm \<Rightarrow> e\<lparr>ev_vm := vm_of vm\<rparr>)
        in case add_event e a of
             None \<Rightarrow> None
           | Some a \<Rightarrow>
              (let (links, previous) = updateNetlinkState e (ag_netlinks a);
                   a = a\<lparr>ag_netlinks := links\<rparr>
               in case classifyNetlink e (owner \<noteq> None) previous of
                    None \<Rightarrow> Some a
                  | Some (rule, severity, key, msg) \<Rightarrow> raise (ev_ts e) cfg (key, detection e rule severity msg) a)))"

section \<open>Processes\<close>

definition allowedExec :: "string \<Rightarrow> bool" where
  "allowedExec comm =
     (let c = ToLower (TrimSpace comm)
      in if c = '''' then False
         else if HasPrefix c ''qemu-system'' \<or> HasPrefix c ''cpu'' \<or> HasPrefix c ''io'' then True
         else if HasPrefix c ''cloud-hypervis'' \<or> HasPrefix c ''fluxvm-hypervis'' \<or> c = ''firecracker'' \<or> c = ''jailer'' then True
         else ContainsStr c ''vhost'' \<or> ContainsStr c ''kvm'')"

text \<open>\<open>strconv.ParseUint\<close> in base 10 with 32 bits.\<close>

definition ParseUint32 :: "string \<Rightarrow> u32 option" where
  "ParseUint32 s =
     (if s \<noteq> '''' \<and> list_all is_digit s \<and> digits_val s < 2 ^ 32 then Some (of_nat (digits_val s)) else None)"

definition parentPID :: "agent_env \<Rightarrow> u32 \<Rightarrow> u32 option" where
  "parentPID env pid =
     (if pid = 0 \<or> ae_root env = '''' then None
      else case ae_status env pid of
        None \<Rightarrow> None
      | Some b \<Rightarrow> (case find (\<lambda>line. HasPrefix line ''PPid:'') (SplitOn (CHR 0x0A) b) of
          None \<Rightarrow> None
        | Some line \<Rightarrow>
           (case Fields line of
              _ # f # _ \<Rightarrow> (case ParseUint32 f of Some n \<Rightarrow> if n = 0 then None else Some n | None \<Rightarrow> None)
            | _ \<Rightarrow> None)))"

definition expected_exec :: "Config \<Rightarrow> event \<Rightarrow> bool" where
  "expected_exec cfg e \<longleftrightarrow> ev_kind e \<noteq> KindExec \<or> allowedExec (ev_comm e) \<or> AllowsExec (Some cfg) (ev_comm e)"

text \<open>The VM a process event belongs to, and whether it is an exec that was not expected.\<close>

definition join_process :: "agent_env \<Rightarrow> Config \<Rightarrow> vm_info list \<Rightarrow> event \<Rightarrow> vm_info option \<times> bool" where
  "join_process env cfg vms e =
     (let tgid = (if ev_tgid e = 0 then ev_pid e else ev_tgid e)
      in case find (\<lambda>vm. Owns vm tgid \<or> Owns vm (ev_pid e)) vms of
           Some vm \<Rightarrow> (Some vm, False)
         | None \<Rightarrow>
            (if ev_kind e \<noteq> KindExec \<and> ev_kind e \<noteq> KindExit then (None, False)
             else
               (let expected = expected_exec cfg e;
                    ppid = (if ev_ppid e = 0 \<and> \<not> expected then (case parentPID env (ev_pid e) of None \<Rightarrow> 0 | Some p \<Rightarrow> p) else ev_ppid e)
                in if ppid = 0 then (None, False)
                   else case find (\<lambda>vm. Owns vm ppid) vms of
                     None \<Rightarrow> (None, False)
                   | Some vm \<Rightarrow> (Some vm, \<not> expected))))"

definition unexpectedExec :: "event \<Rightarrow> (string \<times> event) list" where
  "unexpectedExec e = [(''exec|'' @ vm_name (ev_vm e) @ ''|'' @ ev_comm e,
     detection e ''unexpected-exec'' ''high'' (''unexpected exec '' @ ev_comm e))]"

definition ingestProcess :: "agent_env \<Rightarrow> event \<Rightarrow> Config \<Rightarrow> Agent \<Rightarrow> Agent option" where
  "ingestProcess env e cfg a =
     (let (joined, unexpected) = join_process env cfg (st_vms (ag_state a)) e;
          e = Normalize (case joined of None \<Rightarrow> e | Some vm \<Rightarrow> e\<lparr>ev_vm := vm_of vm, ev_tgid := PID32 (id_pid vm)\<rparr>)
      in case add_event e a of
           None \<Rightarrow> None
         | Some a \<Rightarrow>
             raise_all (ev_ts e) cfg ((if unexpected then unexpectedExec e else []) @
               (if ev_kind e = KindTCPConnect then connectRules e cfg else [])) a)"

definition guest_kind :: "event_kind \<Rightarrow> bool" where
  "guest_kind k \<longleftrightarrow> k \<in> {KindGuestConnect, KindGuestFlow, KindGuestInbound, KindGuestDNS, KindGuestTLS}"

text \<open>\<open>Ingest\<close>, at the time \<open>now\<close>.\<close>

definition Ingest :: "agent_env \<Rightarrow> time \<Rightarrow> event \<Rightarrow> Agent \<Rightarrow> Agent option" where
  "Ingest env now e0 a =
     (let e = (if is_zero (ev_ts e0) then e0\<lparr>ev_ts := now\<rparr> else e0); cfg = ag_cfg a
      in if ev_netlink e \<noteq> None then ingestNetlink e cfg a
         else if ev_kind e = KindVMMOpen \<or> ev_kind e = KindVMMCall then ingestVMM env e cfg a
         else if guest_kind (ev_kind e) then ingestGuest e cfg a
         else ingestProcess env e cfg a)"

section \<open>Threshold rules and the scan\<close>

text \<open>The text of a threshold's detection is an argument: it prints floating point numbers.\<close>

definition vm_named :: "vm_info list \<Rightarrow> string \<Rightarrow> vm_info" where
  "vm_named vms name = (case find (\<lambda>vm. id_name vm = name) vms of None \<Rightarrow> zero_vm | Some vm \<Rightarrow> vm)"

definition threshold_alert :: "(Fired \<Rightarrow> string) \<Rightarrow> time \<Rightarrow> vm_info list \<Rightarrow> Fired \<Rightarrow> string \<times> event" where
  "threshold_alert msg now vms f =
     (let vm = vm_named vms (fd_vm f)
      in (''threshold|'' @ tr_name (fd_rule f) @ ''|'' @ fd_vm f,
          zero_event\<lparr>ev_kind := KindDetection, ev_ts := now, ev_tgid := PID32 (id_pid vm), ev_vm := vm_of vm,
            ev_rule := tr_name (fd_rule f), ev_severity := tr_severity (fd_rule f), ev_message := msg f\<rparr>))"

definition evaluate :: "(Fired \<Rightarrow> string) \<Rightarrow> time \<Rightarrow> vm_info list \<Rightarrow> (u32, Counters) gomap \<Rightarrow> (string, TapTotals) gomap \<Rightarrow> Agent \<Rightarrow> Agent option" where
  "evaluate msg now vms byPID taps a =
     (let (fired, eval) = Evaluate now (PerVM vms byPID) (cf_thresholds (ag_cfg a)) (SetTapTotals taps (ag_eval a))
      in raise_all now (ag_cfg a) (map (threshold_alert msg now vms) fired) (a\<lparr>ag_eval := eval\<rparr>))"

definition vmEvent :: "time \<Rightarrow> event_kind \<Rightarrow> vm_info \<Rightarrow> string \<Rightarrow> event" where
  "vmEvent now kind vm msg = Normalize (zero_event\<lparr>ev_kind := kind, ev_ts := now, ev_pid := PID32 (id_pid vm),
     ev_tgid := PID32 (id_pid vm), ev_comm := id_comm vm, ev_vm := vm_of vm, ev_message := msg\<rparr>)"

definition stopAfterMisses :: int where
  "stopAfterMisses = 2"

definition started :: "time \<Rightarrow> vm_info \<Rightarrow> event" where
  "started now vm = vmEvent now KindVMStart vm (''VM '' @ id_name vm @ '' appeared (pid '' @ Itoa (id_pid vm) @ '')'')"

definition stopped :: "time \<Rightarrow> int \<Rightarrow> vm_info \<Rightarrow> event" where
  "stopped now pid vm = vmEvent now KindVMStop vm (''VM '' @ id_name vm @ '' is gone (pid '' @ Itoa pid @ '')'')"

fun track_found :: "time \<Rightarrow> bool \<Rightarrow> vm_info list \<Rightarrow> (int, trackedVM) gomap \<Rightarrow> (int, trackedVM) gomap \<times> event list" where
  "track_found now first [] vms = (vms, [])"
| "track_found now first (vm # rest) vms =
     (let (vms', es) = track_found now first rest (AList.update (id_pid vm) \<lparr>tk_vm = vm, tk_misses = 0\<rparr> vms)
      in (vms', (if map_of vms (id_pid vm) = None \<and> \<not> first then [started now vm] else []) @ es))"

fun track_missed :: "time \<Rightarrow> int set \<Rightarrow> (int \<times> trackedVM) list \<Rightarrow> (int, trackedVM) gomap \<times> event list" where
  "track_missed now found [] = ([], [])"
| "track_missed now found ((pid, t) # rest) =
     (let (vms, es) = track_missed now found rest; misses = tk_misses t + 1
      in if pid \<in> found then ((pid, t) # vms, es)
         else if misses \<ge> stopAfterMisses then (vms, stopped now pid (tk_vm t) # es)
         else ((pid, t\<lparr>tk_misses := misses\<rparr>) # vms, es))"

text \<open>\<open>trackVMs\<close>: what is tracked afterwards, and the events of the change, which are then stored in order.\<close>

definition track_step :: "time \<Rightarrow> bool \<Rightarrow> vm_info list \<Rightarrow> (int, trackedVM) gomap \<Rightarrow> (int, trackedVM) gomap \<times> event list" where
  "track_step now first scan vms =
     (let (vms, es) = track_found now first scan vms; (vms, es') = track_missed now (id_pid ` set scan) vms in (vms, es @ es'))"

fun add_events :: "event list \<Rightarrow> Agent \<Rightarrow> Agent option" where
  "add_events [] a = Some a"
| "add_events (e # es) a = (case add_event e a of None \<Rightarrow> None | Some a \<Rightarrow> add_events es a)"

definition trackVMs :: "time \<Rightarrow> vm_info list \<Rightarrow> Agent \<Rightarrow> Agent option" where
  "trackVMs now scan a =
     (let (vms, es) = track_step now (ag_firstScan a) scan (ag_vms a)
      in map_option (\<lambda>a. a\<lparr>ag_firstScan := False\<rparr>) (add_events es (a\<lparr>ag_vms := vms\<rparr>)))"


section \<open>What is stored\<close>

lemma AddEvent_seq: "AddEvent e s = Some (s', d) \<Longrightarrow> st_vms s' = st_vms s \<and> st_suppressed s' = st_suppressed s"
  by (auto simp: AddEvent_def add_detection_def count_connect_def Let_def split: option.splits if_splits)

text \<open>One step of the agent adds to the log, and leaves the scan and the rules alone.\<close>

definition logs :: "(event \<Rightarrow> bool) \<Rightarrow> Agent \<Rightarrow> Agent \<Rightarrow> bool" where
  "logs P a a' \<longleftrightarrow> (\<exists>new. ag_log a' = ag_log a @ new \<and> (\<forall>e \<in> set new. P e)) \<and>
     st_vms (ag_state a') = st_vms (ag_state a) \<and> ag_cfg a' = ag_cfg a"

lemma logs_refl: "logs P a a"
  by (simp add: logs_def)

lemma logs_trans: "logs P a b \<Longrightarrow> logs P b c \<Longrightarrow> logs P a c"
  by (auto simp: logs_def)

lemma logs_add: "add_event e a = Some a' \<Longrightarrow> (\<And>n. P ((Normalize e)\<lparr>ev_seq := n\<rparr>)) \<Longrightarrow> logs P a a'"
  by (auto simp: add_event_def logs_def AddEvent_seq split: option.splits)

lemma logs_raise:
  assumes "raise now cfg x a = Some a'" "\<And>n h. P ((Normalize (held_note h (snd x)))\<lparr>ev_seq := n\<rparr>)"
  shows "logs P a a'"
proof -
  obtain sup ok held where al: "Allow (fst x) now (cf_suppress cfg) (ag_sup a) = (sup, ok, held)" by (metis prod.exhaust)
  show ?thesis
  proof (cases ok)
    case True
    then have "add_event (Normalize (held_note held (snd x))) (a\<lparr>ag_sup := sup\<rparr>) = Some a'"
      using assms(1) al by (simp add: raise_def)
    from logs_add[OF this, of P] assms(2) show ?thesis by (simp add: logs_def)
  next
    case False
    then show ?thesis using assms(1) al by (auto simp: raise_def logs_def AddSuppressed_def)
  qed
qed

lemma raise_all_single: "raise_all now cfg [x] a = raise now cfg x a"
  by (simp split: option.split)

lemma logs_raise_all:
  "raise_all now cfg xs a = Some a' \<Longrightarrow> (\<And>x n h. x \<in> set xs \<Longrightarrow> P ((Normalize (held_note h (snd x)))\<lparr>ev_seq := n\<rparr>)) \<Longrightarrow> logs P a a'"
proof (induction xs arbitrary: a)
  case (Cons x xs)
  then obtain b where b: "raise now cfg x a = Some b" "raise_all now cfg xs b = Some a'" by (auto split: option.splits)
  have "logs P a b" using Cons.prems(2)[of x] by (intro logs_raise[OF b(1)]) auto
  moreover have "logs P b a'" using Cons.prems(2) by (intro Cons.IH[OF b(2)]) auto
  ultimately show ?case by (rule logs_trans)
qed (simp add: logs_refl)

text \<open>A detection keeps who and where its event is about.\<close>

definition about :: "event \<Rightarrow> event \<Rightarrow> bool" where
  "about e d \<longleftrightarrow> ev_vm d = ev_vm e \<and> ev_attribution d = ev_attribution e \<and> ev_iface d = ev_iface e"

lemma detection_about [simp]: "about e (detection e r s m)"
  by (simp add: about_def detection_def)

lemma connectRules_about: "x \<in> set (connectRules e cfg) \<Longrightarrow> about e (snd x)"
  by (auto simp: connectRules_def inboundRules_def dnsRules_def tlsRules_def Let_def split: option.splits if_splits)

lemma policyRules_about: "x \<in> set (policyRules e) \<Longrightarrow> about e (snd x)"
  by (auto simp: policyRules_def Let_def split: if_splits)

lemma observeBaseline_about: "x \<in> set (snd (observeBaseline e cfg base)) \<Longrightarrow> about e (snd x)"
  by (auto simp: observeBaseline_def Let_def split_beta split: option.splits if_splits)

lemma vmmRules_about: "x \<in> set (vmmRules e cfg) \<Longrightarrow> about e (snd x)"
  by (auto simp: vmmRules_def Let_def split: option.splits if_splits)


section \<open>Who an event is said to be about\<close>

text \<open>Two events that name the same VM on the same grounds.\<close>

definition same_claim :: "event \<Rightarrow> event \<Rightarrow> bool" where
  "same_claim e d \<longleftrightarrow> ev_vm d = ev_vm e \<and> ev_attribution d = ev_attribution e \<and> ev_guest_attributed d = ev_guest_attributed e"

lemma same_claim_stored: "same_claim (Normalize e) ((Normalize (Normalize e))\<lparr>ev_seq := n\<rparr>)"
  by (simp add: same_claim_def)

lemma same_claim_alert:
  assumes "about (Normalize e) x"
  shows "same_claim (Normalize e) ((Normalize (held_note h x))\<lparr>ev_seq := n\<rparr>)"
proof -
  have x: "ev_vm (held_note h x) = ev_vm e" "ev_attribution (held_note h x) = ev_attribution (Normalize e)"
    using assms by (simp_all add: about_def held_note_def)
  have "ev_attribution (Normalize (held_note h x)) = ev_attribution (Normalize (Normalize e))"
    "ev_guest_attributed (Normalize (held_note h x)) = ev_guest_attributed (Normalize (Normalize e))"
    unfolding Normalize_attribution[of "held_note h x"] Normalize_attribution[of "Normalize e"]
      Normalize_guest_attributed[of "held_note h x"] Normalize_guest_attributed[of "Normalize e"]
    by (simp_all add: x)
  then show ?thesis using x by (simp add: same_claim_def)
qed

lemma logs_claims:
  assumes "raise_all now cfg xs a = Some a'" "\<And>x. x \<in> set xs \<Longrightarrow> about (Normalize e) (snd x)"
  shows "logs (same_claim (Normalize e)) a a'"
  using assms same_claim_alert by (intro logs_raise_all[OF assms(1)]) blast

lemma logs_claim_add: "add_event (Normalize e) a = Some a' \<Longrightarrow> logs (same_claim (Normalize e)) a a'"
  by (erule logs_add) (rule same_claim_stored)

text \<open>The evidence on which an event is joined to a VM.\<close>

definition belongs :: "agent_env \<Rightarrow> event \<Rightarrow> vm_info \<Rightarrow> bool" where
  "belongs env e vm \<longleftrightarrow>
     (case ev_netlink e of
        Some n \<Rightarrow> nl_interface n \<in> set (id_taps vm)
      | None \<Rightarrow>
         (if ev_kind e = KindVMMOpen \<or> ev_kind e = KindVMMCall then Owns vm (ev_tgid e)
          else if guest_kind (ev_kind e) then ev_iface e \<in> set (id_taps vm)
          else Owns vm (ev_tgid e) \<or> Owns vm (ev_pid e) \<or>
            ev_kind e \<in> {KindExec, KindExit} \<and> (Owns vm (ev_ppid e) \<or> (\<exists>p. parentPID env (ev_pid e) = Some p \<and> Owns vm p))))"

text \<open>What the joined event claims.\<close>

definition claim_ok :: "agent_env \<Rightarrow> event \<Rightarrow> vm_info list \<Rightarrow> event \<Rightarrow> bool" where
  "claim_ok env e vms d \<longleftrightarrow>
     (vm_name (ev_vm d) \<noteq> '''' \<longrightarrow> (\<exists>vm \<in> set vms. ev_vm d = vm_of vm \<and> belongs env e vm)) \<and>
     (ev_guest_attributed d \<longrightarrow> ev_netlink e = None \<and> guest_kind (ev_kind e))"

lemma claim_ok_same: "same_claim d d' \<Longrightarrow> claim_ok env e vms d \<Longrightarrow> claim_ok env e vms d'"
  by (simp add: claim_ok_def same_claim_def)

lemma logs_mono: "logs P a a' \<Longrightarrow> (\<And>e. P e \<Longrightarrow> Q e) \<Longrightarrow> logs Q a a'"
  by (auto simp: logs_def)

lemma find_in: "find P xs = Some x \<Longrightarrow> x \<in> set xs \<and> P x"
  by (induction xs) (auto split: if_splits)

lemma join_tap_cases:
  "(ev_vm (join_tap vms e) = ev_vm e \<and> ev_attribution (join_tap vms e) = ev_attribution e \<or>
    (\<exists>vm \<in> set vms. ev_vm (join_tap vms e) = vm_of vm \<and> ev_iface e \<in> set (id_taps vm))) \<and>
   ev_kind (join_tap vms e) = ev_kind e \<and> ev_iface (join_tap vms e) = ev_iface e"
proof -
  let ?f = "\<lambda>vm t e. if t = ev_iface e then e\<lparr>ev_vm := vm_of vm, ev_tgid := PID32 (id_pid vm), ev_attribution := AttributionGuestTap\<rparr> else e"
  have taps: "(ev_vm (fold (?f vm) ts e) = ev_vm e \<and> ev_attribution (fold (?f vm) ts e) = ev_attribution e \<or>
      ev_vm (fold (?f vm) ts e) = vm_of vm \<and> ev_iface e \<in> set ts) \<and>
      ev_kind (fold (?f vm) ts e) = ev_kind e \<and> ev_iface (fold (?f vm) ts e) = ev_iface e" for vm ts e
  proof (induction ts arbitrary: e)
    case (Cons t ts)
    show ?case using Cons[of "?f vm t e"] by (cases "t = ev_iface e") auto
  qed simp
  show ?thesis unfolding join_tap_def
  proof (induction vms arbitrary: e)
    case (Cons vm vms)
    let ?e = "fold (?f vm) (id_taps vm) e"
    show ?case using Cons[of ?e] taps[of vm "id_taps vm" e] by auto
  qed simp
qed


text \<open>What each kind of event becomes.\<close>

lemma join_process_belongs:
  assumes "join_process env cfg vms e = (Some vm, u)" "ev_netlink e = None" "ev_kind e \<noteq> KindVMMOpen" "ev_kind e \<noteq> KindVMMCall"
    "\<not> guest_kind (ev_kind e)"
  shows "vm \<in> set vms \<and> belongs env e vm"
proof -
  let ?tgid = "if ev_tgid e = 0 then ev_pid e else ev_tgid e"
  show ?thesis
  proof (cases "find (\<lambda>vm. Owns vm ?tgid \<or> Owns vm (ev_pid e)) vms")
    case (Some v)
    then show ?thesis using assms find_in[OF Some] by (auto simp: join_process_def belongs_def split: if_splits)
  next
    case None
    let ?p = "if ev_ppid e = 0 \<and> \<not> expected_exec cfg e then (case parentPID env (ev_pid e) of None \<Rightarrow> 0 | Some p \<Rightarrow> p) else ev_ppid e"
    have f: "find (\<lambda>vm. Owns vm ?p) vms = Some vm" "ev_kind e = KindExec \<or> ev_kind e = KindExit"
      using assms(1) None by (auto simp: join_process_def Let_def split: if_splits option.splits)
    then have "vm \<in> set vms" "Owns vm ?p" using find_in[OF f(1)] by simp_all
    then show ?thesis using assms(2-) f(2) by (auto simp: belongs_def Owns_def split: if_splits option.splits)
  qed
qed

abbreviation from_decoder :: "event \<Rightarrow> bool" where
  "from_decoder e \<equiv> ev_vm e = no_vm \<and> ev_attribution e \<in> {'''', AttributionHostNetlink}"

lemma claim_ok_Normalize:
  assumes "vm_name (ev_vm e1) \<noteq> '''' \<longrightarrow> (\<exists>vm \<in> set vms. ev_vm e1 = vm_of vm \<and> belongs env e vm)"
    "ev_attribution e1 = AttributionGuestTap \<longrightarrow> ev_netlink e = None \<and> guest_kind (ev_kind e)"
  shows "claim_ok env e vms (Normalize e1)"
  using assms by (auto simp: claim_ok_def Normalize_guest_attributed)

lemma ingestGuest_logs:
  assumes "ingestGuest e cfg a = Some a'"
  shows "logs (same_claim (Normalize (join_tap (st_vms (ag_state a)) e))) a a'"
proof -
  let ?e = "join_tap (st_vms (ag_state a)) e"
  obtain b where b: "add_event (Normalize ?e) a = Some b" using assms by (auto simp: ingestGuest_def Let_def split: option.splits)
  note l1 = logs_claim_add[OF b]
  show ?thesis
  proof (cases "vm_name (ev_vm ?e) = ''''")
    case True
    then show ?thesis using assms b l1 by (simp add: ingestGuest_def)
  next
    case False
    obtain c where c: "raise_all (ev_ts ?e) cfg (connectRules (Normalize ?e) cfg) b = Some c"
      using assms b False by (auto simp: ingestGuest_def Let_def split: option.splits)
    obtain base alerts where o': "observeBaseline (Normalize ?e) cfg (ag_base c) = (base, alerts)" by fastforce
    have r: "raise_all (ev_ts ?e) cfg (alerts @ policyRules (Normalize ?e)) (c\<lparr>ag_base := base\<rparr>) = Some a'"
      using assms b False c o' by (simp add: ingestGuest_def Let_def)
    have l2: "logs (same_claim (Normalize ?e)) b c" using connectRules_about by (intro logs_claims[OF c])
    have "x \<in> set (alerts @ policyRules (Normalize ?e)) \<Longrightarrow> about (Normalize ?e) (snd x)" for x
      using observeBaseline_about[of x "Normalize ?e" cfg "ag_base c"] policyRules_about[of x "Normalize ?e"] o' by auto
    from logs_claims[OF r this] have "logs (same_claim (Normalize ?e)) c a'" by (simp add: logs_def)
    with logs_trans[OF logs_trans[OF l1 l2]] show ?thesis by blast
  qed
qed

lemma ingestVMM_logs:
  assumes "ingestVMM env e cfg a = Some a'" "from_decoder e" "ev_netlink e = None" "ev_kind e = KindVMMOpen \<or> ev_kind e = KindVMMCall"
  shows "logs (claim_ok env e (st_vms (ag_state a))) a a'"
proof -
  define e1 where "e1 = (case find (\<lambda>vm. Owns vm (ev_tgid e)) (st_vms (ag_state a)) of
      None \<Rightarrow> e | Some vm \<Rightarrow> e\<lparr>ev_vm := vm_of vm, ev_tgid := word_of_int (id_pid vm)\<rparr>)"
  define e2 where "e2 = (if ev_kind e1 = KindVMMOpen then resolveRelative env e1 else e1)"
  have keep: "ev_vm (resolveRelative env e1) = ev_vm e1" "ev_attribution (resolveRelative env e1) = ev_attribution e1"
    by (auto simp: resolveRelative_def split: option.splits prod.splits)
  have "vm_name (ev_vm e2) \<noteq> '''' \<longrightarrow> (\<exists>vm \<in> set (st_vms (ag_state a)). ev_vm e2 = vm_of vm \<and> belongs env e vm)"
    "ev_attribution e2 = ev_attribution e"
    using assms(2-4) keep find_in[of "\<lambda>vm. Owns vm (ev_tgid e)" "st_vms (ag_state a)"]
    by (auto simp: e2_def e1_def belongs_def no_vm_def split: option.splits)
  then have ok: "claim_ok env e (st_vms (ag_state a)) (Normalize e2)" using assms(2) by (intro claim_ok_Normalize) auto
  obtain b where b: "add_event (Normalize e2) a = Some b"
    "a' = b \<or> raise_all (ev_ts e2) cfg (vmmRules (Normalize e2) cfg) b = Some a'"
    using assms(1) by (auto simp: ingestVMM_def e1_def[symmetric] e2_def[symmetric] Let_def split: option.splits if_splits)
  have "logs (same_claim (Normalize e2)) b a'" using b(2) logs_refl vmmRules_about logs_claims by blast
  with logs_claim_add[OF b(1)] have "logs (same_claim (Normalize e2)) a a'" by (rule logs_trans)
  then show ?thesis by (rule logs_mono) (rule claim_ok_same[OF _ ok])
qed


lemma ingestNetlink_logs:
  assumes "ingestNetlink e cfg a = Some a'" "from_decoder e" "ev_netlink e = Some n"
  shows "logs (claim_ok env e (st_vms (ag_state a))) a a'"
proof -
  define e1 where "e1 = (case vmForInterface (st_vms (ag_state a)) (nl_interface n) of None \<Rightarrow> e | Some vm \<Rightarrow> e\<lparr>ev_vm := vm_of vm\<rparr>)"
  have "vm_name (ev_vm e1) \<noteq> '''' \<longrightarrow> (\<exists>vm \<in> set (st_vms (ag_state a)). ev_vm e1 = vm_of vm \<and> belongs env e vm)"
    "ev_attribution e1 = ev_attribution e"
    using assms(2,3) find_in[of "\<lambda>vm. nl_interface n \<in> set (id_taps vm)" "st_vms (ag_state a)"]
    by (auto simp: e1_def vmForInterface_def belongs_def no_vm_def split: option.splits if_splits)
  then have ok: "claim_ok env e (st_vms (ag_state a)) (Normalize e1)" using assms(2) by (intro claim_ok_Normalize) auto
  obtain b where b: "add_event (Normalize e1) a = Some b" using assms(1,3)
    by (auto simp: ingestNetlink_def e1_def[symmetric] Let_def split: option.splits)
  obtain links previous where u: "updateNetlinkState (Normalize e1) (ag_netlinks b) = (links, previous)" by fastforce
  let ?b = "b\<lparr>ag_netlinks := links\<rparr>"
  have r: "ingestNetlink e cfg a = (case classifyNetlink (Normalize e1) (vmForInterface (st_vms (ag_state a)) (nl_interface n) \<noteq> None) previous of
      None \<Rightarrow> Some ?b
    | Some (rule, severity, key, msg) \<Rightarrow> raise (ev_ts e1) cfg (key, detection (Normalize e1) rule severity msg) ?b)"
    using assms(3) b u by (simp add: ingestNetlink_def e1_def[symmetric] Let_def cong: option.case_cong)
  have "a' = ?b \<or> (\<exists>key r s m. raise_all (ev_ts e1) cfg [(key, detection (Normalize e1) r s m)] ?b = Some a')"
  proof (cases "classifyNetlink (Normalize e1) (vmForInterface (st_vms (ag_state a)) (nl_interface n) \<noteq> None) previous")
    case (Some f)
    obtain r s k m where "f = (r, s, k, m)" by (metis prod.exhaust)
    then have "raise_all (ev_ts e1) cfg [(k, detection (Normalize e1) r s m)] ?b = Some a'"
      using r assms(1) Some by (simp add: raise_all_single del: raise_all.simps)
    then show ?thesis by blast
  qed (use r assms(1) in simp)
  then have "logs (same_claim (Normalize e1)) ?b a'"
  proof (elim disjE exE)
    fix key r s m assume "raise_all (ev_ts e1) cfg [(key, detection (Normalize e1) r s m)] ?b = Some a'"
    then show ?thesis by (rule logs_claims) auto
  qed (simp add: logs_refl)
  then have "logs (same_claim (Normalize e1)) b a'" by (simp add: logs_def)
  with logs_claim_add[OF b] have "logs (same_claim (Normalize e1)) a a'" by (rule logs_trans)
  then show ?thesis by (rule logs_mono) (rule claim_ok_same[OF _ ok])
qed

lemma ingestProcess_logs:
  assumes "ingestProcess env e cfg a = Some a'" "from_decoder e" "ev_netlink e = None"
    "ev_kind e \<noteq> KindVMMOpen" "ev_kind e \<noteq> KindVMMCall" "\<not> guest_kind (ev_kind e)"
  shows "logs (claim_ok env e (st_vms (ag_state a))) a a'"
proof -
  obtain j u where j: "join_process env cfg (st_vms (ag_state a)) e = (j, u)" by fastforce
  define e1 where "e1 = (case j of None \<Rightarrow> e | Some vm \<Rightarrow> e\<lparr>ev_vm := vm_of vm, ev_tgid := PID32 (id_pid vm)\<rparr>)"
  have "vm_name (ev_vm e1) \<noteq> '''' \<longrightarrow> (\<exists>vm \<in> set (st_vms (ag_state a)). ev_vm e1 = vm_of vm \<and> belongs env e vm)"
    "ev_attribution e1 = ev_attribution e"
    using assms(2) join_process_belongs[OF _ assms(3-6), of env cfg "st_vms (ag_state a)"] j
    by (auto simp: e1_def no_vm_def split: option.splits)
  then have ok: "claim_ok env e (st_vms (ag_state a)) (Normalize e1)" using assms(2) by (intro claim_ok_Normalize) auto
  let ?xs = "(if u then unexpectedExec (Normalize e1) else []) @ (if ev_kind e1 = KindTCPConnect then connectRules (Normalize e1) cfg else [])"
  obtain b where b: "add_event (Normalize e1) a = Some b" "raise_all (ev_ts e1) cfg ?xs b = Some a'"
  proof -
    have "ingestProcess env e cfg a = (case add_event (Normalize e1) a of None \<Rightarrow> None | Some a \<Rightarrow> raise_all (ev_ts e1) cfg ?xs a)"
      by (simp add: ingestProcess_def j e1_def Let_def cong: option.case_cong)
    then show thesis using that assms(1) by (simp split: option.splits)
  qed
  have "x \<in> set ?xs \<Longrightarrow> about (Normalize e1) (snd x)" for x
    using connectRules_about[of x "Normalize e1" cfg] by (auto simp: unexpectedExec_def split: if_splits)
  then have "logs (same_claim (Normalize e1)) b a'" by (intro logs_claims[OF b(2)])
  with logs_claim_add[OF b(1)] have "logs (same_claim (Normalize e1)) a a'" by (rule logs_trans)
  then show ?thesis by (rule logs_mono) (rule claim_ok_same[OF _ ok])
qed

text \<open>
  C6. The agent never names a guess. Whatever the decoders hand it, every event and every detection that taking in one event
  stores names a VM only if that VM is in the latest scan and the event carries evidence for it: its tap for what
  a guest did, its VMM's process tree for a tripwire, its process, thread or parent for a process event, its interface for a network
  change. And only what was seen on a tap is ever said to be the guest's own doing.
\<close>

theorem Ingest_never_guesses:
  assumes "Ingest env now e a = Some a'" "from_decoder e"
  shows "\<exists>new. ag_log a' = ag_log a @ new \<and> (\<forall>d \<in> set new.
    (vm_name (ev_vm d) \<noteq> '''' \<longrightarrow> (\<exists>vm \<in> set (st_vms (ag_state a)). ev_vm d = vm_of vm \<and> belongs env e vm)) \<and>
    (ev_guest_attributed d \<longrightarrow> ev_netlink e = None \<and> guest_kind (ev_kind e)))"
proof -
  define e1 where "e1 = (if is_zero (ev_ts e) then e\<lparr>ev_ts := now\<rparr> else e)"
  have f: "from_decoder e1" "ev_netlink e1 = ev_netlink e" "ev_kind e1 = ev_kind e" "ev_iface e1 = ev_iface e" using assms(2) by (simp_all add: e1_def)
  have "belongs env e1 vm = belongs env e vm" for vm
    by (cases "is_zero (ev_ts e)") (simp_all add: e1_def belongs_def cong: option.case_cong)
  then have c: "claim_ok env e1 vms d = claim_ok env e vms d" for vms d
    unfolding claim_ok_def f(2,3) by simp
  have i: "(if ev_netlink e1 \<noteq> None then ingestNetlink e1 (ag_cfg a) a
      else if ev_kind e1 = KindVMMOpen \<or> ev_kind e1 = KindVMMCall then ingestVMM env e1 (ag_cfg a) a
      else if guest_kind (ev_kind e1) then ingestGuest e1 (ag_cfg a) a
      else ingestProcess env e1 (ag_cfg a) a) = Some a'"
    using assms(1) unfolding Ingest_def Let_def e1_def[symmetric] .
  have "logs (claim_ok env e1 (st_vms (ag_state a))) a a'"
  proof (cases "ev_netlink e1")
    case (Some n)
    then show ?thesis using i f(1) ingestNetlink_logs by auto
  next
    case None
    consider "ev_kind e1 = KindVMMOpen \<or> ev_kind e1 = KindVMMCall" | "guest_kind (ev_kind e1)"
      | "ev_kind e1 \<noteq> KindVMMOpen" "ev_kind e1 \<noteq> KindVMMCall" "\<not> guest_kind (ev_kind e1)" by blast
    then show ?thesis
    proof cases
      case 1
      then show ?thesis using i None f(1) ingestVMM_logs by auto
    next
      case 2
      then have k: "ev_kind e1 \<noteq> KindVMMOpen" "ev_kind e1 \<noteq> KindVMMCall" by (auto simp: guest_kind_def)
      then have "ingestGuest e1 (ag_cfg a) a = Some a'" using i None 2 by simp
      note l = ingestGuest_logs[OF this]
      have "claim_ok env e1 (st_vms (ag_state a)) (Normalize (join_tap (st_vms (ag_state a)) e1))"
        using join_tap_cases[of "st_vms (ag_state a)" e1] f(1) None k 2
        by (intro claim_ok_Normalize) (auto simp: belongs_def no_vm_def)
      with l show ?thesis by (elim logs_mono) (rule claim_ok_same)
    next
      case 3
      then show ?thesis using i None f(1) ingestProcess_logs by auto
    qed
  qed
  then show ?thesis unfolding c by (auto simp: logs_def claim_ok_def)
qed


definition no_proc :: agent_env where
  "no_proc = \<lparr>ae_root = ''/proc'', ae_status = (\<lambda>_. None), ae_cwd = (\<lambda>_. None), ae_fd = (\<lambda>_ _. None)\<rparr>"

definition web_connect :: event where
  "web_connect = zero_event\<lparr>ev_kind := KindGuestConnect, ev_iface := ''vnet0'', ev_dst := ''203.0.113.9'', ev_dport := 443\<rparr>"

theorem Ingest_never_guesses_witness:
  "\<exists>a' new. Ingest no_proc 5 web_connect (new_agent web_state) = Some a' \<and> ag_log a' = new \<and> (\<forall>d \<in> set new.
     (vm_name (ev_vm d) \<noteq> '''' \<longrightarrow> (\<exists>vm \<in> set (st_vms web_state). ev_vm d = vm_of vm \<and> belongs no_proc web_connect vm)))"
proof -
  have "Ingest no_proc 5 web_connect (new_agent web_state) \<noteq> None" by code_simp
  then obtain a' where i: "Ingest no_proc 5 web_connect (new_agent web_state) = Some a'" by blast
  have "from_decoder web_connect" by (simp add: web_connect_def zero_event_def)
  from Ingest_never_guesses[OF i this] i show ?thesis by (auto simp: new_agent_def)
qed

section \<open>VMs that come and go\<close>

text \<open>What the tracker holds about one process: how many scans in a row have missed it.\<close>

abbreviation misses :: "(int, trackedVM) gomap \<Rightarrow> int \<Rightarrow> int option" where
  "misses vms p \<equiv> map_option tk_misses (map_of vms p)"

abbreviation pids :: "vm_info list \<Rightarrow> int set" where
  "pids scan \<equiv> id_pid ` set scan"

text \<open>The kernel's process ids, which are all a scan accepts.\<close>

definition pid_ok :: "int \<Rightarrow> bool" where
  "pid_ok p \<longleftrightarrow> 0 < p \<and> p \<le> 4294967295"

lemma PID32_inj: "pid_ok p \<Longrightarrow> pid_ok q \<Longrightarrow> PID32 p = PID32 q \<longleftrightarrow> p = q"
proof -
  assume *: "pid_ok p" "pid_ok q"
  have u: "uint (PID32 x) = x" if "pid_ok x" for x
    using that by (simp add: pid_ok_def PID32_def uint_word_of_int)
  show ?thesis using u[OF *(1)] u[OF *(2)] by metis
qed

text \<open>The kinds of the events about one process, in order.\<close>

definition kinds_of :: "int \<Rightarrow> event list \<Rightarrow> event_kind list" where
  "kinds_of p es = map ev_kind (filter (\<lambda>e. ev_pid e = PID32 p) es)"

lemma kinds_of_append [simp]: "kinds_of p (es @ es') = kinds_of p es @ kinds_of p es'"
  by (simp add: kinds_of_def)

lemma Normalize_pid [simp]: "ev_pid (Normalize e) = ev_pid e"
  by (simp add: Normalize_def Let_def)

lemma kinds_of_started: "kinds_of p [started now vm] = (if PID32 (id_pid vm) = PID32 p then [KindVMStart] else [])"
  by (simp add: kinds_of_def started_def vmEvent_def)

lemma kinds_of_stopped: "kinds_of p [stopped now q vm] = (if PID32 (id_pid vm) = PID32 p then [KindVMStop] else [])"
  by (simp add: kinds_of_def stopped_def vmEvent_def)

text \<open>What the tracker keeps: a key is its VM's process id.\<close>

definition track_inv :: "(int, trackedVM) gomap \<Rightarrow> bool" where
  "track_inv vms \<longleftrightarrow> distinct (map fst vms) \<and> (\<forall>(p, t) \<in> set vms. id_pid (tk_vm t) = p \<and> pid_ok p)"

lemma set_AList_update: "distinct (map fst xs) \<Longrightarrow> (k, v) \<in> set (AList.update a b xs) \<Longrightarrow> (k, v) = (a, b) \<or> (k, v) \<in> set xs"
  by (induction xs) (auto split: if_splits)

lemma track_inv_update:
  "track_inv vms \<Longrightarrow> pid_ok (id_pid vm) \<Longrightarrow> track_inv (AList.update (id_pid vm) \<lparr>tk_vm = vm, tk_misses = n\<rparr> vms)"
  by (auto simp: track_inv_def distinct_update dest!: set_AList_update)

lemma track_found_spec:
  assumes "track_inv vms" "\<forall>vm \<in> set scan. pid_ok (id_pid vm)" "pid_ok p"
  shows "case track_found now first scan vms of (vms', es) \<Rightarrow>
    track_inv vms' \<and> misses vms' p = (if p \<in> pids scan then Some 0 else misses vms p) \<and>
    kinds_of p es = (if p \<in> pids scan \<and> map_of vms p = None \<and> \<not> first then [KindVMStart] else [])"
  using assms(1,2)
proof (induction scan arbitrary: vms)
  case Nil
  then show ?case by (simp add: kinds_of_def)
next
  case (Cons vm scan)
  let ?v = "AList.update (id_pid vm) \<lparr>tk_vm = vm, tk_misses = 0\<rparr> vms"
  obtain vms' es where r: "track_found now first scan ?v = (vms', es)" by fastforce
  have "track_inv ?v" using Cons.prems by (intro track_inv_update) auto
  from Cons.IH[OF this] Cons.prems(2) r have ih: "track_inv vms'" "misses vms' p = (if p \<in> pids scan then Some 0 else misses ?v p)"
    "kinds_of p es = (if p \<in> pids scan \<and> map_of ?v p = None \<and> \<not> first then [KindVMStart] else [])" by auto
  have k: "PID32 (id_pid vm) = PID32 p \<longleftrightarrow> id_pid vm = p" using PID32_inj assms(3) Cons.prems(2) by simp
  have e: "kinds_of p (if c then [started now vm] else []) = (if c \<and> id_pid vm = p then [KindVMStart] else [])" for c
    by (simp add: kinds_of_started k) (simp add: kinds_of_def)
  have "track_found now first (vm # scan) vms =
      (vms', (if map_of vms (id_pid vm) = None \<and> \<not> first then [started now vm] else []) @ es)" by (simp add: r)
  then show ?case using ih by (simp only: prod.case kinds_of_append e) (auto simp: map_of_update)
qed

lemma track_missed_keys: "fst ` set (fst (track_missed now found vms)) \<subseteq> fst ` set vms"
proof (induction vms)
  case (Cons x vms)
  have "fst ` set (fst (track_missed now found (x # vms))) \<subseteq> insert (fst x) (fst ` set (fst (track_missed now found vms)))"
    by (cases x) (auto simp: Let_def split_beta)
  then show ?case using Cons by auto
qed simp

lemma track_missed_spec:
  assumes "track_inv vms" "pid_ok p"
  shows "case track_missed now found vms of (vms', es) \<Rightarrow>
    track_inv vms' \<and>
    misses vms' p = (if p \<in> found then misses vms p else case misses vms p of
        None \<Rightarrow> None | Some n \<Rightarrow> if n + 1 \<ge> stopAfterMisses then None else Some (n + 1)) \<and>
    kinds_of p es = (if p \<notin> found \<and> (\<exists>n. misses vms p = Some n \<and> n + 1 \<ge> stopAfterMisses) then [KindVMStop] else [])"
  using assms(1)
proof (induction vms)
  case Nil
  then show ?case by (simp add: kinds_of_def)
next
  case (Cons x vms)
  obtain q t where x: "x = (q, t)" by fastforce
  obtain vms' es where r: "track_missed now found vms = (vms', es)" by fastforce
  have inv: "track_inv vms" "q \<notin> fst ` set vms" "id_pid (tk_vm t) = q" "pid_ok q" using Cons.prems by (auto simp: track_inv_def x)
  have q': "q \<notin> fst ` set vms'" using inv(2) track_missed_keys[of now found vms] r by auto
  from Cons.IH[OF inv(1)] r have ih: "track_inv vms'"
    "misses vms' p = (if p \<in> found then misses vms p else case misses vms p of
        None \<Rightarrow> None | Some n \<Rightarrow> if n + 1 \<ge> stopAfterMisses then None else Some (n + 1))"
    "kinds_of p es = (if p \<notin> found \<and> (\<exists>n. misses vms p = Some n \<and> n + 1 \<ge> stopAfterMisses) then [KindVMStop] else [])" by auto
  have k: "PID32 q = PID32 p \<longleftrightarrow> q = p" using PID32_inj assms(2) inv(4) by simp
  have e: "kinds_of p (stopped now q (tk_vm t) # es) = (if q = p then [KindVMStop] else []) @ kinds_of p es"
    using kinds_of_append[of p "[stopped now q (tk_vm t)]" es] by (simp add: kinds_of_stopped inv(3) k)
  have none: "q = p \<Longrightarrow> map_of vms p = None" "q = p \<Longrightarrow> map_of vms' p = None" using inv(2) q' by (auto simp: map_of_eq_None_iff)
  have step: "track_missed now found (x # vms) =
     (if q \<in> found then ((q, t) # vms', es)
      else if tk_misses t + 1 \<ge> stopAfterMisses then (vms', stopped now q (tk_vm t) # es)
      else ((q, t\<lparr>tk_misses := tk_misses t + 1\<rparr>) # vms', es))" by (simp add: x r)
  have i2: "track_inv ((q, u) # vms')" if "tk_vm u = tk_vm t" for u using ih(1) q' inv(3,4) that by (auto simp: track_inv_def)
  show ?case
  proof (cases "q = p")
    case True
    then show ?thesis unfolding step using ih none i2 e x by (auto simp: kinds_of_def)
  next
    case False
    then show ?thesis unfolding step using ih i2 e x by auto
  qed
qed


lemma track_step_spec:
  assumes "track_inv vms" "\<forall>vm \<in> set scan. pid_ok (id_pid vm)" "pid_ok p" "track_step now first scan vms = (vms', es)"
  shows "track_inv vms'"
    "misses vms' p = (if p \<in> pids scan then Some 0 else case misses vms p of
        None \<Rightarrow> None | Some n \<Rightarrow> if n + 1 \<ge> stopAfterMisses then None else Some (n + 1))"
    "kinds_of p es =
       (if p \<in> pids scan \<and> map_of vms p = None \<and> \<not> first then [KindVMStart]
        else if p \<notin> pids scan \<and> (\<exists>n. misses vms p = Some n \<and> n + 1 \<ge> stopAfterMisses) then [KindVMStop] else [])"
proof -
  obtain v1 e1 where f: "track_found now first scan vms = (v1, e1)" by fastforce
  obtain v2 e2 where m: "track_missed now (pids scan) v1 = (v2, e2)" by fastforce
  have r: "vms' = v2" "es = e1 @ e2" using assms(4) f m by (simp_all add: track_step_def)
  have F: "track_inv v1" "misses v1 p = (if p \<in> pids scan then Some 0 else misses vms p)"
    "kinds_of p e1 = (if p \<in> pids scan \<and> map_of vms p = None \<and> \<not> first then [KindVMStart] else [])"
    using track_found_spec[OF assms(1-3), where now = now and first = first] f by simp_all
  note M = track_missed_spec[OF F(1) assms(3), where now = now and found = "pids scan", unfolded m prod.case]
  show "track_inv vms'" using M r by simp
  show "misses vms' p = (if p \<in> pids scan then Some 0 else case misses vms p of
        None \<Rightarrow> None | Some n \<Rightarrow> if n + 1 \<ge> stopAfterMisses then None else Some (n + 1))"
    using M F(2) unfolding r by simp
  show "kinds_of p es =
       (if p \<in> pids scan \<and> map_of vms p = None \<and> \<not> first then [KindVMStart]
        else if p \<notin> pids scan \<and> (\<exists>n. misses vms p = Some n \<and> n + 1 \<ge> stopAfterMisses) then [KindVMStop] else [])"
    using M F(2,3) unfolding r by auto
qed

text \<open>A run of scans: the events of each, from a tracker that holds \<open>vms\<close>.\<close>

fun track_run :: "bool \<Rightarrow> (int, trackedVM) gomap \<Rightarrow> (time \<times> vm_info list) list \<Rightarrow> event list list" where
  "track_run first vms [] = []"
| "track_run first vms ((now, scan) # rest) =
     (let (vms', es) = track_step now first scan vms in es # track_run False vms' rest)"

text \<open>The reference: what is said of a process depends on the scan and the two before it.\<close>

definition said :: "(nat \<Rightarrow> bool) \<Rightarrow> nat \<Rightarrow> event_kind list" where
  "said seen k =
     (if seen k \<and> 1 \<le> k \<and> \<not> seen (k - 1) \<and> (k = 1 \<or> \<not> seen (k - 2)) then [KindVMStart]
      else if 2 \<le> k \<and> seen (k - 2) \<and> \<not> seen (k - 1) \<and> \<not> seen k then [KindVMStop] else [])"

text \<open>The state of the tracker after scan \<open>k\<close>, for one process.\<close>

definition missed :: "(nat \<Rightarrow> bool) \<Rightarrow> nat \<Rightarrow> int option" where
  "missed seen k = (if seen k then Some 0 else if 1 \<le> k \<and> seen (k - 1) then Some 1 else None)"

lemma track_run_said:
  assumes "track_inv vms" "\<forall>(now, scan) \<in> set run. \<forall>vm \<in> set scan. pid_ok (id_pid vm)" "pid_ok p"
    and "\<forall>j < length run. seen (n + j) = (p \<in> pids (snd (run ! j)))"
    and "first \<longleftrightarrow> n = 0" "misses vms p = (if n = 0 then None else missed seen (n - 1))" "k < length run"
  shows "kinds_of p (track_run first vms run ! k) = said seen (n + k)"
  using assms(1,2,4-)
proof (induction run arbitrary: n first vms k)
  case (Cons x run)
  obtain now scan where x: "x = (now, scan)" by fastforce
  obtain vms' es where s: "track_step now first scan vms = (vms', es)" by fastforce
  have ok: "\<forall>vm \<in> set scan. pid_ok (id_pid vm)" using Cons.prems(2) x by auto
  note T = track_step_spec[OF Cons.prems(1) ok assms(3) s]
  have now': "seen n = (p \<in> pids scan)" using Cons.prems(3) x by (auto dest: spec[of _ 0])
  have step: "track_run first vms (x # run) = es # track_run False vms' run" by (simp add: x s)
  have none: "map_of vms p = None \<longleftrightarrow> misses vms p = None" by simp
  show ?case
  proof (cases k)
    case 0
    have m1: "(\<exists>i. misses vms p = Some i \<and> i + 1 \<ge> stopAfterMisses) \<longleftrightarrow> misses vms p = Some 1"
      unfolding Cons.prems(5) by (auto simp: missed_def stopAfterMisses_def)
    have "kinds_of p es = said seen n"
      unfolding T(3) m1 none unfolding Cons.prems(4,5) now'[symmetric]
      by (cases n rule: nat.exhaust; cases "n - 1") (auto simp: said_def missed_def)
    then show ?thesis using step 0 by simp
  next
    case (Suc j)
    have "misses vms' p = (if Suc n = 0 then None else missed seen (Suc n - 1))"
      unfolding T(2) Cons.prems(5) now'[symmetric]
      by (auto simp: missed_def stopAfterMisses_def split: option.split)
    moreover have "\<forall>j < length run. seen (Suc n + j) = (p \<in> pids (snd (run ! j)))"
      using Cons.prems(3) by (auto dest: spec[of _ "Suc _"])
    ultimately have "kinds_of p (track_run False vms' run ! j) = said seen (Suc n + j)"
      using Cons.prems(2,6) Suc T(1) by (intro Cons.IH) auto
    then show ?thesis using step Suc by simp
  qed
qed simp

text \<open>
  C8. One bad read of \<open>/proc\<close> is not a VM that stopped. Over any run of scans since the daemon started, what is said of
  a process is exactly this: that its VM stopped, at the second scan in a row that does not find it after one that
  did; that it appeared, at a scan that finds it when the two before it did not, and never at the first scan. So a
  scan that misses a VM for once says nothing, then or when it is back.
\<close>

theorem track_run_events:
  assumes "\<forall>(now, scan) \<in> set run. \<forall>vm \<in> set scan. pid_ok (id_pid vm)" "pid_ok p" "k < length run"
  shows "kinds_of p (track_run True [] run ! k) = said (\<lambda>j. p \<in> pids (snd (run ! j))) k"
proof -
  have "track_inv []" by (simp add: track_inv_def)
  from track_run_said[OF this assms(1,2), of "\<lambda>j. p \<in> pids (snd (run ! j))" 0 True k] assms(3) show ?thesis by simp
qed

theorem track_run_events_witness:
  "kinds_of 9 (track_run True [] [(0, []), (1, [web_vm\<lparr>id_pid := 9\<rparr>]), (2, []), (3, [web_vm\<lparr>id_pid := 9\<rparr>]), (4, []), (5, [])] ! 5) = [KindVMStop]"
proof -
  let ?run = "[(0, []), (1, [web_vm\<lparr>id_pid := 9\<rparr>]), (2, []), (3, [web_vm\<lparr>id_pid := 9\<rparr>]), (4, []), (5, [])] :: (time \<times> vm_info list) list"
  have "\<forall>(now, scan) \<in> set ?run. \<forall>vm \<in> set scan. pid_ok (id_pid vm)" "pid_ok 9" "5 < length ?run"
    by (simp_all add: pid_ok_def)
  from track_run_events[OF this] show ?thesis by (simp add: said_def)
qed

text \<open>The agent stores the events of each scan; while the event list takes them, nothing else stops it.\<close>

lemma add_events_log: "add_events es a = Some a' \<Longrightarrow> map ev_kind (ag_log a') = map ev_kind (ag_log a @ es) \<and> ag_vms a' = ag_vms a"
  by (induction es arbitrary: a) (auto simp: add_event_def split: option.splits)

lemma trackVMs_log:
  assumes "trackVMs now scan a = Some a'"
  shows "map ev_kind (ag_log a') = map ev_kind (ag_log a @ snd (track_step now (ag_firstScan a) scan (ag_vms a))) \<and>
    ag_vms a' = fst (track_step now (ag_firstScan a) scan (ag_vms a)) \<and> \<not> ag_firstScan a'"
  using assms add_events_log by (fastforce simp: trackVMs_def Let_def split: prod.splits)

end
