(* ===== verification/TapSync.thy ===== *)
theory TapSync
  imports Tap
begin

text \<open>
  The life of the tap program on a host, \<open>internal/bpfgen/tap.go\<close>: loading it (\<open>loadTapLocked\<close>), making the
  set of tapped interfaces follow the scan (\<open>SyncTaps\<close>), adopting what a previous process pinned, and what
  stays when the daemon stops or dies.

  A TCX link is known by the file it is pinned under, and what matters of it is the interface it is on:
  \<open>th_pins\<close> maps file names below the pin directory to interface indexes, \<open>0\<close> being a link whose interface is
  gone. \<open>th_ifs\<close> is what \<open>net.InterfaceByName\<close> answers. Every operation on a link or a pin may fail:
  \<open>th_faults\<close> lists the outcomes to come, as \<open>km_faults\<close> does for the maps. Reading the policy map back does not
  fail. A link that is neither pinned nor held by a process is gone.
\<close>

section \<open>Links and pins\<close>

record tap_host =
  th_mgr :: tapMgr
  th_loaded :: bool
  th_lastErr :: string
  th_pins :: "(string, u32) gomap"
  th_ifs :: "(string, u32) gomap"
  th_faults :: "bool list"

definition linkPin :: "string \<Rightarrow> string \<Rightarrow> string" where
  "linkPin name dir = ''link-'' @ name @ ''-'' @ dir"

definition slashed :: "string \<Rightarrow> bool" where
  "slashed name \<longleftrightarrow> CHR ''/'' \<in> set name"

text \<open>One operation on a link: whether it succeeds.\<close>

definition link_try :: "tap_host \<Rightarrow> tap_host \<times> bool" where
  "link_try h = (case th_faults h of [] \<Rightarrow> (h, True) | f # fs \<Rightarrow> (h\<lparr>th_faults := fs\<rparr>, \<not> f))"

text \<open>A run of steps, each with what it checks; it stops at the first that fails.\<close>

fun link_steps :: "bool list \<Rightarrow> tap_host \<Rightarrow> tap_host \<times> bool" where
  "link_steps [] h = (h, True)"
| "link_steps (c # cs) h = (let (h, ok) = link_try h in if ok \<and> c then link_steps cs h else (h, False))"

definition load_pin :: "string \<Rightarrow> tap_host \<Rightarrow> tap_host \<times> u32 option" where
  "load_pin file h = (let (h, ok) = link_try h in (h, if ok then map_of (th_pins h) file else None))"

definition unpin_file :: "string \<Rightarrow> tap_host \<Rightarrow> tap_host" where
  "unpin_file file h = (let (h, ok) = link_try h in if ok then h\<lparr>th_pins := AList.delete file (th_pins h)\<rparr> else h)"

text \<open>Pinning fails when the file is there already.\<close>

definition pin_file :: "string \<Rightarrow> u32 \<Rightarrow> tap_host \<Rightarrow> tap_host \<times> bool" where
  "pin_file file ifindex h =
     (let (h, ok) = link_try h
      in if ok \<and> map_of (th_pins h) file = None then (h\<lparr>th_pins := AList.update file ifindex (th_pins h)\<rparr>, True)
         else (h, False))"

definition pins_links :: "string \<Rightarrow> tap_host \<Rightarrow> bool" where
  "pins_links name h \<longleftrightarrow> tm_pinned (th_mgr h) \<and> \<not> slashed name"

definition unpin_tap :: "string \<Rightarrow> tap_host \<Rightarrow> tap_host" where
  "unpin_tap name h =
     (if pins_links name h then unpin_file (linkPin name ''out'') (unpin_file (linkPin name ''in'') h) else h)"

section \<open>Loading\<close>

text \<open>What making the collection gives: it loads, its pinned maps are from another version, or it fails.\<close>

datatype load_outcome = Loads | MapsDiffer | LoadFails string

record load_env =
  le_spec :: "string option"
  le_bpffs :: bool
  le_first :: load_outcome
  le_second :: load_outcome

definition no_maps :: bpf_maps where
  "no_maps = \<lparr>km_policy = [], km_egress4 = [], km_egress6 = [], km_allow4 = [], km_allow6 = []\<rparr>"

text \<open>
  \<open>wipePins\<close>: every link that loads is unpinned and counted; any other file, a map's among them, is removed. No
  collection is loaded when it runs, so the maps go with their pins.
\<close>

fun wipe_loop :: "string list \<Rightarrow> tap_host \<Rightarrow> nat \<Rightarrow> tap_host \<times> nat" where
  "wipe_loop [] h n = (h, n)"
| "wipe_loop (f # fs) h n =
     (case (if prefix ''link-'' f then load_pin f h else (h, None)) of
        (h, Some _) \<Rightarrow> wipe_loop fs (unpin_file f h) (Suc n)
      | (h, None) \<Rightarrow> wipe_loop fs (h\<lparr>th_pins := AList.delete f (th_pins h)\<rparr>) n)"

definition wipePins :: "tap_host \<Rightarrow> tap_host \<times> nat" where
  "wipePins h =
     (let (h, n) = wipe_loop (map fst (th_pins h)) h 0
      in (h\<lparr>th_mgr := (th_mgr h)\<lparr>km_maps := no_maps, km_seen := no_maps # km_seen (th_mgr h)\<rparr>\<rparr>, n))"

definition DetachAllTaps :: "tap_host \<Rightarrow> tap_host \<times> nat" where
  "DetachAllTaps h = wipePins h"

definition set_mgr :: "(tapMgr \<Rightarrow> tapMgr) \<Rightarrow> tap_host \<Rightarrow> tap_host" where
  "set_mgr f h = h\<lparr>th_mgr := f (th_mgr h)\<rparr>"

definition load_result :: "load_outcome \<Rightarrow> string option" where
  "load_result r = (case r of
      Loads \<Rightarrow> None
    | MapsDiffer \<Rightarrow> Some ''loading the tap program: map spec is incompatible with existing map''
    | LoadFails e \<Rightarrow> Some (''loading the tap program: '' @ e))"

definition loadTapLocked :: "load_env \<Rightarrow> tap_host \<Rightarrow> tap_host" where
  "loadTapLocked e h =
     (if th_loaded h then h
      else
        (let h = set_mgr (\<lambda>m. m\<lparr>tm_taps := []\<rparr>) (h\<lparr>th_loaded := True\<rparr>)
         in case le_spec e of
              Some err \<Rightarrow> set_mgr (\<lambda>m. m\<lparr>tm_loadErr := Some err\<rparr>) h
            | None \<Rightarrow>
               (let h = set_mgr (\<lambda>m. m\<lparr>tm_pinned := le_bpffs e\<rparr>) h;
                    again = (le_first e = MapsDiffer \<and> le_bpffs e);
                    h = (if again then fst (wipePins h) else h)
                in set_mgr (\<lambda>m. m\<lparr>tm_loadErr := load_result (if again then le_second e else le_first e)\<rparr>) h)))"

text \<open>
  A process that ends, gracefully or not, without touching the taps: its handles close, so what is not pinned
  is gone. The next process starts with nothing loaded.
\<close>

definition process_ends :: "tap_host \<Rightarrow> tap_host" where
  "process_ends h =
     h\<lparr>th_loaded := False, th_lastErr := '''',
       th_mgr := (th_mgr h)\<lparr>tm_taps := [], tm_loadErr := None,
         km_maps := (if tm_pinned (th_mgr h) then km_maps (th_mgr h) else no_maps)\<rparr>\<rparr>"

section \<open>Adopting, attaching, detaching\<close>

text \<open>What \<open>adoptLocked\<close> does when it gives up: the links it did load are unpinned.\<close>

definition adopt_fail :: "string \<Rightarrow> u32 option \<Rightarrow> u32 option \<Rightarrow> tap_host \<Rightarrow> tap_host" where
  "adopt_fail name i out h =
     (let h = (if i = None then h else unpin_file (linkPin name ''in'') h)
      in if out = None then h else unpin_file (linkPin name ''out'') h)"

definition adopted :: "u32 \<Rightarrow> tapMgr \<Rightarrow> tapLinks" where
  "adopted ifindex m =
     (let p = map_of (km_policy (km_maps m)) ifindex
      in \<lparr>tl_ifindex = ifindex, tl_isolated = (case p of None \<Rightarrow> False | Some p \<Rightarrow> pol_isolated p \<noteq> 0),
          tl_egress = (case p of None \<Rightarrow> 0 | Some p \<Rightarrow> pol_egress p), tl_quarantine = False\<rparr>)"

definition adoptLocked :: "string \<Rightarrow> u32 \<Rightarrow> tap_host \<Rightarrow> tap_host \<times> bool" where
  "adoptLocked name ifindex h =
     (if \<not> pins_links name h then (h, False)
      else
        (let (h, i) = load_pin (linkPin name ''in'') h;
             (h, out) = load_pin (linkPin name ''out'') h
         in case (i, out) of
              (Some a, Some b) \<Rightarrow>
                (let (h, ok) = link_steps [a = ifindex, b = ifindex, True, True] h
                 in if ok then (set_mgr (\<lambda>m. put_tap name (adopted ifindex m) m) h, True)
                    else (adopt_fail name i out h, False))
            | _ \<Rightarrow> (adopt_fail name i out h, False)))"

definition fresh_links :: "u32 \<Rightarrow> tapLinks" where
  "fresh_links ifindex = \<lparr>tl_ifindex = ifindex, tl_isolated = False, tl_egress = 0, tl_quarantine = False\<rparr>"

text \<open>The two links of a new tap, and their pins; an error says which step failed.\<close>

definition pin_new :: "string \<Rightarrow> u32 \<Rightarrow> tap_host \<Rightarrow> tap_host \<times> string option" where
  "pin_new name ifindex h =
     (if \<not> pins_links name h then (h, None)
      else
        (let (h, ok) = pin_file (linkPin name ''in'') ifindex h
         in if \<not> ok then (h, Some ''pinning the ingress link'')
            else
              (let (h, ok) = pin_file (linkPin name ''out'') ifindex h
               in if \<not> ok then (unpin_file (linkPin name ''in'') h, Some ''pinning the egress link'') else (h, None))))"

definition attachTCXLocked :: "string \<Rightarrow> u32 \<Rightarrow> tap_host \<Rightarrow> tap_host \<times> string option" where
  "attachTCXLocked name ifindex h =
     (let (h, ok) = link_try h
      in if \<not> ok then (h, Some ''attaching the ingress program'')
         else
           (let (h, ok) = link_try h
            in if \<not> ok then (h, Some ''attaching the egress program'')
               else
                 (let (h, err) = pin_new name ifindex (h\<lparr>th_lastErr := ''''\<rparr>)
                  in if err \<noteq> None then (h, err)
                     else (set_mgr (put_tap name (fresh_links ifindex)) h, None))))"

definition attachTapLocked :: "string \<Rightarrow> u32 \<Rightarrow> tap_host \<Rightarrow> tap_host \<times> string option" where
  "attachTapLocked name ifindex h =
     (let (h, ok) = adoptLocked name ifindex h in if ok then (h, None) else attachTCXLocked name ifindex h)"

text \<open>\<open>detachTapLocked\<close> with the pins; \<open>Tap.detachTapLocked\<close> is its part on the maps.\<close>

definition detach_host :: "string \<Rightarrow> tap_host \<Rightarrow> tap_host" where
  "detach_host name h =
     (if map_of (tm_taps (th_mgr h)) name = None then h
      else set_mgr (detachTapLocked name) (unpin_tap name h))"

section \<open>Following the scan\<close>

text \<open>The tap a pinned file is for, when it is an ingress link's.\<close>

definition pin_name :: "string \<Rightarrow> string option" where
  "pin_name file =
     (if prefix ''link-'' file \<and> suffix ''-in'' file \<and> 8 \<le> length file then Some (drop 5 (take (length file - 3) file))
      else None)"

definition drop_orphan :: "string \<Rightarrow> tap_host \<Rightarrow> tap_host" where
  "drop_orphan name h =
     (let (h, i) = load_pin (linkPin name ''in'') h;
          (h, ok) = (if i = None then (h, False) else link_try h);
          ifindex = (if ok then the i else 0);
          h = (if i = None then h else unpin_file (linkPin name ''in'') h);
          (h, out) = load_pin (linkPin name ''out'') h;
          h = (if out = None then h else unpin_file (linkPin name ''out'') h)
      in if ifindex = 0 then h
         else set_mgr (\<lambda>m. clearEgressLocked ifindex (fst (bpf_do (DelPolicy ifindex) m))) h)"

fun orphan_loop :: "string list \<Rightarrow> string list \<Rightarrow> tap_host \<Rightarrow> tap_host" where
  "orphan_loop want [] h = h"
| "orphan_loop want (f # fs) h =
     (case pin_name f of
        None \<Rightarrow> orphan_loop want fs h
      | Some name \<Rightarrow>
          orphan_loop want fs
            (if name \<in> set want \<or> map_of (tm_taps (th_mgr h)) name \<noteq> None then h else drop_orphan name h))"

definition dropOrphansLocked :: "string list \<Rightarrow> tap_host \<Rightarrow> tap_host" where
  "dropOrphansLocked want h =
     (if tm_pinned (th_mgr h) then orphan_loop want (map fst (th_pins h)) h else h)"

definition outdated :: "string list \<Rightarrow> tap_host \<Rightarrow> string \<times> tapLinks \<Rightarrow> bool" where
  "outdated want h nt \<longleftrightarrow> fst nt \<notin> set want \<or> map_of (th_ifs h) (fst nt) \<noteq> Some (tl_ifindex (snd nt))"

fun detach_outdated :: "string list \<Rightarrow> (string \<times> tapLinks) list \<Rightarrow> tap_host \<Rightarrow> tap_host" where
  "detach_outdated want [] h = h"
| "detach_outdated want (nt # nts) h =
     detach_outdated want nts (if outdated want h nt then detach_host (fst nt) h else h)"

fun attach_wanted :: "string list \<Rightarrow> tap_host \<Rightarrow> tap_host \<times> (string \<times> string) list" where
  "attach_wanted [] h = (h, [])"
| "attach_wanted (n # ns) h =
     (if map_of (tm_taps (th_mgr h)) n \<noteq> None then attach_wanted ns h
      else case map_of (th_ifs h) n of
        None \<Rightarrow> attach_wanted ns h
      | Some i \<Rightarrow>
          (case attachTapLocked n i h of
             (h, None) \<Rightarrow> attach_wanted ns (h\<lparr>th_lastErr := ''''\<rparr>)
           | (h, Some err) \<Rightarrow> (let (h, errs) = attach_wanted ns (h\<lparr>th_lastErr := err\<rparr>) in (h, (n, err) # errs))))"

definition SyncTaps :: "load_env \<Rightarrow> string list \<Rightarrow> tap_host \<Rightarrow> tap_host \<times> (string + (string \<times> string) list)" where
  "SyncTaps e names h =
     (let h = loadTapLocked e h
      in case tm_loadErr (th_mgr h) of
           Some err \<Rightarrow> (h, Inl err)
         | None \<Rightarrow>
            (let h = detach_outdated names (tm_taps (th_mgr h)) h;
                 h = dropOrphansLocked names h;
                 (h, errs) = attach_wanted (remdups names) h
             in (h, Inr errs)))"

fun shutdown_host_loop :: "(string \<times> tapLinks) list \<Rightarrow> tap_host \<Rightarrow> tap_host" where
  "shutdown_host_loop [] h = h"
| "shutdown_host_loop ((name, t) # ts) h =
     shutdown_host_loop ts (if tap_kept (th_mgr h) t then h else detach_host name h)"

text \<open>The graceful stop: \<open>ShutdownTaps\<close>, and then the process ends.\<close>

definition shutdown_host :: "tap_host \<Rightarrow> tap_host" where
  "shutdown_host h = process_ends (shutdown_host_loop (tm_taps (th_mgr h)) h)"

definition TapName :: "u32 \<Rightarrow> tapMgr \<Rightarrow> string" where
  "TapName ifindex m = (case find (\<lambda>(n, t). tl_ifindex t = ifindex) (tm_taps m) of None \<Rightarrow> '''' | Some (n, t) \<Rightarrow> n)"

definition TapAttached :: "tapMgr \<Rightarrow> string list" where
  "TapAttached m = map fst (tm_taps m)"

definition TapStatus :: "load_env \<Rightarrow> tap_host \<Rightarrow> tap_host \<times> bool \<times> nat \<times> string option" where
  "TapStatus e h =
     (let h = loadTapLocked e h
      in case tm_loadErr (th_mgr h) of
           Some err \<Rightarrow> (h, False, 0, Some err)
         | None \<Rightarrow> (h, True, length (tm_taps (th_mgr h)), None))"


section \<open>When no operation on a link fails\<close>

lemma link_up [simp]:
  assumes "th_faults h = []"
  shows "link_try h = (h, True)" "load_pin f h = (h, map_of (th_pins h) f)"
    "unpin_file f h = h\<lparr>th_pins := AList.delete f (th_pins h)\<rparr>"
    "pin_file f i h = (if map_of (th_pins h) f = None then (h\<lparr>th_pins := AList.update f i (th_pins h)\<rparr>, True) else (h, False))"
  by (simp_all add: link_try_def load_pin_def unpin_file_def pin_file_def assms)

lemma link_steps_up [simp]: "th_faults h = [] \<Longrightarrow> link_steps cs h = (h, list_all id cs)"
  by (induction cs) simp_all

lemma set_mgr_frame [simp]:
  "th_pins (set_mgr f h) = th_pins h" "th_ifs (set_mgr f h) = th_ifs h" "th_faults (set_mgr f h) = th_faults h"
  "th_mgr (set_mgr f h) = f (th_mgr h)" "th_loaded (set_mgr f h) = th_loaded h"
  by (simp_all add: set_mgr_def)

lemma pins_links_frame [simp]:
  "pins_links n (h\<lparr>th_lastErr := x\<rparr>) = pins_links n h" "pins_links n (h\<lparr>th_pins := p\<rparr>) = pins_links n h"
  by (simp_all add: pins_links_def)

lemma linkPin_in_out: "linkPin a ''in'' \<noteq> linkPin b ''out''"
proof
  assume "linkPin a ''in'' = linkPin b ''out''"
  then have "last (linkPin a ''in'') = last (linkPin b ''out'')" by simp
  then show False by (simp add: linkPin_def)
qed

lemma linkPin_inj [simp]:
  "linkPin a ''in'' = linkPin b ''in'' \<longleftrightarrow> a = b" "linkPin a ''out'' = linkPin b ''out'' \<longleftrightarrow> a = b"
  "linkPin a ''in'' \<noteq> linkPin b ''out''" "linkPin a ''out'' \<noteq> linkPin b ''in''"
  using linkPin_in_out[of a b] linkPin_in_out[of b a] by (auto simp: linkPin_def)

lemma pin_name_linkPin: "pin_name (linkPin name ''in'') = Some name"
  by (simp add: pin_name_def linkPin_def suffix_def)

text \<open>A tap whose two links are pinned for the interface it is on.\<close>

definition both_pinned :: "string \<Rightarrow> u32 \<Rightarrow> tap_host \<Rightarrow> bool" where
  "both_pinned n i h \<longleftrightarrow> map_of (th_pins h) (linkPin n ''in'') = Some i \<and> map_of (th_pins h) (linkPin n ''out'') = Some i"

lemma both_pinned_frame [simp]: "both_pinned n i (h\<lparr>th_lastErr := x\<rparr>) = both_pinned n i h"
  by (simp add: both_pinned_def)

lemma adopted_ifindex [simp]: "tl_ifindex (adopted i m) = i"
  by (simp add: adopted_def Let_def)

lemma adopted_maps [simp]: "adopted i (m\<lparr>tm_taps := x\<rparr>) = adopted i m"
  by (simp add: adopted_def)

lemma adopt_both_pinned:
  assumes "th_faults h = []" "pins_links n h" "both_pinned n i h"
  shows "attachTapLocked n i h = (set_mgr (put_tap n (adopted i (th_mgr h))) h, None)"
  using assms by (simp add: attachTapLocked_def adoptLocked_def both_pinned_def set_mgr_def)

text \<open>
  What becomes of the tap \<open>n\<close> when the taps \<open>ns\<close> are wanted: one that is there stays as it is, one that is
  wanted and whose interface is there gets the program, and keeps what a previous process pinned.
\<close>

definition wanted_now :: "string list \<Rightarrow> tap_host \<Rightarrow> tap_host \<Rightarrow> string \<Rightarrow> bool" where
  "wanted_now ns h h' n \<longleftrightarrow>
     (if map_of (tm_taps (th_mgr h)) n = None \<and> n \<in> set ns \<and> map_of (th_ifs h) n \<noteq> None
      then \<exists>t. map_of (tm_taps (th_mgr h')) n = Some t \<and> map_of (th_ifs h) n = Some (tl_ifindex t) \<and>
        (pins_links n h \<and> both_pinned n (tl_ifindex t) h \<longrightarrow>
           t = adopted (tl_ifindex t) (th_mgr h) \<and> both_pinned n (tl_ifindex t) h')
      else map_of (tm_taps (th_mgr h')) n = map_of (tm_taps (th_mgr h)) n \<and> (\<forall>i. both_pinned n i h' = both_pinned n i h))"

text \<open>What a run of attachments does not touch: the interfaces and, but for the taps, the manager.\<close>

definition same_kernel :: "tap_host \<Rightarrow> tap_host \<Rightarrow> bool" where
  "same_kernel h h' \<longleftrightarrow> th_faults h' = [] \<and> th_ifs h' = th_ifs h \<and> (\<exists>taps. th_mgr h' = (th_mgr h)\<lparr>tm_taps := taps\<rparr>)"

lemma same_kernel_trans: "same_kernel h h1 \<Longrightarrow> same_kernel h1 h' \<Longrightarrow> same_kernel h h'"
  by (auto simp: same_kernel_def)

lemma same_kernel_refl: "th_faults h = [] \<Longrightarrow> same_kernel h h"
  by (auto simp: same_kernel_def intro: exI[of _ "tm_taps (th_mgr h)"])

lemma same_kernel_put: "th_faults h = [] \<Longrightarrow> same_kernel h (set_mgr (put_tap n t) (h\<lparr>th_lastErr := x, th_pins := q\<rparr>))"
  by (simp add: same_kernel_def put_tap_def) blast

lemma same_kernel_pins_links: "same_kernel h h' \<Longrightarrow> pins_links n h' = pins_links n h"
  by (auto simp: same_kernel_def pins_links_def)

lemma same_kernel_adopted: "same_kernel h h' \<Longrightarrow> adopted i (th_mgr h') = adopted i (th_mgr h)"
  by (auto simp: same_kernel_def)

lemma wanted_now_step:
  assumes "wanted_now [n] h h1 m" "wanted_now ns h1 h' m" "same_kernel h h1"
  shows "wanted_now (n # ns) h h' m"
  using assms same_kernel_pins_links[OF assms(3), of m] same_kernel_adopted[OF assms(3)]
  by (auto simp: wanted_now_def same_kernel_def split: if_splits)

lemma attach_one:
  assumes "th_faults h = []" "map_of (tm_taps (th_mgr h)) n = None" "map_of (th_ifs h) n = Some i"
  shows "\<exists>h1. attachTapLocked n i h = (h1, None) \<and> same_kernel h h1 \<and> (\<forall>m. wanted_now [n] h h1 m)"
proof (cases "pins_links n h \<and> both_pinned n i h")
  case True
  then show ?thesis using adopt_both_pinned[OF assms(1), of n i] assms same_kernel_put[OF assms(1), where q = "th_pins h" and x = "th_lastErr h" and n = n and t = "adopted i (th_mgr h)"]
    by (auto simp: wanted_now_def both_pinned_def set_mgr_def)
next
  case b: False
  let ?in = "linkPin n ''in''" and ?out = "linkPin n ''out''"
  define ps where "ps = (if \<not> pins_links n h then th_pins h
     else (let q = AList.delete ?out (AList.delete ?in (th_pins h)) in AList.update ?out i (AList.update ?in i q)))"
  have "\<exists>q. map_of q = map_of ps \<and>
    attachTapLocked n i h = (set_mgr (put_tap n (fresh_links i)) (h\<lparr>th_lastErr := '''', th_pins := q\<rparr>), None)"
  proof (cases "pins_links n h")
    case False
    then show ?thesis using assms(1)
      by (simp add: attachTapLocked_def adoptLocked_def attachTCXLocked_def pin_new_def ps_def)
         (rule exI[of _ "th_pins h"], simp)
  next
    case p: True
    show ?thesis using assms(1) p b
      by (cases "map_of (th_pins h) ?in"; cases "map_of (th_pins h) ?out")
        (simp add: attachTapLocked_def adoptLocked_def adopt_fail_def attachTCXLocked_def pin_new_def ps_def
          both_pinned_def map_of_delete map_of_update Let_def fun_eq_iff,
         rule exI, rule conjI[rotated], rule refl, simp add: map_of_update map_of_delete)+
  qed
  then obtain q where q: "map_of q = map_of ps"
    "attachTapLocked n i h = (set_mgr (put_tap n (fresh_links i)) (h\<lparr>th_lastErr := '''', th_pins := q\<rparr>), None)" by blast
  have "both_pinned a j (set_mgr (put_tap n (fresh_links i)) (h\<lparr>th_lastErr := '''', th_pins := q\<rparr>)) = both_pinned a j h" if "a \<noteq> n" for a j
    using that by (simp add: both_pinned_def q(1) ps_def map_of_delete map_of_update Let_def)
  then show ?thesis unfolding q(2) using assms same_kernel_put[OF assms(1)] b
    by (auto simp: wanted_now_def fresh_links_def)
qed

lemma attach_wanted_up:
  assumes "th_faults h = []"
  shows "\<exists>h'. attach_wanted ns h = (h', []) \<and> same_kernel h h' \<and> (\<forall>m. wanted_now ns h h' m)"
  using assms
proof (induction ns arbitrary: h)
  case Nil
  then show ?case by (simp add: same_kernel_refl wanted_now_def)
next
  case (Cons n ns)
  show ?case
  proof (cases "map_of (tm_taps (th_mgr h)) n = None \<and> map_of (th_ifs h) n \<noteq> None")
    case False
    then have skip: "attach_wanted (n # ns) h = attach_wanted ns h" by (auto split: option.split)
    have "wanted_now [n] h h m" for m using False by (auto simp: wanted_now_def)
    then show ?thesis unfolding skip using Cons.IH[OF Cons.prems] wanted_now_step[of n h h] same_kernel_refl[OF Cons.prems] by blast
  next
    case True
    then obtain i where i: "map_of (tm_taps (th_mgr h)) n = None" "map_of (th_ifs h) n = Some i" by auto
    from attach_one[OF Cons.prems i] obtain h1 where a: "attachTapLocked n i h = (h1, None)" "same_kernel h h1"
      "\<forall>m. wanted_now [n] h h1 m" by blast
    let ?h1 = "h1\<lparr>th_lastErr := ''''\<rparr>"
    have k: "same_kernel h ?h1" "\<forall>m. wanted_now [n] h ?h1 m" using a by (auto simp: same_kernel_def wanted_now_def)
    have step: "attach_wanted (n # ns) h = attach_wanted ns ?h1" using i a(1) by simp
    have "th_faults ?h1 = []" using k(1) by (simp add: same_kernel_def)
    from Cons.IH[OF this] show ?thesis unfolding step using k wanted_now_step same_kernel_trans by blast
  qed
qed


section \<open>Orphans\<close>

abbreviation view_kept :: "u32 \<Rightarrow> tapPolicyC \<times> egress4Key list \<times> egress6Key list \<Rightarrow> bpf_maps set \<Rightarrow> tapMgr \<Rightarrow> bool" where
  "view_kept i v old \<equiv> keeps (\<lambda>x. kernel_view i x = v) (\<lambda>x. x \<in> old \<or> kernel_view i x = v)"

lemma view_ops:
  assumes "\<forall>k. op \<noteq> Put4 k" "\<forall>k. op \<noteq> Put6 k" "\<forall>k. op = Del4 k \<longrightarrow> k4_ifindex k \<noteq> i" "\<forall>k. op = Del6 k \<longrightarrow> k6_ifindex k \<noteq> i"
    "\<forall>j p. op = PutPolicy j p \<or> op = DelPolicy j \<longrightarrow> j \<noteq> i"
  shows "kernel_view i (bpf_apply op maps) = kernel_view i maps"
  using assms by (cases op) (auto simp: kernel_view_def kernel_policy_def map_of_delete map_of_update removeAll_filter_other)

lemma view_kept_clear:
  assumes "view_kept i v old m" "j \<noteq> i"
  shows "view_kept i v old (clearEgressLocked j m)"
proof -
  have "view_kept i v old (bpf_each (map Del4 (filter (\<lambda>k. k4_ifindex k = j) ks)) m)" if "view_kept i v old m" for m ks
    using that assms(2) by (intro keeps_each) (auto intro: view_ops)
  moreover have "view_kept i v old (bpf_each (map Del6 (filter (\<lambda>k. k6_ifindex k = j) ks)) m)" if "view_kept i v old m" for m ks
    using that assms(2) by (intro keeps_each) (auto intro: view_ops)
  ultimately show ?thesis using assms(1) by (simp add: clearEgressLocked_def Let_def)
qed

lemma view_kept_del: "view_kept i v old m \<Longrightarrow> j \<noteq> i \<Longrightarrow> view_kept i v old (fst (bpf_do (DelPolicy j) m))"
  by (intro keeps_do) (auto simp del: bpf_apply.simps intro: view_ops)

text \<open>
  A step that leaves everything about one interface alone: the kernel's view of it at every moment, the tap's
  two pins, the taps the manager knows. \<open>v\<close> is the view and \<open>old\<close> what the maps had been before.
\<close>

definition spares :: "string \<Rightarrow> u32 \<Rightarrow> tapPolicyC \<times> egress4Key list \<times> egress6Key list \<Rightarrow> bpf_maps set \<Rightarrow> tap_host \<Rightarrow> bool" where
  "spares n i v old h \<longleftrightarrow> th_faults h = [] \<and> both_pinned n i h \<and>
     (\<forall>f. map_of (th_pins h) f = Some i \<longrightarrow> f \<in> {linkPin n ''in'', linkPin n ''out''}) \<and>
     view_kept i v old (th_mgr h)"

lemma spares_faults: "spares n i v old h \<Longrightarrow> th_faults h = []"
  by (simp add: spares_def)


lemma clearEgress_loadErr [simp]: "tm_loadErr (clearEgressLocked i m) = tm_loadErr m"
  by (auto simp: clearEgressLocked_def Let_def)

lemma drop_orphan_up:
  assumes "th_faults h = []"
  shows "\<exists>ps j. drop_orphan name h =
     (let h = h\<lparr>th_pins := ps\<rparr>
      in if j = 0 then h else set_mgr (\<lambda>m. clearEgressLocked j (fst (bpf_do (DelPolicy j) m))) h) \<and>
    (j \<noteq> 0 \<longrightarrow> map_of (th_pins h) (linkPin name ''in'') = Some j) \<and>
    map_of ps = (map_of (th_pins h))(linkPin name ''in'' := None, linkPin name ''out'' := None)"
proof -
  let ?in = "linkPin name ''in''" and ?out = "linkPin name ''out''"
  define j where "j = (case map_of (th_pins h) ?in of None \<Rightarrow> 0 | Some i \<Rightarrow> i)"
  define p1 where "p1 = (if map_of (th_pins h) ?in = None then th_pins h else AList.delete ?in (th_pins h))"
  define ps where "ps = (if map_of (th_pins h) ?out = None then p1 else AList.delete ?out p1)"
  show ?thesis
  proof (intro exI[of _ ps] exI[of _ j] conjI)
    show "drop_orphan name h = (let h = h\<lparr>th_pins := ps\<rparr>
      in if j = 0 then h else set_mgr (\<lambda>m. clearEgressLocked j (fst (bpf_do (DelPolicy j) m))) h)"
      using assms by (cases "map_of (th_pins h) ?in"; cases "map_of (th_pins h) ?out")
        (simp_all add: drop_orphan_def ps_def p1_def j_def map_of_delete Let_def)
    show "j \<noteq> 0 \<longrightarrow> map_of (th_pins h) ?in = Some j" by (simp add: j_def split: option.split)
    show "map_of ps = (map_of (th_pins h))(?in := None, ?out := None)"
      by (auto simp: ps_def p1_def map_of_delete fun_eq_iff)
  qed
qed

lemma drop_orphan_spares:
  assumes "spares n i v old h" "name \<noteq> n"
  shows "spares n i v old (drop_orphan name h)"
proof -
  obtain ps j where d: "drop_orphan name h = (let h = h\<lparr>th_pins := ps\<rparr>
      in if j = 0 then h else set_mgr (\<lambda>m. clearEgressLocked j (fst (bpf_do (DelPolicy j) m))) h)"
    "j \<noteq> 0 \<longrightarrow> map_of (th_pins h) (linkPin name ''in'') = Some j"
    "map_of ps = (map_of (th_pins h))(linkPin name ''in'' := None, linkPin name ''out'' := None)"
    using drop_orphan_up[OF spares_faults[OF assms(1)], of name] by blast
  have ne: "j \<noteq> 0 \<Longrightarrow> j \<noteq> i" using d(2) assms by (auto simp: spares_def)
  have "view_kept i v old (th_mgr h)" using assms(1) by (simp add: spares_def)
  then have "j \<noteq> 0 \<Longrightarrow> view_kept i v old (clearEgressLocked j (fst (bpf_do (DelPolicy j) (th_mgr h))))"
    using ne view_kept_clear view_kept_del by blast
  then show ?thesis using assms unfolding d(1)
    by (auto simp: spares_def both_pinned_def d(3) Let_def)
qed

lemma drop_orphan_frame:
  assumes "th_faults h = []"
  shows "th_faults (drop_orphan name h) = []" "th_ifs (drop_orphan name h) = th_ifs h"
    "tm_taps (th_mgr (drop_orphan name h)) = tm_taps (th_mgr h)" "tm_pinned (th_mgr (drop_orphan name h)) = tm_pinned (th_mgr h)"
  using drop_orphan_up[OF assms, of name] assms by (auto simp: Let_def split: if_splits)

lemma orphan_loop_frame:
  assumes "th_faults h = []"
  shows "th_faults (orphan_loop want fs h) = [] \<and> th_ifs (orphan_loop want fs h) = th_ifs h \<and>
    tm_taps (th_mgr (orphan_loop want fs h)) = tm_taps (th_mgr h) \<and> tm_pinned (th_mgr (orphan_loop want fs h)) = tm_pinned (th_mgr h)"
  using assms
proof (induction fs arbitrary: h)
  case (Cons f fs)
  show ?case using Cons.IH[OF Cons.prems] Cons.IH[OF drop_orphan_frame(1)[OF Cons.prems]] drop_orphan_frame[OF Cons.prems]
    by (simp split: option.split)
qed simp

lemma orphan_loop_spares:
  assumes "spares n i v old h" "n \<in> set want"
  shows "spares n i v old (orphan_loop want fs h)"
  using assms(1)
proof (induction fs arbitrary: h)
  case (Cons f fs)
  show ?case
  proof (cases "pin_name f")
    case (Some name)
    let ?h = "if name \<in> set want \<or> map_of (tm_taps (th_mgr h)) name \<noteq> None then h else drop_orphan name h"
    have "spares n i v old ?h" using drop_orphan_spares[OF Cons.prems] Cons.prems assms(2) by (cases "name = n") auto
    then have "spares n i v old (orphan_loop want fs ?h)" by (rule Cons.IH)
    moreover have "orphan_loop want (f # fs) h = orphan_loop want fs ?h" using Some by simp
    ultimately show ?thesis by (simp only:)
  qed (use Cons in simp)
qed simp

lemma dropOrphans_frame:
  assumes "th_faults h = []"
  shows "th_faults (dropOrphansLocked want h) = []" "th_ifs (dropOrphansLocked want h) = th_ifs h"
    "tm_taps (th_mgr (dropOrphansLocked want h)) = tm_taps (th_mgr h)"
    "tm_pinned (th_mgr (dropOrphansLocked want h)) = tm_pinned (th_mgr h)"
  using orphan_loop_frame[OF assms] assms by (simp_all add: dropOrphansLocked_def)

lemma dropOrphans_spares: "spares n i v old h \<Longrightarrow> n \<in> set want \<Longrightarrow> spares n i v old (dropOrphansLocked want h)"
  using orphan_loop_spares by (simp add: dropOrphansLocked_def)


section \<open>Stopping and starting again\<close>

lemma detach_host_up:
  assumes "th_faults h = []" "map_of (tm_taps (th_mgr h)) name = Some t"
  shows "\<exists>ps. detach_host name h = set_mgr (detachTapLocked name) (h\<lparr>th_pins := ps\<rparr>) \<and>
    (\<forall>f. f \<notin> {linkPin name ''in'', linkPin name ''out''} \<longrightarrow> map_of ps f = map_of (th_pins h) f) \<and>
    (\<forall>f j. map_of ps f = Some j \<longrightarrow> map_of (th_pins h) f = Some j)"
proof (cases "pins_links name h")
  case True
  then show ?thesis using assms
    by (intro exI[of _ "AList.delete (linkPin name ''out'') (AList.delete (linkPin name ''in'') (th_pins h))"])
      (auto simp: detach_host_def unpin_tap_def map_of_delete split: if_splits)
next
  case False
  then show ?thesis using assms by (intro exI[of _ "th_pins h"]) (simp add: detach_host_def unpin_tap_def)
qed

lemma view_kept_detach:
  assumes "view_kept i v old m" "\<And>t. map_of (tm_taps m) name = Some t \<Longrightarrow> tl_ifindex t \<noteq> i"
  shows "view_kept i v old (detachTapLocked name m)"
proof (cases "map_of (tm_taps m) name")
  case (Some t)
  then have "view_kept i v old (clearEgressLocked (tl_ifindex t) (fst (bpf_do (DelPolicy (tl_ifindex t)) m)))"
    using assms view_kept_clear view_kept_del by blast
  then show ?thesis using Some by (simp add: detachTapLocked_def Let_def keeps_def)
qed (use assms in \<open>simp add: detachTapLocked_def\<close>)

abbreviation alone :: "string \<Rightarrow> u32 \<Rightarrow> tap_host \<Rightarrow> bool" where
  "alone n i h \<equiv> \<forall>a s. map_of (tm_taps (th_mgr h)) a = Some s \<longrightarrow> a \<noteq> n \<longrightarrow> tl_ifindex s \<noteq> i"

lemma detach_host_spares:
  assumes "spares n i v old h" "alone n i h" "name \<noteq> n"
  shows "spares n i v old (detach_host name h) \<and> alone n i (detach_host name h) \<and> tm_pinned (th_mgr (detach_host name h)) = tm_pinned (th_mgr h)"
proof (cases "map_of (tm_taps (th_mgr h)) name")
  case (Some t)
  obtain ps where d: "detach_host name h = set_mgr (detachTapLocked name) (h\<lparr>th_pins := ps\<rparr>)"
    "\<And>f. f \<notin> {linkPin name ''in'', linkPin name ''out''} \<Longrightarrow> map_of ps f = map_of (th_pins h) f"
    "\<And>f j. map_of ps f = Some j \<Longrightarrow> map_of (th_pins h) f = Some j"
    using detach_host_up[OF spares_faults[OF assms(1)] Some] by blast
  have "view_kept i v old (detachTapLocked name (th_mgr h))"
    using assms by (intro view_kept_detach) (auto simp: spares_def)
  moreover have "both_pinned n i (h\<lparr>th_pins := ps\<rparr>)" using assms(1,3) by (simp add: spares_def both_pinned_def d(2))
  ultimately show ?thesis using assms unfolding d(1)
    by (auto simp: spares_def both_pinned_def detach_taps map_of_delete dest: d(3) split: if_splits)
qed (use assms in \<open>simp add: detach_host_def\<close>)

lemma shutdown_host_loop_spares:
  assumes "spares n i v old h" "alone n i h" "\<And>t. (n, t) \<in> set ts \<Longrightarrow> tap_kept (th_mgr h) t"
  shows "spares n i v old (shutdown_host_loop ts h) \<and> tm_pinned (th_mgr (shutdown_host_loop ts h)) = tm_pinned (th_mgr h)"
  using assms
proof (induction ts arbitrary: h)
  case (Cons nt ts)
  obtain name t where nt: "nt = (name, t)" by fastforce
  let ?h = "if tap_kept (th_mgr h) t then h else detach_host name h"
  have ne: "\<not> tap_kept (th_mgr h) t \<Longrightarrow> name \<noteq> n" using Cons.prems(3) nt by auto
  have h: "spares n i v old ?h" "alone n i ?h" "tm_pinned (th_mgr ?h) = tm_pinned (th_mgr h)"
    using detach_host_spares[OF Cons.prems(1,2) ne] Cons.prems(1,2) by auto
  have "spares n i v old (shutdown_host_loop ts ?h) \<and> tm_pinned (th_mgr (shutdown_host_loop ts ?h)) = tm_pinned (th_mgr ?h)"
    using Cons.prems(3) h(3) by (intro Cons.IH h(1,2)) (auto simp: tap_kept_def)
  moreover have "shutdown_host_loop (nt # ts) h = shutdown_host_loop ts ?h" by (simp add: nt)
  ultimately show ?case using h(3) by (simp only:)
qed simp

lemma process_ends_spares: "tm_pinned (th_mgr h) \<Longrightarrow> spares n i v old (process_ends h) = spares n i v old h"
  by (simp add: spares_def process_ends_def both_pinned_def keeps_def)

lemma process_ends_frame [simp]:
  "th_ifs (process_ends h) = th_ifs h" "tm_pinned (th_mgr (process_ends h)) = tm_pinned (th_mgr h)"
  "tm_taps (th_mgr (process_ends h)) = []" "\<not> th_loaded (process_ends h)"
  by (simp_all add: process_ends_def)

lemma shutdown_loop_ifs [simp]: "th_faults h = [] \<Longrightarrow>
  th_ifs (shutdown_host_loop ts h) = th_ifs h \<and> th_faults (shutdown_host_loop ts h) = []"
proof (induction ts arbitrary: h)
  case (Cons nt ts)
  have "th_ifs (detach_host n h) = th_ifs h \<and> th_faults (detach_host n h) = []" for n
    using Cons.prems by (simp add: detach_host_def unpin_tap_def)
  then show ?case using Cons by (cases nt) simp
qed simp

text \<open>The environment of a start that succeeds: the program, a bpf filesystem, maps that fit.\<close>

abbreviation loads_pinned :: "load_env \<Rightarrow> bool" where
  "loads_pinned e \<equiv> le_spec e = None \<and> le_bpffs e \<and> le_first e = Loads"

lemma load_pinned:
  assumes "loads_pinned e" "\<not> th_loaded h"
  shows "loadTapLocked e h = h\<lparr>th_loaded := True, th_mgr := (th_mgr h)\<lparr>tm_taps := [], tm_pinned := True, tm_loadErr := None\<rparr>\<rparr>"
  using assms by (simp add: loadTapLocked_def set_mgr_def load_result_def Let_def)

lemma start_adopts:
  assumes "spares n i v old h" "tm_pinned (th_mgr h)" "\<not> th_loaded h" "loads_pinned e" "map_of (th_ifs h) n = Some i"
    "n \<in> set names" "\<not> slashed n"
  shows "\<exists>h'. SyncTaps e names h = (h', Inr []) \<and> map_of (tm_taps (th_mgr h')) n = Some (adopted i (th_mgr h')) \<and>
    both_pinned n i h' \<and> view_kept i v old (th_mgr h')"
proof -
  let ?l = "loadTapLocked e h"
  have l: "?l = h\<lparr>th_loaded := True, th_mgr := (th_mgr h)\<lparr>tm_taps := [], tm_pinned := True, tm_loadErr := None\<rparr>\<rparr>"
    by (rule load_pinned[OF assms(4,3)])
  have sp: "spares n i v old ?l" using assms(1) by (simp add: l spares_def both_pinned_def keeps_def)
  let ?o = "dropOrphansLocked names ?l"
  have so: "spares n i v old ?o" using dropOrphans_spares[OF sp assms(6)] .
  note fr = dropOrphans_frame[OF spares_faults[OF sp], of names]
  obtain h' where a: "attach_wanted (remdups names) ?o = (h', [])" "same_kernel ?o h'" "wanted_now (remdups names) ?o h' n"
    using attach_wanted_up[OF fr(1)] by blast
  have "pins_links n ?o" using fr(4) assms(7) by (simp add: pins_links_def l)
  then have w: "map_of (tm_taps (th_mgr h')) n = Some (adopted i (th_mgr ?o))" "both_pinned n i h'"
    using a(3) so assms(5,6) fr(2,3) by (auto simp: wanted_now_def l spares_def)
  have "view_kept i v old (th_mgr h')" using so a(2) by (auto simp: spares_def same_kernel_def keeps_def)
  moreover have "SyncTaps e names h = (h', Inr [])" using a(1) by (simp add: SyncTaps_def Let_def l)
  ultimately show ?thesis using w same_kernel_adopted[OF a(2)] by simp
qed



text \<open>A host on which one VM, isolated, has one tap; another's is pinned, and its VM is gone.\<close>

definition web_host :: tap_host where
  "web_host = \<lparr>th_mgr = fst (SetTapIsolated ''vnet0'' True one_tap), th_loaded = True, th_lastErr = '''',
     th_pins = [(''link-vnet0-in'', 7), (''link-vnet0-out'', 7), (''link-vnet9-in'', 9), (''link-vnet9-out'', 9)],
     th_ifs = [(''vnet0'', 7)], th_faults = []\<rparr>"

definition start_env :: load_env where
  "start_env = \<lparr>le_spec = None, le_bpffs = True, le_first = Loads, le_second = Loads\<rparr>"



section \<open>Synchronising follows the scan\<close>

lemma detach_host_taps:
  assumes "th_faults h = []"
  shows "map_of (tm_taps (th_mgr (detach_host name h))) = (map_of (tm_taps (th_mgr h)))(name := None)"
    "th_faults (detach_host name h) = []" "th_ifs (detach_host name h) = th_ifs h"
  using assms by (auto simp: detach_host_def unpin_tap_def detach_taps map_of_delete fun_eq_iff)

lemma detach_outdated_up:
  assumes "th_faults h = []"
  shows "th_faults (detach_outdated want nts h) = [] \<and> th_ifs (detach_outdated want nts h) = th_ifs h \<and>
    (\<forall>n. map_of (tm_taps (th_mgr (detach_outdated want nts h))) n =
       (if \<exists>t. (n, t) \<in> set nts \<and> outdated want h (n, t) then None else map_of (tm_taps (th_mgr h)) n))"
  using assms
proof (induction nts arbitrary: h)
  case (Cons nt nts)
  let ?h = "if outdated want h nt then detach_host (fst nt) h else h"
  have u: "th_faults ?h = []" "th_ifs ?h = th_ifs h" using detach_host_taps[OF Cons.prems] Cons.prems by simp_all
  have o': "outdated want ?h x = outdated want h x" for x using u(2) by (simp add: outdated_def)
  have "map_of (tm_taps (th_mgr ?h)) n = (if outdated want h nt \<and> n = fst nt then None else map_of (tm_taps (th_mgr h)) n)" for n
    using detach_host_taps(1)[OF Cons.prems, of "fst nt"] by simp
  then show ?case using Cons.IH[OF u(1)] u(2) unfolding detach_outdated.simps o' by (cases nt) auto
qed simp

lemma wipe_loop_frame:
  "th_faults h = [] \<Longrightarrow> th_faults (fst (wipe_loop fs h n)) = [] \<and> th_ifs (fst (wipe_loop fs h n)) = th_ifs h \<and>
     tm_taps (th_mgr (fst (wipe_loop fs h n))) = tm_taps (th_mgr h)"
proof (induction fs arbitrary: h n)
  case (Cons f fs)
  have "th_faults (h\<lparr>th_pins := x\<rparr>) = []" for x using Cons.prems by simp
  from Cons.IH[OF this] Cons.prems show ?case by (cases "map_of (th_pins h) f") auto
qed simp

lemma load_frame:
  assumes "th_faults h = []"
  shows "th_faults (loadTapLocked e h) = [] \<and> th_ifs (loadTapLocked e h) = th_ifs h \<and>
    tm_taps (th_mgr (loadTapLocked e h)) = (if th_loaded h then tm_taps (th_mgr h) else [])"
proof -
  have w: "th_faults (fst (wipePins k)) = [] \<and> th_ifs (fst (wipePins k)) = th_ifs k \<and> tm_taps (th_mgr (fst (wipePins k))) = tm_taps (th_mgr k)"
    if "th_faults k = []" for k
    using wipe_loop_frame[OF that, of "map fst (th_pins k)" 0] by (simp add: wipePins_def split_beta)
  show ?thesis using assms by (auto simp: loadTapLocked_def Let_def w split: option.split)
qed

lemma SyncTaps_spec:
  assumes "th_faults h = []" "distinct (map fst (tm_taps (th_mgr h)))" "tm_loadErr (th_mgr (loadTapLocked e h)) = None"
  shows "\<exists>h'. SyncTaps e names h = (h', Inr []) \<and> th_ifs h' = th_ifs h \<and>
    (\<forall>n. case map_of (tm_taps (th_mgr h')) n of
        None \<Rightarrow> n \<notin> set names \<or> map_of (th_ifs h) n = None
      | Some t \<Rightarrow> n \<in> set names \<and> map_of (th_ifs h) n = Some (tl_ifindex t)) \<and>
    (th_loaded h \<longrightarrow> (\<forall>n t. map_of (tm_taps (th_mgr h)) n = Some t \<longrightarrow> n \<in> set names \<longrightarrow>
       map_of (th_ifs h) n = Some (tl_ifindex t) \<longrightarrow> map_of (tm_taps (th_mgr h')) n = Some t))"
proof -
  let ?l = "loadTapLocked e h"
  have l: "th_faults ?l = []" "th_ifs ?l = th_ifs h" "tm_taps (th_mgr ?l) = (if th_loaded h then tm_taps (th_mgr h) else [])"
    using load_frame[OF assms(1), of e] by simp_all
  let ?d = "detach_outdated names (tm_taps (th_mgr ?l)) ?l"
  have d: "th_faults ?d = []" "th_ifs ?d = th_ifs h" "\<And>n. map_of (tm_taps (th_mgr ?d)) n =
      (if \<exists>t. (n, t) \<in> set (tm_taps (th_mgr ?l)) \<and> outdated names ?l (n, t) then None else map_of (tm_taps (th_mgr ?l)) n)"
    using detach_outdated_up[OF l(1), of names "tm_taps (th_mgr ?l)"] l(2) by simp_all
  have dis: "(n, t) \<in> set (tm_taps (th_mgr ?l)) \<longleftrightarrow> map_of (tm_taps (th_mgr ?l)) n = Some t" for n t
    using assms(2) l(3) by simp
  have d': "map_of (tm_taps (th_mgr ?d)) n = (case map_of (tm_taps (th_mgr ?l)) n of None \<Rightarrow> None
      | Some t \<Rightarrow> if n \<in> set names \<and> map_of (th_ifs h) n = Some (tl_ifindex t) then Some t else None)" for n
    unfolding d(3) dis by (auto simp: outdated_def l(2) split: option.split)
  let ?o = "dropOrphansLocked names ?d"
  note o' = dropOrphans_frame[OF d(1), of names]
  obtain h' where a: "attach_wanted (remdups names) ?o = (h', [])" "same_kernel ?o h'" "\<And>n. wanted_now (remdups names) ?o h' n"
    using attach_wanted_up[OF o'(1)] by blast
  have w: "map_of (tm_taps (th_mgr h')) n = map_of (tm_taps (th_mgr ?d)) n \<or>
      map_of (tm_taps (th_mgr ?d)) n = None \<and> (\<exists>t. n \<in> set names \<and> map_of (tm_taps (th_mgr h')) n = Some t \<and> map_of (th_ifs h) n = Some (tl_ifindex t))"
    "map_of (tm_taps (th_mgr ?d)) n = None \<Longrightarrow> n \<in> set names \<Longrightarrow> map_of (th_ifs h) n \<noteq> None \<Longrightarrow> map_of (tm_taps (th_mgr h')) n \<noteq> None" for n
    using a(3)[of n] o'(2,3) d(2) by (auto simp: wanted_now_def split: if_splits)
  have "SyncTaps e names h = (h', Inr [])" using a(1) assms(3) by (simp add: SyncTaps_def Let_def)
  moreover have "th_ifs h' = th_ifs h" using a(2) o'(2) d(2) by (simp add: same_kernel_def)
  moreover have "case map_of (tm_taps (th_mgr h')) n of
        None \<Rightarrow> n \<notin> set names \<or> map_of (th_ifs h) n = None
      | Some t \<Rightarrow> n \<in> set names \<and> map_of (th_ifs h) n = Some (tl_ifindex t)" for n
    using w[of n] d'[of n] by (cases "map_of (th_ifs h) n") (auto split: option.splits if_splits)
  moreover have "map_of (tm_taps (th_mgr h')) n = Some t"
    if "th_loaded h" "map_of (tm_taps (th_mgr h)) n = Some t" "n \<in> set names" "map_of (th_ifs h) n = Some (tl_ifindex t)" for n t
    using w(1)[of n] d'[of n] that l(3) by simp
  ultimately show ?thesis by blast
qed

text \<open>
  C15. Synchronising makes the tapped interfaces exactly those of the scan that exist: when no operation on a link
  fails, afterwards a tap carries the program just when the scan names it and its interface is there, under the
  interface's present index, and a tap that already did under that index is left as it was. So an interface
  that went away, or came back under a new index, is not taken for the one that was there.
\<close>

theorem SyncTaps_follows_scan:
  assumes "th_faults h = []" "distinct (map fst (tm_taps (th_mgr h)))" "tm_loadErr (th_mgr (loadTapLocked e h)) = None"
  shows "\<exists>h'. SyncTaps e names h = (h', Inr []) \<and> th_ifs h' = th_ifs h \<and>
    (\<forall>n. case map_of (tm_taps (th_mgr h')) n of
        None \<Rightarrow> n \<notin> set names \<or> map_of (th_ifs h) n = None
      | Some t \<Rightarrow> n \<in> set names \<and> map_of (th_ifs h) n = Some (tl_ifindex t)) \<and>
    (th_loaded h \<longrightarrow> (\<forall>n t. map_of (tm_taps (th_mgr h)) n = Some t \<longrightarrow> n \<in> set names \<longrightarrow>
       map_of (th_ifs h) n = Some (tl_ifindex t) \<longrightarrow> map_of (tm_taps (th_mgr h')) n = Some t))"
  using assms by (rule SyncTaps_spec)

theorem SyncTaps_follows_scan_witness:
  "\<exists>h'. SyncTaps start_env [''vnet1'', ''vnet2''] (web_host\<lparr>th_ifs := [(''vnet0'', 7), (''vnet1'', 8)]\<rparr>) = (h', Inr []) \<and>
     map_of (tm_taps (th_mgr h')) ''vnet0'' = None \<and> map_of (tm_taps (th_mgr h')) ''vnet1'' \<noteq> None"
proof -
  let ?h = "web_host\<lparr>th_ifs := [(''vnet0'', 7), (''vnet1'', 8)]\<rparr>"
  have l: "loadTapLocked start_env ?h = ?h" by (simp add: loadTapLocked_def web_host_def)
  have "tm_taps (th_mgr ?h) = [(''vnet0'', \<lparr>tl_ifindex = 7, tl_isolated = True, tl_egress = 1, tl_quarantine = False\<rparr>)]"
    "tm_loadErr (th_mgr ?h) = None" "th_faults ?h = []" by code_simp+
  then have 1: "th_faults ?h = []" "distinct (map fst (tm_taps (th_mgr ?h)))" "tm_loadErr (th_mgr (loadTapLocked start_env ?h)) = None"
    unfolding l by simp_all
  obtain h' where h': "SyncTaps start_env [''vnet1'', ''vnet2''] ?h = (h', Inr [])" "\<And>n. case map_of (tm_taps (th_mgr h')) n of
        None \<Rightarrow> n \<notin> set [''vnet1'', ''vnet2''] \<or> map_of (th_ifs ?h) n = None
      | Some t \<Rightarrow> n \<in> set [''vnet1'', ''vnet2''] \<and> map_of (th_ifs ?h) n = Some (tl_ifindex t)"
    using SyncTaps_follows_scan[OF 1, of "[''vnet1'', ''vnet2'']"] by blast
  show ?thesis using h'(1) h'(2)[of "''vnet0''"] h'(2)[of "''vnet1''"] by (auto split: option.splits)
qed

text \<open>
  An interface index can hand isolation on after all. When an interface goes away while the daemon is down, the
  kernel leaves its pinned links on no interface (index 0), and \<open>dropOrphansLocked\<close> then has no index to clear: the
  policy stays in the map. An interface that later gets that index is attached as not isolated, and is dropped
  by the kernel.
\<close>

definition gone_host :: tap_host where
  "gone_host = (process_ends web_host)\<lparr>th_pins := [(''link-vnet0-in'', 0), (''link-vnet0-out'', 0)], th_ifs := [(''vnet5'', 7)]\<rparr>"

theorem reused_index_inherits:
  "let h = fst (SyncTaps start_env [''vnet5''] gone_host)
   in map_option tl_ifindex (map_of (tm_taps (th_mgr h)) ''vnet5'') = Some 7 \<and> TapIsolated ''vnet5'' (th_mgr h) = False \<and>
      pol_isolated (kernel_policy 7 (km_maps (th_mgr h))) = 1"
  by code_simp

end
