(* ===== verification/Refresh.thy ===== *)
theory Refresh
  imports Agent TapSync Policy
begin

text \<open>
  The refresh loop, \<open>Agent.Refresh\<close> of \<open>internal/agent/agent.go\<close> and \<open>coverage.go\<close>: one pass from the scan of the VMs
  to a kernel that enforces what is recorded. It is the composition of the agent, the tap manager with its pins, the policy
  engine and isolation, in the order the code calls them. The engine's kernel is the host's tap manager, so the
  daemon's state holds the manager once, in \<open>da_host\<close>, and \<open>engine_of\<close> lends it to the engine. What the scan found,
  the counters and the clock are arguments.
\<close>

section \<open>Which taps are covered\<close>

definition enforcingGaps :: "vm_info list \<Rightarrow> (string \<Rightarrow> string) \<Rightarrow> string list \<Rightarrow> (string \<Rightarrow> bool) \<Rightarrow> (string \<times> string) list" where
  "enforcingGaps vms mode_of attached live =
     concat (map (\<lambda>vm. if mode_of (id_name vm) \<noteq> ''enforce'' then []
       else map (\<lambda>t. (id_name vm, t)) (filter (\<lambda>t. live t \<and> t \<notin> set attached) (id_taps vm))) vms)"

definition quarantineTaps :: "vm_info list \<Rightarrow> (string \<Rightarrow> string) \<Rightarrow> (string \<Rightarrow> string \<Rightarrow> string) \<Rightarrow> string list \<Rightarrow> string list" where
  "quarantineTaps vms saved_of kernel_of attached =
     fold (\<lambda>vm. if saved_of (id_name vm) \<noteq> ''enforce'' then id
       else fold (\<lambda>t out. if t \<notin> set attached \<or> kernel_of (id_name vm) t = ''enforce'' \<or> t \<in> set out then out else out @ [t])
         (id_taps vm)) vms []"

definition noteSeen :: "time \<Rightarrow> (string \<Rightarrow> bool) \<Rightarrow> vm_info list \<Rightarrow> Agent \<Rightarrow> Agent" where
  "noteSeen now live vms a = a\<lparr>ag_seen := fold (\<lambda>t seen.
     if map_of (ag_covered a) t = Some True \<or> map_of seen t \<noteq> None \<or> \<not> live t then seen
     else AList.update t now seen) (concat (map id_taps vms)) (ag_seen a)\<rparr>"

text \<open>One tap of \<open>recordAttach\<close>; \<open>ready\<close> says whether it carries the program, enforcing if it is to.\<close>

definition record_tap :: "time \<Rightarrow> (string \<Rightarrow> bool) \<Rightarrow> (string \<Rightarrow> string \<Rightarrow> bool) \<Rightarrow> string \<Rightarrow> string \<Rightarrow> Agent \<Rightarrow> Agent" where
  "record_tap now live ready vm t a =
     (if \<not> ready vm t then
        (if map_of (ag_covered a) t = Some True
         then a\<lparr>ag_covered := AList.update t False (ag_covered a),
                ag_seen := (if live t then AList.update t now (ag_seen a) else ag_seen a)\<rparr>
         else a)
      else
        (let a = (case map_of (ag_seen a) t of
               None \<Rightarrow> a
             | Some start \<Rightarrow> a\<lparr>ag_state := NoteTapAttach vm (time_sub now start) (ag_state a), ag_seen := AList.delete t (ag_seen a)\<rparr>)
         in a\<lparr>ag_covered := AList.update t True (ag_covered a)\<rparr>))"

definition recordAttach :: "time \<Rightarrow> (string \<Rightarrow> bool) \<Rightarrow> (string \<Rightarrow> string \<Rightarrow> bool) \<Rightarrow> vm_info list \<Rightarrow> Agent \<Rightarrow> Agent" where
  "recordAttach now live ready vms a = fold (\<lambda>vm. fold (record_tap now live ready (id_name vm)) (id_taps vm)) vms a"

definition gap_alert :: "time \<Rightarrow> vm_info list \<Rightarrow> string \<times> string \<Rightarrow> string \<times> event" where
  "gap_alert now vms g =
     (let vm = vm_named (rev vms) (fst g)
      in (''tap-uncovered|'' @ fst g @ ''|'' @ snd g,
          zero_event\<lparr>ev_kind := KindDetection, ev_ts := now, ev_tgid := PID32 (id_pid vm), ev_vm := vm_of vm, ev_iface := snd g,
            ev_rule := ''tap-uncovered'', ev_severity := ''high'',
            ev_message := fst g @ '' has '' @ snd g @ '' up and its enforcing policy is not on that tap''\<rparr>))"

section \<open>Whom the programs watch\<close>

definition watched_tgids :: "vm_info list \<Rightarrow> u32 list" where
  "watched_tgids vms = filter (\<lambda>i. i \<noteq> 0) (map (\<lambda>vm. PID32 (id_pid vm)) vms)"

definition thread_refs :: "vm_info list \<Rightarrow> (u32, string \<times> string) gomap" where
  "thread_refs vms = fold (\<lambda>vm refs.
     fold (\<lambda>tid refs. let i = PID32 tid in if i = 0 \<or> map_of refs i \<noteq> None then refs else AList.update i (id_name vm, ''unknown'') refs)
       (id_threads vm)
       (fold (\<lambda>t refs. let i = PID32 (th_tid t) in if i = 0 then refs else AList.update i (id_name vm, th_role t) refs)
         (id_thread_info vm) refs)) vms []"

section \<open>The pass\<close>

record daemon =
  da_agent :: Agent
  da_host :: tap_host
  da_engine :: "(tapMgr, policy_file) Engine"
  da_enforcer :: "Enforcer option"
  da_quarantine :: bool
  da_watched :: "u32 list"
  da_threads :: "(u32, string \<times> string) gomap"

text \<open>What one pass is given: the clock, the scan, the outcome of loading, the programs' states and the counters.\<close>

record refresh_in =
  ri_now :: time
  ri_scan :: "vm_info list option"
  ri_load :: load_env
  ri_programs :: "program list"
  ri_sample :: "(u32, Counters) gomap option"
  ri_tap_totals :: "(string, TapTotals) gomap"
  ri_message :: "Fired \<Rightarrow> string"

definition world_of :: "time \<Rightarrow> daemon \<Rightarrow> world" where
  "world_of now d = \<lparr>wd_vms = st_vms (ag_state (da_agent d)), wd_now = now,
     wd_baselines = map_option (\<lambda>s. (cf_baselines (ag_cfg (da_agent d)) \<noteq> None, s)) (ag_base (da_agent d))\<rparr>"

definition engine_of :: "daemon \<Rightarrow> (tapMgr, policy_file) Engine" where
  "engine_of d = (da_engine d)\<lparr>en_kernel := th_mgr (da_host d)\<rparr>"

abbreviation deps_of :: "daemon \<Rightarrow> (tapMgr, policy_file) Engine_deps" where
  "deps_of d \<equiv> daemon_deps (da_enforcer d)"

definition savedMode :: "time \<Rightarrow> daemon \<Rightarrow> string \<Rightarrow> string" where
  "savedMode now d vm = (case policy_Get (deps_of d) (world_of now d) vm (engine_of d) of None \<Rightarrow> '''' | Some r \<Rightarrow> w_mode r)"

definition kernelMode :: "time \<Rightarrow> daemon \<Rightarrow> string \<Rightarrow> string \<Rightarrow> string" where
  "kernelMode now d vm tap = (case policy_Get (deps_of d) (world_of now d) vm (engine_of d) of
      None \<Rightarrow> ''''
    | Some r \<Rightarrow> (case find (\<lambda>t. pt_tap t = tap) (w_taps r) of None \<Rightarrow> '''' | Some t \<Rightarrow> pt_kernel t))"

definition linkUp :: "daemon \<Rightarrow> string \<Rightarrow> bool" where
  "linkUp d name \<longleftrightarrow> map_of (th_ifs (da_host d)) name \<noteq> None"

definition attachedSet :: "daemon \<Rightarrow> string list" where
  "attachedSet d = TapAttached (th_mgr (da_host d))"

definition on_mgr :: "(tapMgr \<Rightarrow> tapMgr) \<Rightarrow> daemon \<Rightarrow> daemon" where
  "on_mgr f d = d\<lparr>da_host := set_mgr f (da_host d)\<rparr>"

definition holdUncovered :: "time \<Rightarrow> vm_info list \<Rightarrow> daemon \<Rightarrow> daemon" where
  "holdUncovered now vms d =
     on_mgr (fold (\<lambda>t m. fst (SetTapQuarantine t True m)) (quarantineTaps vms (savedMode now d) (kernelMode now d) (attachedSet d))) d"

text \<open>\<open>AfterTaps\<close> is the policy engine's pass; what it announces is stored as detections.\<close>

definition announced :: "time \<Rightarrow> announcement \<Rightarrow> event" where
  "announced now x = zero_event\<lparr>ev_kind := KindDetection, ev_ts := now, ev_vm := an_vm x, ev_rule := an_rule x,
     ev_severity := an_severity x, ev_message := an_message x\<rparr>"

definition afterTaps :: "time \<Rightarrow> daemon \<Rightarrow> daemon option" where
  "afterTaps now d =
     (let (e, as) = Reconcile (deps_of d) (world_of now d) (engine_of d);
          d = d\<lparr>da_engine := e, da_host := set_mgr (\<lambda>_. en_kernel e) (da_host d)\<rparr>
      in map_option (\<lambda>a. d\<lparr>da_agent := a\<rparr>) (add_events (map (announced now) as) (da_agent d)))"

definition reportUncovered :: "time \<Rightarrow> vm_info list \<Rightarrow> daemon \<Rightarrow> daemon option" where
  "reportUncovered now vms d =
     map_option (\<lambda>a. d\<lparr>da_agent := a\<rparr>)
       (raise_all now (ag_cfg (da_agent d))
         (map (gap_alert now vms) (enforcingGaps vms (savedMode now d) (attachedSet d) (linkUp d))) (da_agent d))"

definition tap_ready :: "time \<Rightarrow> daemon \<Rightarrow> string \<Rightarrow> string \<Rightarrow> bool" where
  "tap_ready now d vm t \<longleftrightarrow> t \<in> set (attachedSet d) \<and> \<not> (savedMode now d vm = ''enforce'' \<and> kernelMode now d vm t \<noteq> ''enforce'')"

definition reapply :: "daemon \<Rightarrow> daemon" where
  "reapply d = on_mgr (\<lambda>m. fst (ReapplyIsolations (map_option tap_enforcer_if (da_enforcer d)) (ag_state (da_agent d)) m)) d"

text \<open>The first half of the pass, up to the taps; the second, from the policies on.\<close>

definition refresh_taps :: "refresh_in \<Rightarrow> vm_info list \<Rightarrow> daemon \<Rightarrow> daemon" where
  "refresh_taps i vms d =
     (let d = d\<lparr>da_watched := watched_tgids vms, da_threads := thread_refs vms,
              da_agent := noteSeen (ri_now i) (linkUp d) vms (da_agent d),
              da_host := fst (SyncTaps (ri_load i) (concat (map id_taps vms)) (da_host d))\<rparr>
      in if da_quarantine d then holdUncovered (ri_now i) vms d else d)"

definition refresh_policies :: "refresh_in \<Rightarrow> vm_info list \<Rightarrow> daemon \<Rightarrow> daemon option" where
  "refresh_policies i vms d = Option.bind (afterTaps (ri_now i) d) (reportUncovered (ri_now i) vms)"

definition refresh_rest :: "refresh_in \<Rightarrow> vm_info list \<Rightarrow> daemon \<Rightarrow> daemon option" where
  "refresh_rest i vms d =
     (let d = d\<lparr>da_agent := recordAttach (ri_now i) (linkUp d) (tap_ready (ri_now i) d) vms (da_agent d)\<rparr>;
          d = reapply d;
          a = (da_agent d)\<lparr>ag_state := SetPrograms (ri_programs i) (ag_state (da_agent d))\<rparr>
      in case ri_sample i of
           None \<Rightarrow> Some (d\<lparr>da_agent := a\<rparr>)
         | Some c \<Rightarrow> map_option (\<lambda>a. d\<lparr>da_agent := a\<rparr>) (evaluate (ri_message i) (ri_now i) vms c (ri_tap_totals i) a))"

definition Refresh :: "refresh_in \<Rightarrow> daemon \<Rightarrow> daemon option" where
  "Refresh i d = (case ri_scan i of
      None \<Rightarrow> Some d
    | Some vms \<Rightarrow>
        (let a = (da_agent d)\<lparr>ag_state := SetVMs vms (ag_state (da_agent d))\<rparr>
         in case trackVMs (ri_now i) vms a of
              None \<Rightarrow> None
            | Some a \<Rightarrow>
                Option.bind (refresh_policies i vms (refresh_taps i vms (d\<lparr>da_agent := a\<rparr>))) (refresh_rest i vms)))"


section \<open>What the pass leaves alone\<close>

text \<open>What adding events and raising alerts keeps of the state, besides adding to the log.\<close>

abbreviation frame :: "Agent \<Rightarrow> vm_info list \<times> Isolation list" where
  "frame a \<equiv> (st_vms (ag_state a), st_isolations (ag_state a))"

lemma AddEvent_keeps_scan: "AddEvent e s = Some (s', d) \<Longrightarrow> st_vms s' = st_vms s \<and> st_isolations s' = st_isolations s"
  by (auto simp: AddEvent_def add_detection_def count_connect_def Let_def split: option.splits if_splits)

lemma add_event_frame: "add_event e a = Some a' \<Longrightarrow> frame a' = frame a \<and> ag_sup a' = ag_sup a \<and> (\<exists>new. ag_log a' = ag_log a @ new)"
  by (auto simp: add_event_def AddEvent_keeps_scan split: option.splits)

lemma add_events_frame: "add_events es a = Some a' \<Longrightarrow> frame a' = frame a \<and> ag_sup a' = ag_sup a \<and> (\<exists>new. ag_log a' = ag_log a @ new)"
proof (induction es arbitrary: a)
  case (Cons e es)
  then obtain b where b: "add_event e a = Some b" "add_events es b = Some a'" by (auto split: option.splits)
  show ?case using add_event_frame[OF b(1)] Cons.IH[OF b(2)] by auto
qed simp

lemma raise_frame:
  assumes "raise now cfg x a = Some a'"
  shows "frame a' = frame a \<and> (\<exists>new. ag_log a' = ag_log a @ new)"
proof -
  obtain sup ok held where al: "Allow (fst x) now (cf_suppress cfg) (ag_sup a) = (sup, ok, held)" by (metis prod.exhaust)
  show ?thesis
  proof (cases ok)
    case True
    then have "add_event (Normalize (held_note held (snd x))) (a\<lparr>ag_sup := sup\<rparr>) = Some a'" using assms al by (simp add: raise_def)
    from add_event_frame[OF this] show ?thesis by simp
  next
    case False
    then show ?thesis using assms al by (auto simp: raise_def AddSuppressed_def)
  qed
qed

lemma raise_all_frame: "raise_all now cfg xs a = Some a' \<Longrightarrow> frame a' = frame a \<and> (\<exists>new. ag_log a' = ag_log a @ new)"
proof (induction xs arbitrary: a)
  case (Cons x xs)
  then obtain b where b: "raise now cfg x a = Some b" "raise_all now cfg xs b = Some a'" by (auto split: option.splits)
  show ?case using raise_frame[OF b(1)] Cons.IH[OF b(2)] by auto
qed simp

lemma trackVMs_frame:
  assumes "trackVMs now scan a = Some a'"
  shows "frame a' = frame a \<and> ag_sup a' = ag_sup a \<and> (\<exists>new. ag_log a' = ag_log a @ new)"
proof -
  obtain vms es where s: "track_step now (ag_firstScan a) scan (ag_vms a) = (vms, es)" by fastforce
  obtain b where b: "add_events es (a\<lparr>ag_vms := vms\<rparr>) = Some b" "a' = b\<lparr>ag_firstScan := False\<rparr>"
    using assms s by (auto simp: trackVMs_def)
  show ?thesis using add_events_frame[OF b(1)] b(2) by simp
qed

lemma recordAttach_frame:
  "frame (recordAttach now live ready vms a) = frame a \<and> ag_log (recordAttach now live ready vms a) = ag_log a \<and>
   st_events (ag_state (recordAttach now live ready vms a)) = st_events (ag_state a)"
proof -
  let ?same = "\<lambda>b a. frame b = frame a \<and> ag_log b = ag_log a \<and> st_events (ag_state b) = st_events (ag_state a)"
  have t: "?same (record_tap now live ready vm t a) a" for vm t a
    by (simp add: record_tap_def NoteTapAttach_def Let_def split: option.split)
  have ts: "?same (fold (record_tap now live ready vm) ts a) a" for vm ts a
    by (induction ts arbitrary: a) (simp_all add: t)
  show ?thesis unfolding recordAttach_def by (induction vms arbitrary: a) (simp_all add: ts)
qed

section \<open>The kernel through the pass\<close>

text \<open>A manager whose maps take their updates and which has the egress maps.\<close>

definition mgr_fine :: "tapMgr \<Rightarrow> bool" where
  "mgr_fine m \<longleftrightarrow> no_faults m \<and> tm_egress_maps m"

lemma mgr_fine_each: "mgr_fine m \<Longrightarrow> mgr_fine (bpf_each ops m)"
  by (simp add: mgr_fine_def bpf_each_no_fault)

lemma mgr_fine_do: "mgr_fine m \<Longrightarrow> mgr_fine (fst (bpf_do op m))"
  using bpf_do_no_fault[of m op] by (auto simp: mgr_fine_def)

lemma mgr_fine_clear: "mgr_fine m \<Longrightarrow> mgr_fine (clearEgressLocked i m)"
  by (simp add: clearEgressLocked_def Let_def mgr_fine_each)

lemma mgr_fine_taps [simp]: "mgr_fine (m\<lparr>tm_taps := x\<rparr>) = mgr_fine m" "mgr_fine (put_tap n t m) = mgr_fine m"
  "mgr_fine (m\<lparr>tm_loadErr := y\<rparr>) = mgr_fine m" "mgr_fine (m\<lparr>tm_pinned := z\<rparr>) = mgr_fine m"
  "mgr_fine (m\<lparr>km_maps := q, km_seen := r\<rparr>) = mgr_fine m"
  by (simp_all add: mgr_fine_def put_tap_def)

lemma put_tap_loadErr [simp]: "tm_loadErr (put_tap n t m) = tm_loadErr m"
  by (simp add: put_tap_def)

lemma detach_loadErr [simp]: "tm_loadErr (detachTapLocked n m) = tm_loadErr m"
  by (simp add: detachTapLocked_def Let_def split: option.split)

lemma mgr_fine_detach: "mgr_fine m \<Longrightarrow> mgr_fine (detachTapLocked n m)"
  by (simp add: detachTapLocked_def Let_def mgr_fine_clear mgr_fine_do split: option.split)

lemma link_try_mgr [simp]: "th_mgr (fst (link_try h)) = th_mgr h" "th_ifs (fst (link_try h)) = th_ifs h"
  by (simp_all add: link_try_def split: list.split)

lemma pin_ops_mgr [simp]:
  "th_mgr (fst (load_pin f h)) = th_mgr h" "th_mgr (unpin_file f h) = th_mgr h" "th_mgr (fst (pin_file f i h)) = th_mgr h"
  "th_ifs (fst (load_pin f h)) = th_ifs h" "th_ifs (unpin_file f h) = th_ifs h" "th_ifs (fst (pin_file f i h)) = th_ifs h"
  by (simp_all add: load_pin_def unpin_file_def pin_file_def split_beta)

lemma link_steps_mgr [simp]: "th_mgr (fst (link_steps cs h)) = th_mgr h" "th_ifs (fst (link_steps cs h)) = th_ifs h"
  by (induction cs arbitrary: h) (simp_all add: split_beta)

lemma unpin_tap_mgr [simp]: "th_mgr (unpin_tap n h) = th_mgr h" "th_ifs (unpin_tap n h) = th_ifs h"
  by (simp_all add: unpin_tap_def)

lemma adopt_fail_mgr [simp]: "th_mgr (adopt_fail n i out h) = th_mgr h" "th_ifs (adopt_fail n i out h) = th_ifs h"
  by (simp_all add: adopt_fail_def Let_def)

lemma pin_new_mgr [simp]: "th_mgr (fst (pin_new n i h)) = th_mgr h" "th_ifs (fst (pin_new n i h)) = th_ifs h"
  by (simp_all add: pin_new_def split_beta)

text \<open>
  A step of the host: the interfaces are what they were, a fine manager stays fine, and what loading gave is what
  it gave.
\<close>

definition fine_step :: "tap_host \<Rightarrow> tap_host \<Rightarrow> bool" where
  "fine_step h h' \<longleftrightarrow> th_ifs h' = th_ifs h \<and> tm_loadErr (th_mgr h') = tm_loadErr (th_mgr h) \<and>
     (mgr_fine (th_mgr h) \<longrightarrow> mgr_fine (th_mgr h'))"

lemma fine_step_refl: "fine_step h h" by (simp add: fine_step_def)

lemma fine_step_trans: "fine_step h h1 \<Longrightarrow> fine_step h1 h' \<Longrightarrow> fine_step h h'" by (simp add: fine_step_def)

lemma fine_adopt: "fine_step h (fst (adoptLocked n i h))"
  by (auto simp: fine_step_def adoptLocked_def split_beta Let_def split: option.split)

lemma fine_attach: "fine_step h (fst (attachTapLocked n i h))"
proof -
  have "fine_step k (fst (attachTCXLocked n i k))" for k
    by (simp add: fine_step_def attachTCXLocked_def split_beta Let_def)
  then show ?thesis using fine_adopt[of h n i] fine_step_trans by (auto simp: attachTapLocked_def split_beta)
qed

lemma fine_detach: "fine_step h (detach_host n h)"
  by (simp add: fine_step_def detach_host_def mgr_fine_detach)

lemma fine_orphan: "fine_step h (drop_orphan n h)"
  by (auto simp: fine_step_def drop_orphan_def split_beta Let_def mgr_fine_clear mgr_fine_do)


lemma fine_wipe: "fine_step h (fst (wipePins h))"
proof -
  have "th_ifs (fst (wipe_loop fs h n)) = th_ifs h \<and> th_mgr (fst (wipe_loop fs h n)) = th_mgr h" for fs h n
  proof (induction fs arbitrary: h n)
    case (Cons f fs)
    obtain k i where k: "(if prefix ''link-'' f then load_pin f h else (h, None)) = (k, i)" by fastforce
    then have "th_ifs k = th_ifs h \<and> th_mgr k = th_mgr h" by (auto simp: load_pin_def split_beta split: if_splits)
    then show ?case using Cons k by (simp split: option.split)
  qed simp
  then show ?thesis by (simp add: fine_step_def wipePins_def split_beta)
qed

lemma fine_load: "th_ifs (loadTapLocked e h) = th_ifs h" "mgr_fine (th_mgr h) \<Longrightarrow> mgr_fine (th_mgr (loadTapLocked e h))"
  using fine_wipe by (auto simp: fine_step_def loadTapLocked_def Let_def split: option.split)

lemma fine_outdated: "fine_step h (detach_outdated want nts h)"
proof (induction nts arbitrary: h)
  case (Cons nt nts)
  have "fine_step h (if outdated want h nt then detach_host (fst nt) h else h)" by (simp add: fine_detach fine_step_refl)
  from fine_step_trans[OF this Cons] show ?case by simp
qed (simp add: fine_step_refl)

lemma fine_orphans: "fine_step h (orphan_loop want fs h)"
proof (induction fs arbitrary: h)
  case (Cons f fs)
  show ?case
  proof (cases "pin_name f")
    case (Some name)
    have "fine_step h (if name \<in> set want \<or> map_of (tm_taps (th_mgr h)) name \<noteq> None then h else drop_orphan name h)"
      by (simp add: fine_orphan fine_step_refl)
    from fine_step_trans[OF this Cons] show ?thesis by (simp add: Some)
  qed (simp add: Cons)
qed (simp add: fine_step_refl)

lemma fine_wanted: "fine_step h (fst (attach_wanted ns h))"
proof (induction ns arbitrary: h)
  case (Cons n ns)
  show ?case
  proof (cases "map_of (tm_taps (th_mgr h)) n = None \<and> map_of (th_ifs h) n \<noteq> None")
    case True
    then obtain i where i: "map_of (tm_taps (th_mgr h)) n = None" "map_of (th_ifs h) n = Some i" by auto
    obtain h1 err where a: "attachTapLocked n i h = (h1, err)" by fastforce
    have f: "fine_step h (h1\<lparr>th_lastErr := x\<rparr>)" for x using fine_attach[of h n i] a by (simp add: fine_step_def)
    have g: "fine_step h (fst (attach_wanted ns (h1\<lparr>th_lastErr := x\<rparr>)))" for x by (rule fine_step_trans[OF f Cons])
    show ?thesis using i a g by (cases err) (simp_all add: split_beta)
  qed (use Cons in \<open>auto split: option.split\<close>)
qed (simp add: fine_step_refl)

lemma fine_SyncTaps:
  "th_ifs (fst (SyncTaps e names h)) = th_ifs h" "mgr_fine (th_mgr h) \<Longrightarrow> mgr_fine (th_mgr (fst (SyncTaps e names h)))"
  "snd (SyncTaps e names h) = Inr errs \<Longrightarrow> tm_loadErr (th_mgr (fst (SyncTaps e names h))) = None"
proof -
  let ?l = "loadTapLocked e h"
  let ?o = "dropOrphansLocked names (detach_outdated names (tm_taps (th_mgr ?l)) ?l)"
  have "fine_step k (dropOrphansLocked names k)" for k by (simp add: dropOrphansLocked_def fine_orphans fine_step_refl)
  from fine_step_trans[OF fine_outdated this] have "fine_step ?l ?o" .
  from fine_step_trans[OF this fine_wanted] have "fine_step ?l (fst (attach_wanted (remdups names) ?o))" .
  then show "th_ifs (fst (SyncTaps e names h)) = th_ifs h" "mgr_fine (th_mgr h) \<Longrightarrow> mgr_fine (th_mgr (fst (SyncTaps e names h)))"
    "snd (SyncTaps e names h) = Inr errs \<Longrightarrow> tm_loadErr (th_mgr (fst (SyncTaps e names h))) = None"
    using fine_load(1)[of e h] fine_load(2)[of h e] by (auto simp: fine_step_def SyncTaps_def Let_def split_beta split: option.splits)
qed

text \<open>A tap that is up on a loaded manager; the policy engine keeps both.\<close>

definition tap_loaded :: "string \<Rightarrow> tapMgr \<Rightarrow> bool" where
  "tap_loaded t m \<longleftrightarrow> tap_up t m \<and> tm_loadErr m = None"

lemma drop_stale_loadErr: "tm_loadErr (drop_stale i w4 w6 m) = tm_loadErr m"
  by (simp add: drop_stale_def)

lemma SetTapEgress_loadErr: "tm_loadErr (fst (SetTapEgress t mode nets m)) = tm_loadErr m"
proof -
  have b: "tm_loadErr m' = tm_loadErr k" if "bpf_do op k = (m', ok)" for op k m' ok
    using bpf_do_frame(4)[of op k] that by simp
  have a: "tm_loadErr m' = tm_loadErr k" if "bpf_all ops k = (m', ok)" for ops k m' ok
    using bpf_all_frame(4)[of ops k] that by simp
  show ?thesis
    by (auto simp: SetTapEgress_def set_egress_mode_def Let_def drop_stale_loadErr put_tap_loadErr dest!: a b split: option.split prod.split)
qed

interpretation tap_egress_loaded: egress_kernel_live SetTapEgress TapEgress tap_loaded
  by unfold_locales
    (use tap_egress_live.kup_set tap_egress_live.kup_stays SetTapEgress_loadErr in \<open>auto simp: tap_loaded_def\<close>)

interpretation tap_policy_loaded: policy_kernel_live "tap_kernel_if enf" tap_loaded for enf
  unfolding policy_kernel_live_def
  using tap_policy_kernel.policy_kernel_axioms tap_egress_loaded.egress_kernel_live_axioms
  by (simp add: tap_kernel_if_def)

lemma Reconcile_loaded: "tap_loaded t (en_kernel e) \<Longrightarrow> tap_loaded t (en_kernel (fst (Reconcile (daemon_deps enf) w e)))"
proof -
  assume l: "tap_loaded t (en_kernel e)"
  have D: "dp_kernel (daemon_deps enf) = tap_kernel_if enf" by (simp add: daemon_deps_def)
  obtain e1 as e2 where r: "revert_loop (daemon_deps enf) w (sort (map fst (en_pol e))) e = (e1, as)"
    "Reconcile (daemon_deps enf) w e = (fold (repair_vm (daemon_deps enf)) (wd_vms w) e2, as)" "en_kernel e2 = en_kernel e1"
    by (rule Reconcile_split)
  have "tap_loaded t (en_kernel e2)" using tap_policy_loaded.revert_loop_kernel(1)[OF D l] r(1,3) by (metis fst_conv)
  then show ?thesis using tap_policy_loaded.repair_vms_kernel(1)[OF D] r(2) by simp
qed

lemma tap_loaded_quarantine: "tap_loaded t m \<Longrightarrow> tap_loaded t (fst (SetTapQuarantine u True m))"
proof -
  assume "tap_loaded t m"
  then have m: "no_faults m" "tm_egress_maps m" "map_of (tm_taps m) t \<noteq> None" "tm_loadErr m = None" by (simp_all add: tap_loaded_def tap_up_def)
  show ?thesis
  proof (cases "map_of (tm_taps m) u")
    case (Some s)
    let ?m = "put_tap u (s\<lparr>tl_quarantine := True, tl_isolated := True\<rparr>) m" and ?op = "PutPolicy (tl_ifindex s) \<lparr>pol_isolated = 1, pol_egress = tl_egress s\<rparr>"
    have f: "fst (SetTapQuarantine u True m) = fst (bpf_do ?op ?m)"
      using Some by (simp add: SetTapQuarantine_def Let_def split_beta)
    have "no_faults ?m" using m(1) by (simp add: put_tap_def)
    from bpf_do_no_fault[OF this, of ?op] have "no_faults (fst (bpf_do ?op ?m))" by auto
    then show ?thesis unfolding f using m by (simp add: tap_loaded_def tap_up_def put_tap_loadErr) (simp add: put_tap_def map_of_update)
  qed (use m in \<open>simp add: SetTapQuarantine_def tap_loaded_def tap_up_def\<close>)
qed

lemma tap_loaded_hold: "tap_loaded t (th_mgr (da_host d)) \<Longrightarrow> tap_loaded t (th_mgr (da_host (holdUncovered now vms d)))"
proof -
  have "tap_loaded t m \<Longrightarrow> tap_loaded t (fold (\<lambda>t m. fst (SetTapQuarantine t True m)) ts m)" for ts m
    by (induction ts arbitrary: m) (simp_all add: tap_loaded_quarantine)
  then show "tap_loaded t (th_mgr (da_host d)) \<Longrightarrow> ?thesis" by (simp add: holdUncovered_def on_mgr_def)
qed


text \<open>Isolating changes neither the egress modes nor which taps carry the program.\<close>

lemma SetTapIsolated_keeps:
  "TapEgress u (fst (SetTapIsolated t on m)) = TapEgress u m \<and> fst ` set (tm_taps (fst (SetTapIsolated t on m))) = fst ` set (tm_taps m)"
proof -
  obtain m' err where r: "SetTapIsolated t on m = (m', err)" by fastforce
  have k: "fst ` set (AList.update t v xs) = fst ` set xs" if "map_of xs t \<noteq> None" for v and xs :: "(string \<times> tapLinks) list"
    using that by (induction xs) (auto split: if_splits)
  have "TapEgress u m' = TapEgress u m" using SetTapIsolated_cases[OF r] by (auto simp: TapEgress_def map_of_update)
  moreover have "fst ` set (tm_taps m') = fst ` set (tm_taps m)"
    using SetTapIsolated_cases[OF r] by (elim disjE exE conjE) (simp_all only: k option.distinct not_False_eq_True)
  ultimately show ?thesis using r by simp
qed

lemma enf_set_loop_keeps:
  "TapEgress u (fst (enf_set_loop ts on m d f)) = TapEgress u m \<and> fst ` set (tm_taps (fst (enf_set_loop ts on m d f))) = fst ` set (tm_taps m)"
proof (induction ts arbitrary: m d f)
  case (Cons t ts)
  obtain m' err where r: "SetTapIsolated t on m = (m', err)" by fastforce
  show ?case using Cons SetTapIsolated_keeps[of u t on m] r by (cases err) simp_all
qed simp

lemma reapply_loop_keeps:
  "TapEgress u (fst (reapply_loop (tap_enforcer_if e) active vms m)) = TapEgress u m \<and>
   fst ` set (tm_taps (fst (reapply_loop (tap_enforcer_if e) active vms m))) = fst ` set (tm_taps m)"
proof (induction vms arbitrary: m)
  case (Cons vm vms)
  have "TapEgress u (fst (ef_Isolate (tap_enforcer_if e) ts m)) = TapEgress u m \<and>
    fst ` set (tm_taps (fst (ef_Isolate (tap_enforcer_if e) ts m))) = fst ` set (tm_taps m)" for ts
    using enf_set_loop_keeps[of u ts True m "[]" "[]"] by (simp add: tap_enforcer_if_def enf_Isolate_def enf_set_def split_beta)
  then show ?case using Cons by (simp add: split_beta Let_def)
qed simp

lemma Reapply_keeps:
  "TapEgress u (fst (ReapplyIsolations (map_option tap_enforcer_if enf) s m)) = TapEgress u m \<and>
   fst ` set (tm_taps (fst (ReapplyIsolations (map_option tap_enforcer_if enf) s m))) = fst ` set (tm_taps m)"
  using reapply_loop_keeps[of u _ "ActiveIsolations s" "st_vms s" m] by (cases enf) (simp_all add: ReapplyIsolations_def)

lemma Refresh_steps:
  assumes "Refresh i d = Some d'" "ri_scan i = Some vms"
  obtains a1 d1 e2 as a2 d2 a3 where
    "trackVMs (ri_now i) vms ((da_agent d)\<lparr>ag_state := SetVMs vms (ag_state (da_agent d))\<rparr>) = Some a1"
    "d1 = refresh_taps i vms (d\<lparr>da_agent := a1\<rparr>)"
    "Reconcile (deps_of d1) (world_of (ri_now i) d1) (engine_of d1) = (e2, as)"
    "add_events (map (announced (ri_now i)) as) (da_agent d1) = Some a2"
    "d2 = d1\<lparr>da_engine := e2, da_host := set_mgr (\<lambda>_. en_kernel e2) (da_host d1), da_agent := a2\<rparr>"
    "raise_all (ri_now i) (ag_cfg a2) (map (gap_alert (ri_now i) vms)
       (enforcingGaps vms (savedMode (ri_now i) d2) (attachedSet d2) (linkUp d2))) a2 = Some a3"
    "refresh_rest i vms (d2\<lparr>da_agent := a3\<rparr>) = Some d'"
proof -
  from assms obtain a1 where a1: "trackVMs (ri_now i) vms ((da_agent d)\<lparr>ag_state := SetVMs vms (ag_state (da_agent d))\<rparr>) = Some a1"
    "Option.bind (refresh_policies i vms (refresh_taps i vms (d\<lparr>da_agent := a1\<rparr>))) (refresh_rest i vms) = Some d'"
    by (auto simp: Refresh_def Let_def split: option.splits)
  let ?d1 = "refresh_taps i vms (d\<lparr>da_agent := a1\<rparr>)"
  obtain e2 as where r: "Reconcile (deps_of ?d1) (world_of (ri_now i) ?d1) (engine_of ?d1) = (e2, as)" by fastforce
  from a1(2) r obtain a2 where a2: "add_events (map (announced (ri_now i)) as) (da_agent ?d1) = Some a2"
    by (auto simp: refresh_policies_def afterTaps_def Let_def split: bind_splits)
  let ?d2 = "?d1\<lparr>da_engine := e2, da_host := set_mgr (\<lambda>_. en_kernel e2) (da_host ?d1), da_agent := a2\<rparr>"
  have "Option.bind (reportUncovered (ri_now i) vms ?d2) (refresh_rest i vms) = Some d'"
    using a1(2) r a2 by (simp add: refresh_policies_def afterTaps_def Let_def)
  then obtain a3 where a3: "raise_all (ri_now i) (ag_cfg a2) (map (gap_alert (ri_now i) vms)
       (enforcingGaps vms (savedMode (ri_now i) ?d2) (attachedSet ?d2) (linkUp ?d2))) a2 = Some a3"
    "refresh_rest i vms (?d2\<lparr>da_agent := a3\<rparr>) = Some d'"
    by (auto simp: reportUncovered_def split: bind_splits)
  show thesis by (rule that[OF a1(1) refl r a2 refl a3])
qed

lemma refresh_rest_effect:
  assumes "refresh_rest i vms d = Some d'"
  shows "da_engine d' = da_engine d \<and> (\<exists>s. (st_vms s, st_isolations s) = frame (da_agent d) \<and>
      da_host d' = set_mgr (\<lambda>m. fst (ReapplyIsolations (map_option tap_enforcer_if (da_enforcer d)) s m)) (da_host d)) \<and>
    (\<exists>new. ag_log (da_agent d') = ag_log (da_agent d) @ new)"
proof -
  let ?a = "recordAttach (ri_now i) (linkUp d) (tap_ready (ri_now i) d) vms (da_agent d)"
  let ?d = "reapply (d\<lparr>da_agent := ?a\<rparr>)"
  let ?b = "?a\<lparr>ag_state := SetPrograms (ri_programs i) (ag_state ?a)\<rparr>"
  have b: "da_agent ?d = ?a" by (simp add: reapply_def on_mgr_def)
  obtain a' where d': "d' = ?d\<lparr>da_agent := a'\<rparr>" "\<exists>new. ag_log a' = ag_log ?b @ new"
  proof (cases "ri_sample i")
    case None
    then show thesis using assms b that[of ?b] by (simp add: refresh_rest_def Let_def)
  next
    case (Some c)
    then obtain a' where a': "evaluate (ri_message i) (ri_now i) vms c (ri_tap_totals i) ?b = Some a'" "d' = ?d\<lparr>da_agent := a'\<rparr>"
      using assms b by (auto simp: refresh_rest_def Let_def)
    obtain fired eval where "Evaluate (ri_now i) (PerVM vms c) (cf_thresholds (ag_cfg ?b)) (SetTapTotals (ri_tap_totals i) (ag_eval ?b)) = (fired, eval)"
      by fastforce
    then have "\<exists>new. ag_log a' = ag_log ?b @ new" using a'(1) raise_all_frame by (fastforce simp: evaluate_def)
    with a'(2) show thesis by (rule that)
  qed
  have h: "da_host d' = set_mgr (\<lambda>m. fst (ReapplyIsolations (map_option tap_enforcer_if (da_enforcer d)) (ag_state ?a) m)) (da_host d)"
    "da_engine d' = da_engine d" using d'(1) by (simp_all add: reapply_def on_mgr_def)
  have f: "frame ?a = frame (da_agent d)" "ag_log ?a = ag_log (da_agent d)" using recordAttach_frame by blast+
  obtain new where "ag_log a' = ag_log (da_agent d) @ new" using d'(2) f(2) by auto
  then have "ag_log (da_agent d') = ag_log (da_agent d) @ new" using d'(1) by simp
  then show ?thesis using h f(1) by blast
qed


section \<open>The pass never panics\<close>

text \<open>The event store only has to be counted right for an event to find its place.\<close>

definition es_sized :: "eventStore \<Rightarrow> bool" where
  "es_sized s \<longleftrightarrow> es_total s = length (es_all s) \<and> es_total s \<le> MaxEvents"

abbreviation store_ok :: "Agent \<Rightarrow> bool" where
  "store_ok a \<equiv> es_sized (st_events (ag_state a))"

lemma es_add_sized: "es_sized s \<Longrightarrow> \<exists>s'. es_add e s = Some s' \<and> es_sized s'"
proof (cases "es_total s < MaxEvents")
  case True
  then show "es_sized s \<Longrightarrow> ?thesis" by (simp add: es_add_def es_sized_def)
next
  case False
  assume sized: "es_sized s"
  let ?p = "es_push e s"
  have full: "es_total ?p = Suc MaxEvents" "es_total ?p = length (es_all ?p)" using False sized by (simp_all add: es_sized_def)
  from es_shed_one_over[OF this] obtain old rest where v: "es_by ?p (es_victim ?p) = old # rest"
    "es_shed ?p = Some (?p\<lparr>es_by := (es_by ?p)(es_victim ?p := rest), es_total := MaxEvents\<rparr>)" by blast
  have "length (es_all (?p\<lparr>es_by := (es_by ?p)(es_victim ?p := rest), es_total := MaxEvents\<rparr>)) = MaxEvents"
    using length_es_all_upd[where s = ?p and c = "es_victim ?p" and xs = rest and t = MaxEvents] v(1) full by (simp del: es_push_simps)
  then show ?thesis using v(2) by (simp add: es_add_def es_sized_def del: es_push_simps)
qed

lemma add_event_total: "store_ok a \<Longrightarrow> \<exists>a'. add_event e a = Some a' \<and> store_ok a'"
  using es_add_sized[of "st_events (ag_state a)" "(Normalize e)\<lparr>ev_seq := st_seq (ag_state a) + 1\<rparr>"] AddEvent_split[where e = e and s = "ag_state a"]
  by (auto simp: add_event_def)

lemma add_events_total: "store_ok a \<Longrightarrow> \<exists>a'. add_events es a = Some a' \<and> store_ok a'"
proof (induction es arbitrary: a)
  case (Cons e es)
  then obtain b where "add_event e a = Some b" "store_ok b" using add_event_total by blast
  then show ?case using Cons.IH by simp
qed simp

lemma raise_total: "store_ok a \<Longrightarrow> \<exists>a'. raise now cfg x a = Some a' \<and> store_ok a'"
proof -
  assume ok: "store_ok a"
  obtain sup go held where "Allow (fst x) now (cf_suppress cfg) (ag_sup a) = (sup, go, held)" by (metis prod.exhaust)
  then show ?thesis using ok add_event_total[of "a\<lparr>ag_sup := sup\<rparr>" "Normalize (held_note held (snd x))"]
    by (auto simp: raise_def AddSuppressed_def Let_def)
qed

lemma raise_all_total: "store_ok a \<Longrightarrow> \<exists>a'. raise_all now cfg xs a = Some a' \<and> store_ok a'"
proof (induction xs arbitrary: a)
  case (Cons x xs)
  then obtain b where "raise now cfg x a = Some b" "store_ok b" using raise_total by blast
  then show ?case using Cons.IH by simp
qed simp

lemma trackVMs_total: "store_ok a \<Longrightarrow> \<exists>a'. trackVMs now scan a = Some a' \<and> store_ok a'"
proof -
  assume ok: "store_ok a"
  obtain vms es where "track_step now (ag_firstScan a) scan (ag_vms a) = (vms, es)" by fastforce
  then show ?thesis using ok add_events_total[of "a\<lparr>ag_vms := vms\<rparr>" es] by (auto simp: trackVMs_def)
qed

lemma evaluate_total: "store_ok a \<Longrightarrow> \<exists>a'. evaluate msg now vms c taps a = Some a' \<and> store_ok a'"
proof -
  assume ok: "store_ok a"
  obtain fired ev where "Evaluate now (PerVM vms c) (cf_thresholds (ag_cfg a)) (SetTapTotals taps (ag_eval a)) = (fired, ev)" by fastforce
  then show ?thesis using ok raise_all_total[of "a\<lparr>ag_eval := ev\<rparr>"] by (simp add: evaluate_def)
qed

lemma refresh_taps_store [simp]: "store_ok (da_agent (refresh_taps i vms d)) = store_ok (da_agent d)"
  by (simp add: refresh_taps_def Let_def holdUncovered_def on_mgr_def noteSeen_def)

lemma recordAttach_store [simp]: "store_ok (recordAttach now live ready vms a) = store_ok a"
  by (simp add: recordAttach_frame)

lemma refresh_policies_total: "store_ok (da_agent d) \<Longrightarrow> \<exists>d'. refresh_policies i vms d = Some d' \<and> store_ok (da_agent d')"
proof -
  assume ok: "store_ok (da_agent d)"
  obtain e as where r: "Reconcile (deps_of d) (world_of (ri_now i) d) (engine_of d) = (e, as)" by fastforce
  obtain a where "add_events (map (announced (ri_now i)) as) (da_agent d) = Some a" "store_ok a" using add_events_total[OF ok] by blast
  then show ?thesis using r raise_all_total[of a]
    by (fastforce simp: refresh_policies_def afterTaps_def reportUncovered_def)
qed

lemma refresh_rest_total: "store_ok (da_agent d) \<Longrightarrow> \<exists>d'. refresh_rest i vms d = Some d' \<and> store_ok (da_agent d')"
proof -
  assume ok: "store_ok (da_agent d)"
  let ?d = "reapply (d\<lparr>da_agent := recordAttach (ri_now i) (linkUp d) (tap_ready (ri_now i) d) vms (da_agent d)\<rparr>)"
  let ?a = "(da_agent ?d)\<lparr>ag_state := SetPrograms (ri_programs i) (ag_state (da_agent ?d))\<rparr>"
  have "store_ok ?a" using ok by (simp add: reapply_def on_mgr_def SetPrograms_def)
  then show ?thesis using evaluate_total[of ?a]
    by (fastforce simp: refresh_rest_def Let_def split: option.split)
qed

lemma Refresh_total: "store_ok (da_agent d) \<Longrightarrow> \<exists>d'. Refresh i d = Some d' \<and> store_ok (da_agent d')"
proof (cases "ri_scan i")
  case (Some vms)
  assume ok: "store_ok (da_agent d)"
  then obtain a where a: "trackVMs (ri_now i) vms ((da_agent d)\<lparr>ag_state := SetVMs vms (ag_state (da_agent d))\<rparr>) = Some a" "store_ok a"
    using trackVMs_total[of "(da_agent d)\<lparr>ag_state := SetVMs vms (ag_state (da_agent d))\<rparr>"] by (auto simp: SetVMs_def)
  obtain d1 where "refresh_policies i vms (refresh_taps i vms (d\<lparr>da_agent := a\<rparr>)) = Some d1" "store_ok (da_agent d1)"
    using refresh_policies_total[of "refresh_taps i vms (d\<lparr>da_agent := a\<rparr>)"] a(2) by auto
  then show ?thesis using Some a(1) refresh_rest_total[of d1] by (simp add: Refresh_def)
qed (simp add: Refresh_def)


section \<open>What the pass establishes\<close>

lemma refresh_taps_frame:
  "da_engine (refresh_taps i vms d) = da_engine d" "da_enforcer (refresh_taps i vms d) = da_enforcer d"
  "ag_state (da_agent (refresh_taps i vms d)) = ag_state (da_agent d)" "ag_log (da_agent (refresh_taps i vms d)) = ag_log (da_agent d)"
  "ag_sup (da_agent (refresh_taps i vms d)) = ag_sup (da_agent d)"
  "th_ifs (da_host (refresh_taps i vms d)) = th_ifs (da_host d)"
  using fine_SyncTaps(1)[of "ri_load i" "concat (map id_taps vms)" "da_host d"]
  by (auto simp: refresh_taps_def Let_def holdUncovered_def on_mgr_def noteSeen_def)

lemma refresh_taps_loaded:
  assumes "th_faults (da_host d) = []" "mgr_fine (th_mgr (da_host d))" "distinct (map fst (tm_taps (th_mgr (da_host d))))"
    "tm_loadErr (th_mgr (loadTapLocked (ri_load i) (da_host d))) = None" "t \<in> set (concat (map id_taps vms))" "linkUp d t"
  shows "tap_loaded t (th_mgr (da_host (refresh_taps i vms d)))"
proof -
  let ?names = "concat (map id_taps vms)"
  obtain h' where h: "SyncTaps (ri_load i) ?names (da_host d) = (h', Inr [])"
    "\<And>n. case map_of (tm_taps (th_mgr h')) n of None \<Rightarrow> n \<notin> set ?names \<or> map_of (th_ifs (da_host d)) n = None
      | Some t \<Rightarrow> n \<in> set ?names \<and> map_of (th_ifs (da_host d)) n = Some (tl_ifindex t)"
    using SyncTaps_spec[OF assms(1,3,4), of ?names] by blast
  have present: "map_of (tm_taps (th_mgr h')) t \<noteq> None" using h(2)[of t] assms(5,6) by (auto simp: linkUp_def split: option.splits)
  have "mgr_fine (th_mgr h')" using fine_SyncTaps(2)[of "da_host d" "ri_load i" ?names] h(1) assms(2) by simp
  moreover have "tm_loadErr (th_mgr h') = None" using h(1) fine_SyncTaps(3)[of "ri_load i" ?names "da_host d" "[]"] by simp
  ultimately have "tap_loaded t (th_mgr h')" using present by (simp add: tap_loaded_def tap_up_def mgr_fine_def)
  then show ?thesis using h(1) by (simp add: refresh_taps_def Let_def tap_loaded_hold)
qed


lemma Refresh_enforces:
  assumes "Refresh i d = Some d'" "ri_scan i = Some vms"
    and kernel: "th_faults (da_host d) = []" "no_faults (th_mgr (da_host d))" "tm_egress_maps (th_mgr (da_host d))"
      "tm_loadErr (th_mgr (loadTapLocked (ri_load i) (da_host d))) = None" "distinct (map fst (tm_taps (th_mgr (da_host d))))"
    and scan: "distinct (concat (map id_taps vms))" "\<forall>t \<in> set (concat (map id_taps vms)). linkUp d t"
    and records: "modes_ok (da_engine d)" "distinct (map fst (en_pol (da_engine d)))"
    and vm: "find (\<lambda>v. id_name v = n) vms = Some v" "t \<in> set (id_taps v)"
  shows "t \<in> set (attachedSet d') \<and>
    (case map_of (en_pol (da_engine d')) n of
       Some p \<Rightarrow> modeOf (TapEgress t (th_mgr (da_host d'))) = p_mode p
     | None \<Rightarrow> map_of (en_pol (da_engine d)) n = None \<or> TapEgress t (th_mgr (da_host d')) = EgressOff) \<and>
    (n \<in> set (ActiveIsolations (ag_state (da_agent d))) \<and> (\<exists>e. da_enforcer d = Some e \<and> enf_allow e \<noteq> [] \<and> enf_allowErr e = None) \<longrightarrow>
       TapIsolated t (th_mgr (da_host d')))"
proof -
  from assms(1,2) obtain a1 d1 e2 as a2 d2 a3 where
    a1: "trackVMs (ri_now i) vms ((da_agent d)\<lparr>ag_state := SetVMs vms (ag_state (da_agent d))\<rparr>) = Some a1" and
    d1: "d1 = refresh_taps i vms (d\<lparr>da_agent := a1\<rparr>)" and
    e2: "Reconcile (deps_of d1) (world_of (ri_now i) d1) (engine_of d1) = (e2, as)" and
    a2: "add_events (map (announced (ri_now i)) as) (da_agent d1) = Some a2" and
    d2: "d2 = d1\<lparr>da_engine := e2, da_host := set_mgr (\<lambda>_. en_kernel e2) (da_host d1), da_agent := a2\<rparr>" and
    a3: "raise_all (ri_now i) (ag_cfg a2) (map (gap_alert (ri_now i) vms)
       (enforcingGaps vms (savedMode (ri_now i) d2) (attachedSet d2) (linkUp d2))) a2 = Some a3" and
    d': "refresh_rest i vms (d2\<lparr>da_agent := a3\<rparr>) = Some d'" by (rule Refresh_steps)
  have f1: "frame a1 = (vms, st_isolations (ag_state (da_agent d)))" using trackVMs_frame[OF a1] by (simp add: SetVMs_def)
  note rt = refresh_taps_frame[of i vms "d\<lparr>da_agent := a1\<rparr>", folded d1]
  have f3: "frame a3 = frame a1" using raise_all_frame[OF a3] add_events_frame[OF a2] rt(3) by simp
  let ?w = "world_of (ri_now i) d1"
  have w: "wd_vms ?w = vms" using rt(3) f1 by (simp add: world_of_def)
  have up: "tap_loaded u (en_kernel (engine_of d1))" if "u \<in> set (concat (map id_taps vms))" for u
  proof -
    have "linkUp d u" using scan(2) that by blast
    then have "linkUp (d\<lparr>da_agent := a1\<rparr>) u" by (simp add: linkUp_def)
    then show ?thesis using refresh_taps_loaded[of "d\<lparr>da_agent := a1\<rparr>" i u vms] kernel that
      by (simp add: d1 engine_of_def mgr_fine_def)
  qed
  have tt: "t \<in> set (concat (map id_taps vms))" using vm by (auto simp: find_Some_iff)
  have pol1: "en_pol (engine_of d1) = en_pol (da_engine d)" using rt(1) by (simp add: engine_of_def)
  have "\<forall>u \<in> set (concat (map id_taps (wd_vms ?w))). tap_up u (en_kernel (engine_of d1))" using up unfolding w by (simp add: tap_loaded_def)
  moreover have "modes_ok (engine_of d1)" using records(1) pol1 by (simp add: modes_ok_def)
  ultimately have settled: "case map_of (en_pol e2) n of
      Some p \<Rightarrow> modeOf (TapEgress t (en_kernel e2)) = p_mode p
    | None \<Rightarrow> map_of (en_pol (da_engine d)) n = None \<or> TapEgress t (en_kernel e2) = EgressOff"
    using Reconcile_settles[of ?w "engine_of d1" n v t "da_enforcer d1"] scan(1) records(2) vm unfolding w pol1 e2 fst_conv by simp
  have loaded: "tap_loaded t (en_kernel e2)" using Reconcile_loaded[OF up[OF tt], of "da_enforcer d1" ?w] e2 by simp
  obtain s where s: "(st_vms s, st_isolations s) = frame a1" "da_engine d' = e2"
    "da_host d' = set_mgr (\<lambda>m. fst (ReapplyIsolations (map_option tap_enforcer_if (da_enforcer d)) s m)) (set_mgr (\<lambda>_. en_kernel e2) (da_host d1))"
    using refresh_rest_effect[OF d'] f3 rt(2) by (auto simp: d2)
  have m: "th_mgr (da_host d') = fst (ReapplyIsolations (map_option tap_enforcer_if (da_enforcer d)) s (en_kernel e2))"
    using s(3) by simp
  have on: "t \<in> fst ` set (tm_taps (en_kernel e2))" using loaded by (auto simp: tap_loaded_def tap_up_def map_of_eq_None_iff)
  have iso: "TapIsolated t (th_mgr (da_host d'))"
    if "n \<in> set (ActiveIsolations (ag_state (da_agent d)))" "da_enforcer d = Some e" "enf_allow e \<noteq> []" "enf_allowErr e = None" for e
  proof -
    have "fst (enf_Available e (en_kernel e2))" using that loaded by (simp add: enf_Available_def tap_loaded_def)
    moreover have "ActiveIsolations s = ActiveIsolations (ag_state (da_agent d))" "st_vms s = vms"
      using s(1) f1 by (simp_all add: ActiveIsolations_def)
    moreover have "v \<in> set vms" "id_name v = n" using vm by (auto simp: find_Some_iff)
    ultimately show ?thesis unfolding m
      using reapply_restores[of "en_kernel e2" v vms "ActiveIsolations s" t e] loaded that on vm(2)
      by (simp add: ReapplyIsolations_def tap_enforcer_if_def tap_loaded_def tap_up_def)
  qed
  have "t \<in> set (attachedSet d')" using Reapply_keeps on by (simp add: attachedSet_def TapAttached_def m)
  moreover have eg: "TapEgress t (th_mgr (da_host d')) = TapEgress t (en_kernel e2)" using Reapply_keeps m by simp
  ultimately show ?thesis unfolding eg s(2) using settled iso by blast
qed




text \<open>A daemon that has just started, on a host where a VM was isolated and has an enforcing policy.\<close>

definition few_rules :: Config where
  "few_rules = \<lparr>cf_watch = [], cf_ports = [], cf_dns = [], cf_tls = [], cf_baselines = None, cf_vmm = None,
     cf_responses = [], cf_guard = \<lparr>gd_never_isolate = [], gd_max_per_hour = 0\<rparr>, cf_exec_allow = [], cf_thresholds = [],
     cf_suppress = 5 * minute\<rparr>"

definition started_daemon :: daemon where
  "started_daemon = \<lparr>da_agent = (new_agent isolated_state)\<lparr>ag_cfg := few_rules\<rparr>,
     da_host = \<lparr>th_mgr = one_tap\<lparr>tm_taps := []\<rparr>, th_loaded = False, th_lastErr = '''', th_pins = [], th_ifs = [(''vnet0'', 7)], th_faults = []\<rparr>,
     da_engine = (no_policies [])\<lparr>en_pol := [(''web'', web_policy)]\<rparr>, da_enforcer = Some web_enforcer, da_quarantine = True, da_watched = [], da_threads = []\<rparr>"

definition first_pass :: refresh_in where
  "first_pass = \<lparr>ri_now = 5, ri_scan = Some [web_vm], ri_load = start_env, ri_programs = [], ri_sample = None, ri_tap_totals = [],
     ri_message = (\<lambda>_. '''')\<rparr>"

text \<open>What the witnesses need of the start, read off the definitions.\<close>

lemma iso_events: "st_events isolated_state = es_empty"
  by (simp add: isolated_state_def act_def case_prod_beta add_isolation_def web_state_def state_New_def Let_def SetVMs_def)

lemma iso_active: "ActiveIsolations isolated_state = [''web'']"
  by code_simp

lemma started_host:
  "es_sized (st_events (ag_state (da_agent started_daemon)))" "ri_scan first_pass = Some [web_vm]"
  "th_faults (da_host started_daemon) = []" "no_faults (th_mgr (da_host started_daemon))"
  "tm_egress_maps (th_mgr (da_host started_daemon))"
  "tm_loadErr (th_mgr (loadTapLocked (ri_load first_pass) (da_host started_daemon))) = None"
  "distinct (map fst (tm_taps (th_mgr (da_host started_daemon))))" "distinct (concat (map id_taps [web_vm]))"
  "\<forall>t \<in> set (concat (map id_taps [web_vm])). linkUp started_daemon t"
  by (simp_all add: started_daemon_def first_pass_def one_tap_def web_vm_def linkUp_def new_agent_def iso_events
      es_sized_def es_empty_def es_all_def loadTapLocked_def start_env_def load_result_def)

lemma started_pol: "en_pol (da_engine started_daemon) = [(''web'', web_policy)]"
  by (simp add: started_daemon_def)

lemma started_vm:
  "find (\<lambda>v. id_name v = ''web'') [web_vm] = Some web_vm" "''vnet0'' \<in> set (id_taps web_vm)"
  "''web'' \<in> set (ActiveIsolations (ag_state (da_agent started_daemon)))"
  "da_enforcer started_daemon = Some web_enforcer" "enf_allow web_enforcer \<noteq> []" "enf_allowErr web_enforcer = None"
  by (simp_all add: web_vm_def started_daemon_def web_enforcer_def new_agent_def iso_active)



section \<open>A tap that is not covered is said to be\<close>

lemma Normalize_iface [simp]: "ev_iface (Normalize e) = ev_iface e"
  by (simp add: Normalize_def Let_def)

text \<open>A stored event that is this alert's.\<close>

definition alert_of :: "string \<times> event \<Rightarrow> event \<Rightarrow> bool" where
  "alert_of x d \<longleftrightarrow> ev_kind d = ev_kind (snd x) \<and> ev_rule d = ev_rule (snd x) \<and> ev_iface d = ev_iface (snd x) \<and> ev_vm d = ev_vm (snd x)"

abbreviation held_back :: "time \<Rightarrow> Suppressor \<Rightarrow> string \<Rightarrow> bool" where
  "held_back now tbl k \<equiv> \<exists>e. map_of tbl k = Some e \<and> now < sp_until e"

lemma raise_reports:
  assumes "raise now cfg x a = Some a'" "supp_inv (ag_sup a)"
  shows "supp_inv (ag_sup a')"
    and "(\<exists>d. ag_log a' = ag_log a @ [d] \<and> alert_of x d) \<or> ag_log a' = ag_log a \<and> held_back now (ag_sup a) (fst x)"
    and "k \<noteq> fst x \<Longrightarrow> held_back now (ag_sup a') k \<Longrightarrow> held_back now (ag_sup a) k"
proof -
  obtain sup ok held where al: "Allow (fst x) now (cf_suppress cfg) (ag_sup a) = (sup, ok, held)" by (metis prod.exhaust)
  have sup: "supp_inv sup" using supp_inv_Allow[OF assms(2), of "fst x" now "cf_suppress cfg"] al by simp
  have other: "held_back now (ag_sup a) k" if "k \<noteq> fst x" "held_back now sup k"
    using that al assms(2) map_of_drop_expired[of "ag_sup a" now k]
    by (auto simp: Allow_def Let_def supp_inv_def map_of_update split: if_splits option.splits)
  have "ag_sup a' = sup \<and> ((\<exists>d. ag_log a' = ag_log a @ [d] \<and> alert_of x d) \<or> ag_log a' = ag_log a \<and> held_back now (ag_sup a) (fst x))"
  proof (cases ok)
    case True
    then have e: "add_event (Normalize (held_note held (snd x))) (a\<lparr>ag_sup := sup\<rparr>) = Some a'" using assms(1) al by (simp add: raise_def)
    then obtain n where "ag_log a' = ag_log a @ [(Normalize (Normalize (held_note held (snd x))))\<lparr>ev_seq := n\<rparr>]"
      by (auto simp: add_event_def split: option.splits)
    then show ?thesis using add_event_frame[OF e] by (auto simp: alert_of_def held_note_def)
  next
    case False
    then have "held_back now (ag_sup a) (fst x)" using al by (auto simp: Allow_def Let_def split: if_splits option.splits)
    then show ?thesis using assms(1) al False by (auto simp: raise_def AddSuppressed_def)
  qed
  then show "supp_inv (ag_sup a')" "(\<exists>d. ag_log a' = ag_log a @ [d] \<and> alert_of x d) \<or> ag_log a' = ag_log a \<and> held_back now (ag_sup a) (fst x)"
    "k \<noteq> fst x \<Longrightarrow> held_back now (ag_sup a') k \<Longrightarrow> held_back now (ag_sup a) k"
    using sup other by auto
qed

lemma raise_all_reports:
  assumes "raise_all now cfg xs a = Some a'" "supp_inv (ag_sup a)" "x \<in> set xs"
  shows "\<exists>new. ag_log a' = ag_log a @ new \<and>
    ((\<exists>y \<in> set xs. fst y = fst x \<and> (\<exists>d \<in> set new. alert_of y d)) \<or> held_back now (ag_sup a) (fst x))"
  using assms
proof (induction xs arbitrary: a)
  case (Cons y xs)
  then obtain b where b: "raise now cfg y a = Some b" "raise_all now cfg xs b = Some a'" by (auto split: option.splits)
  note R = raise_reports[OF b(1) Cons.prems(2)]
  obtain m where m: "ag_log a' = ag_log b @ m" using raise_all_frame[OF b(2)] by blast
  show ?case
  proof (cases "fst y = fst x")
    case True
    then show ?thesis using R(2) m by auto
  next
    case False
    then have "x \<in> set xs" using Cons.prems(3) by auto
    from Cons.IH[OF b(2) R(1) this] R(3)[of "fst x"] False obtain new where n: "ag_log a' = ag_log b @ new"
      "(\<exists>y \<in> set xs. fst y = fst x \<and> (\<exists>d \<in> set new. alert_of y d)) \<or> held_back now (ag_sup a) (fst x)" by auto
    obtain p where "ag_log b = ag_log a @ p" using R(2) by auto
    then show ?thesis using n by (intro exI[of _ "p @ new"]) auto
  qed
qed simp

lemma vm_named_name: "n \<in> id_name ` set vms \<Longrightarrow> id_name (vm_named vms n) = n"
  by (induction vms) (auto simp: vm_named_def)

lemma Refresh_names_gap:
  assumes "Refresh i d = Some d'" "ri_scan i = Some vms" "supp_inv (ag_sup (da_agent d))"
    and "v \<in> set vms" "t \<in> set (id_taps v)" "linkUp d t" "t \<notin> set (attachedSet d')"
    and "map_of (en_pol (da_engine d')) (id_name v) = Some p" "p_mode p = Enforce"
  shows "\<exists>new. ag_log (da_agent d') = ag_log (da_agent d) @ new \<and>
    ((\<exists>x \<in> set new. ev_kind x = KindDetection \<and> ev_rule x = ''tap-uncovered'' \<and>
        vm_name (ev_vm x) @ ''|'' @ ev_iface x = id_name v @ ''|'' @ t) \<or>
     held_back (ri_now i) (ag_sup (da_agent d)) (''tap-uncovered|'' @ id_name v @ ''|'' @ t))"
proof -
  from assms(1,2) obtain a1 d1 e2 as a2 d2 a3 where
    a1: "trackVMs (ri_now i) vms ((da_agent d)\<lparr>ag_state := SetVMs vms (ag_state (da_agent d))\<rparr>) = Some a1" and
    d1: "d1 = refresh_taps i vms (d\<lparr>da_agent := a1\<rparr>)" and
    e2: "Reconcile (deps_of d1) (world_of (ri_now i) d1) (engine_of d1) = (e2, as)" and
    a2: "add_events (map (announced (ri_now i)) as) (da_agent d1) = Some a2" and
    d2: "d2 = d1\<lparr>da_engine := e2, da_host := set_mgr (\<lambda>_. en_kernel e2) (da_host d1), da_agent := a2\<rparr>" and
    a3: "raise_all (ri_now i) (ag_cfg a2) (map (gap_alert (ri_now i) vms)
       (enforcingGaps vms (savedMode (ri_now i) d2) (attachedSet d2) (linkUp d2))) a2 = Some a3" and
    d': "refresh_rest i vms (d2\<lparr>da_agent := a3\<rparr>) = Some d'" by (rule Refresh_steps)
  note rt = refresh_taps_frame[of i vms "d\<lparr>da_agent := a1\<rparr>", folded d1]
  obtain s where s: "da_engine d' = e2"
    "da_host d' = set_mgr (\<lambda>m. fst (ReapplyIsolations (map_option tap_enforcer_if (da_enforcer d)) s m)) (set_mgr (\<lambda>_. en_kernel e2) (da_host d1))"
    "\<exists>new. ag_log (da_agent d') = ag_log a3 @ new"
    using refresh_rest_effect[OF d'] rt(2) by (auto simp: d2)
  let ?gaps = "enforcingGaps vms (savedMode (ri_now i) d2) (attachedSet d2) (linkUp d2)"
  have "t \<notin> set (attachedSet d2)" using assms(7) Reapply_keeps by (simp add: attachedSet_def TapAttached_def s(2) d2)
  moreover have "linkUp d2 t" using assms(6) rt(6) by (simp add: linkUp_def d2)
  moreover have "savedMode (ri_now i) d2 (id_name v) = ''enforce''"
    using assms(8,9) s(1) by (simp add: savedMode_def policy_Get_def engine_of_def d2 rowLocked_def Let_def)
  ultimately have g: "(id_name v, t) \<in> set ?gaps" using assms(4,5) by (force simp: enforcingGaps_def)
  have sup: "ag_sup a2 = ag_sup (da_agent d)"
    using add_events_frame[OF a2] trackVMs_frame[OF a1] rt(5) by simp
  have key: "''tap-uncovered|'' @ n @ ''|'' @ u = fst (gap_alert (ri_now i) vms (n, u))" for n u by (simp add: gap_alert_def Let_def)
  have "gap_alert (ri_now i) vms (id_name v, t) \<in> set (map (gap_alert (ri_now i) vms) ?gaps)" using g by (simp only: set_map) blast
  from raise_all_reports[OF a3 _ this] sup assms(3) obtain n3 where n3: "ag_log a3 = ag_log a2 @ n3"
    "(\<exists>y \<in> set (map (gap_alert (ri_now i) vms) ?gaps). fst y = fst (gap_alert (ri_now i) vms (id_name v, t)) \<and> (\<exists>x \<in> set n3. alert_of y x)) \<or>
     held_back (ri_now i) (ag_sup (da_agent d)) (''tap-uncovered|'' @ id_name v @ ''|'' @ t)" unfolding key by auto
  obtain n1 n2 n4 where "ag_log a1 = ag_log (da_agent d) @ n1" "ag_log a2 = ag_log a1 @ n2" "ag_log (da_agent d') = ag_log a3 @ n4"
    using trackVMs_frame[OF a1] add_events_frame[OF a2] rt(4) s(3) by auto
  then have log: "ag_log (da_agent d') = ag_log (da_agent d) @ (n1 @ n2 @ n3 @ n4)" using n3(1) by simp
  show ?thesis
  proof (rule exI, rule conjI, rule log, rule n3(2)[THEN disj_forward])
    assume "\<exists>y \<in> set (map (gap_alert (ri_now i) vms) ?gaps). fst y = fst (gap_alert (ri_now i) vms (id_name v, t)) \<and> (\<exists>x \<in> set n3. alert_of y x)"
    then obtain n u x where y: "(n, u) \<in> set ?gaps" "n @ ''|'' @ u = id_name v @ ''|'' @ t" "x \<in> set n3" "alert_of (gap_alert (ri_now i) vms (n, u)) x"
      by (auto simp: gap_alert_def Let_def)
    have "n \<in> id_name ` set vms" using y(1) by (auto simp: enforcingGaps_def split: if_splits)
    then have "id_name (vm_named (rev vms) n) = n" by (intro vm_named_name) simp
    then show "\<exists>x \<in> set (n1 @ n2 @ n3 @ n4). ev_kind x = KindDetection \<and> ev_rule x = ''tap-uncovered'' \<and>
        vm_name (ev_vm x) @ ''|'' @ ev_iface x = id_name v @ ''|'' @ t"
      using y(2,4) y(3) by (intro bexI[of _ x]) (simp_all add: alert_of_def gap_alert_def Let_def vm_of_def)
  qed
qed

lemma savedMode_eq: "savedMode now d n = (case map_of (en_pol (da_engine d)) n of None \<Rightarrow> '''' | Some p \<Rightarrow> p_mode p)"
  by (simp add: savedMode_def policy_Get_def engine_of_def rowLocked_def Let_def split: option.split)

lemma Refresh_log: "Refresh i d = Some d' \<Longrightarrow> \<exists>new. ag_log (da_agent d') = ag_log (da_agent d) @ new"
proof (cases "ri_scan i")
  case (Some vms)
  assume "Refresh i d = Some d'"
  from Refresh_steps[OF this Some] obtain a1 d1 e2 as a2 d2 a3 where *:
    "trackVMs (ri_now i) vms ((da_agent d)\<lparr>ag_state := SetVMs vms (ag_state (da_agent d))\<rparr>) = Some a1"
    "d1 = refresh_taps i vms (d\<lparr>da_agent := a1\<rparr>)" "add_events (map (announced (ri_now i)) as) (da_agent d1) = Some a2"
    "raise_all (ri_now i) (ag_cfg a2) (map (gap_alert (ri_now i) vms)
       (enforcingGaps vms (savedMode (ri_now i) d2) (attachedSet d2) (linkUp d2))) a2 = Some a3"
    "refresh_rest i vms (d2\<lparr>da_agent := a3\<rparr>) = Some d'" by metis
  show ?thesis using trackVMs_frame[OF *(1)] add_events_frame[OF *(3)] raise_all_frame[OF *(4)] refresh_rest_effect[OF *(5)]
    by (auto simp: *(2) refresh_taps_frame)
qed (auto simp: Refresh_def)

text \<open>
  C12. A tap that is not covered is never silent. Whatever failed on the way: if after a pass a VM's saved policy enforces, one of its taps
  is up and does not carry the program, then this pass stored a detection that says so, or the same
  detection went out so recently that it is held back.
\<close>

theorem Refresh_reports_gaps:
  assumes "es_sized (st_events (ag_state (da_agent d)))" "supp_inv (ag_sup (da_agent d))" "ri_scan i = Some vms"
    and "v \<in> set vms" "t \<in> set (id_taps v)" "linkUp d t"
  shows "\<exists>d' new. Refresh i d = Some d' \<and> ag_log (da_agent d') = ag_log (da_agent d) @ new \<and>
    (savedMode (ri_now i) d' (id_name v) = ''enforce'' \<and> t \<notin> set (attachedSet d') \<longrightarrow>
      (\<exists>x \<in> set new. ev_kind x = KindDetection \<and> ev_rule x = ''tap-uncovered'' \<and>
        vm_name (ev_vm x) @ ''|'' @ ev_iface x = id_name v @ ''|'' @ t) \<or>
      held_back (ri_now i) (ag_sup (da_agent d)) (''tap-uncovered|'' @ id_name v @ ''|'' @ t))"
proof -
  obtain d' where d': "Refresh i d = Some d'" using Refresh_total assms(1) by blast
  show ?thesis using Refresh_names_gap[OF d' assms(3,2,4-6)] Refresh_log[OF d'] d'
    by (auto simp: savedMode_eq split: option.splits)
qed

text \<open>The same host, where the kernel refuses to attach a program.\<close>

definition failing_daemon :: daemon where
  "failing_daemon = started_daemon\<lparr>da_host := (da_host started_daemon)\<lparr>th_faults := [True, True, True, True]\<rparr>\<rparr>"

lemma Refresh_attached:
  assumes "Refresh i d = Some d'" "ri_scan i = Some vms" "d1 = refresh_taps i vms (d\<lparr>da_agent := a1\<rparr>)"
    and "trackVMs (ri_now i) vms ((da_agent d)\<lparr>ag_state := SetVMs vms (ag_state (da_agent d))\<rparr>) = Some a1"
  shows "set (attachedSet d') = fst ` set (tm_taps (en_kernel (fst (Reconcile (deps_of d1) (world_of (ri_now i) d1) (engine_of d1)))))"
    and "map_of (en_pol (da_engine d')) n = reverted (ri_now i) (map_of (en_pol (da_engine d)) n)"
proof -
  from Refresh_steps[OF assms(1,2)] obtain e2 as a2 d2 a3 where *:
    "Reconcile (deps_of d1) (world_of (ri_now i) d1) (engine_of d1) = (e2, as)"
    "d2 = d1\<lparr>da_engine := e2, da_host := set_mgr (\<lambda>_. en_kernel e2) (da_host d1), da_agent := a2\<rparr>"
    "refresh_rest i vms (d2\<lparr>da_agent := a3\<rparr>) = Some d'" using assms(3,4) by (metis option.inject)
  note d' = refresh_rest_effect[OF *(3)]
  show "set (attachedSet d') = fst ` set (tm_taps (en_kernel (fst (Reconcile (deps_of d1) (world_of (ri_now i) d1) (engine_of d1)))))"
  proof -
    from d' obtain s where "da_host d' = set_mgr (\<lambda>m. fst (ReapplyIsolations (map_option tap_enforcer_if (da_enforcer d1)) s m)) (da_host d2)"
      by (auto simp: *(2))
    then show ?thesis using Reapply_keeps by (simp add: attachedSet_def TapAttached_def *(1,2))
  qed
  have "en_pol (engine_of d1) = en_pol (da_engine d)" by (simp add: engine_of_def assms(3) refresh_taps_frame)
  moreover have "da_engine d' = fst (Reconcile (deps_of d1) (world_of (ri_now i) d1) (engine_of d1))" using d' *(1,2) by simp
  ultimately show "map_of (en_pol (da_engine d')) n = reverted (ri_now i) (map_of (en_pol (da_engine d)) n)"
    by (simp add: Reconcile_pol world_of_def)
qed

lemma failing_start:
  "es_sized (st_events (ag_state (da_agent failing_daemon)))" "supp_inv (ag_sup (da_agent failing_daemon))"
  "ri_scan first_pass = Some [web_vm]" "web_vm \<in> set [web_vm]" "''vnet0'' \<in> set (id_taps web_vm)" "linkUp failing_daemon ''vnet0''"
  "ag_log (da_agent failing_daemon) = []" "ag_sup (da_agent failing_daemon) = []"
  "en_pol (da_engine failing_daemon) = [(''web'', web_policy)]"
  using started_host(1,2) started_vm(2) started_pol
  by (simp_all add: failing_daemon_def supp_inv_def linkUp_def started_daemon_def new_agent_def maxSuppressKeys_def)

definition failing_tracked :: Agent where
  "failing_tracked = (da_agent failing_daemon)\<lparr>ag_state := SetVMs [web_vm] (ag_state (da_agent failing_daemon)),
     ag_vms := [(id_pid web_vm, \<lparr>tk_vm = web_vm, tk_misses = 0\<rparr>)], ag_firstScan := False\<rparr>"

lemma failing_scan:
  "trackVMs 5 [web_vm] ((da_agent failing_daemon)\<lparr>ag_state := SetVMs [web_vm] (ag_state (da_agent failing_daemon))\<rparr>) = Some failing_tracked"
proof -
  have "track_step 5 True [web_vm] [] = ([(id_pid web_vm, \<lparr>tk_vm = web_vm, tk_misses = 0\<rparr>)], [])" by code_simp
  moreover have "ag_firstScan (da_agent failing_daemon)" "ag_vms (da_agent failing_daemon) = []"
    by (simp_all add: failing_daemon_def started_daemon_def new_agent_def)
  ultimately show ?thesis by (simp add: trackVMs_def failing_tracked_def)
qed

lemma failing_attached:
  "let d1 = refresh_taps first_pass [web_vm] (failing_daemon\<lparr>da_agent := failing_tracked\<rparr>)
   in tm_taps (en_kernel (fst (Reconcile (deps_of d1) (world_of 5 d1) (engine_of d1)))) = []"
  by code_simp

theorem Refresh_reports_gaps_witness:
  "\<exists>d' x. Refresh first_pass failing_daemon = Some d' \<and> x \<in> set (ag_log (da_agent d')) \<and> ev_rule x = ''tap-uncovered''"
proof -
  have now: "ri_now first_pass = 5" by (simp add: first_pass_def)
  from Refresh_reports_gaps[OF failing_start(1-6)] obtain d' new where d': "Refresh first_pass failing_daemon = Some d'" "ag_log (da_agent d') = new"
    "savedMode (ri_now first_pass) d' ''web'' = ''enforce'' \<and> ''vnet0'' \<notin> set (attachedSet d') \<longrightarrow> (\<exists>x \<in> set new. ev_rule x = ''tap-uncovered'')"
    by (auto simp: failing_start(7,8) web_vm_def)
  note at = Refresh_attached[OF d'(1) failing_start(3) refl failing_scan[folded now]]
  have "map_option p_mode (reverted 5 (map_of (en_pol (da_engine failing_daemon)) ''web'')) = Some ''enforce''"
    by (simp add: failing_start(9) reverted_def web_policy_def)
  then have "savedMode (ri_now first_pass) d' ''web'' = ''enforce''" using at(2)[of "''web''"] now by (auto simp: savedMode_eq)
  moreover have "attachedSet d' = []" using at(1) failing_attached by (simp add: Let_def now)
  ultimately show ?thesis using d' by auto
qed

end
