(* ===== verification/Identity.thy ===== *)
theory Identity
  imports Agent
begin

text \<open>
  Which VMs a host runs, \<open>internal/identity/qemu.go\<close> and \<open>fluxvm.go\<close>: QEMU processes found under \<open>/proc\<close> by their command
  line, with the taps they hold open, and the guests that FluxVM keeps a record of. What one pass reads of
  \<open>/proc\<close> is a list of entries, read once; a file that cannot be read is \<open>None\<close>. Decoding FluxVM's JSON store is an
  argument: it answers the records by key, in the order the map is iterated.
\<close>

section \<open>The command line\<close>

definition SplitCmdline :: "string \<Rightarrow> string list" where
  "SplitCmdline b = filter (\<lambda>p. p \<noteq> []) (SplitOn (CHR 0x00) b)"

definition file_Base :: "string \<Rightarrow> string" where
  "file_Base s =
     (if s = '''' then ''.''
      else (let t = rev (dropWhile (\<lambda>c. c = CHR ''/'') (rev s))
            in if t = '''' then ''/'' else rev (takeWhile (\<lambda>c. c \<noteq> CHR ''/'') (rev t))))"

text \<open>What follows the first occurrence of a key.\<close>

fun after_first :: "string \<Rightarrow> string \<Rightarrow> string option" where
  "after_first key [] = (if key = [] then Some [] else None)"
| "after_first key (c # cs) = (if prefix key (c # cs) then Some (drop (length key) (c # cs)) else after_first key cs)"

definition isQEMU :: "string list \<Rightarrow> bool" where
  "isQEMU args \<longleftrightarrow> args \<noteq> [] \<and> HasPrefix (ToLower (file_Base (hd args))) ''qemu-system''"

definition baseComm :: "string list \<Rightarrow> string" where
  "baseComm args = (if args = [] then '''' else file_Base (hd args))"

definition parseName :: "string \<Rightarrow> string" where
  "parseName token0 =
     (let token = TrimSpace token0; upto_comma = takeWhile (\<lambda>c. c \<noteq> CHR '','')
      in if token = '''' then ''''
         else case after_first ''guest='' token of Some rest \<Rightarrow> upto_comma rest | None \<Rightarrow> upto_comma token)"

definition ifname :: "string \<Rightarrow> string" where
  "ifname arg = (case after_first ''ifname='' arg of
      None \<Rightarrow> ''''
    | Some rest \<Rightarrow> takeWhile (\<lambda>c. c \<notin> {CHR '','', CHR '' '', CHR 0x09}) rest)"

definition runtimeOf :: "string \<Rightarrow> string \<Rightarrow> string" where
  "runtimeOf cmdline name =
     (let low = ToLower (cmdline @ '' '' @ name)
      in if ContainsStr low ''kubevirt'' \<or> ContainsStr low ''virt-launcher'' then ''kubevirt''
         else if ContainsStr low ''libvirt'' then ''libvirt'' else ''qemu'')"

definition add_ifname :: "string \<Rightarrow> vm_info \<Rightarrow> vm_info" where
  "add_ifname a vm = (if ifname a = '''' then vm else vm\<lparr>id_taps := id_taps vm @ [ifname a]\<rparr>)"

definition inline_arg :: "string \<Rightarrow> vm_info \<Rightarrow> vm_info" where
  "inline_arg a vm =
     (if HasPrefix a ''-name='' then vm\<lparr>id_name := parseName (TrimPrefix a ''-name='')\<rparr>
      else if HasPrefix a ''-uuid='' then vm\<lparr>id_uuid := TrimPrefix a ''-uuid=''\<rparr> else vm)"

text \<open>The loop over the arguments; \<open>-name\<close> and \<open>-uuid\<close> take the next one, which is then not looked at for a tap.\<close>

fun parse_args :: "string list \<Rightarrow> vm_info \<Rightarrow> vm_info" where
  "parse_args [] vm = vm"
| "parse_args [a] vm = add_ifname a (inline_arg a vm)"
| "parse_args (a # v # rest) vm =
     (if a = ''-name'' then parse_args rest (add_ifname a (vm\<lparr>id_name := parseName v\<rparr>))
      else if a = ''-uuid'' then parse_args rest (add_ifname a (vm\<lparr>id_uuid := v\<rparr>))
      else parse_args (v # rest) (add_ifname a (inline_arg a vm)))"

definition ParseCmdline :: "string list \<Rightarrow> vm_info option" where
  "ParseCmdline args =
     (if \<not> isQEMU args then None
      else (let vm = parse_args args (zero_vm\<lparr>id_runtime := ''qemu'', id_comm := baseComm args\<rparr>);
                joined = Join args '' ''
            in Some (vm\<lparr>id_runtime := runtimeOf joined (id_name vm), id_cmdline := joined,
                        id_name := (if id_name vm = '''' then ''qemu-unnamed'' else id_name vm)\<rparr>)))"

section \<open>What one pass reads of \<open>/proc\<close>\<close>

record proc_entry =
  pe_name :: string
  pe_dir :: bool
  pe_cmdline :: "string option"
  pe_comm :: "string option"
  pe_task :: "(string \<times> string option) list option"
  pe_fd :: "(string option \<times> string option) list option"

datatype proc_read = NotThere | ProcFails string | Entries "proc_entry list"

definition Role :: "string \<Rightarrow> string" where
  "Role comm =
     (let c = TrimSpace comm; low = ToLower c
      in if HasPrefix c ''CPU'' \<or> ContainsStr low ''kvm'' then ''vcpu''
         else if HasPrefix c ''IO'' \<or> ContainsStr low ''iothread'' then ''iothread''
         else if ContainsStr low ''vhost'' then ''vhost'' else ''other'')"

definition parsePID :: "string \<Rightarrow> int option" where
  "parsePID name = (case Atoi name of None \<Rightarrow> None | Some n \<Rightarrow> if n \<le> 0 \<or> 4294967295 < n then None else Some n)"

definition thread_of :: "string \<times> string option \<Rightarrow> vm_thread option" where
  "thread_of t =
     (let comm = (case snd t of None \<Rightarrow> '''' | Some b \<Rightarrow> TrimSpace b)
      in map_option (\<lambda>id. \<lparr>th_tid = id, th_comm = comm, th_role = Role comm\<rparr>) (parsePID (fst t)))"

definition proc_threads :: "proc_entry \<Rightarrow> int \<Rightarrow> int list \<times> vm_thread list" where
  "proc_threads e pid =
     (case map_option (List.map_filter thread_of) (pe_task e) of
        Some (t # ts) \<Rightarrow> (map th_tid (t # ts), t # ts)
      | _ \<Rightarrow> ([pid], [\<lparr>th_tid = pid, th_comm = '''', th_role = ''other''\<rparr>]))"

definition iff_names :: "string \<Rightarrow> string list" where
  "iff_names info = List.map_filter (\<lambda>line. case Cut line (CHR '':'') of
      Some (k, v) \<Rightarrow> if k = ''iff'' \<and> TrimSpace v \<noteq> '''' then Some (TrimSpace v) else None
    | None \<Rightarrow> None) (SplitOn (CHR 0x0A) info)"

definition tunTaps :: "proc_entry \<Rightarrow> string list" where
  "tunTaps e = (case pe_fd e of
      None \<Rightarrow> []
    | Some fds \<Rightarrow> concat (map (\<lambda>(target, info). if target \<noteq> Some ''/dev/net/tun'' then []
        else case info of None \<Rightarrow> [] | Some b \<Rightarrow> iff_names b) fds))"

definition mergeNames :: "string list \<Rightarrow> string list \<Rightarrow> string list" where
  "mergeNames base extra = foldl (\<lambda>base n. if n \<in> set base then base else base @ [n]) base extra"

text \<open>One entry of \<open>Scan\<close>.\<close>

definition proc_vm :: "string \<Rightarrow> proc_entry \<Rightarrow> vm_info option" where
  "proc_vm hypervisor e =
     (if \<not> pe_dir e then None
      else case parsePID (pe_name e) of None \<Rightarrow> None | Some pid \<Rightarrow>
        (case pe_cmdline e of None \<Rightarrow> None | Some raw \<Rightarrow>
          (case ParseCmdline (SplitCmdline raw) of None \<Rightarrow> None | Some vm \<Rightarrow>
             Some (vm\<lparr>id_comm := (case pe_comm e of None \<Rightarrow> id_comm vm | Some c \<Rightarrow> TrimSpace c), id_pid := pid,
               id_hypervisor := hypervisor, id_threads := fst (proc_threads e pid), id_thread_info := snd (proc_threads e pid),
               id_taps := mergeNames (id_taps vm) (tunTaps e)\<rparr>))))"

section \<open>FluxVM\<close>

record fluxVM =
  fv_id :: string
  fv_name :: string
  fv_pid :: "int option"
  fv_tap :: string
  fv_netns :: string

datatype file_read = NoFile | ReadFails | Content string

text \<open>FluxVM's files: its configuration, the store below a state directory, the interface its dataplane recorded.\<close>

record flux_env =
  fx_config :: "string option"
  fx_store :: "string \<Rightarrow> file_read"
  fx_decode :: "string \<Rightarrow> (string \<times> fluxVM) list option"
  fx_iface :: "string \<Rightarrow> string option"

definition flux_pid :: "fluxVM \<Rightarrow> int" where
  "flux_pid r = (case fv_pid r of None \<Rightarrow> 0 | Some p \<Rightarrow> if p \<le> 0 then 0 else p)"

definition tomlString :: "string \<Rightarrow> string" where
  "tomlString v0 = (case TrimSpace v0 of
      [] \<Rightarrow> ''''
    | q # v \<Rightarrow>
       (if q = CHR 0x22 \<or> q = CHR 0x27 then (case Cut v q of None \<Rightarrow> '''' | Some (s, _) \<Rightarrow> s)
        else takeWhile (\<lambda>c. c \<notin> {CHR '' '', CHR 0x09, CHR ''#''}) (q # v)))"

fun parse_state_lines :: "string list \<Rightarrow> string" where
  "parse_state_lines [] = ''''"
| "parse_state_lines (l # ls) =
     (let line = TrimSpace l
      in if line = '''' \<or> HasPrefix line ''#'' then parse_state_lines ls
         else case Cut line (CHR ''='') of
           None \<Rightarrow> parse_state_lines ls
         | Some (k, v) \<Rightarrow> if TrimSpace k \<noteq> ''state_dir'' then parse_state_lines ls else tomlString v)"

definition parseStateDir :: "string \<Rightarrow> string" where
  "parseStateDir s = parse_state_lines (SplitOn (CHR 0x0A) s)"

definition fluxvmStateDir :: "flux_env \<Rightarrow> string" where
  "fluxvmStateDir x =
     (let dir = (case fx_config x of None \<Rightarrow> '''' | Some b \<Rightarrow> parseStateDir b) in if dir \<noteq> '''' then dir else ''/var/lib/fluxvm'')"

definition readFluxVMs :: "flux_env \<Rightarrow> fluxVM list option" where
  "readFluxVMs x = (case fx_store x (fluxvmStateDir x) of
      NoFile \<Rightarrow> Some []
    | ReadFails \<Rightarrow> None
    | Content b \<Rightarrow>
       (if TrimSpace b = '''' then Some []
        else map_option (map (\<lambda>(key, r). if fv_id r = '''' then r\<lparr>fv_id := key\<rparr> else r)) (fx_decode x b)))"

definition uuidSimple :: "string \<Rightarrow> string" where
  "uuidSimple id' = ToLower (filter (\<lambda>c. c \<noteq> CHR ''-'') (TrimSpace id'))"

definition shortID :: "string \<Rightarrow> string" where
  "shortID id' = (let s = uuidSimple id' in if length s < 8 then '''' else take 8 s)"

definition recorded_iface :: "flux_env \<Rightarrow> string \<Rightarrow> string" where
  "recorded_iface x simple = (if simple = '''' then '''' else case fx_iface x simple of None \<Rightarrow> '''' | Some b \<Rightarrow> TrimSpace b)"

definition fluxvmIfaces :: "flux_env \<Rightarrow> fluxVM \<Rightarrow> string list" where
  "fluxvmIfaces x r =
     (let edge = recorded_iface x (uuidSimple (fv_id r))
      in if edge \<noteq> '''' then [edge]
         else if fv_netns r \<noteq> '''' \<and> shortID (fv_id r) \<noteq> '''' then [''vh'' @ shortID (fv_id r)]
         else if fv_tap r \<noteq> '''' then [fv_tap r] else [])"

definition applyFluxVM :: "fluxVM \<Rightarrow> string list \<Rightarrow> vm_info \<Rightarrow> vm_info" where
  "applyFluxVM r taps vm =
     (let vm = vm\<lparr>id_runtime := ''fluxvm'', id_uuid := (if fv_id r \<noteq> '''' then fv_id r else id_uuid vm)\<rparr>;
          vm = (if fv_name r \<noteq> '''' then vm\<lparr>id_name := fv_name r\<rparr>
                else if (id_name vm = '''' \<or> id_name vm = ''qemu-unnamed'') \<and> fv_id r \<noteq> '''' then vm\<lparr>id_name := fv_id r\<rparr>
                else vm)
      in if taps \<noteq> [] then vm\<lparr>id_taps := taps\<rparr> else vm)"

definition isFluxVMM :: "proc_entry \<Rightarrow> bool" where
  "isFluxVMM e = (case pe_cmdline e of
      None \<Rightarrow> False
    | Some raw \<Rightarrow> (case SplitCmdline raw of
        [] \<Rightarrow> False
      | a # _ \<Rightarrow> ToLower (file_Base a) \<in> {''cloud-hypervisor'', ''firecracker'', ''fluxvm-hypervisor''}))"

definition vmFromDir :: "proc_entry \<Rightarrow> int \<Rightarrow> string \<Rightarrow> vm_info" where
  "vmFromDir e pid hypervisor =
     (let vm = zero_vm\<lparr>id_pid := pid, id_hypervisor := hypervisor\<rparr>;
          vm = (case pe_cmdline e of None \<Rightarrow> vm
            | Some raw \<Rightarrow> vm\<lparr>id_cmdline := Join (SplitCmdline raw) '' '', id_comm := baseComm (SplitCmdline raw)\<rparr>);
          vm = (case pe_comm e of None \<Rightarrow> vm | Some c \<Rightarrow> if TrimSpace c \<noteq> '''' then vm\<lparr>id_comm := TrimSpace c\<rparr> else vm)
      in vm\<lparr>id_threads := fst (proc_threads e pid), id_thread_info := snd (proc_threads e pid)\<rparr>)"

text \<open>Where the VM of a process is among those found: the last one, as the index map keeps it.\<close>

definition find_pid :: "int \<Rightarrow> vm_info list \<Rightarrow> nat option" where
  "find_pid pid vms = find (\<lambda>i. id_pid (vms ! i) = pid) (rev [0..<length vms])"

definition enrich_one :: "flux_env \<Rightarrow> proc_entry list \<Rightarrow> string \<Rightarrow> fluxVM \<Rightarrow> vm_info list \<Rightarrow> vm_info list" where
  "enrich_one x es hypervisor r vms =
     (let pid = flux_pid r
      in if pid = 0 then vms
         else case find (\<lambda>e. pe_name e = Itoa pid) es of
           None \<Rightarrow> vms
         | Some e \<Rightarrow>
            (if \<not> pe_dir e then vms
             else case find_pid pid vms of
               Some i \<Rightarrow> vms[i := applyFluxVM r (fluxvmIfaces x r) (vms ! i)]
             | None \<Rightarrow>
                (if \<not> isFluxVMM e then vms
                 else vms @ [applyFluxVM r (fluxvmIfaces x r) (vmFromDir e pid hypervisor)])))"

definition enrichFluxVM :: "flux_env \<Rightarrow> proc_entry list \<Rightarrow> string \<Rightarrow> vm_info list \<Rightarrow> vm_info list" where
  "enrichFluxVM x es hypervisor vms = (case readFluxVMs x of None \<Rightarrow> vms | Some recs \<Rightarrow> fold (enrich_one x es hypervisor) recs vms)"

definition Scan :: "flux_env \<Rightarrow> proc_read \<Rightarrow> string \<Rightarrow> string + vm_info list" where
  "Scan x dir hypervisor = (case dir of
      NotThere \<Rightarrow> Inr []
    | ProcFails err \<Rightarrow> Inl err
    | Entries es \<Rightarrow> Inr (enrichFluxVM x es hypervisor (List.map_filter (proc_vm hypervisor) es)))"


section \<open>Which processes are found\<close>

text \<open>A tap that the process itself names: on its command line, or by a descriptor it holds open.\<close>

definition names_tap :: "proc_entry \<Rightarrow> string \<Rightarrow> bool" where
  "names_tap e t \<longleftrightarrow> t \<noteq> '''' \<and> (case pe_cmdline e of None \<Rightarrow> False | Some raw \<Rightarrow> t \<in> ifname ` set (SplitCmdline raw)) \<or> t \<in> set (tunTaps e)"

definition qemu_process :: "proc_entry \<Rightarrow> bool" where
  "qemu_process e \<longleftrightarrow> pe_dir e \<and> parsePID (pe_name e) \<noteq> None \<and> (case pe_cmdline e of None \<Rightarrow> False | Some raw \<Rightarrow> isQEMU (SplitCmdline raw))"

lemma mergeNames_set: "set (mergeNames base extra) = set base \<union> set extra"
  unfolding mergeNames_def by (induction extra arbitrary: base) auto

lemma add_ifname_frame [simp]: "id_name (add_ifname a vm) = id_name vm" "id_uuid (add_ifname a vm) = id_uuid vm"
  by (simp_all add: add_ifname_def)

lemma tap_of_arg [simp]:
  "set (id_taps (add_ifname a vm)) = set (id_taps vm) \<union> ({ifname a} - {''''})" "id_taps (inline_arg a vm) = id_taps vm"
  by (auto simp: add_ifname_def inline_arg_def)

lemma parse_args_taps: "set (id_taps (parse_args as vm)) \<subseteq> set (id_taps vm) \<union> (ifname ` set as - {''''})"
proof (induction as vm rule: parse_args.induct)
  case (3 a v rest vm)
  consider "a = ''-name''" | "a \<noteq> ''-name''" "a = ''-uuid''" | "a \<noteq> ''-name''" "a \<noteq> ''-uuid''" by blast
  then show ?case
  proof cases
    case 1
    show ?thesis using 3(1)[OF 1] unfolding parse_args.simps if_P[OF 1] tap_of_arg by auto
  next
    case 2
    show ?thesis using 3(2)[OF 2] unfolding parse_args.simps if_not_P[OF 2(1)] if_P[OF 2(2)] tap_of_arg by auto
  next
    case c: 3
    show ?thesis using 3(3)[OF c] unfolding parse_args.simps if_not_P[OF c(1)] if_not_P[OF c(2)] tap_of_arg by auto
  qed
qed auto

lemma ParseCmdline_Some:
  "ParseCmdline args = Some vm \<Longrightarrow> isQEMU args \<and> set (id_taps vm) \<subseteq> ifname ` set args - {''''}"
  using parse_args_taps[of args "zero_vm\<lparr>id_runtime := ''qemu'', id_comm := baseComm args\<rparr>"]
  by (auto simp: ParseCmdline_def Let_def zero_vm_def split: if_splits)

lemma proc_vm_Some:
  assumes "proc_vm h e = Some vm"
  shows "qemu_process e \<and> parsePID (pe_name e) = Some (id_pid vm) \<and> (\<forall>t \<in> set (id_taps vm). names_tap e t)"
proof -
  from assms obtain pid raw vm0 where *: "pe_dir e" "parsePID (pe_name e) = Some pid" "pe_cmdline e = Some raw"
    "ParseCmdline (SplitCmdline raw) = Some vm0" "id_pid vm = pid" "id_taps vm = mergeNames (id_taps vm0) (tunTaps e)"
    by (auto simp: proc_vm_def split: if_splits option.splits)
  then show ?thesis using ParseCmdline_Some[OF *(4)] by (auto simp: qemu_process_def names_tap_def mergeNames_set)
qed

lemma qemu_process_found: "qemu_process e \<Longrightarrow> \<exists>vm. proc_vm h e = Some vm \<and> parsePID (pe_name e) = Some (id_pid vm)"
  by (auto simp: qemu_process_def proc_vm_def ParseCmdline_def Let_def split: option.splits)

lemma parsePID_ok: "parsePID s = Some p \<Longrightarrow> pid_ok p"
  by (auto simp: parsePID_def pid_ok_def split: option.splits if_splits)

lemma PID32_ok: "pid_ok p \<Longrightarrow> PID32 p \<noteq> 0"
proof -
  assume p: "pid_ok p"
  then have "uint (PID32 p) = p" by (simp add: pid_ok_def PID32_def uint_word_of_int)
  then show ?thesis using p by (auto simp: pid_ok_def)
qed

text \<open>A process file system: names are used once, and a number is written the way it prints and is a process id.\<close>

definition proc_fs :: "proc_entry list \<Rightarrow> bool" where
  "proc_fs es \<longleftrightarrow> distinct (map pe_name es) \<and>
     (\<forall>e \<in> set es. case Atoi (pe_name e) of None \<Rightarrow> True | Some p \<Rightarrow> pe_name e = Itoa p \<and> (0 < p \<longrightarrow> p \<le> 4294967295))"

lemma proc_fs_pid: "proc_fs es \<Longrightarrow> e \<in> set es \<Longrightarrow> parsePID (pe_name e) = Some p \<Longrightarrow> pe_name e = Itoa p"
  by (auto simp: proc_fs_def parsePID_def split: option.splits if_splits)

lemma proc_fs_live:
  assumes "proc_fs es" "e \<in> set es" "pe_name e = Itoa p" "0 < p" "p < 2 ^ 63"
  shows "parsePID (pe_name e) = Some p"
  using assms Atoi_Itoa[of p] by (auto simp: proc_fs_def parsePID_def split: option.splits)

section \<open>What FluxVM's records change\<close>

definition flux_recs :: "flux_env \<Rightarrow> fluxVM list" where
  "flux_recs x = (case readFluxVMs x of None \<Rightarrow> [] | Some rs \<Rightarrow> rs)"

text \<open>What is true of a VM that was found: a process of the file system, and taps that it or FluxVM names.\<close>

definition stands_on :: "flux_env \<Rightarrow> proc_entry list \<Rightarrow> vm_info \<Rightarrow> bool" where
  "stands_on x es vm \<longleftrightarrow> (\<exists>e \<in> set es. pe_dir e \<and> parsePID (pe_name e) = Some (id_pid vm) \<and> (qemu_process e \<or> isFluxVMM e) \<and>
     (\<forall>t \<in> set (id_taps vm). names_tap e t \<or> (\<exists>r \<in> set (flux_recs x). flux_pid r = id_pid vm \<and> t \<in> set (fluxvmIfaces x r))))"

definition scan_inv :: "flux_env \<Rightarrow> proc_entry list \<Rightarrow> vm_info list \<Rightarrow> bool" where
  "scan_inv x es vms \<longleftrightarrow> distinct (map id_pid vms) \<and> (\<forall>vm \<in> set vms. stands_on x es vm)"

lemma applyFluxVM_frame [simp]:
  "id_pid (applyFluxVM r taps vm) = id_pid vm" "id_taps (applyFluxVM r taps vm) = (if taps = [] then id_taps vm else taps)"
  by (simp_all add: applyFluxVM_def Let_def)

lemma vmFromDir_frame [simp]: "id_pid (vmFromDir e p h) = p" "id_taps (vmFromDir e p h) = []"
  by (simp_all add: vmFromDir_def Let_def zero_vm_def split: option.split)

lemma find_pid_Some:
  assumes "find_pid p vms = Some i"
  shows "i < length vms" "id_pid (vms ! i) = p"
proof -
  have "i \<in> set (rev [0..<length vms])" "id_pid (vms ! i) = p"
    using assms unfolding find_pid_def find_Some_iff by (metis nth_mem, blast)
  then show "i < length vms" "id_pid (vms ! i) = p" by simp_all
qed

lemma find_pid_None: "find_pid p vms = None \<Longrightarrow> p \<notin> id_pid ` set vms"
  by (auto simp: find_pid_def find_None_iff in_set_conv_nth)

lemma stands_on_apply:
  assumes "stands_on x es vm" "r \<in> set (flux_recs x)" "flux_pid r = id_pid vm"
  shows "stands_on x es (applyFluxVM r (fluxvmIfaces x r) vm)"
  using assms unfolding stands_on_def applyFluxVM_frame by (cases "fluxvmIfaces x r = []") auto

lemma scan_inv_enrich_one:
  assumes inv: "scan_inv x es vms" and fs: "proc_fs es" and r: "r \<in> set (flux_recs x)" "flux_pid r < 2 ^ 63"
  shows "scan_inv x es (enrich_one x es h r vms)" and "id_pid ` set vms \<subseteq> id_pid ` set (enrich_one x es h r vms)"
proof -
  let ?p = "flux_pid r"
  have "scan_inv x es (enrich_one x es h r vms) \<and> id_pid ` set vms \<subseteq> id_pid ` set (enrich_one x es h r vms)"
  proof (cases "?p = 0 \<or> (\<forall>e. find (\<lambda>e. pe_name e = Itoa ?p) es = Some e \<longrightarrow> \<not> pe_dir e)")
    case True
    then show ?thesis using inv by (auto simp: enrich_one_def Let_def split: option.splits)
  next
    case False
    then obtain e where e: "find (\<lambda>e. pe_name e = Itoa ?p) es = Some e" "pe_dir e" "?p \<noteq> 0" by blast
    then have e': "e \<in> set es" "pe_name e = Itoa ?p" by (auto simp: find_Some_iff)
    have pos: "0 < ?p" using e(3) by (auto simp: flux_pid_def split: option.splits if_splits)
    have pid: "parsePID (pe_name e) = Some ?p" by (rule proc_fs_live[OF fs e' pos r(2)])
    show ?thesis
    proof (cases "find_pid ?p vms")
      case (Some i)
      then have i: "i < length vms" "id_pid (vms ! i) = ?p" using find_pid_Some[OF Some] by blast+
      let ?vm = "applyFluxVM r (fluxvmIfaces x r) (vms ! i)"
      have pids: "map id_pid (vms[i := ?vm]) = map id_pid vms" using i by (simp add: map_update list_update_same_conv)
      have "stands_on x es ?vm" using inv i r by (intro stands_on_apply) (auto simp: scan_inv_def)
      then have "\<forall>vm \<in> set (vms[i := ?vm]). stands_on x es vm"
        using inv set_update_subset_insert[of vms i ?vm] by (auto simp: scan_inv_def)
      moreover have "id_pid ` set (vms[i := ?vm]) = id_pid ` set vms" using pids by (metis set_map)
      ultimately show ?thesis using Some e inv pids by (simp add: enrich_one_def scan_inv_def)
    next
      case None
      let ?vm = "applyFluxVM r (fluxvmIfaces x r) (vmFromDir e ?p h)"
      have "stands_on x es ?vm" if "isFluxVMM e"
        unfolding stands_on_def using that e' e(2) pid r(1) by (intro bexI[of _ e]) auto
      then show ?thesis using None e inv find_pid_None[OF None] by (auto simp: enrich_one_def scan_inv_def)
    qed
  qed
  then show "scan_inv x es (enrich_one x es h r vms)" "id_pid ` set vms \<subseteq> id_pid ` set (enrich_one x es h r vms)" by simp_all
qed

lemma scan_inv_enrich:
  assumes "proc_fs es" "\<forall>r \<in> set (flux_recs x). flux_pid r < 2 ^ 63" "scan_inv x es vms" "set rs \<subseteq> set (flux_recs x)"
  shows "scan_inv x es (fold (enrich_one x es h) rs vms) \<and> id_pid ` set vms \<subseteq> id_pid ` set (fold (enrich_one x es h) rs vms)"
  using assms(3,4)
proof (induction rs arbitrary: vms)
  case (Cons r rs)
  have "scan_inv x es (enrich_one x es h r vms)" "id_pid ` set vms \<subseteq> id_pid ` set (enrich_one x es h r vms)"
    using scan_inv_enrich_one[OF Cons.prems(1) assms(1), of r h] Cons.prems(2) assms(2) by auto
  then show ?case using Cons.IH[of "enrich_one x es h r vms"] Cons.prems(2) by auto
qed simp

lemma in_map_filter: "y \<in> set (List.map_filter f xs) \<longleftrightarrow> (\<exists>x \<in> set xs. f x = Some y)"
  by (induction xs) (auto simp: map_filter_simps split: option.splits)

lemma scan_inv_procs:
  assumes "proc_fs es"
  shows "scan_inv x es (List.map_filter (proc_vm h) es)"
proof -
  have *: "set es' \<subseteq> set es \<Longrightarrow> distinct (map pe_name es') \<Longrightarrow> distinct (map id_pid (List.map_filter (proc_vm h) es'))" for es'
  proof (induction es')
    case (Cons e es')
    have "id_pid vm \<noteq> id_pid vm'" if "proc_vm h e = Some vm" "e' \<in> set es'" "proc_vm h e' = Some vm'" for vm e' vm'
      using that Cons.prems proc_vm_Some[OF that(1)] proc_vm_Some[OF that(3)] proc_fs_pid[OF assms, of e] proc_fs_pid[OF assms, of e']
      by (metis (no_types, lifting) distinct.simps(2) image_eqI list.set_intros(1) list.set_intros(2) list.set_map list.simps(9) subset_iff)
    then show ?case using Cons by (fastforce simp: map_filter_simps in_map_filter split: option.split)
  qed (simp add: map_filter_simps)
  have "stands_on x es vm" if "e \<in> set es" "proc_vm h e = Some vm" for e vm
    unfolding stands_on_def using that proc_vm_Some[OF that(2)] by (intro bexI[of _ e]) (auto simp: qemu_process_def)
  then show ?thesis using *[of es] assms by (auto simp: scan_inv_def proc_fs_def in_map_filter)
qed

text \<open>
  C20. Discovery is sound and complete. On a process file system, every VM the scan reports is a live VMM process with a usable process
  id that it owns, each once; every tap it is given is one that the process itself names, or that a FluxVM record of
  that process names, never another's; and every QEMU process whose command line can be read is reported.
\<close>

theorem Scan_finds:
  assumes "proc_fs es" "\<forall>r \<in> set (flux_recs x). flux_pid r < 2 ^ 63"
  shows "\<exists>vms. Scan x (Entries es) h = Inr vms \<and> distinct (map id_pid vms) \<and>
    (\<forall>vm \<in> set vms. Owns vm (PID32 (id_pid vm)) \<and>
      (\<exists>e \<in> set es. pe_dir e \<and> pe_name e = Itoa (id_pid vm) \<and> (qemu_process e \<or> isFluxVMM e) \<and>
        (\<forall>t \<in> set (id_taps vm). names_tap e t \<or> (\<exists>r \<in> set (flux_recs x). flux_pid r = id_pid vm \<and> t \<in> set (fluxvmIfaces x r))))) \<and>
    (\<forall>e \<in> set es. qemu_process e \<longrightarrow> (\<exists>vm \<in> set vms. pe_name e = Itoa (id_pid vm)))"
proof -
  let ?procs = "List.map_filter (proc_vm h) es"
  let ?vms = "fold (enrich_one x es h) (flux_recs x) ?procs"
  have scan: "Scan x (Entries es) h = Inr ?vms"
    by (simp add: Scan_def enrichFluxVM_def flux_recs_def split: option.split)
  have inv: "scan_inv x es ?vms" "id_pid ` set ?procs \<subseteq> id_pid ` set ?vms"
    using scan_inv_enrich[OF assms scan_inv_procs[OF assms(1)] subset_refl] by auto
  have owns: "Owns vm (PID32 (id_pid vm))" if "parsePID s = Some (id_pid vm)" for s vm
    using PID32_ok[OF parsePID_ok[OF that]] by (simp add: Owns_def)
  have "\<exists>vm \<in> set ?vms. pe_name e = Itoa (id_pid vm)" if e: "e \<in> set es" "qemu_process e" for e
  proof -
    obtain vm where vm: "proc_vm h e = Some vm" "parsePID (pe_name e) = Some (id_pid vm)" using qemu_process_found[OF e(2)] by blast
    then have "id_pid vm \<in> id_pid ` set ?vms" using inv(2) e(1) by (force simp: in_map_filter)
    then show ?thesis using proc_fs_pid[OF assms(1) e(1) vm(2)] by auto
  qed
  moreover have "Owns vm (PID32 (id_pid vm)) \<and> (\<exists>e \<in> set es. pe_dir e \<and> pe_name e = Itoa (id_pid vm) \<and> (qemu_process e \<or> isFluxVMM e) \<and>
        (\<forall>t \<in> set (id_taps vm). names_tap e t \<or> (\<exists>r \<in> set (flux_recs x). flux_pid r = id_pid vm \<and> t \<in> set (fluxvmIfaces x r))))"
    if "vm \<in> set ?vms" for vm
    using inv(1) that owns proc_fs_pid[OF assms(1)] unfolding scan_inv_def stands_on_def by blast
  ultimately show ?thesis using scan inv(1) by (auto simp: scan_inv_def)
qed


text \<open>A host with init, one QEMU started by libvirt, whose tap is only a descriptor, and a FluxVM guest.\<close>

definition libvirt_qemu :: proc_entry where
  "libvirt_qemu = \<lparr>pe_name = ''42'', pe_dir = True,
     pe_cmdline = Some (concat (map (\<lambda>a. a @ [CHR 0x00]) [''/usr/bin/qemu-system-x86_64'', ''-name'', ''guest=web,debug-threads=on'', ''-netdev'', ''tap,fd=37''])),
     pe_comm = Some ''qemu-system-x86'', pe_task = None,
     pe_fd = Some [(Some ''/dev/null'', None), (Some ''/dev/net/tun'', Some (''pos:0'' @ [CHR 0x0A] @ ''iff: vnet0''))]\<rparr>"

definition flux_guest :: proc_entry where
  "flux_guest = \<lparr>pe_name = ''77'', pe_dir = True, pe_cmdline = Some ''/opt/firecracker'', pe_comm = None, pe_task = None, pe_fd = None\<rparr>"

definition flux_host :: flux_env where
  "flux_host = \<lparr>fx_config = None, fx_store = (\<lambda>d. if d = ''/var/lib/fluxvm'' then Content ''{}'' else NoFile),
     fx_decode = (\<lambda>_. Some [(''a1b2c3d4-0000'', \<lparr>fv_id = '''', fv_name = ''db'', fv_pid = Some 77, fv_tap = ''tap0'', fv_netns = ''ns1''\<rparr>)]),
     fx_iface = (\<lambda>_. None)\<rparr>"

definition small_proc :: "proc_entry list" where
  "small_proc = [\<lparr>pe_name = ''1'', pe_dir = True, pe_cmdline = Some ''/sbin/init'', pe_comm = None, pe_task = None, pe_fd = None\<rparr>,
     libvirt_qemu, flux_guest, \<lparr>pe_name = ''version'', pe_dir = False, pe_cmdline = None, pe_comm = None, pe_task = None, pe_fd = None\<rparr>]"

theorem Scan_finds_witness:
  "\<exists>vms. Scan flux_host (Entries small_proc) ''kvm'' = Inr vms \<and> distinct (map id_pid vms) \<and> (\<exists>vm \<in> set vms. id_pid vm = 42)"
proof -
  have 1: "proc_fs small_proc" "\<forall>r \<in> set (flux_recs flux_host). flux_pid r < 2 ^ 63" by code_simp+
  have 2: "libvirt_qemu \<in> set small_proc" "qemu_process libvirt_qemu" "Atoi (pe_name libvirt_qemu) = Some 42" by (simp add: small_proc_def) code_simp+
  from Scan_finds[OF 1, of "''kvm''"] obtain vms where vms: "Scan flux_host (Entries small_proc) ''kvm'' = Inr vms" "distinct (map id_pid vms)"
    "\<forall>vm \<in> set vms. Owns vm (PID32 (id_pid vm))" "\<exists>vm \<in> set vms. pe_name libvirt_qemu = Itoa (id_pid vm)"
    using 2(1,2) by blast
  then obtain vm where vm: "vm \<in> set vms" "pe_name libvirt_qemu = Itoa (id_pid vm)" "PID32 (id_pid vm) \<noteq> 0" by (auto simp: Owns_def)
  then have "0 \<le> id_pid vm" "id_pid vm < 2 ^ 63" by (auto simp: PID32_def split: if_splits)
  then have "id_pid vm = 42" using Atoi_Itoa[of "id_pid vm"] 2(3) vm(2) by simp
  then show ?thesis using vms(1,2) vm(1) by blast
qed

lemma scan_taps: "map (\<lambda>vm. (id_name vm, id_taps vm)) (case Scan flux_host (Entries small_proc) ''kvm'' of Inr vms \<Rightarrow> vms | Inl _ \<Rightarrow> []) =
  [(''web'', [''vnet0'']), (''db'', [''vha1b2c3d4''])]"
  by code_simp

section \<open>What libvirt names, the scan reads\<close>

definition cmdline :: "string list \<Rightarrow> string" where
  "cmdline args = concat (map (\<lambda>a. a @ [CHR 0x00]) args)"

lemma SplitCmdline_cmdline:
  "(\<forall>a \<in> set args. a \<noteq> [] \<and> CHR 0x00 \<notin> set a) \<Longrightarrow> SplitCmdline (cmdline args) = args"
  by (induction args) (simp_all add: SplitCmdline_def cmdline_def SplitOn_append)

lemma after_first_prefix: "key \<noteq> [] \<Longrightarrow> after_first key (key @ s) = Some s"
  by (cases key) simp_all

lemma TrimSpace_keeps_front:
  assumes "s \<noteq> []" "\<not> is_space (hd s)" "\<not> is_space c"
  shows "\<exists>t. TrimSpace (s @ c # r) = s @ c # t"
proof -
  have front: "dropWhile is_space (s @ c # r) = s @ c # r" using assms(1,2) by (cases s) simp_all
  show ?thesis
  proof (cases "\<forall>x \<in> set r. is_space x")
    case True
    then have "dropWhile is_space (rev (s @ c # r)) = c # rev s" using assms(3) by (simp add: dropWhile_append)
    then have "TrimSpace (s @ c # r) = s @ c # []" by (simp only: TrimSpace_def trim_by_def front rev.simps rev_rev_ident)
    then show ?thesis by blast
  next
    case False
    then have "dropWhile is_space (rev (s @ c # r)) = dropWhile is_space (rev r) @ c # rev s" by (auto simp: dropWhile_append)
    then have "TrimSpace (s @ c # r) = s @ c # rev (dropWhile is_space (rev r))" by (simp add: TrimSpace_def trim_by_def front)
    then show ?thesis by blast
  qed
qed

lemma parseName_guest:
  assumes "CHR '','' \<notin> set n"
  shows "parseName (''guest='' @ n @ CHR '','' # opts) = n"
proof -
  obtain t where t: "TrimSpace ((''guest='' @ n) @ CHR '','' # opts) = (''guest='' @ n) @ CHR '','' # t"
    using TrimSpace_keeps_front[of "''guest='' @ n" "CHR '',''" opts] by (auto simp: is_space_def)
  have "takeWhile (\<lambda>c. c \<noteq> CHR '','') (n @ CHR '','' # t) = n" using assms by (subst takeWhile_append2) auto
  then show ?thesis using t after_first_prefix[of "''guest=''" "n @ CHR '','' # t"] by (simp add: parseName_def)
qed

lemma parse_args_skip:
  assumes "''-name'' \<notin> set pre" "''-uuid'' \<notin> set pre" "rest \<noteq> []"
  shows "parse_args (pre @ rest) vm = parse_args rest (fold (\<lambda>a vm. add_ifname a (inline_arg a vm)) pre vm)"
  using assms(1,2)
proof (induction pre arbitrary: vm)
  case (Cons a pre)
  obtain v vs where v: "pre @ rest = v # vs" using assms(3) by (cases "pre @ rest") auto
  have a: "a \<noteq> ''-name''" "a \<noteq> ''-uuid''" using Cons.prems by auto
  have "parse_args ((a # pre) @ rest) vm = parse_args (pre @ rest) (add_ifname a (inline_arg a vm))"
    unfolding append_Cons v parse_args.simps if_not_P[OF a(1)] if_not_P[OF a(2)] ..
  then show ?case using Cons by simp
qed simp

lemma parse_args_name:
  assumes "''-name'' \<notin> set post" "\<forall>a \<in> set post. \<not> HasPrefix a ''-name=''"
  shows "id_name (parse_args post vm) = id_name vm"
  using assms
proof (induction post vm rule: parse_args.induct)
  case (3 a v rest vm)
  have a: "a \<noteq> ''-name''" using 3(4) by auto
  show ?case
  proof (cases "a = ''-uuid''")
    case True
    show ?thesis using 3(2)[OF a True] 3(4,5) unfolding parse_args.simps if_not_P[OF a] if_P[OF True] by simp
  next
    case False
    show ?thesis using 3(3)[OF a False] 3(4,5) unfolding parse_args.simps if_not_P[OF a] if_not_P[OF False] by (simp add: inline_arg_def)
  qed
qed (auto simp: inline_arg_def)

text \<open>
  What libvirt names, the scan reads. For a command line as libvirt writes it (\<open>-name guest=NAME,...\<close> once, and no argument empty or
  with a NUL), the name read back from the process's argument buffer is the guest's name, whatever the other arguments are.
\<close>

theorem guest_name_roundtrip:
  assumes "args = pre @ [''-name'', ''guest='' @ n @ CHR '','' # opts] @ post" "isQEMU args" "\<forall>a \<in> set args. a \<noteq> [] \<and> CHR 0x00 \<notin> set a"
    and "''-name'' \<notin> set pre" "''-uuid'' \<notin> set pre" "''-name'' \<notin> set post" "\<forall>a \<in> set post. \<not> HasPrefix a ''-name=''"
    and "n \<noteq> []" "CHR '','' \<notin> set n"
  shows "\<exists>vm. ParseCmdline (SplitCmdline (cmdline args)) = Some vm \<and> id_name vm = n \<and> id_cmdline vm = Join args '' ''"
proof -
  have "id_name (parse_args args vm) = n" for vm
    unfolding assms(1) using parse_args_skip[OF assms(4,5), of "[''-name'', ''guest='' @ n @ CHR '','' # opts] @ post" vm]
      parseName_guest[OF assms(9), of opts] parse_args_name[OF assms(6,7)] by simp
  then show ?thesis using assms(2,8) SplitCmdline_cmdline[OF assms(3)] by (simp add: ParseCmdline_def Let_def)
qed

theorem guest_name_roundtrip_witness:
  "\<exists>vm. ParseCmdline (SplitCmdline (cmdline [''qemu-system-x86_64'', ''-name'', ''guest=web,debug-threads=on'', ''-m'', ''4096''])) = Some vm \<and>
    id_name vm = ''web''"
proof -
  have 1: "isQEMU [''qemu-system-x86_64'', ''-name'', ''guest=web,debug-threads=on'', ''-m'', ''4096'']" by code_simp
  show ?thesis using guest_name_roundtrip[of "[''qemu-system-x86_64'', ''-name'', ''guest=web,debug-threads=on'', ''-m'', ''4096'']"
      "[''qemu-system-x86_64'']" "''web''" "''debug-threads=on''" "[''-m'', ''4096'']"] 1 by auto
qed

text \<open>
  The comment on \<open>fluxvmIfaces\<close> says that the inner tap of a network namespace is never returned. It is, when the
  record's id is too short to name the host's veth.
\<close>

theorem inner_tap_traced:
  "fluxvmIfaces flux_host \<lparr>fv_id = ''vm-1'', fv_name = ''db'', fv_pid = Some 77, fv_tap = ''tap0'', fv_netns = ''ns1''\<rparr> = [''tap0'']"
  by code_simp

end
