(* ===== verification/PersistLog.thy ===== *)
theory PersistLog
  imports State
begin

text \<open>
  The files that outlive the daemon, \<open>internal/persist/log.go\<close>, \<open>rollup.go\<close> and \<open>attach.go\<close>: the rolling JSON-lines
  log, reading its tail back, the search for the snapshots a verdict stands on, and the release records written by
  \<open>-detach-all\<close>. A file is its bytes. JSON is \<open>encoding/json\<close>: an encoder, which never writes a newline, and a decoder are
  arguments. Every operation on a file may fail, and a write may be cut short: \<open>lg_faults\<close> lists the outcomes to come.
  Only one process writes a log.
\<close>

section \<open>The rolling log\<close>

datatype io = Works | Fails | Short nat

record log =
  lg_now :: "string option"
  lg_old :: "string option"
  lg_open :: bool
  lg_size :: nat
  lg_max :: nat
  lg_faults :: "io list"

abbreviation NL :: char where
  "NL \<equiv> CHR 0x0A"

definition next_io :: "log \<Rightarrow> log \<times> io" where
  "next_io l = (case lg_faults l of [] \<Rightarrow> (l, Works) | f # fs \<Rightarrow> (l\<lparr>lg_faults := fs\<rparr>, f))"

definition contents :: "log \<Rightarrow> string" where
  "contents l = (case lg_now l of None \<Rightarrow> [] | Some b \<Rightarrow> b)"

text \<open>A write appends what the kernel took, and says whether that was all of it.\<close>

definition log_write :: "string \<Rightarrow> log \<Rightarrow> log \<times> bool" where
  "log_write b l =
     (let (l, o') = next_io l; n = (case o' of Works \<Rightarrow> length b | Fails \<Rightarrow> 0 | Short k \<Rightarrow> min k (length b))
      in (l\<lparr>lg_now := Some (contents l @ take n b), lg_size := lg_size l + n\<rparr>, o' = Works))"

text \<open>A torn last line is ended, if it can be read and written.\<close>

definition end_torn :: "log \<Rightarrow> log" where
  "end_torn l =
     (if lg_size l = 0 then l
      else (let (l, o') = next_io l
            in if o' = Works \<and> last (contents l) \<noteq> NL then fst (log_write [NL] l) else l))"

definition log_open :: "log \<Rightarrow> log \<times> bool" where
  "log_open l =
     (let (l, o') = next_io l
      in if o' \<noteq> Works then (l, False)
         else (end_torn (l\<lparr>lg_now := Some (contents l), lg_open := True, lg_size := length (contents l)\<rparr>), True))"

definition OpenLog :: "nat \<Rightarrow> log \<Rightarrow> log \<times> bool" where
  "OpenLog maxBytes l = log_open (l\<lparr>lg_max := maxBytes, lg_open := False\<rparr>)"

definition rotate_log :: "log \<Rightarrow> log \<times> bool" where
  "rotate_log l =
     (let (l, o') = next_io l;
          l = (if o' = Works then l\<lparr>lg_old := lg_now l, lg_now := None\<rparr> else l);
          (l, ok) = log_open l
      in if \<not> ok then (l\<lparr>lg_open := False\<rparr>, False) else (l, o' = Works))"

text \<open>\<open>Append\<close>, with the record's encoding; \<open>None\<close> is a value that does not encode.\<close>

definition log_Append :: "string option \<Rightarrow> log \<Rightarrow> log \<times> bool" where
  "log_Append enc l = (case enc of
      None \<Rightarrow> (l, False)
    | Some s \<Rightarrow>
       (let b = s @ [NL]
        in if \<not> lg_open l then (l, False)
           else (let l = (if 0 < lg_max l \<and> 0 < lg_size l \<and> lg_max l < lg_size l + length b then fst (rotate_log l) else l)
                 in if \<not> lg_open l then (l, False) else log_write b l)))"

definition log_Sync :: "log \<Rightarrow> log \<times> bool" where
  "log_Sync l = (if \<not> lg_open l then (l, False) else (let (l, o') = next_io l in (l, o' = Works)))"

definition log_Close :: "log \<Rightarrow> log \<times> bool" where
  "log_Close l =
     (if \<not> lg_open l then (l, True)
      else (let (l, o1) = next_io l; (l, o2) = next_io l in (l\<lparr>lg_open := False\<rparr>, o1 = Works \<and> o2 = Works)))"

section \<open>Reading it back\<close>

text \<open>The lines a \<open>bufio.Scanner\<close> with a buffer of 1 MiB gives: it stops at a line that does not fit.\<close>

definition maxLine :: nat where
  "maxLine = 1024 * 1024"

definition drop_cr :: "string \<Rightarrow> string" where
  "drop_cr s = (if s \<noteq> [] \<and> last s = CHR 0x0D then butlast s else s)"

definition file_lines :: "string \<Rightarrow> string list" where
  "file_lines c = (let ps = SplitOn NL c in if last ps = [] then butlast ps else ps)"

definition scanned :: "string \<Rightarrow> string list \<times> bool" where
  "scanned c =
     (let fits = (\<lambda>l. length l < maxLine)
      in (map drop_cr (takeWhile fits (file_lines c)), list_all fits (file_lines c)))"

definition ReadTail :: "(string \<Rightarrow> 'a option) \<Rightarrow> nat \<Rightarrow> log \<Rightarrow> 'a list \<times> bool" where
  "ReadTail dec n l =
     (let old = (case lg_old l of None \<Rightarrow> ([], True) | Some c \<Rightarrow> scanned c);
          now = (case lg_now l of None \<Rightarrow> ([], True) | Some c \<Rightarrow> scanned c)
      in (List.map_filter dec (keep_newest n (fst old @ fst now)), snd old \<and> snd now))"

section \<open>Snapshots for a past time\<close>

text \<open>
  The stream decoder is an argument: at the start of what is left of a file it gives the time of the next
  value and how many bytes it took, or fails. It takes at least one.
\<close>

function scan_file :: "(string \<Rightarrow> (time \<times> nat) option) \<Rightarrow> nat \<Rightarrow> string \<Rightarrow> (time \<times> nat) list" where
  "scan_file dec off s = (case dec s of
      None \<Rightarrow> []
    | Some (at, n) \<Rightarrow> if n = 0 \<or> length s < n then [] else (at, off) # scan_file dec (off + n) (drop n s))"
  by pat_completeness auto
termination
  by (relation "measure (\<lambda>(_, _, s). length s)") auto

declare scan_file.simps [simp del]

definition rollup_scan :: "(string \<Rightarrow> (time \<times> nat) option) \<Rightarrow> log \<Rightarrow> (time \<times> bool \<times> nat) list" where
  "rollup_scan dec l =
     (let places = (\<lambda>old c. map (\<lambda>(at, off). (at, old, off)) (case c of None \<Rightarrow> [] | Some s \<Rightarrow> scan_file dec 0 s))
      in places True (lg_old l) @ places False (lg_now l))"

definition rollup_load :: "(string \<Rightarrow> 's option) \<Rightarrow> log \<Rightarrow> time \<times> bool \<times> nat \<Rightarrow> 's option" where
  "rollup_load dec l p = (case p of (_, old, off) \<Rightarrow>
     (case (if old then lg_old l else lg_now l) of None \<Rightarrow> None | Some s \<Rightarrow> dec (drop off s)))"

text \<open>The indexes of the two snapshots a verdict stands on.\<close>

definition pick :: "time list \<Rightarrow> time \<Rightarrow> duration \<Rightarrow> (nat \<times> nat option) option" where
  "pick ats at window = (case find (\<lambda>i. ats ! i \<le> at) (rev [0..<length ats]) of
      None \<Rightarrow> None
    | Some ci \<Rightarrow> Some (ci, find (\<lambda>i. ats ! i \<le> ats ! ci - window) (rev [0..<ci])))"

definition Around :: "(string \<Rightarrow> (time \<times> nat) option) \<Rightarrow> (string \<Rightarrow> 's option) \<Rightarrow> time \<Rightarrow> duration \<Rightarrow> log \<Rightarrow> ('s option \<times> 's option) option" where
  "Around dec_head dec at window l =
     (let places = rollup_scan dec_head l
      in case pick (map fst places) at window of
           None \<Rightarrow> Some (None, None)
         | Some (ci, bi) \<Rightarrow>
            (case rollup_load dec l (places ! ci) of
               None \<Rightarrow> None
             | Some cur \<Rightarrow>
                (case bi of
                   None \<Rightarrow> Some (Some cur, None)
                 | Some i \<Rightarrow> map_option (\<lambda>base. (Some cur, Some base)) (rollup_load dec l (places ! i)))))"

section \<open>Release records\<close>

definition release_record :: "time \<Rightarrow> string \<Rightarrow> Isolation \<Rightarrow> Isolation" where
  "release_record now actor i = \<lparr>is_vm = is_vm i, is_enforcement = ''tcx'', is_applied = True, is_taps = is_taps i,
     is_reason = ''Isolation lifted by '' @ actor @ ''.'',
     is_audit = \<lparr>au_ts = now, au_actor = actor, au_action = ''release'', au_vm = is_vm i, au_result = ''applied'', au_key_id = '''',
       au_role = '''', au_label = '''', au_remote = '''', au_request_id = '''', au_op = ''''\<rparr>\<rparr>"

definition last_isolations :: "Isolation list \<Rightarrow> (string, Isolation) gomap" where
  "last_isolations isos = fold (\<lambda>i m. AList.update (is_vm i) i m) isos []"

fun append_all :: "('a \<Rightarrow> string option) \<Rightarrow> 'a list \<Rightarrow> log \<Rightarrow> log \<times> bool" where
  "append_all enc [] l = (l, True)"
| "append_all enc (v # vs) l = (case log_Append (enc v) l of (l, True) \<Rightarrow> append_all enc vs l | (l, False) \<Rightarrow> (l, False))"

definition DefaultMaxBytes :: nat where
  "DefaultMaxBytes = 16 * 1024 * 1024"

definition RecordReleaseAll :: "(Isolation \<Rightarrow> string option) \<Rightarrow> (string \<Rightarrow> Isolation option) \<Rightarrow> time \<Rightarrow> string \<Rightarrow> log \<Rightarrow> log \<times> nat option" where
  "RecordReleaseAll enc dec now actor l =
     (let (all, ok) = ReadTail dec MaxEvents l;
          active = filter (\<lambda>i. audit_active (is_audit i)) (map snd (last_isolations all))
      in if \<not> ok then (l, None)
         else if active = [] then (l, Some 0)
         else case OpenLog DefaultMaxBytes l of
           (l, False) \<Rightarrow> (l, None)
         | (l, True) \<Rightarrow>
            (case append_all enc (map (release_record now actor) active) l of
               (l, ok) \<Rightarrow> (fst (log_Close l), if ok then Some (length active) else None)))"


section \<open>Lines\<close>

definition ended :: "string \<Rightarrow> bool" where
  "ended c \<longleftrightarrow> c = [] \<or> last c = NL"

definition lines_of :: "string option \<Rightarrow> string list" where
  "lines_of c = (case c of None \<Rightarrow> [] | Some s \<Rightarrow> file_lines s)"

definition all_lines :: "log \<Rightarrow> string list" where
  "all_lines l = lines_of (lg_old l) @ file_lines (contents l)"

lemma SplitOn_glue: "SplitOn c (a @ c # b) = SplitOn c a @ SplitOn c b"
  by (induction a) (auto split: list.splits)

lemma SplitOn_last_ne: "c \<noteq> [] \<Longrightarrow> last c \<noteq> sep \<Longrightarrow> last (SplitOn sep c) \<noteq> []"
proof (induction c)
  case (Cons x c)
  then show ?case by (cases "c = []") (auto split: list.splits)
qed simp

lemma file_lines_Nil [simp]: "file_lines [] = []"
  by (simp add: file_lines_def)

lemma lines_of_now: "lines_of (lg_now l) = file_lines (contents l)"
  by (simp add: lines_of_def contents_def split: option.split)

lemma file_lines_append: "ended c \<Longrightarrow> NL \<notin> set s \<Longrightarrow> file_lines (c @ s @ [NL]) = file_lines c @ [s]"
proof (cases "c = []")
  case True
  then show "NL \<notin> set s \<Longrightarrow> ?thesis" by (simp add: file_lines_def SplitOn_glue SplitOn_no_sep)
next
  case False
  assume "ended c" "NL \<notin> set s"
  moreover from this False obtain d where "c = d @ [NL]" by (metis append_butlast_last_id ended_def)
  ultimately show ?thesis by (simp add: file_lines_def SplitOn_glue SplitOn_no_sep butlast_append)
qed

lemma file_lines_end: "c \<noteq> [] \<Longrightarrow> last c \<noteq> NL \<Longrightarrow> file_lines (c @ [NL]) = file_lines c"
  by (simp add: file_lines_def SplitOn_glue SplitOn_last_ne)

section \<open>Operations on the log\<close>

text \<open>The size that is kept is the file's.\<close>

definition log_inv :: "log \<Rightarrow> bool" where
  "log_inv l \<longleftrightarrow> (lg_open l \<longrightarrow> lg_size l = length (contents l))"

lemma next_io_frame [simp]:
  "lg_now (fst (next_io l)) = lg_now l" "lg_old (fst (next_io l)) = lg_old l" "lg_open (fst (next_io l)) = lg_open l"
  "lg_size (fst (next_io l)) = lg_size l" "lg_max (fst (next_io l)) = lg_max l" "contents (fst (next_io l)) = contents l"
  by (simp_all add: next_io_def contents_def split: list.split)

lemma next_io_works [simp]: "lg_faults l = [] \<Longrightarrow> next_io l = (l, Works)"
  by (simp add: next_io_def)

lemma contents_upd [simp]: "contents (l\<lparr>lg_now := Some c\<rparr>) = c" "contents (l\<lparr>lg_now := None\<rparr>) = []"
  "contents (l\<lparr>lg_open := b\<rparr>) = contents l" "contents (l\<lparr>lg_size := n\<rparr>) = contents l" "contents (l\<lparr>lg_old := x\<rparr>) = contents l"
  "contents (l\<lparr>lg_max := n\<rparr>) = contents l" "contents (l\<lparr>lg_faults := fs\<rparr>) = contents l"
  by (simp_all add: contents_def)

lemma log_write_spec:
  assumes "log_write b l = (l', ok)"
  shows "lg_old l' = lg_old l" "lg_open l' = lg_open l" "lg_max l' = lg_max l"
    and "\<exists>n. contents l' = contents l @ take n b \<and> lg_size l' = lg_size l + min n (length b) \<and> (ok \<longrightarrow> length b \<le> n)"
    and "lg_faults l = [] \<Longrightarrow> ok \<and> lg_faults l' = []"
  using assms
  by (auto simp: log_write_def split_beta Let_def split: io.splits intro: exI[of _ "length b"] exI[of _ 0])

lemma end_torn_spec:
  assumes "lg_size l = length (contents l)"
  shows "lg_old (end_torn l) = lg_old l" "lg_open (end_torn l) = lg_open l" "lg_max (end_torn l) = lg_max l"
    "lg_size (end_torn l) = length (contents (end_torn l))" "file_lines (contents (end_torn l)) = file_lines (contents l)"
    "ended (contents l) \<Longrightarrow> ended (contents (end_torn l))"
    "lg_faults l = [] \<Longrightarrow> lg_faults (end_torn l) = [] \<and> ended (contents (end_torn l))"
proof -
  obtain l1 o1 where 1: "next_io l = (l1, o1)" by fastforce
  then have f: "lg_old l1 = lg_old l" "lg_open l1 = lg_open l" "lg_max l1 = lg_max l" "lg_size l1 = lg_size l" "contents l1 = contents l"
    using next_io_frame[of l] by simp_all
  have "lg_old (end_torn l) = lg_old l \<and> lg_open (end_torn l) = lg_open l \<and> lg_max (end_torn l) = lg_max l \<and>
    lg_size (end_torn l) = length (contents (end_torn l)) \<and> file_lines (contents (end_torn l)) = file_lines (contents l) \<and>
    (ended (contents l) \<longrightarrow> ended (contents (end_torn l))) \<and>
    (lg_faults l = [] \<longrightarrow> lg_faults (end_torn l) = [] \<and> ended (contents (end_torn l)))"
  proof (cases "lg_size l \<noteq> 0 \<and> o1 = Works \<and> last (contents l) \<noteq> NL")
    case True
    obtain l2 ok where 2: "log_write [NL] l1 = (l2, ok)" by fastforce
    note w = log_write_spec[OF 2]
    from w(4) f obtain n where n: "contents l2 = contents l @ take n [NL]" "lg_size l2 = lg_size l + min n 1" "ok \<longrightarrow> 1 \<le> n" by auto
    have size: "lg_size l2 = length (contents l2)" using n assms by (cases n) simp_all
    have same: "file_lines (contents l2) = file_lines (contents l)"
      using n(1) True assms file_lines_end[of "contents l"] by (cases n) auto
    have no_faults: "lg_faults l = [] \<Longrightarrow> lg_faults l2 = [] \<and> ended (contents l2)"
    proof -
      assume "lg_faults l = []"
      then have "l1 = l" using 1 by simp
      then have "ok" "lg_faults l2 = []" using w(5) \<open>lg_faults l = []\<close> by auto
      then show "lg_faults l2 = [] \<and> ended (contents l2)" using n by (simp add: ended_def)
    qed
    have "ended (contents l) \<Longrightarrow> ended (contents l2)" using True assms by (auto simp: ended_def)
    moreover have "end_torn l = l2" using True 1 2 f by (simp add: end_torn_def)
    ultimately show ?thesis using w(1-3) f size same no_faults by simp
  next
    case False
    then have "end_torn l = l \<or> end_torn l = l1" using 1 f by (auto simp: end_torn_def)
    moreover have "lg_faults l = [] \<Longrightarrow> l1 = l \<and> ended (contents l)" using False 1 assms by (auto simp: ended_def)
    ultimately show ?thesis using f assms by auto
  qed
  then show "lg_old (end_torn l) = lg_old l" "lg_open (end_torn l) = lg_open l" "lg_max (end_torn l) = lg_max l"
    "lg_size (end_torn l) = length (contents (end_torn l))" "file_lines (contents (end_torn l)) = file_lines (contents l)"
    "ended (contents l) \<Longrightarrow> ended (contents (end_torn l))"
    "lg_faults l = [] \<Longrightarrow> lg_faults (end_torn l) = [] \<and> ended (contents (end_torn l))" by simp_all
qed

lemma log_open_spec:
  assumes "log_open l = (l', ok)"
  shows "lg_old l' = lg_old l" "lg_max l' = lg_max l" "file_lines (contents l') = file_lines (contents l)"
    and "ended (contents l) \<Longrightarrow> ended (contents l')"
    and "ok \<Longrightarrow> lg_open l' \<and> lg_size l' = length (contents l')"
    and "lg_faults l = [] \<Longrightarrow> ok \<and> lg_faults l' = [] \<and> ended (contents l')"
proof -
  obtain l1 o1 where 1: "next_io l = (l1, o1)" by fastforce
  then have f: "lg_old l1 = lg_old l" "lg_max l1 = lg_max l" "contents l1 = contents l" using next_io_frame[of l] by simp_all
  let ?l = "l1\<lparr>lg_now := Some (contents l1), lg_open := True, lg_size := length (contents l1)\<rparr>"
  have l': "(l', ok) = (if o1 \<noteq> Works then (l1, False) else (end_torn ?l, True))" using assms 1 by (simp add: log_open_def)
  note t = end_torn_spec[of ?l]
  show "lg_old l' = lg_old l" "lg_max l' = lg_max l" "file_lines (contents l') = file_lines (contents l)"
    "ended (contents l) \<Longrightarrow> ended (contents l')" "ok \<Longrightarrow> lg_open l' \<and> lg_size l' = length (contents l')"
    using l' f t(1-6) by (auto split: if_splits)
  show "lg_faults l = [] \<Longrightarrow> ok \<and> lg_faults l' = [] \<and> ended (contents l')"
    using l' 1 t(7) by (auto split: if_splits)
qed

lemma rotate_spec:
  assumes "rotate_log l = (l', ok)"
  shows "lg_max l' = lg_max l" and "ended (contents l) \<Longrightarrow> ended (contents l')"
    and "lg_open l' \<Longrightarrow> lg_size l' = length (contents l')"
    and "\<exists>k \<le> length (lines_of (lg_old l)). all_lines l' = drop k (all_lines l)"
    and "lg_faults l = [] \<Longrightarrow> lg_open l' \<and> lg_faults l' = [] \<and> lg_old l' = lg_now l \<and> contents l' = [] \<and> ok"
proof -
  obtain l1 o1 where 1: "next_io l = (l1, o1)" by fastforce
  then have f: "lg_now l1 = lg_now l" "lg_old l1 = lg_old l" "lg_max l1 = lg_max l" "contents l1 = contents l" using next_io_frame[of l] by simp_all
  let ?l = "if o1 = Works then l1\<lparr>lg_old := lg_now l1, lg_now := None\<rparr> else l1"
  obtain l2 ok2 where 2: "log_open ?l = (l2, ok2)" by fastforce
  note s = log_open_spec[OF 2]
  have l': "(l', ok) = (if \<not> ok2 then (l2\<lparr>lg_open := False\<rparr>, False) else (l2, o1 = Works))" using assms 1 2 by (simp add: rotate_log_def)
  have moved: "all_lines ?l = (if o1 = Works then drop (length (lines_of (lg_old l))) (all_lines l) else all_lines l)"
    using f by (auto simp: all_lines_def lines_of_now[symmetric] lines_of_def)
  have "all_lines l' = all_lines ?l" using l' s(1,3) by (auto simp: all_lines_def split: if_splits)
  then show "\<exists>k \<le> length (lines_of (lg_old l)). all_lines l' = drop k (all_lines l)"
    unfolding moved by (cases "o1 = Works") (auto intro: exI[of _ "length (lines_of (lg_old l))"] exI[of _ 0])
  have e: "ended (contents l) \<Longrightarrow> ended (contents ?l)" using f by (simp add: ended_def)
  show "lg_max l' = lg_max l" "ended (contents l) \<Longrightarrow> ended (contents l')" "lg_open l' \<Longrightarrow> lg_size l' = length (contents l')"
    using l' s(2,4,5) f e by (auto split: if_splits)
  show "lg_faults l = [] \<Longrightarrow> lg_open l' \<and> lg_faults l' = [] \<and> lg_old l' = lg_now l \<and> contents l' = [] \<and> ok"
  proof -
    assume none: "lg_faults l = []"
    then have o: "o1 = Works" "l1 = l" using 1 by simp_all
    have "l2 = end_torn (l\<lparr>lg_old := lg_now l, lg_now := Some [], lg_open := True, lg_size := 0\<rparr>)" "ok2"
      using 2 none o by (simp_all add: log_open_def)
    then show ?thesis using l' o s(6) none by (auto simp: end_torn_def split: if_splits)
  qed
qed

lemma Append_lines:
  assumes "log_inv l" "ended (contents l)" "NL \<notin> set s" "log_Append (Some s) l = (l', True)"
  shows "log_inv l' \<and> ended (contents l') \<and> (\<exists>k \<le> length (lines_of (lg_old l)). all_lines l' = drop k (all_lines l) @ [s])"
proof -
  let ?over = "0 < lg_max l \<and> 0 < lg_size l \<and> lg_max l < lg_size l + length (s @ [NL])"
  let ?l = "if ?over then fst (rotate_log l) else l"
  have op: "lg_open l" "lg_open ?l" and w: "log_write (s @ [NL]) ?l = (l', True)"
    using assms(4) by (auto simp: log_Append_def Let_def split: if_splits)
  obtain r rok where rot: "rotate_log l = (r, rok)" by fastforce
  note R = rotate_spec[OF rot]
  have mid: "ended (contents ?l)" "lg_size ?l = length (contents ?l)" using rot R(2,3) assms(1,2) op by (auto simp: log_inv_def)
  have dropped: "\<exists>k \<le> length (lines_of (lg_old l)). all_lines ?l = drop k (all_lines l)"
    using R(4) rot by (cases ?over) (auto intro: exI[of _ 0])
  note W = log_write_spec[OF w]
  from W(4) have c: "contents l' = contents ?l @ s @ [NL]" "lg_size l' = lg_size ?l + length (s @ [NL])" by (auto simp: min_def)
  have "all_lines l' = all_lines ?l @ [s]" unfolding all_lines_def W(1) c(1) file_lines_append[OF mid(1) assms(3)] by simp
  then show ?thesis using dropped c mid(2) by (auto simp: log_inv_def ended_def)
qed


text \<open>
  A record that was written stays. On a log whose last line is ended, an append that succeeds adds exactly its line at the
  end; what it may drop are records of the older, rolled file, and never one of the file that was current. This
  holds whatever fails while rotating, and the next append finds an ended line again.
\<close>

theorem Append_keeps:
  assumes "log_inv l" "ended (contents l)" "NL \<notin> set s" "log_Append (Some s) l = (l', True)"
  shows "log_inv l' \<and> ended (contents l') \<and> (\<exists>k \<le> length (lines_of (lg_old l)). all_lines l' = drop k (all_lines l) @ [s])"
  using assms by (rule Append_lines)

text \<open>A log in which two records fit, holding one that was torn by a crash.\<close>

definition small_log :: log where
  "small_log = \<lparr>lg_now = Some (''a1'' @ [NL] @ ''a2'' @ [NL]), lg_old = Some (''a0'' @ [NL]), lg_open = True, lg_size = 6, lg_max = 8, lg_faults = []\<rparr>"

theorem Append_keeps_witness:
  "\<exists>k \<le> 1. all_lines (fst (log_Append (Some ''a3'') small_log)) = drop k [''a0'', ''a1'', ''a2''] @ [''a3'']"
proof -
  have 1: "log_inv small_log" "ended (contents small_log)" "NL \<notin> set ''a3''"
    "log_Append (Some ''a3'') small_log = (fst (log_Append (Some ''a3'') small_log), True)"
    by (simp add: small_log_def log_inv_def contents_def) code_simp+
  have 2: "length (lines_of (lg_old small_log)) = 1" "all_lines small_log = [''a0'', ''a1'', ''a2'']" by code_simp+
  show ?thesis using Append_keeps[OF 1] unfolding 2 by blast
qed

text \<open>
  A write that is cut short, on a disk that was full for a moment, leaves a line that nothing ends until the
  log is opened again. The next append reports success, and its record is glued to the torn one: neither is read back.
\<close>

definition short_log :: log where
  "short_log = \<lparr>lg_now = Some (''a1'' @ [NL]), lg_old = None, lg_open = True, lg_size = 3, lg_max = 100, lg_faults = [Short 1]\<rparr>"

definition dec_a :: "string \<Rightarrow> string option" where
  "dec_a s = (if length s = 2 then Some s else None)"

lemma SplitOn_length: "w \<in> set (SplitOn sep c) \<Longrightarrow> length w \<le> length c"
proof (induction c arbitrary: w)
  case (Cons x c)
  obtain v vs where v: "SplitOn sep c = v # vs" by (cases "SplitOn sep c") auto
  then have "length v \<le> length c" "\<And>w. w \<in> set vs \<Longrightarrow> length w \<le> length c" using Cons.IH by auto
  then show ?case using Cons.prems v by (auto split: if_splits intro: le_SucI)
qed simp

lemma scanned_all: "(\<forall>w \<in> set (file_lines c). length w < maxLine) \<Longrightarrow> scanned c = (map drop_cr (file_lines c), True)"
  by (simp add: scanned_def Let_def list_all_iff takeWhile_eq_all_conv[THEN iffD2])

lemma scanned_small: "length c < maxLine \<Longrightarrow> scanned c = (map drop_cr (file_lines c), True)"
proof (rule scanned_all)
  assume "length c < maxLine"
  moreover have "set (file_lines c) \<subseteq> set (SplitOn NL c)" by (auto simp: file_lines_def Let_def dest: in_set_butlastD)
  ultimately show "\<forall>w \<in> set (file_lines c). length w < maxLine" using SplitOn_length by fastforce
qed

theorem append_after_short_write:
  "snd (log_Append (Some ''a3'') (fst (log_Append (Some ''a2'') short_log))) \<and>
   fst (ReadTail dec_a 10 (fst (log_Append (Some ''a3'') (fst (log_Append (Some ''a2'') short_log))))) = [''a1'']"
proof -
  let ?l = "fst (log_Append (Some ''a3'') (fst (log_Append (Some ''a2'') short_log)))"
  have 1: "lg_now ?l = Some (''a1'' @ [NL] @ ''aa3'' @ [NL]) \<and> lg_old ?l = None" by code_simp
  have 2: "List.map_filter dec_a (keep_newest 10 (map drop_cr (file_lines (''a1'' @ [NL] @ ''aa3'' @ [NL])))) = [''a1'']" by code_simp
  have "snd (log_Append (Some ''a3'') (fst (log_Append (Some ''a2'') short_log)))" by code_simp
  moreover have "fst (ReadTail dec_a 10 ?l) = [''a1'']" using 1 2 scanned_small[of "''a1'' @ [NL] @ ''aa3'' @ [NL]"]
    by (simp add: ReadTail_def maxLine_def del: append_Cons)
  ultimately show ?thesis ..
qed

section \<open>Appending without faults\<close>

lemma Append_works:
  assumes "lg_faults l = []" "lg_open l" "log_inv l" "ended (contents l)" "NL \<notin> set s"
  shows "\<exists>l'. log_Append (Some s) l = (l', True) \<and> lg_faults l' = [] \<and> lg_open l' \<and> log_inv l' \<and> ended (contents l') \<and> lg_max l' = lg_max l \<and>
    (if 0 < lg_max l \<and> 0 < lg_size l \<and> lg_max l < lg_size l + Suc (length s)
     then lg_old l' = lg_now l \<and> contents l' = s @ [NL] else lg_old l' = lg_old l \<and> contents l' = contents l @ s @ [NL])"
proof -
  define over where "over \<longleftrightarrow> 0 < lg_max l \<and> 0 < lg_size l \<and> lg_max l < lg_size l + length (s @ [NL])"
  obtain r rok where rot: "rotate_log l = (r, rok)" by fastforce
  note R = rotate_spec[OF rot]
  let ?l = "if over then r else l"
  obtain l' ok where w: "log_write (s @ [NL]) ?l = (l', ok)" by fastforce
  note W = log_write_spec[OF w]
  have l: "lg_open ?l" "lg_faults ?l = []" "lg_max ?l = lg_max l" using R(1,5) assms(1,2) by auto
  have ok: "ok" "lg_faults l' = []" using W(5) l by blast+
  from W(4) ok have c: "contents l' = contents ?l @ s @ [NL]" by (auto simp: min_def)
  have "log_Append (Some s) l = (if \<not> lg_open ?l then (?l, False) else log_write (s @ [NL]) ?l)"
    using assms(2) rot unfolding log_Append_def option.case Let_def over_def[symmetric] by (cases over) simp_all
  then have app: "log_Append (Some s) l = (l', True)" using w l(1) ok by simp
  have inv: "log_inv l'" "ended (contents l')" using Append_lines[OF assms(3-5) app] by blast+
  have eff: "if over then lg_old l' = lg_now l \<and> contents l' = s @ [NL] else lg_old l' = lg_old l \<and> contents l' = contents l @ s @ [NL]"
    using W(1) c R(5)[OF assms(1)] by (cases over) simp_all
  have "over \<longleftrightarrow> 0 < lg_max l \<and> 0 < lg_size l \<and> lg_max l < lg_size l + Suc (length s)" by (simp add: over_def)
  then show ?thesis using app inv W(2,3) l ok eff by metis
qed

lemma append_all_works:
  assumes "lg_faults l = []" "lg_open l" "log_inv l" "ended (contents l)" "\<forall>v \<in> set vs. \<exists>s. enc v = Some s \<and> NL \<notin> set s"
    and "(\<Sum>v \<leftarrow> vs. Suc (length (the (enc v)))) \<le> lg_max l"
  shows "\<exists>l'. append_all enc vs l = (l', True) \<and> (\<exists>k \<le> length (lines_of (lg_old l)). all_lines l' = drop k (all_lines l) @ map (the \<circ> enc) vs) \<and>
    (lg_size l + (\<Sum>v \<leftarrow> vs. Suc (length (the (enc v)))) \<le> lg_max l \<longrightarrow> all_lines l' = all_lines l @ map (the \<circ> enc) vs)"
  using assms
proof (induction vs arbitrary: l)
  case Nil
  then show ?case by (auto intro: exI[of _ 0])
next
  case (Cons v vs)
  from Cons.prems(5) obtain s where s: "enc v = Some s" "NL \<notin> set s" by auto
  let ?sum = "\<Sum>v \<leftarrow> vs. Suc (length (the (enc v)))"
  from Append_works[OF Cons.prems(1-4) s(2)] obtain l1 where l1: "log_Append (Some s) l = (l1, True)" "lg_faults l1 = []" "lg_open l1" "log_inv l1"
    "ended (contents l1)" "lg_max l1 = lg_max l" and
    new: "if 0 < lg_max l \<and> 0 < lg_size l \<and> lg_max l < lg_size l + Suc (length s)
     then lg_old l1 = lg_now l \<and> contents l1 = s @ [NL] else lg_old l1 = lg_old l \<and> contents l1 = contents l @ s @ [NL]" by blast
  have bound: "Suc (length s) + ?sum \<le> lg_max l" using Cons.prems(6) s(1) by simp
  then have rest: "?sum \<le> lg_max l1" using l1(6) by simp
  from Cons.IH[OF l1(2-5) _ rest] Cons.prems(5) obtain l' k where l': "append_all enc vs l1 = (l', True)" "k \<le> length (lines_of (lg_old l1))"
    "all_lines l' = drop k (all_lines l1) @ map (the \<circ> enc) vs"
    "lg_size l1 + ?sum \<le> lg_max l1 \<Longrightarrow> all_lines l' = all_lines l1 @ map (the \<circ> enc) vs" by auto
  have run: "append_all enc (v # vs) l = (l', True)" using s(1) l1(1) l'(1) by simp
  have size: "lg_size l1 = length (contents l1)" "lg_size l = length (contents l)" using l1(3,4) Cons.prems(2,3) by (simp_all add: log_inv_def)
  have add: "all_lines l1 = lines_of (lg_old l1) @ (if lg_old l1 = lg_old l \<and> contents l1 = contents l @ s @ [NL] then file_lines (contents l) else []) @ [s]"
    using new file_lines_append[OF Cons.prems(4) s(2)] file_lines_append[of "[]" s] s(2)
    by (auto simp: all_lines_def ended_def split: if_splits)
  show ?case
  proof (cases "0 < lg_max l \<and> 0 < lg_size l \<and> lg_max l < lg_size l + Suc (length s)")
    case True
    with new have n: "lg_old l1 = lg_now l" "contents l1 = s @ [NL]" by simp_all
    have "file_lines ([] @ s @ [NL]) = file_lines [] @ [s]" by (rule file_lines_append) (simp_all add: ended_def s(2))
    then have "all_lines l1 = drop (length (lines_of (lg_old l))) (all_lines l) @ [s]"
      by (simp add: all_lines_def n lines_of_now)
    moreover have "lg_size l1 + ?sum \<le> lg_max l1" using size(1) n(2) bound l1(6) by simp
    ultimately have "all_lines l' = drop (length (lines_of (lg_old l))) (all_lines l) @ map (the \<circ> enc) (v # vs)" using l'(4) s(1) by simp
    moreover have "\<not> lg_size l + (\<Sum>v \<leftarrow> v # vs. Suc (length (the (enc v)))) \<le> lg_max l" using True s(1) by simp
    ultimately show ?thesis using run by blast
  next
    case False
    with new have n: "lg_old l1 = lg_old l" "contents l1 = contents l @ s @ [NL]" by auto
    have al: "all_lines l1 = all_lines l @ [s]" unfolding all_lines_def n file_lines_append[OF Cons.prems(4) s(2)] by simp
    have "k \<le> length (all_lines l)" using l'(2) n(1) by (simp add: all_lines_def)
    then have "all_lines l' = drop k (all_lines l) @ map (the \<circ> enc) (v # vs)" using l'(3) al s(1) by simp
    moreover have "lg_size l + (\<Sum>v \<leftarrow> v # vs. Suc (length (the (enc v)))) \<le> lg_max l \<longrightarrow> all_lines l' = all_lines l @ map (the \<circ> enc) (v # vs)"
      using l'(4) al s(1) size n(2) l1(6) by simp
    ultimately show ?thesis using run l'(2) n(1) by auto
  qed
qed


section \<open>Release records and the next start\<close>

lemma map_of_last_isolations: "map_of (last_isolations isos) vm = find (\<lambda>i. is_vm i = vm) (rev isos)"
  by (induction isos rule: rev_induct) (auto simp: last_isolations_def update_conv')

lemma map_of_last_audits: "map_of (last_audits isos) vm = map_option is_audit (find (\<lambda>i. is_vm i = vm) (rev isos))"
  by (induction isos rule: rev_induct) (auto simp: last_audits_def update_conv')

lemma distinct_last_audits: "distinct (map fst (last_audits isos))"
  by (induction isos rule: rev_induct) (auto simp: last_audits_def distinct_update)

lemma length_last_isolations: "length (last_isolations isos) \<le> length isos"
proof -
  have "length (fold (\<lambda>i m. AList.update (is_vm i) i m) isos m) \<le> length m + length isos" for m
  proof (induction isos arbitrary: m)
    case (Cons i isos)
    have "length (AList.update (is_vm i) i m) \<le> Suc (length m)" by (induction m) auto
    then show ?case using Cons[of "AList.update (is_vm i) i m"] by simp
  qed simp
  from this[of "[]"] show ?thesis by (simp add: last_isolations_def)
qed

lemma ActiveIsolations_Nil:
  "ActiveIsolations s = [] \<longleftrightarrow> (\<forall>vm i. find (\<lambda>i. is_vm i = vm) (rev (st_isolations s)) = Some i \<longrightarrow> \<not> audit_active (is_audit i))"
proof -
  have "ActiveIsolations s = [] \<longleftrightarrow> (\<forall>vm a. map_of (last_audits (st_isolations s)) vm = Some a \<longrightarrow> \<not> audit_active a)"
    using map_of_eq_Some_iff[OF distinct_last_audits, of "st_isolations s"]
    by (fastforce simp: ActiveIsolations_def filter_empty_conv)
  then show ?thesis by (auto simp: map_of_last_audits)
qed

lemma released_inactive: "\<not> audit_active (is_audit (release_record now actor i))"
  by (simp add: release_record_def audit_active_def)

lemma find_in_set: "find P (rev xs) = Some x \<Longrightarrow> x \<in> set xs"
  by (metis find_Some_iff nth_mem set_rev)

text \<open>Whatever older records are lost, after the releases of what was active nothing is.\<close>

lemma releases_settle:
  assumes "isos = p @ q" "active = filter (\<lambda>i. audit_active (is_audit i)) (map snd (last_isolations isos))"
    and "find (\<lambda>i. is_vm i = vm) (rev (q @ map (release_record now actor) active)) = Some i"
  shows "\<not> audit_active (is_audit i)"
proof (cases "find (\<lambda>i. is_vm i = vm) (rev (map (release_record now actor) active))")
  case (Some r)
  then have "i = r" "r \<in> set (map (release_record now actor) active)"
    using assms(3) find_in_set[OF Some] by (simp_all add: find_append del: set_map rev_map)
  then show ?thesis using released_inactive by auto
next
  case None
  then have "find (\<lambda>i. is_vm i = vm) (rev q) = Some i" using assms(3) by (simp add: find_append)
  then have "map_of (last_isolations isos) vm = Some i" by (simp add: assms(1) map_of_last_isolations find_append)
  then have "i \<in> set (map snd (last_isolations isos))" by (metis image_eqI list.set_map map_of_SomeD snd_conv)
  moreover have "is_vm i = vm" using assms(3) by (auto simp: find_Some_iff)
  ultimately show ?thesis using None assms(2) by (auto simp: find_None_iff release_record_def)
qed

definition json_line :: "string \<Rightarrow> bool" where
  "json_line s \<longleftrightarrow> NL \<notin> set s \<and> s \<noteq> [] \<and> last s \<noteq> CHR 0x0D"

lemma map_filter_append: "List.map_filter f (xs @ ys) = List.map_filter f xs @ List.map_filter f ys"
  by (simp add: List.map_filter_def)

lemma map_filter_all: "(\<forall>x \<in> set xs. f x = Some (g x)) \<Longrightarrow> List.map_filter f xs = map g xs"
  by (induction xs) (simp_all add: map_filter_simps)

lemma ReadTail_lines:
  assumes "\<forall>w \<in> set (all_lines l). length w < maxLine"
  shows "ReadTail dec n l = (List.map_filter dec (keep_newest n (map drop_cr (all_lines l))), True)"
proof -
  have "(case lg_now l of None \<Rightarrow> ([], True) | Some c \<Rightarrow> scanned c) = (map drop_cr (file_lines (contents l)), True)"
    using assms scanned_all[of "contents l"] by (auto simp: all_lines_def contents_def split: option.splits)
  moreover have "(case lg_old l of None \<Rightarrow> ([], True) | Some c \<Rightarrow> scanned c) = (map drop_cr (lines_of (lg_old l)), True)"
    using assms scanned_all by (auto simp: all_lines_def lines_of_def split: option.splits)
  ultimately show ?thesis by (simp add: ReadTail_def all_lines_def)
qed

lemma ReadTail_ok: "snd (ReadTail dec n l) \<Longrightarrow> \<forall>w \<in> set (all_lines l). length w < maxLine"
  by (auto simp: ReadTail_def scanned_def Let_def all_lines_def lines_of_def contents_def list_all_iff split: option.splits)

lemma length_map_filter_le: "length (List.map_filter f xs) \<le> length xs"
  by (simp add: List.map_filter_def)

lemma OpenLog_works:
  assumes "lg_faults l = []" "OpenLog n l = (l', ok)"
  shows "ok" "lg_faults l' = []" "lg_open l'" "log_inv l'" "ended (contents l')" "lg_max l' = n" "all_lines l' = all_lines l"
    "lg_old l' = lg_old l"
  using log_open_spec[of "l\<lparr>lg_max := n, lg_open := False\<rparr>" l' ok] assms
  by (auto simp: OpenLog_def log_inv_def all_lines_def)

lemma log_Close_frame: "all_lines (fst (log_Close l)) = all_lines l"
  using next_io_frame[of l] next_io_frame[of "fst (next_io l)"]
  by (auto simp: log_Close_def all_lines_def split_beta Let_def)

lemma keep_newest_after:
  assumes "suffix xs' xs" "length rels \<le> n"
  obtains y z where "keep_newest n (xs' @ rels) = y @ rels" "keep_newest n xs = z @ y"
proof -
  let ?y = "keep_newest (n - length rels) xs'"
  have 1: "keep_newest n (xs' @ rels) = ?y @ rels" using assms(2) by (simp add: keep_newest_eq_drop)
  have "suffix ?y xs" using suffix_keep_newest assms(1) suffix_order.trans by blast
  moreover have "length ?y \<le> n" by simp
  ultimately have "suffix ?y (keep_newest n xs)"
    by (metis keep_newest_eq_drop length_keep_newest min.bounded_iff suffix_keep_newest suffix_length_suffix suffix_length_le)
  then obtain z where "keep_newest n xs = z @ ?y" by (auto simp: suffix_def)
  with 1 show thesis by (rule that)
qed

text \<open>
  C9. What \<open>-detach-all\<close> lifts stays lifted. When the isolation log can be read and written, recording the releases succeeds, and a
  daemon that then starts from what it reads back has no isolation to re-apply, also when the log rolled over
  meanwhile or ended in a torn line. Each release is to fit in 8 KiB, and is read back as it was written.
\<close>

theorem release_all_stays_released:
  assumes "lg_faults l = []" "snd (ReadTail dec MaxEvents l)" "st_isolations s0 = []"
    and "\<forall>i \<in> set (fst (ReadTail dec MaxEvents l)). \<exists>s. enc (release_record now actor i) = Some s \<and> json_line s \<and>
      Suc (length s) \<le> 8192 \<and> dec s = Some (release_record now actor i)"
  shows "\<exists>l' n. RecordReleaseAll enc dec now actor l = (l', Some n) \<and>
    ActiveIsolations (state_Restore ds (fst (ReadTail dec MaxEvents l')) recs s0) = []"
proof -
  let ?isos = "fst (ReadTail dec MaxEvents l)"
  let ?active = "filter (\<lambda>i. audit_active (is_audit i)) (map snd (last_isolations ?isos))"
  define rels where rels: "rels = map (release_record now actor) ?active"
  have lines: "\<forall>w \<in> set (all_lines l). length w < maxLine" using ReadTail_ok[OF assms(2)] .
  have isos: "?isos = List.map_filter dec (keep_newest MaxEvents (map drop_cr (all_lines l)))" by (simp add: ReadTail_lines[OF lines])
  have few: "length ?isos \<le> MaxEvents" unfolding isos by (rule order.trans[OF length_map_filter_le]) simp
  then have count: "length rels \<le> MaxEvents" unfolding rels using length_last_isolations[of ?isos] length_filter_le[of _ "map snd (last_isolations ?isos)"]
    by (metis (no_types, lifting) length_map order.trans)
  have sub: "set ?active \<subseteq> set ?isos"
  proof
    fix i assume "i \<in> set ?active"
    then obtain vm where "(vm, i) \<in> set (last_isolations ?isos)" by auto
    moreover have "set (last_isolations xs) \<subseteq> {(is_vm i, i) |i. i \<in> set xs}" for xs
    proof (induction xs rule: rev_induct)
      case (snoc x xs)
      have "set (AList.update k v m) \<subseteq> insert (k, v) (set m)" for k :: string and v :: Isolation and m by (induction m) auto
      from this[of "is_vm x" x "last_isolations xs"] snoc show ?case by (auto simp: last_isolations_def)
    qed (simp add: last_isolations_def)
    ultimately show "i \<in> set ?isos" by blast
  qed
  have enc: "\<exists>s. enc r = Some s \<and> json_line s \<and> Suc (length s) \<le> 8192 \<and> dec s = Some r" if "r \<in> set rels" for r
  proof -
    from that obtain i where "i \<in> set ?active" "r = release_record now actor i" by (auto simp: rels)
    then show ?thesis using sub assms(4) by blast
  qed
  text \<open>After any log with these lines, nothing is active.\<close>
  have settled: "ActiveIsolations (state_Restore ds (fst (ReadTail dec MaxEvents l')) recs s0) = []"
    if al: "all_lines l' = drop k (all_lines l) @ map (the \<circ> enc) rels" for k l'
  proof -
    have dec': "\<forall>w \<in> set (map (the \<circ> enc) rels). length w < maxLine \<and> drop_cr w = w"
    proof
      fix w assume "w \<in> set (map (the \<circ> enc) rels)"
      then obtain r where r: "r \<in> set rels" "w = the (enc r)" by auto
      from enc[OF r(1)] obtain s where s: "enc r = Some s" "json_line s" "Suc (length s) \<le> 8192" by blast
      then have "w = s" "length w < maxLine" using r(2) by (simp_all add: maxLine_def)
      then show "length w < maxLine \<and> drop_cr w = w" using s(2) by (simp add: json_line_def drop_cr_def)
    qed
    then have fit: "\<forall>w \<in> set (all_lines l'). length w < maxLine" using lines al by (auto dest: in_set_dropD)
    have "List.map_filter dec (map (the \<circ> enc) rels) = rels"
    proof -
      have "\<forall>r \<in> set rels. (dec \<circ> (the \<circ> enc)) r = Some (id r)"
      proof
        fix r assume "r \<in> set rels"
        from enc[OF this] show "(dec \<circ> (the \<circ> enc)) r = Some (id r)" by auto
      qed
      from map_filter_all[OF this] show ?thesis by (simp add: List.map_filter_def filter_map comp_def)
    qed
    moreover have "map drop_cr (all_lines l') = map drop_cr (drop k (all_lines l)) @ map (the \<circ> enc) rels"
      unfolding al map_append using dec' by (metis map_idI)
    moreover obtain y z where "keep_newest MaxEvents (map drop_cr (drop k (all_lines l)) @ map (the \<circ> enc) rels) = y @ map (the \<circ> enc) rels"
      "keep_newest MaxEvents (map drop_cr (all_lines l)) = z @ y"
      using keep_newest_after[of "map drop_cr (drop k (all_lines l))" "map drop_cr (all_lines l)" "map (the \<circ> enc) rels" MaxEvents] count
      by (metis drop_map length_map suffix_drop)
    ultimately have *: "fst (ReadTail dec MaxEvents l') = List.map_filter dec y @ rels" "?isos = List.map_filter dec z @ List.map_filter dec y"
      unfolding isos by (simp_all add: ReadTail_lines[OF fit] map_filter_append del: map_map)
    have "length (fst (ReadTail dec MaxEvents l')) \<le> MaxEvents"
      unfolding ReadTail_lines[OF fit] fst_conv by (rule order.trans[OF length_map_filter_le]) simp
    then have "st_isolations (state_Restore ds (fst (ReadTail dec MaxEvents l')) recs s0) = List.map_filter dec y @ rels"
      using assms(3) by (simp add: state_Restore_def *(1))
    then show ?thesis unfolding ActiveIsolations_Nil using releases_settle[OF *(2) refl] unfolding rels by metis
  qed
  show ?thesis
  proof (cases "?active = []")
    case True
    then have "RecordReleaseAll enc dec now actor l = (l, Some 0)" using assms(2) by (simp add: RecordReleaseAll_def split_beta)
    then show ?thesis using settled[of l 0] True by (auto simp: rels)
  next
    case False
    obtain l1 ok where 1: "OpenLog DefaultMaxBytes l = (l1, ok)" by fastforce
    note O = OpenLog_works[OF assms(1) 1]
    have lens: "Suc (length (the (enc r))) \<le> 8192" if "r \<in> set rels" for r using enc[OF that] by auto
    then have "(\<Sum>r \<leftarrow> rels. Suc (length (the (enc r)))) \<le> (\<Sum>r \<leftarrow> rels. 8192)" by (rule sum_list_mono)
    also have "\<dots> = 8192 * length rels" by (simp add: sum_list_triv)
    also have "\<dots> \<le> DefaultMaxBytes" using count by (simp add: DefaultMaxBytes_def MaxEvents_def)
    finally have "(\<Sum>r \<leftarrow> rels. Suc (length (the (enc r)))) \<le> lg_max l1" using O(6) by simp
    moreover have "\<forall>r \<in> set rels. \<exists>s. enc r = Some s \<and> NL \<notin> set s" using enc by (auto simp: json_line_def)
    ultimately obtain l2 k where 2: "append_all enc rels l1 = (l2, True)" "all_lines l2 = drop k (all_lines l) @ map (the \<circ> enc) rels"
      using append_all_works[OF O(2-5), of rels enc] O(7) by auto
    then have "RecordReleaseAll enc dec now actor l = (fst (log_Close l2), Some (length ?active))"
      using assms(2) 1 O(1) False by (simp add: RecordReleaseAll_def split_beta rels)
    then show ?thesis using settled[of "fst (log_Close l2)" k] 2(2) log_Close_frame by metis
  qed
qed


text \<open>An isolation of one VM, in a file that a crash left without its last newline.\<close>

definition web_isolation :: Isolation where
  "web_isolation = \<lparr>is_vm = ''web'', is_enforcement = ''tcx'', is_applied = True, is_taps = [''vnet0''], is_reason = '''',
     is_audit = \<lparr>au_ts = 1, au_actor = ''ops'', au_action = ''isolate'', au_vm = ''web'', au_result = ''applied'', au_key_id = '''',
       au_role = '''', au_label = '''', au_remote = '''', au_request_id = '''', au_op = ''''\<rparr>\<rparr>"

definition web_enc :: "Isolation \<Rightarrow> string option" where
  "web_enc i = Some (if au_action (is_audit i) = ''release'' then ''R'' else ''I'')"

definition web_dec :: "string \<Rightarrow> Isolation option" where
  "web_dec s = (if s = ''I'' then Some web_isolation else if s = ''R'' then Some (release_record 5 ''root'' web_isolation) else None)"

definition web_log :: log where
  "web_log = \<lparr>lg_now = Some ''I'', lg_old = None, lg_open = False, lg_size = 0, lg_max = 0, lg_faults = []\<rparr>"

theorem release_all_stays_released_witness:
  "fst (ReadTail web_dec MaxEvents web_log) = [web_isolation] \<and>
   (\<exists>l' n. RecordReleaseAll web_enc web_dec 5 ''root'' web_log = (l', Some n) \<and>
    ActiveIsolations (state_Restore [] (fst (ReadTail web_dec MaxEvents l')) [] state_New) = [])"
proof -
  have lines: "all_lines web_log = [''I'']" by code_simp
  have tail: "ReadTail web_dec MaxEvents web_log = ([web_isolation], True)"
    using ReadTail_lines[of web_log web_dec MaxEvents] lines
    by (simp add: maxLine_def MaxEvents_def drop_cr_def web_dec_def map_filter_simps)
  have 1: "lg_faults web_log = []" "st_isolations state_New = []" by code_simp+
  have 2: "\<forall>i \<in> set (fst (ReadTail web_dec MaxEvents web_log)). \<exists>s. web_enc (release_record 5 ''root'' i) = Some s \<and> json_line s \<and>
      Suc (length s) \<le> 8192 \<and> web_dec s = Some (release_record 5 ''root'' i)"
    by (simp add: tail web_enc_def json_line_def web_dec_def release_record_def)
  show ?thesis using release_all_stays_released[OF 1(1) _ 1(2) 2, of "[]" "[]"] tail by simp
qed

section \<open>The snapshots of a verdict\<close>

text \<open>Stored values, one after the other, and something after them that does not decode.\<close>

definition decodes :: "(string \<Rightarrow> (time \<times> nat) option) \<Rightarrow> time \<times> string \<Rightarrow> bool" where
  "decodes dec v \<longleftrightarrow> snd v \<noteq> [] \<and> (\<forall>rest. dec (snd v @ rest) = Some (fst v, length (snd v)))"

lemma scan_file_spec:
  assumes "\<forall>v \<in> set vs. decodes dec v" "dec t = None"
  shows "map fst (scan_file dec off (concat (map snd vs) @ t)) = map fst vs"
  using assms(1)
proof (induction vs arbitrary: off)
  case Nil
  then show ?case using assms(2) by (simp add: scan_file.simps)
next
  case (Cons v vs)
  then have "dec (concat (map snd (v # vs)) @ t) = Some (fst v, length (snd v))" by (simp add: decodes_def)
  then show ?case using Cons by (subst scan_file.simps) (simp add: decodes_def)
qed

text \<open>
  A torn record in the middle of the snapshot file, which \<open>OpenLog\<close> ends and appends after, hides every later
  snapshot of that file, although the log reads its other files line by line past a torn one.
\<close>

lemma torn_snapshot_hides_later:
  assumes "\<forall>v \<in> set vs. decodes dec v" "\<And>rest. dec (torn @ NL # rest) = None" "lg_old l = None"
    and "lg_now l = Some (concat (map snd vs) @ torn @ NL # later)"
  shows "map fst (rollup_scan dec l) = map fst vs"
  using scan_file_spec[OF assms(1,2), of 0 later] assms(3,4) by (simp add: rollup_scan_def comp_def split_beta)

definition greatest_le :: "time list \<Rightarrow> time \<Rightarrow> time \<Rightarrow> bool" where
  "greatest_le ats bound t \<longleftrightarrow> t \<in> set ats \<and> t \<le> bound \<and> (\<forall>u \<in> set ats. u \<le> bound \<longrightarrow> u \<le> t)"

lemma find_last:
  "find P (rev [0..<n]) = Some i \<longleftrightarrow> i < n \<and> P i \<and> (\<forall>j. i < j \<longrightarrow> j < n \<longrightarrow> \<not> P j)"
proof (induction n)
  case (Suc n)
  then show ?case by (cases "P n") (auto simp: less_Suc_eq)
qed simp

lemma find_last_None: "find P (rev [0..<n]) = None \<longleftrightarrow> (\<forall>j < n. \<not> P j)"
  by (auto simp: find_None_iff)

text \<open>
  A verdict for a past time stands on the right snapshots. Among snapshots stored in order of time, the one it uses is the newest that is not
  after the time asked about, and its base is the newest that is at least a window older; each is missing exactly when there is no such
  snapshot.
\<close>

theorem pick_newest:
  assumes "sorted ats" "0 < window"
  shows "case pick ats at window of
      None \<Rightarrow> \<forall>t \<in> set ats. at < t
    | Some (ci, bi) \<Rightarrow> ci < length ats \<and> greatest_le ats at (ats ! ci) \<and>
       (case bi of
          None \<Rightarrow> \<forall>t \<in> set ats. ats ! ci - window < t
        | Some b \<Rightarrow> b < ci \<and> greatest_le ats (ats ! ci - window) (ats ! b))"
proof (cases "find (\<lambda>i. ats ! i \<le> at) (rev [0..<length ats])")
  case None
  then have "\<forall>j < length ats. \<not> ats ! j \<le> at" by (simp only: find_last_None)
  then show ?thesis using None by (auto simp: pick_def in_set_conv_nth not_le)
next
  case (Some ci)
  then have ci: "ci < length ats" "ats ! ci \<le> at" "\<And>j. ci < j \<Longrightarrow> j < length ats \<Longrightarrow> \<not> ats ! j \<le> at" by (auto simp: find_last)
  have order: "ats ! i \<le> ats ! j" if "i \<le> j" "j < length ats" for i j using assms(1) that by (rule sorted_nth_mono)
  have cur: "greatest_le ats at (ats ! ci)"
    unfolding greatest_le_def using ci order by (auto simp: in_set_conv_nth) (metis linorder_not_less nle_le)
  let ?old = "\<lambda>i. ats ! i \<le> ats ! ci - window"
  have before: "i < ci" if "i < length ats" "?old i" for i
    using that order[of ci i] assms(2) by (cases "ci \<le> i") auto
  show ?thesis
  proof (cases "find ?old (rev [0..<ci])")
    case None
    then have "\<forall>j < ci. \<not> ?old j" by (simp only: find_last_None)
    then have "\<forall>t \<in> set ats. ats ! ci - window < t" using before by (metis in_set_conv_nth not_le)
    then show ?thesis using Some None ci(1) cur by (simp add: pick_def)
  next
    case b: (Some b)
    then have *: "b < ci" "?old b" "\<And>j. b < j \<Longrightarrow> j < ci \<Longrightarrow> \<not> ?old j" by (auto simp: find_last)
    have "greatest_le ats (ats ! ci - window) (ats ! b)"
      unfolding greatest_le_def
    proof (intro conjI ballI impI)
      show "ats ! b \<in> set ats" using *(1) ci(1) by simp
      fix u assume "u \<in> set ats" "u \<le> ats ! ci - window"
      then obtain j where j: "j < length ats" "u = ats ! j" "?old j" by (auto simp: in_set_conv_nth)
      then have "j \<le> b" using before *(3) by (meson not_less)
      then show "u \<le> ats ! b" using order[of j b] *(1) ci(1) j(2) by simp
    qed (rule *(2))
    then show ?thesis using Some b ci(1) cur *(1) by (simp add: pick_def)
  qed
qed

theorem pick_newest_witness: "pick [10, 20, 30, 40] 35 15 = Some (2, Some 0) \<and> greatest_le [10, 20, 30, 40] 35 30"
proof -
  have p: "pick [10, 20, 30, 40] 35 15 = Some (2, Some 0)" by code_simp
  have "sorted [10, 20, 30, 40 :: time]" "(0 :: duration) < 15" by simp_all
  from pick_newest[OF this, of 35] show ?thesis unfolding p by simp
qed

end
