(* ===== verification/Sink.thy ===== *)
theory Sink
  imports State Md5
begin

text \<open>
  Delivering detections, \<open>internal/sink/sink.go\<close>, \<open>webhook.go\<close> and \<open>local.go\<close>: a queue and a worker for each sink, so that
  the event path never waits; what is counted; and when a webhook is tried again. The dispatcher is a step relation
  over its operations and the workers' steps, in every interleaving. \<open>se_offered\<close>, \<open>se_done\<close> and \<open>se_lost\<close> are what the
  properties are about and no code reads: what a sink was given while the dispatcher was open, what was
  delivered or failed, and what was dropped. The HTTP client, the syslog connection and HMAC are arguments.
\<close>

section \<open>The dispatcher\<close>

definition QueueSize :: nat where
  "QueueSize = 256"

record sink_entry =
  se_name :: string
  se_q :: "event list"
  se_sending :: "event option"
  se_sent :: u64
  se_failed :: u64
  se_dropped :: u64
  se_offered :: "event list"
  se_done :: "(event \<times> bool) list"
  se_lost :: "event list"

record Dispatcher =
  dp_entries :: "sink_entry list"
  dp_closed :: bool
  dp_cancelled :: bool
  dp_finished :: bool

definition new_entry :: "string \<Rightarrow> sink_entry" where
  "new_entry name = \<lparr>se_name = name, se_q = [], se_sending = None, se_sent = 0, se_failed = 0, se_dropped = 0,
     se_offered = [], se_done = [], se_lost = []\<rparr>"

definition NewDispatcher :: "string list \<Rightarrow> Dispatcher" where
  "NewDispatcher names = \<lparr>dp_entries = map new_entry names, dp_closed = False, dp_cancelled = False, dp_finished = False\<rparr>"

text \<open>A send to the channel that does not wait.\<close>

definition offer :: "event \<Rightarrow> sink_entry \<Rightarrow> sink_entry" where
  "offer e en =
     (let en = en\<lparr>se_offered := se_offered en @ [e]\<rparr>
      in if length (se_q en) < QueueSize then en\<lparr>se_q := se_q en @ [e]\<rparr>
         else en\<lparr>se_dropped := se_dropped en + 1, se_lost := se_lost en @ [e]\<rparr>)"

definition Emit :: "event \<Rightarrow> Dispatcher \<Rightarrow> Dispatcher" where
  "Emit e d = (if dp_closed d then d else d\<lparr>dp_entries := map (offer e) (dp_entries d)\<rparr>)"

text \<open>A worker takes an event off its queue, and later the sink answers.\<close>

definition worker_takes :: "sink_entry \<Rightarrow> sink_entry option" where
  "worker_takes en = (case (se_sending en, se_q en) of
      (None, e # rest) \<Rightarrow> Some (en\<lparr>se_q := rest, se_sending := Some e\<rparr>)
    | _ \<Rightarrow> None)"

definition worker_done :: "bool \<Rightarrow> sink_entry \<Rightarrow> sink_entry option" where
  "worker_done ok en = (case se_sending en of
      None \<Rightarrow> None
    | Some e \<Rightarrow>
       (let en = en\<lparr>se_sending := None, se_done := se_done en @ [(e, ok)]\<rparr>
        in Some (if ok then en\<lparr>se_sent := se_sent en + 1\<rparr> else en\<lparr>se_failed := se_failed en + 1\<rparr>)))"

definition on_entry :: "nat \<Rightarrow> sink_entry \<Rightarrow> Dispatcher \<Rightarrow> Dispatcher" where
  "on_entry i en d = d\<lparr>dp_entries := (dp_entries d)[i := en]\<rparr>"

text \<open>The worker of a closed channel ends when its queue is empty and it is not sending.\<close>

definition worker_ended :: "Dispatcher \<Rightarrow> sink_entry \<Rightarrow> bool" where
  "worker_ended d en \<longleftrightarrow> dp_closed d \<and> se_q en = [] \<and> se_sending en = None"

inductive dispatch :: "Dispatcher \<Rightarrow> Dispatcher \<Rightarrow> bool" where
  emit: "dispatch d (Emit e d)"
| takes: "\<lbrakk>i < length (dp_entries d); worker_takes (dp_entries d ! i) = Some en\<rbrakk> \<Longrightarrow> dispatch d (on_entry i en d)"
| answers: "\<lbrakk>i < length (dp_entries d); worker_done ok (dp_entries d ! i) = Some en\<rbrakk> \<Longrightarrow> dispatch d (on_entry i en d)"
| close: "dispatch d (d\<lparr>dp_closed := True\<rparr>)"
| grace_over: "dp_closed d \<Longrightarrow> dispatch d (d\<lparr>dp_cancelled := True\<rparr>)"
| closes_sinks: "\<lbrakk>dp_closed d; \<forall>en \<in> set (dp_entries d). worker_ended d en\<rbrakk> \<Longrightarrow> dispatch d (d\<lparr>dp_cancelled := True, dp_finished := True\<rparr>)"

definition Stats :: "Dispatcher \<Rightarrow> (string \<times> u64 \<times> u64 \<times> u64) list" where
  "Stats d = map (\<lambda>en. (se_name en, se_sent en, se_failed en, se_dropped en)) (dp_entries d)"

section \<open>One sink's account\<close>

abbreviation in_hand :: "sink_entry \<Rightarrow> event list" where
  "in_hand en \<equiv> (case se_sending en of None \<Rightarrow> [] | Some e \<Rightarrow> [e])"

definition entry_inv :: "sink_entry \<Rightarrow> bool" where
  "entry_inv en \<longleftrightarrow> length (se_q en) \<le> QueueSize \<and>
     mset (se_offered en) = mset (map fst (se_done en)) + mset (in_hand en) + mset (se_q en) + mset (se_lost en) \<and>
     subseq (map fst (se_done en) @ in_hand en @ se_q en) (se_offered en) \<and>
     se_sent en = of_nat (length (filter snd (se_done en))) \<and> se_failed en = of_nat (length (filter (\<lambda>x. \<not> snd x) (se_done en))) \<and>
     se_dropped en = of_nat (length (se_lost en))"

lemma entry_inv_new: "entry_inv (new_entry n)"
  by (simp add: entry_inv_def new_entry_def)

lemma entry_inv_offer: "entry_inv en \<Longrightarrow> entry_inv (offer e en)"
proof -
  assume inv: "entry_inv en"
  have "subseq (map fst (se_done en) @ in_hand en @ se_q en @ [e]) (se_offered en @ [e])"
    using inv list_emb_append_mono[of "(=)" "map fst (se_done en) @ in_hand en @ se_q en" "se_offered en" "[e]" "[e]"]
    by (simp add: entry_inv_def)
  then show ?thesis using inv
    by (auto simp: entry_inv_def offer_def Let_def intro: list_emb_append2)
qed

lemma entry_inv_takes: "entry_inv en \<Longrightarrow> worker_takes en = Some en' \<Longrightarrow> entry_inv en'"
  by (auto simp: entry_inv_def worker_takes_def split: option.splits list.splits)

lemma entry_inv_done: "entry_inv en \<Longrightarrow> worker_done ok en = Some en' \<Longrightarrow> entry_inv en'"
  by (cases ok) (auto simp: entry_inv_def worker_done_def Let_def split: option.splits)

lemma worker_offered: "worker_takes en = Some en' \<Longrightarrow> se_offered en' = se_offered en" "worker_done ok en = Some en' \<Longrightarrow> se_offered en' = se_offered en"
  by (auto simp: worker_takes_def worker_done_def Let_def split: option.splits list.splits if_splits)

definition dispatcher_inv :: "Dispatcher \<Rightarrow> bool" where
  "dispatcher_inv d \<longleftrightarrow> (\<forall>en \<in> set (dp_entries d). entry_inv en) \<and>
     (dp_finished d \<longrightarrow> dp_closed d \<and> (\<forall>en \<in> set (dp_entries d). se_q en = [] \<and> se_sending en = None)) \<and>
     (\<exists>given. \<forall>en \<in> set (dp_entries d). se_offered en = given)"

lemma dispatcher_inv_worker:
  assumes "dispatcher_inv d" "i < length (dp_entries d)" "entry_inv en" "se_offered en = se_offered (dp_entries d ! i)"
    and "se_q (dp_entries d ! i) \<noteq> [] \<or> se_sending (dp_entries d ! i) \<noteq> None"
  shows "dispatcher_inv (on_entry i en d)"
proof -
  have *: "\<not> dp_finished d" using assms(1,2,5) nth_mem[OF assms(2)] by (auto simp: dispatcher_inv_def)
  have sub: "set ((dp_entries d)[i := en]) \<subseteq> insert en (set (dp_entries d))" by (rule set_update_subset_insert)
  obtain given where given: "\<forall>en \<in> set (dp_entries d). se_offered en = given" using assms(1) by (auto simp: dispatcher_inv_def)
  have "\<forall>a \<in> set ((dp_entries d)[i := en]). entry_inv a" using sub assms(1,3) unfolding dispatcher_inv_def by blast
  moreover have "\<forall>a \<in> set ((dp_entries d)[i := en]). se_offered a = given"
    using sub given assms(4) nth_mem[OF assms(2)] by (metis insertE subsetD)
  ultimately show ?thesis using * by (auto simp: dispatcher_inv_def on_entry_def)
qed

lemma offer_offered [simp]: "se_offered (offer e en) = se_offered en @ [e]"
  by (simp add: offer_def Let_def)

lemma dispatcher_inv_step: "dispatch d d' \<Longrightarrow> dispatcher_inv d \<Longrightarrow> dispatcher_inv d'"
proof (induction rule: dispatch.induct)
  case (emit d e)
  show ?case
  proof (cases "dp_closed d")
    case False
    then have "\<not> dp_finished d" using emit by (auto simp: dispatcher_inv_def)
    moreover obtain given where given: "\<forall>en \<in> set (dp_entries d). se_offered en = given" using emit by (auto simp: dispatcher_inv_def)
    ultimately have "\<forall>en \<in> set (dp_entries (Emit e d)). entry_inv en \<and> se_offered en = given @ [e]" "\<not> dp_finished (Emit e d)"
      using False emit entry_inv_offer by (auto simp: Emit_def dispatcher_inv_def)
    then show ?thesis unfolding dispatcher_inv_def by blast
  qed (simp add: Emit_def emit)
next
  case (takes i d en)
  have "entry_inv (dp_entries d ! i)" using takes nth_mem by (auto simp: dispatcher_inv_def)
  then show ?case using takes entry_inv_takes worker_offered(1)
    by (intro dispatcher_inv_worker) (auto simp: worker_takes_def split: option.splits list.splits)
next
  case (answers i d ok en)
  have "entry_inv (dp_entries d ! i)" using answers nth_mem by (auto simp: dispatcher_inv_def)
  then show ?case using answers entry_inv_done worker_offered(2)
    by (intro dispatcher_inv_worker) (auto simp: worker_done_def split: option.splits)
qed (auto simp: dispatcher_inv_def worker_ended_def)

lemma dispatcher_inv_run: "dispatch\<^sup>*\<^sup>* (NewDispatcher names) d \<Longrightarrow> dispatcher_inv d"
proof (induction rule: rtranclp_induct)
  case base
  then show ?case by (auto simp: NewDispatcher_def dispatcher_inv_def entry_inv_new) (simp add: new_entry_def)
qed (rule dispatcher_inv_step)


definition one_alert :: event where
  "one_alert = zero_event\<lparr>ev_kind := KindDetection, ev_rule := ''metadata''\<rparr>"



section \<open>A stuck sink delays no other\<close>

lemma on_entry_frame [simp]:
  "dp_entries (on_entry i en d) = (dp_entries d)[i := en]" "dp_closed (on_entry i en d) = dp_closed d"
  "on_entry i en' (on_entry i en d) = on_entry i en' d"
  by (simp_all add: on_entry_def)

definition delivered :: "event list \<Rightarrow> sink_entry \<Rightarrow> sink_entry" where
  "delivered es en = en\<lparr>se_q := [], se_sending := None, se_sent := se_sent en + of_nat (length es), se_done := se_done en @ map (\<lambda>e. (e, True)) es\<rparr>"

lemma deliver_hand:
  assumes "i < length (dp_entries d)" "dp_entries d ! i = en" "se_sending en = Some e"
  shows "dispatch d (on_entry i (en\<lparr>se_sending := None, se_done := se_done en @ [(e, True)], se_sent := se_sent en + 1\<rparr>) d)"
  using assms by (intro dispatch.answers[where ok = True]) (simp_all add: worker_done_def Let_def)

lemma deliver_queue:
  assumes "i < length (dp_entries d)" "dp_entries d ! i = en" "se_sending en = None"
  shows "dispatch\<^sup>*\<^sup>* d (on_entry i (delivered (se_q en) en) d)"
  using assms
proof (induction "se_q en" arbitrary: d en)
  case Nil
  have "delivered (se_q en) en = en" using Nil(1)[symmetric] Nil.prems(3) by (simp add: delivered_def)
  moreover have "on_entry i en d = d" using Nil.prems(2) by (metis on_entry_def list_update_id Dispatcher.surjective Dispatcher.update_convs(1))
  ultimately show ?case by simp
next
  case (Cons e rest)
  let ?a = "en\<lparr>se_q := rest, se_sending := Some e\<rparr>"
  let ?b = "?a\<lparr>se_sending := None, se_done := se_done ?a @ [(e, True)], se_sent := se_sent ?a + 1\<rparr>"
  have 1: "dispatch d (on_entry i ?a d)"
    using Cons.prems Cons(2)[symmetric] by (intro dispatch.takes) (simp_all add: worker_takes_def)
  have 2: "dispatch (on_entry i ?a d) (on_entry i ?b d)"
    using deliver_hand[of i "on_entry i ?a d" ?a e] Cons.prems(1) by simp
  have 3: "dispatch\<^sup>*\<^sup>* (on_entry i ?b d) (on_entry i (delivered (se_q ?b) ?b) (on_entry i ?b d))"
    using Cons.prems(1) by (intro Cons.hyps(1)) simp_all
  have "delivered (se_q ?b) ?b = delivered (se_q en) en" using Cons(2)[symmetric] by (simp add: delivered_def)
  then have "dispatch\<^sup>*\<^sup>* (on_entry i ?b d) (on_entry i (delivered (se_q en) en) d)" using 3 unfolding on_entry_frame by simp
  then show ?case using 1 2 by (meson converse_rtranclp_into_rtranclp)
qed



section \<open>The webhook\<close>

datatype reply = NetError | Status nat

text \<open>One attempt: whether the context ended during the pause before it, what came back, and whether the context had ended by then.\<close>

record attempt =
  at_stopped :: bool
  at_reply :: reply
  at_ended :: bool

definition webhook_tries :: nat where
  "webhook_tries = 3"

definition webhook_pause :: "nat \<Rightarrow> duration" where
  "webhook_pause i = 500 * 1000000 * 2 ^ (i - 1)"

text \<open>What \<open>post\<close> makes of an answer: whether to try again, and the error.\<close>

definition post :: "attempt \<Rightarrow> bool \<times> string option" where
  "post a = (case at_reply a of
      NetError \<Rightarrow> (\<not> at_ended a, Some ''no answer'')
    | Status c \<Rightarrow>
       (if 200 \<le> c \<and> c < 300 then (False, None)
        else if c = 429 \<or> 500 \<le> c then (True, Some (''status '' @ nat_digits c))
        else (False, Some (''status '' @ nat_digits c))))"

text \<open>The loop of \<open>Send\<close> over the attempts still to come, and how many requests were sent.\<close>

fun send_loop :: "(nat \<Rightarrow> attempt) \<Rightarrow> nat \<Rightarrow> nat \<Rightarrow> string \<Rightarrow> string option \<times> nat" where
  "send_loop att i 0 last' = (Some (''gave up after '' @ nat_digits i @ '' attempts: '' @ last'), i)"
| "send_loop att i (Suc k) last' =
     (if 0 < i \<and> at_stopped (att i) then (Some last', i)
      else case post (att i) of
        (_, None) \<Rightarrow> (None, Suc i)
      | (retry, Some err) \<Rightarrow> if \<not> retry then (Some err, Suc i) else send_loop att (Suc i) k err)"

definition webhook_Send :: "(nat \<Rightarrow> attempt) \<Rightarrow> string option \<Rightarrow> string option \<times> nat" where
  "webhook_Send att body = (case body of None \<Rightarrow> (Some ''json'', 0) | Some _ \<Rightarrow> send_loop att 0 webhook_tries '''')"

text \<open>The URL is parsed by \<open>net/url\<close>: its scheme and host, or an error.\<close>

definition NewWebhook :: "(string \<times> string) option \<Rightarrow> bool" where
  "NewWebhook u = (case u of None \<Rightarrow> False | Some (scheme, host) \<Rightarrow> (scheme = ''http'' \<or> scheme = ''https'') \<and> host \<noteq> '''')"

definition signed_text :: "int \<Rightarrow> string \<Rightarrow> string" where
  "signed_text ts body = Itoa ts @ ''.'' @ body"

definition Sign :: "(string \<Rightarrow> string \<Rightarrow> bytes) \<Rightarrow> string \<Rightarrow> int \<Rightarrow> string \<Rightarrow> string" where
  "Sign hmac secret ts body = ''sha256='' @ hex_Encode (hmac secret (signed_text ts body))"

definition tried_again :: "attempt \<Rightarrow> bool" where
  "tried_again a \<longleftrightarrow> (case at_reply a of NetError \<Rightarrow> \<not> at_ended a | Status c \<Rightarrow> c = 429 \<or> 500 \<le> c)"

definition accepted :: "attempt \<Rightarrow> bool" where
  "accepted a \<longleftrightarrow> (case at_reply a of NetError \<Rightarrow> False | Status c \<Rightarrow> 200 \<le> c \<and> c < 300)"

lemma post_cases:
  "accepted a \<Longrightarrow> post a = (False, None)" "tried_again a \<Longrightarrow> \<not> accepted a \<and> (\<exists>e. post a = (True, Some e))"
  "\<not> accepted a \<Longrightarrow> \<not> tried_again a \<Longrightarrow> \<exists>e. post a = (False, Some e)"
  by (auto simp: accepted_def tried_again_def post_def split: reply.splits if_splits)

lemma send_loop_spec:
  "(fst (send_loop att i k e) = None \<longleftrightarrow>
     (\<exists>n \<ge> i. n < i + k \<and> accepted (att n) \<and> (\<forall>j. i \<le> j \<longrightarrow> j < n \<longrightarrow> tried_again (att j)) \<and> (\<forall>j. i \<le> j \<longrightarrow> j \<le> n \<longrightarrow> 0 < j \<longrightarrow> \<not> at_stopped (att j)))) \<and>
   snd (send_loop att i k e) \<le> i + k \<and>
   (\<forall>j. i \<le> j \<longrightarrow> Suc j < snd (send_loop att i k e) \<longrightarrow> tried_again (att j))"
proof (induction k arbitrary: i e)
  case (Suc k)
  consider (stop) "0 < i" "at_stopped (att i)" | (ok) "\<not> (0 < i \<and> at_stopped (att i))" "accepted (att i)"
    | (again) "\<not> (0 < i \<and> at_stopped (att i))" "tried_again (att i)" | (final) "\<not> (0 < i \<and> at_stopped (att i))" "\<not> accepted (att i)" "\<not> tried_again (att i)"
    by blast
  then show ?case
  proof cases
    case stop
    then show ?thesis by auto
  next
    case ok
    then show ?thesis using post_cases(1)[OF ok(2)] by (auto intro!: exI[of _ i])
  next
    case again
    from post_cases(2)[OF again(2)] obtain err where err: "\<not> accepted (att i)" "post (att i) = (True, Some err)" by blast
    then have step: "send_loop att i (Suc k) e = send_loop att (Suc i) k err" using again(1) by (simp only: send_loop.simps if_False) simp
    have "(\<exists>n \<ge> i. n < i + Suc k \<and> accepted (att n) \<and> (\<forall>j. i \<le> j \<longrightarrow> j < n \<longrightarrow> tried_again (att j)) \<and> (\<forall>j. i \<le> j \<longrightarrow> j \<le> n \<longrightarrow> 0 < j \<longrightarrow> \<not> at_stopped (att j))) \<longleftrightarrow>
      (\<exists>n \<ge> Suc i. n < Suc i + k \<and> accepted (att n) \<and> (\<forall>j. Suc i \<le> j \<longrightarrow> j < n \<longrightarrow> tried_again (att j)) \<and> (\<forall>j. Suc i \<le> j \<longrightarrow> j \<le> n \<longrightarrow> 0 < j \<longrightarrow> \<not> at_stopped (att j)))"
      (is "?l \<longleftrightarrow> ?r")
    proof
      assume ?l
      then obtain n where n: "i \<le> n" "n < i + Suc k" "accepted (att n)" "\<forall>j. i \<le> j \<longrightarrow> j < n \<longrightarrow> tried_again (att j)"
        "\<forall>j. i \<le> j \<longrightarrow> j \<le> n \<longrightarrow> 0 < j \<longrightarrow> \<not> at_stopped (att j)" by blast
      then have "n \<noteq> i" using err(1) by auto
      then show ?r using n by (intro exI[of _ n]) auto
    next
      assume ?r
      then obtain n where n: "Suc i \<le> n" "n < Suc i + k" "accepted (att n)" "\<forall>j. Suc i \<le> j \<longrightarrow> j < n \<longrightarrow> tried_again (att j)"
        "\<forall>j. Suc i \<le> j \<longrightarrow> j \<le> n \<longrightarrow> 0 < j \<longrightarrow> \<not> at_stopped (att j)" by blast
      have "tried_again (att j)" if "i \<le> j" "j < n" for j using that n(4) again(2) by (cases "j = i") auto
      moreover have "\<not> at_stopped (att j)" if "i \<le> j" "j \<le> n" "0 < j" for j using that n(5) again(1) by (cases "j = i") auto
      ultimately show ?l using n(1-3) by (intro exI[of _ n]) auto
    qed
    moreover have "tried_again (att j)" if "i \<le> j" "Suc j < snd (send_loop att (Suc i) k err)" for j
      using that Suc[of "Suc i" err] again(2) by (cases "j = i") auto
    ultimately show ?thesis unfolding step using Suc[of "Suc i" err] by simp
  next
    case final
    from post_cases(3)[OF final(2,3)] obtain err where "post (att i) = (False, Some err)" by blast
    then show ?thesis using final by (auto simp: le_less)
  qed
qed auto

text \<open>
  When a webhook is tried again. \<open>Send\<close> succeeds exactly when one of its three attempts is answered with a 2xx status after attempts that were each worth
  repeating (no answer, 429 or 5xx), with the context still open at each pause; no request follows an answer that is final, and there are
  at most three.
\<close>

theorem webhook_Send_exact:
  "(fst (webhook_Send att (Some body)) = None \<longleftrightarrow>
     (\<exists>n < 3. accepted (att n) \<and> (\<forall>j < n. tried_again (att j)) \<and> (\<forall>j. 0 < j \<longrightarrow> j \<le> n \<longrightarrow> \<not> at_stopped (att j)))) \<and>
   snd (webhook_Send att (Some body)) \<le> 3 \<and>
   (\<forall>j. Suc j < snd (webhook_Send att (Some body)) \<longrightarrow> tried_again (att j))"
  using send_loop_spec[of att 0 3 "''''"] by (auto simp: webhook_Send_def webhook_tries_def)

text \<open>The signature is over the time and the body, and what is signed determines both: neither can be changed without the other's change showing.\<close>

lemma signed_text_determines:
  assumes "signed_text t b = signed_text t' b'" "0 \<le> t" "t < 2 ^ 63" "0 \<le> t'" "t' < 2 ^ 63"
  shows "t = t' \<and> b = b'"
proof -
  have dot: "CHR ''.'' \<notin> set (Itoa x)" if "0 \<le> x" for x using Itoa_no_sep[OF that] by blast
  have "takeWhile (\<lambda>c. c \<noteq> CHR ''.'') (signed_text x c) = Itoa x" if "0 \<le> x" for x c
    using dot[OF that] by (simp add: signed_text_def takeWhile_append takeWhile_eq_all_conv[THEN iffD2])
  from this[of t b] this[of t' b'] have i: "Itoa t = Itoa t'" using assms(1,2,4) by simp
  have "Some t = Some t'" using Atoi_Itoa[OF assms(2,3)] Atoi_Itoa[OF assms(4,5)] unfolding i by (rule subst)
  moreover have "b = b'" using assms(1) i by (simp add: signed_text_def)
  ultimately show ?thesis by simp
qed

section \<open>Syslog\<close>

datatype priority = Crit | Err | Notice | Warning

definition syslog_priority :: "event \<Rightarrow> priority" where
  "syslog_priority e =
     (if ev_severity e = ''critical'' then Crit else if ev_severity e = ''high'' then Err
      else if ev_severity e = ''low'' then Notice else Warning)"

end
