(* ===== verification/Drops.thy ===== *)
theory Drops
  imports AggregateProps "HOL-Library.Product_Lexorder" "HOL-Library.List_Lexorder"
begin

text \<open>
  What happened to packets on a VM's taps, \<open>internal/state/drops.go\<close>, \<open>outcomes.go\<close> and the tap rows of \<open>enforce.go\<close>:
  whose drops the kernel's are, and what became of TCP handshakes, over the daemon's lifetime or between two
  readings. What the sources answer now is an argument, read once per operation.
\<close>

section \<open>Handshakes\<close>

record Outcomes =
  oc_out_syn :: u64
  oc_out_ok :: u64
  oc_out_refused :: u64
  oc_out_timeout :: u64
  oc_out_retrans :: u64
  oc_out_blocked :: u64
  oc_in_syn :: u64
  oc_in_ok :: u64
  oc_in_refused :: u64
  oc_in_ignored :: u64
  oc_in_retrans :: u64
  oc_in_blocked :: u64

definition no_outcomes :: Outcomes where
  "no_outcomes = \<lparr>oc_out_syn = 0, oc_out_ok = 0, oc_out_refused = 0, oc_out_timeout = 0, oc_out_retrans = 0, oc_out_blocked = 0,
     oc_in_syn = 0, oc_in_ok = 0, oc_in_refused = 0, oc_in_ignored = 0, oc_in_retrans = 0, oc_in_blocked = 0\<rparr>"

definition subOrAll :: "u64 \<Rightarrow> u64 \<Rightarrow> u64" where
  "subOrAll cur old = (if cur < old then cur else cur - old)"

definition subOutcomes :: "Outcomes \<Rightarrow> Outcomes \<Rightarrow> Outcomes" where
  "subOutcomes cur old = \<lparr>
     oc_out_syn = subOrAll (oc_out_syn cur) (oc_out_syn old), oc_out_ok = subOrAll (oc_out_ok cur) (oc_out_ok old),
     oc_out_refused = subOrAll (oc_out_refused cur) (oc_out_refused old), oc_out_timeout = subOrAll (oc_out_timeout cur) (oc_out_timeout old),
     oc_out_retrans = subOrAll (oc_out_retrans cur) (oc_out_retrans old), oc_out_blocked = subOrAll (oc_out_blocked cur) (oc_out_blocked old),
     oc_in_syn = subOrAll (oc_in_syn cur) (oc_in_syn old), oc_in_ok = subOrAll (oc_in_ok cur) (oc_in_ok old),
     oc_in_refused = subOrAll (oc_in_refused cur) (oc_in_refused old), oc_in_ignored = subOrAll (oc_in_ignored cur) (oc_in_ignored old),
     oc_in_retrans = subOrAll (oc_in_retrans cur) (oc_in_retrans old), oc_in_blocked = subOrAll (oc_in_blocked cur) (oc_in_blocked old)\<rparr>"

definition addOutcomes :: "Outcomes \<Rightarrow> Outcomes \<Rightarrow> Outcomes" where
  "addOutcomes a b = \<lparr>
     oc_out_syn = oc_out_syn a + oc_out_syn b, oc_out_ok = oc_out_ok a + oc_out_ok b, oc_out_refused = oc_out_refused a + oc_out_refused b,
     oc_out_timeout = oc_out_timeout a + oc_out_timeout b, oc_out_retrans = oc_out_retrans a + oc_out_retrans b,
     oc_out_blocked = oc_out_blocked a + oc_out_blocked b, oc_in_syn = oc_in_syn a + oc_in_syn b, oc_in_ok = oc_in_ok a + oc_in_ok b,
     oc_in_refused = oc_in_refused a + oc_in_refused b, oc_in_ignored = oc_in_ignored a + oc_in_ignored b,
     oc_in_retrans = oc_in_retrans a + oc_in_retrans b, oc_in_blocked = oc_in_blocked a + oc_in_blocked b\<rparr>"

definition connectFloor :: u64 where
  "connectFloor = 10"

text \<open>Whether most of the finished connections failed: at least half of them, compared as the code does, in floating point.\<close>

definition connectFailing :: "Outcomes \<Rightarrow> string option" where
  "connectFailing o' =
     (let failed = oc_out_refused o' + oc_out_timeout o'; finished = oc_out_ok o' + failed; dec = (\<lambda>w. Itoa (uint (w :: u64)))
      in if finished < connectFloor \<or> float64 failed < rnd (1 / 2 * float64 finished) then None
         else Some (dec failed @ '' of '' @ dec finished @ '' finished connections failed: '' @ dec (oc_out_refused o')
           @ '' refused, '' @ dec (oc_out_timeout o') @ '' never answered''))"

section \<open>Readings\<close>

record TapStat =
  ts_name :: string
  ts_from_pkts :: u64
  ts_from_bytes :: u64
  ts_to_pkts :: u64
  ts_to_bytes :: u64
  ts_dropped_pkts :: u64
  ts_dropped_bytes :: u64
  ts_isolated :: bool
  ts_outcomes :: Outcomes
  ts_handshakes :: hist

record TapRow =
  tw_vm :: string
  tw_stat :: TapStat
  tw_p50 :: u64
  tw_p99 :: u64

record DropStat =
  ds_tap :: string
  ds_reason :: string
  ds_count :: u64
  ds_location :: string

record dropSnap =
  dn_reasons :: "(string, u64) gomap"
  dn_shukra :: u64

record DropReason =
  dr_reason :: string
  dr_count :: u64

record DropRow =
  dw_vm :: string
  dw_tap :: string
  dw_reason :: string
  dw_count :: u64
  dw_location :: string

record DropTap =
  dt_vm :: string
  dt_tap :: string
  dt_kernel :: u64
  dt_shukra :: u64
  dt_other :: u64
  dt_queue_full :: u64
  dt_reasons :: "DropReason list"

text \<open>Which VM owns a tap; the last one that lists it.\<close>

definition tap_owners :: "vm_info list \<Rightarrow> (string, string) gomap" where
  "tap_owners vms = fold (\<lambda>v m. fold (\<lambda>t m. AList.update t (id_name v) m) (id_taps v) m) vms []"

definition Taps :: "vm_info list \<Rightarrow> TapStat list option \<Rightarrow> string \<Rightarrow> TapRow list option" where
  "Taps vms src only = map_option (List.map_filter (\<lambda>t. case map_of (tap_owners vms) (ts_name t) of
      None \<Rightarrow> None
    | Some name \<Rightarrow> if only \<noteq> '''' \<and> name \<noteq> only then None
        else Some \<lparr>tw_vm = name, tw_stat = t, tw_p50 = Percentile (ts_handshakes t) 50, tw_p99 = Percentile (ts_handshakes t) 99\<rparr>)) src"

definition program_attached :: "program list \<Rightarrow> string \<Rightarrow> bool" where
  "program_attached ps name = (case find (\<lambda>p. pr_name p = name) ps of None \<Rightarrow> False | Some p \<Rightarrow> pr_status p = ''attached'')"

section \<open>Whose drops they are\<close>

definition isTC :: "string \<Rightarrow> bool" where
  "isTC reason \<longleftrightarrow> reason = ''TC_INGRESS'' \<or> reason = ''TC_EGRESS''"

text \<open>What Shukra dropped since the daemon first looked, with the base it counts from.\<close>

fun sinceStart :: "TapStat list \<Rightarrow> (string, u64) gomap \<Rightarrow> (string, u64) gomap \<times> TapStat list" where
  "sinceStart [] bases = (bases, [])"
| "sinceStart (t # ts) bases =
     (let base = (case map_of bases (ts_name t) of None \<Rightarrow> ts_dropped_pkts t | Some b \<Rightarrow> if ts_dropped_pkts t < b then 0 else b);
          (bases', out) = sinceStart ts (AList.update (ts_name t) base bases)
      in (bases', t\<lparr>ts_dropped_pkts := ts_dropped_pkts t - base\<rparr> # out))"

definition add_drop :: "DropStat \<Rightarrow> (string, dropSnap) gomap \<Rightarrow> (string, dropSnap) gomap" where
  "add_drop d out =
     (let sn = (case map_of out (ds_tap d) of None \<Rightarrow> \<lparr>dn_reasons = [], dn_shukra = 0\<rparr> | Some sn \<Rightarrow> sn);
          n = (case map_of (dn_reasons sn) (ds_reason d) of None \<Rightarrow> 0 | Some n \<Rightarrow> n)
      in AList.update (ds_tap d) (sn\<lparr>dn_reasons := AList.update (ds_reason d) (n + ds_count d) (dn_reasons sn)\<rparr>) out)"

definition snapsFrom :: "TapStat list \<Rightarrow> DropStat list \<Rightarrow> (string, dropSnap) gomap" where
  "snapsFrom taps drops =
     fold add_drop drops (fold (\<lambda>t out. AList.update (ts_name t) \<lparr>dn_reasons = [], dn_shukra = ts_dropped_pkts t\<rparr> out) taps [])"

text \<open>One tap of \<open>joinTaps\<close>.\<close>

definition drop_tap :: "string \<Rightarrow> string \<Rightarrow> dropSnap \<Rightarrow> DropTap" where
  "drop_tap name tap sn =
     (let rs = filter (\<lambda>(r, n). n \<noteq> 0) (dn_reasons sn);
          total = sum_list (map snd rs); tc = sum_list (map snd (filter (\<lambda>(r, n). isTC r) rs));
          explained = min (dn_shukra sn) tc;
          full = (case map_of (dn_reasons sn) ''FULL_RING'' of None \<Rightarrow> 0 | Some n \<Rightarrow> n);
          other = total - explained
      in \<lparr>dt_vm = name, dt_tap = tap, dt_kernel = total, dt_shukra = dn_shukra sn, dt_other = other - min other full, dt_queue_full = full,
          dt_reasons = sort_key (\<lambda>r. (- uint (dr_count r), dr_reason r)) (map (\<lambda>(r, n). \<lparr>dr_reason = r, dr_count = n\<rparr>) rs)\<rparr>)"

definition joinTaps :: "vm_info list \<Rightarrow> (string, dropSnap) gomap \<Rightarrow> string \<Rightarrow> DropTap list" where
  "joinTaps vms snaps only = sort_key (\<lambda>d. (dt_vm d, dt_tap d)) (List.map_filter (\<lambda>(tap, sn). case map_of (tap_owners vms) tap of
      None \<Rightarrow> None
    | Some name \<Rightarrow> if only \<noteq> '''' \<and> name \<noteq> only then None else Some (drop_tap name tap sn)) snaps)"

definition subSnap :: "dropSnap \<Rightarrow> dropSnap \<Rightarrow> dropSnap" where
  "subSnap c o' = \<lparr>dn_reasons = map (\<lambda>(r, n). (r, subOrAll n (case map_of (dn_reasons o') r of None \<Rightarrow> 0 | Some m \<Rightarrow> m))) (dn_reasons c),
     dn_shukra = subOrAll (dn_shukra c) (dn_shukra o')\<rparr>"

definition subSnaps :: "(string, dropSnap) gomap \<Rightarrow> (string, dropSnap) gomap \<Rightarrow> (string, dropSnap) gomap" where
  "subSnaps cur old = map (\<lambda>(tap, c). (tap, subSnap c (case map_of old tap of None \<Rightarrow> \<lparr>dn_reasons = [], dn_shukra = 0\<rparr> | Some o' \<Rightarrow> o'))) cur"

text \<open>\<open>Drops\<close>: a row for each reason, by VM, tap and count, and the summary of each tap. What was not asked for, or is not measured, is \<open>None\<close>.
  \<open>sort.Slice\<close> may leave rows that compare equal in any order; here they keep theirs.\<close>

definition drop_rows :: "vm_info list \<Rightarrow> DropStat list \<Rightarrow> string \<Rightarrow> DropRow list" where
  "drop_rows vms drops only = sort_key (\<lambda>r. (dw_vm r, dw_tap r, - uint (dw_count r))) (List.map_filter (\<lambda>d. case map_of (tap_owners vms) (ds_tap d) of
      None \<Rightarrow> None
    | Some name \<Rightarrow> if only \<noteq> '''' \<and> name \<noteq> only then None
        else Some \<lparr>dw_vm = name, dw_tap = ds_tap d, dw_reason = ds_reason d, dw_count = ds_count d, dw_location = ds_location d\<rparr>) drops)"

record readings =
  rd_vms :: "vm_info list"
  rd_programs :: "program list"
  rd_taps :: "TapStat list option"
  rd_drops :: "DropStat list option"

text \<open>\<open>dropInputs\<close>: the counts since the start, and the bases they leave.\<close>

definition dropInputs :: "readings \<Rightarrow> (string, u64) gomap \<Rightarrow> (string, u64) gomap \<times> (TapStat list \<times> DropStat list) option" where
  "dropInputs r bases = (case rd_drops r of
      None \<Rightarrow> (bases, None)
    | Some drops \<Rightarrow> (let (bases, taps) = sinceStart (case rd_taps r of None \<Rightarrow> [] | Some ts \<Rightarrow> ts) bases in (bases, Some (taps, drops))))"

definition state_Drops :: "string \<Rightarrow> readings \<Rightarrow> (string, u64) gomap \<Rightarrow> (string, u64) gomap \<times> (DropRow list \<times> DropTap list) option" where
  "state_Drops vm r bases = (case dropInputs r bases of
      (bases, Some (taps, drops)) \<Rightarrow>
        (bases, if program_attached (rd_programs r) ''drops'' then Some (drop_rows (rd_vms r) drops vm, joinTaps (rd_vms r) (snapsFrom taps drops) vm) else None)
    | (bases, None) \<Rightarrow> (bases, None))"

section \<open>What the threshold rules read\<close>

definition no_totals :: TapTotals where
  "no_totals = \<lparr>tt_foreign_drops = 0, tt_drops_ok = False, tt_out_refused = 0, tt_out_timeout = 0, tt_in_syn = 0, tt_outcomes_ok = False\<rparr>"

definition totals_of :: "(string, TapTotals) gomap \<Rightarrow> string \<Rightarrow> TapTotals" where
  "totals_of m vm = (case map_of m vm of None \<Rightarrow> no_totals | Some t \<Rightarrow> t)"

definition count_drop_tap :: "DropTap \<Rightarrow> (string, TapTotals) gomap \<Rightarrow> (string, TapTotals) gomap" where
  "count_drop_tap t m = (let v = totals_of m (dt_vm t)
     in AList.update (dt_vm t) (v\<lparr>tt_foreign_drops := tt_foreign_drops v + dt_other t, tt_drops_ok := True\<rparr>) m)"

definition count_tap_row :: "TapRow \<Rightarrow> (string, TapTotals) gomap \<Rightarrow> (string, TapTotals) gomap" where
  "count_tap_row t m = (let v = totals_of m (tw_vm t); o' = ts_outcomes (tw_stat t)
     in AList.update (tw_vm t) (v\<lparr>tt_out_refused := tt_out_refused v + oc_out_refused o', tt_out_timeout := tt_out_timeout v + oc_out_timeout o',
          tt_in_syn := tt_in_syn v + oc_in_syn o', tt_outcomes_ok := True\<rparr>) m)"

definition state_TapTotals :: "readings \<Rightarrow> (string, u64) gomap \<Rightarrow> (string, u64) gomap \<times> (string, TapTotals) gomap" where
  "state_TapTotals r bases =
     (let (bases, ins) = dropInputs r bases;
          out = (case ins of
              Some (taps, drops) \<Rightarrow>
                (if program_attached (rd_programs r) ''drops'' then fold count_drop_tap (joinTaps (rd_vms r) (snapsFrom taps drops) '''') [] else [])
            | None \<Rightarrow> []);
          rows = (if program_attached (rd_programs r) ''tap'' then (case Taps (rd_vms r) (rd_taps r) '''' of None \<Rightarrow> [] | Some rows \<Rightarrow> rows) else [])
      in (bases, fold count_tap_row rows out))"

section \<open>Every drop is counted once\<close>

text \<open>The part of a reading's reasons that a predicate selects.\<close>

definition reason_sum :: "(string \<Rightarrow> bool) \<Rightarrow> (string, u64) gomap \<Rightarrow> u64" where
  "reason_sum P m = sum_list (map snd (filter (\<lambda>(r, n). P r) m))"

definition snap_at :: "(string, dropSnap) gomap \<Rightarrow> string \<Rightarrow> dropSnap" where
  "snap_at out tap = (case map_of out tap of None \<Rightarrow> \<lparr>dn_reasons = [], dn_shukra = 0\<rparr> | Some sn \<Rightarrow> sn)"

lemma reason_sum_update:
  "distinct (map fst m) \<Longrightarrow> reason_sum P (AList.update r ((case map_of m r of None \<Rightarrow> 0 | Some n \<Rightarrow> n) + c) m)
     = reason_sum P m + (if P r then c else 0)"
  by (induction m) (auto simp: reason_sum_def map_of_eq_None_iff algebra_simps split: option.splits)

lemma snap_at_add:
  "snap_at (add_drop d out) tap = (if tap = ds_tap d
     then (snap_at out tap)\<lparr>dn_reasons := AList.update (ds_reason d) ((case map_of (dn_reasons (snap_at out tap)) (ds_reason d) of None \<Rightarrow> 0 | Some n \<Rightarrow> n) + ds_count d) (dn_reasons (snap_at out tap))\<rparr>
     else snap_at out tap)"
  by (auto simp: snap_at_def add_drop_def Let_def map_of_update)

lemma add_drop_keys: "distinct (map fst out) \<Longrightarrow> distinct (map fst (add_drop d out))"
  by (auto simp: add_drop_def Let_def distinct_update)

lemma snaps_fold:
  "distinct (map fst (dn_reasons (snap_at out tap))) \<Longrightarrow>
     distinct (map fst (dn_reasons (snap_at (fold add_drop ds out) tap)))
   \<and> dn_shukra (snap_at (fold add_drop ds out) tap) = dn_shukra (snap_at out tap)
   \<and> reason_sum P (dn_reasons (snap_at (fold add_drop ds out) tap))
       = reason_sum P (dn_reasons (snap_at out tap)) + sum_list (map ds_count (filter (\<lambda>d. ds_tap d = tap \<and> P (ds_reason d)) ds))"
proof (induction ds arbitrary: out)
  case Nil
  then show ?case by simp
next
  case (Cons d ds)
  have "distinct (map fst (dn_reasons (snap_at (add_drop d out) tap)))"
    using Cons.prems by (auto simp: snap_at_add distinct_update)
  from Cons.IH [OF this] Cons.prems show ?case
    by (auto simp: snap_at_add reason_sum_update add.assoc)
qed

lemma snapsFrom_reasons:
  "reason_sum P (dn_reasons (snap_at (snapsFrom taps drops) tap))
     = sum_list (map ds_count (filter (\<lambda>d. ds_tap d = tap \<and> P (ds_reason d)) drops))"
  and snapsFrom_distinct: "distinct (map fst (dn_reasons (snap_at (snapsFrom taps drops) tap)))"
proof -
  define base where "base = fold (\<lambda>t out. AList.update (ts_name t) \<lparr>dn_reasons = [], dn_shukra = ts_dropped_pkts t\<rparr> out) taps []"
  have "dn_reasons (snap_at (fold (\<lambda>t out. AList.update (ts_name t) \<lparr>dn_reasons = [], dn_shukra = ts_dropped_pkts t\<rparr> out) taps out) tap) = []"
    if "dn_reasons (snap_at out tap) = []" for out
    using that by (induction taps arbitrary: out) (auto simp: snap_at_def map_of_update)
  from this [of "[]"] have base: "dn_reasons (snap_at base tap) = []"
    by (simp add: base_def snap_at_def)
  show "reason_sum P (dn_reasons (snap_at (snapsFrom taps drops) tap))
     = sum_list (map ds_count (filter (\<lambda>d. ds_tap d = tap \<and> P (ds_reason d)) drops))"
    using snaps_fold [of base tap drops P] base by (simp add: snapsFrom_def base_def reason_sum_def)
  show "distinct (map fst (dn_reasons (snap_at (snapsFrom taps drops) tap)))"
    using snaps_fold [of base tap drops P] base by (simp add: snapsFrom_def base_def)
qed

lemma snapsFrom_keys: "distinct (map fst (snapsFrom taps drops))"
proof -
  have "distinct (map fst (fold (\<lambda>t out. AList.update (ts_name t) \<lparr>dn_reasons = [], dn_shukra = ts_dropped_pkts t\<rparr> out) taps out))"
    if "distinct (map fst out)" for out :: "(string, dropSnap) gomap"
    using that by (induction taps arbitrary: out) (auto simp: distinct_update)
  moreover have "distinct (map fst (fold add_drop ds out))" if "distinct (map fst out)" for ds out
    using that by (induction ds arbitrary: out) (auto simp: add_drop_keys)
  ultimately show ?thesis by (simp add: snapsFrom_def)
qed

text \<open>A sum of words that stays below \<open>2^64\<close> is the sum of the numbers.\<close>

lemma uint_sum_list:
  "sum_list (map (\<lambda>x. uint (f x :: u64)) xs) < 2 ^ 64 \<Longrightarrow> uint (sum_list (map f xs)) = sum_list (map (\<lambda>x. uint (f x)) xs)"
proof (induction xs)
  case (Cons x xs)
  have pos: "0 \<le> uint (f x)" "0 \<le> sum_list (map (\<lambda>x. uint (f x)) xs)"
    by (auto intro: sum_list_nonneg)
  have "uint (f x) + sum_list (map (\<lambda>x. uint (f x)) xs) < 2 ^ 64"
    using Cons.prems by simp
  then have "sum_list (map (\<lambda>x. uint (f x)) xs) < 2 ^ 64"
    using pos(1) by linarith
  then have "uint (sum_list (map f xs)) = sum_list (map (\<lambda>x. uint (f x)) xs)"
    by (rule Cons.IH)
  with Cons.prems pos show ?case by (simp add: uint_word_ariths)
qed simp

lemma sum_filter_le:
  "(\<And>x. x \<in> set xs \<Longrightarrow> P x \<Longrightarrow> Q x) \<Longrightarrow> sum_list (map (\<lambda>x. uint (f x :: u64)) (filter P xs)) \<le> sum_list (map (\<lambda>x. uint (f x)) (filter Q xs))"
  by (induction xs) (auto intro: add_increasing)

text \<open>The counts of one tap as numbers.\<close>

definition tap_count :: "string \<Rightarrow> (string \<Rightarrow> bool) \<Rightarrow> DropStat list \<Rightarrow> int" where
  "tap_count tap P drops = sum_list (map (\<lambda>d. uint (ds_count d)) (filter (\<lambda>d. ds_tap d = tap \<and> P (ds_reason d)) drops))"

lemma tap_count_parts:
  "tap_count tap (\<lambda>_. True) ds = tap_count tap isTC ds + tap_count tap (\<lambda>r. r = ''FULL_RING'') ds
     + tap_count tap (\<lambda>r. \<not> isTC r \<and> r \<noteq> ''FULL_RING'') ds"
  by (induction ds) (auto simp: tap_count_def isTC_def)

lemma tap_count_nonneg: "0 \<le> tap_count tap P ds"
  by (auto simp: tap_count_def intro: sum_list_nonneg)

lemma uint_reason_sum:
  assumes "tap_count tap (\<lambda>_. True) drops < 2 ^ 64"
  shows "uint (reason_sum P (dn_reasons (snap_at (snapsFrom taps drops) tap))) = tap_count tap P drops"
proof -
  have "tap_count tap P drops \<le> tap_count tap (\<lambda>_. True) drops"
    unfolding tap_count_def by (rule sum_filter_le) simp
  with assms show ?thesis
    by (simp add: snapsFrom_reasons tap_count_def uint_sum_list)
qed

lemma nonzero_sum: "sum_list (map snd (filter (\<lambda>(r, n). P r) (filter (\<lambda>(r, n). n \<noteq> 0) m))) = reason_sum P m"
  by (induction m) (auto simp: reason_sum_def)

lemma reason_sum_at: "distinct (map fst m) \<Longrightarrow> reason_sum (\<lambda>r. r = k) m = (case map_of m k of None \<Rightarrow> 0 | Some n \<Rightarrow> n)"
proof (induction m)
  case (Cons x m)
  have "k \<notin> fst ` set m \<Longrightarrow> reason_sum (\<lambda>r. r = k) m = 0"
    by (induction m) (auto simp: reason_sum_def)
  with Cons show ?case by (cases x) (auto simp: reason_sum_def)
qed (simp add: reason_sum_def)

lemma drop_tap_fields:
  assumes "distinct (map fst (dn_reasons sn))"
  shows "dt_vm (drop_tap name tap sn) = name" "dt_tap (drop_tap name tap sn) = tap" "dt_shukra (drop_tap name tap sn) = dn_shukra sn"
    and "dt_kernel (drop_tap name tap sn) = reason_sum (\<lambda>_. True) (dn_reasons sn)"
    and "dt_queue_full (drop_tap name tap sn) = reason_sum (\<lambda>r. r = ''FULL_RING'') (dn_reasons sn)"
    and "dt_other (drop_tap name tap sn) =
      (let other = reason_sum (\<lambda>_. True) (dn_reasons sn) - min (dn_shukra sn) (reason_sum isTC (dn_reasons sn))
       in other - min other (reason_sum (\<lambda>r. r = ''FULL_RING'') (dn_reasons sn)))"
proof -
  have all: "sum_list (map snd (filter (\<lambda>(r, n). n \<noteq> 0) (dn_reasons sn))) = reason_sum (\<lambda>_. True) (dn_reasons sn)"
    using nonzero_sum [of "\<lambda>_. True" "dn_reasons sn"] by simp
  show "dt_vm (drop_tap name tap sn) = name" "dt_tap (drop_tap name tap sn) = tap" "dt_shukra (drop_tap name tap sn) = dn_shukra sn"
    "dt_kernel (drop_tap name tap sn) = reason_sum (\<lambda>_. True) (dn_reasons sn)"
    "dt_queue_full (drop_tap name tap sn) = reason_sum (\<lambda>r. r = ''FULL_RING'') (dn_reasons sn)"
    by (simp_all add: drop_tap_def Let_def all reason_sum_at assms)
  show "dt_other (drop_tap name tap sn) =
      (let other = reason_sum (\<lambda>_. True) (dn_reasons sn) - min (dn_shukra sn) (reason_sum isTC (dn_reasons sn))
       in other - min other (reason_sum (\<lambda>r. r = ''FULL_RING'') (dn_reasons sn)))"
    unfolding drop_tap_def Let_def reason_sum_at [OF assms] by (simp only: all nonzero_sum DropTap.select_convs)
qed

lemma uint_min: "uint (min a b :: u64) = min (uint a) (uint b)"
  by (auto simp: min_def word_le_def)

lemma uint_minus_le: "uint b \<le> uint a \<Longrightarrow> uint (a - b :: u64) = uint a - uint b"
  by (simp add: uint_sub_lem)

text \<open>The counts of the tap a summary is about, read from the drops: nothing is counted twice, nothing is left out.\<close>

lemma drop_tap_counts:
  fixes name tap :: string and taps :: "TapStat list" and drops :: "DropStat list"
  assumes "tap_count tap (\<lambda>_. True) drops < 2 ^ 64"
  defines "d \<equiv> drop_tap name tap (snap_at (snapsFrom taps drops) tap)"
  shows "uint (dt_kernel d) = tap_count tap (\<lambda>_. True) drops"
    and "uint (dt_queue_full d) = tap_count tap (\<lambda>r. r = ''FULL_RING'') drops"
    and "uint (dt_other d) = max 0 (tap_count tap isTC drops - uint (dt_shukra d)) + tap_count tap (\<lambda>r. \<not> isTC r \<and> r \<noteq> ''FULL_RING'') drops"
proof -
  define sn where "sn = snap_at (snapsFrom taps drops) tap"
  define all where "all = reason_sum (\<lambda>_. True) (dn_reasons sn)"
  define tc where "tc = reason_sum isTC (dn_reasons sn)"
  define full where "full = reason_sum (\<lambda>r. r = ''FULL_RING'') (dn_reasons sn)"
  note u = uint_reason_sum [OF assms(1), where taps = taps, folded sn_def]
  have dist: "distinct (map fst (dn_reasons sn))"
    by (simp add: sn_def snapsFrom_distinct)
  note f = drop_tap_fields [OF dist, of name tap]
  show "uint (dt_kernel d) = tap_count tap (\<lambda>_. True) drops" "uint (dt_queue_full d) = tap_count tap (\<lambda>r. r = ''FULL_RING'') drops"
    by (simp_all add: d_def f u flip: sn_def)
  have parts: "uint all = uint tc + uint full + tap_count tap (\<lambda>r. \<not> isTC r \<and> r \<noteq> ''FULL_RING'') drops"
    using tap_count_parts [of tap drops] by (simp add: all_def tc_def full_def u)
  note nn = tap_count_nonneg [of tap "\<lambda>r. \<not> isTC r \<and> r \<noteq> ''FULL_RING''" drops]
  define e where "e = min (dn_shukra sn) tc"
  have e: "uint e = min (uint (dn_shukra sn)) (uint tc)"
    by (simp add: e_def uint_min)
  have le: "uint e \<le> uint tc" "0 \<le> uint full"
    using e by simp_all
  have ae: "uint (all - e) = uint all - uint e"
    using parts nn le by (intro uint_minus_le) linarith
  have "uint full \<le> uint (all - e)"
    using parts nn le ae by linarith
  then have "uint (all - e - min (all - e) full) = uint all - uint e - uint full"
    by (simp add: uint_minus_le uint_min ae)
  then have "uint (dt_other d) = uint all - uint e - uint full"
    by (simp add: d_def f Let_def all_def e_def tc_def full_def flip: sn_def)
  then show "uint (dt_other d) = max 0 (tap_count tap isTC drops - uint (dt_shukra d)) + tap_count tap (\<lambda>r. \<not> isTC r \<and> r \<noteq> ''FULL_RING'') drops"
    using parts e by (simp add: d_def f tc_def u max_def min_def flip: sn_def)
qed

lemma joinTaps_elem:
  assumes "d \<in> set (joinTaps vms (snapsFrom taps drops) only)"
  shows "map_of (tap_owners vms) (dt_tap d) = Some (dt_vm d) \<and> (only = '''' \<or> dt_vm d = only)
    \<and> d = drop_tap (dt_vm d) (dt_tap d) (snap_at (snapsFrom taps drops) (dt_tap d))"
proof -
  from assms obtain tap sn name where tap: "(tap, sn) \<in> set (snapsFrom taps drops)" "map_of (tap_owners vms) tap = Some name"
      "only = '''' \<or> name = only" and d: "d = drop_tap name tap sn"
    by (auto simp: joinTaps_def List.map_filter_def split: option.splits if_splits)
  have "map_of (snapsFrom taps drops) tap = Some sn"
    using tap(1) snapsFrom_keys by (rule map_of_is_SomeI [rotated])
  then have sn: "sn = snap_at (snapsFrom taps drops) tap"
    by (simp add: snap_at_def)
  have "dt_vm d = name" "dt_tap d = tap"
    using drop_tap_fields [OF snapsFrom_distinct, of name tap taps drops tap] by (simp_all add: d sn)
  with tap d sn show ?thesis by auto
qed


text \<open>A VM with one tap, isolated: three packets of its seven TC drops are Shukra's, four are another program's.\<close>

definition busy_readings :: readings where
  "busy_readings = \<lparr>rd_vms = [web_vm], rd_programs = [\<lparr>pr_name = ''drops'', pr_status = ''attached'', pr_detail = ''''\<rparr>],
     rd_taps = Some [\<lparr>ts_name = ''vnet0'', ts_from_pkts = 0, ts_from_bytes = 0, ts_to_pkts = 0, ts_to_bytes = 0, ts_dropped_pkts = 13,
       ts_dropped_bytes = 0, ts_isolated = True, ts_outcomes = no_outcomes, ts_handshakes = []\<rparr>],
     rd_drops = Some [\<lparr>ds_tap = ''vnet0'', ds_reason = ''TC_INGRESS'', ds_count = 7, ds_location = ''tcf_classify''\<rparr>,
       \<lparr>ds_tap = ''vnet0'', ds_reason = ''FULL_RING'', ds_count = 2, ds_location = ''tun_net_xmit''\<rparr>,
       \<lparr>ds_tap = ''vnet0'', ds_reason = ''NO_SOCKET'', ds_count = 1, ds_location = ''''\<rparr>]\<rparr>"

definition busy_tap :: DropTap where
  "busy_tap = \<lparr>dt_vm = ''web'', dt_tap = ''vnet0'', dt_kernel = 10, dt_shukra = 3, dt_other = 5, dt_queue_full = 2,
     dt_reasons = [\<lparr>dr_reason = ''TC_INGRESS'', dr_count = 7\<rparr>, \<lparr>dr_reason = ''FULL_RING'', dr_count = 2\<rparr>, \<lparr>dr_reason = ''NO_SOCKET'', dr_count = 1\<rparr>]\<rparr>"

lemma busy_run: "map_option snd (snd (state_Drops '''' busy_readings [(''vnet0'', 10)])) = Some [busy_tap]"
  by code_simp


end
