(* ===== verification/History.thy ===== *)
theory History
  imports Drops GoTime
begin

text \<open>
  The counters the state holds and what is made of them over time, \<open>internal/state/history.go\<close>, \<open>contention.go\<close> and the parts
  of \<open>state.go\<close>, \<open>drops.go\<close> and \<open>outcomes.go\<close> that read them: the snapshots of the last minutes, the base a window is
  measured from, and who took whose CPU over a window. What the tap and drop sources answer is an argument of each step.
\<close>

section \<open>Names of exit reasons\<close>

definition vmxExitNames :: "(u32, string) gomap" where
  "vmxExitNames =
    [(0, ''exception_nmi''), (1, ''external_interrupt''), (2, ''triple_fault''), (3, ''init_signal''), (4, ''sipi''),
     (5, ''io_smi''), (6, ''other_smi''), (7, ''interrupt_window''), (8, ''nmi_window''), (9, ''task_switch''), (10, ''cpuid''),
     (11, ''getsec''), (12, ''hlt''), (13, ''invd''), (14, ''invlpg''), (15, ''rdpmc''), (16, ''rdtsc''), (17, ''rsm''),
     (18, ''vmcall''), (19, ''vmclear''), (20, ''vmlaunch''), (21, ''vmptrld''), (22, ''vmptrst''), (23, ''vmread''),
     (24, ''vmresume''), (25, ''vmwrite''), (26, ''vmxoff''), (27, ''vmxon''), (28, ''cr_access''), (29, ''dr_access''),
     (30, ''io_instruction''), (31, ''rdmsr''), (32, ''wrmsr''), (33, ''invalid_guest_state''), (34, ''msr_load_fail''),
     (36, ''mwait''), (37, ''monitor_trap_flag''), (39, ''monitor''), (40, ''pause''), (41, ''machine_check''),
     (43, ''tpr_below_threshold''), (44, ''apic_access''), (45, ''virtualized_eoi''), (46, ''gdtr_idtr_access''),
     (47, ''ldtr_tr_access''), (48, ''ept_violation''), (49, ''ept_misconfig''), (50, ''invept''), (51, ''rdtscp''),
     (52, ''preemption_timer''), (53, ''invvpid''), (54, ''wbinvd''), (55, ''xsetbv''), (56, ''apic_write''), (57, ''rdrand''),
     (58, ''invpcid''), (59, ''vmfunc''), (60, ''encls''), (61, ''rdseed''), (62, ''pml_full''), (63, ''xsaves''),
     (64, ''xrstors''), (67, ''umwait''), (68, ''tpause''), (69, ''loadiwkey'')]"

definition ExitName :: "string \<Rightarrow> u32 \<Rightarrow> string" where
  "ExitName vendor reason =
     (if vendor \<noteq> ''GenuineIntel'' then '''' else case map_of vmxExitNames (reason AND 0xFFFF) of None \<Rightarrow> '''' | Some n \<Rightarrow> n)"

definition NameReasons :: "string \<Rightarrow> KVMRow list \<Rightarrow> KVMRow list" where
  "NameReasons vendor rows =
     (let named = map (\<lambda>r. r\<lparr>rs_name := ExitName vendor (rs_reason r)\<rparr>)
      in map (\<lambda>k. k\<lparr>kr_top := named (kr_top k), kr_top_by_time := named (kr_top_by_time k), kr_all := named (kr_all k)\<rparr>) rows)"

section \<open>Snapshots\<close>

definition snapEvery :: duration where
  "snapEvery = 10 * second"

definition snapKeep :: duration where
  "snapKeep = 6 * minute"

definition DefaultExplainWindow :: duration where
  "DefaultExplainWindow = 60 * second"

definition MaxExplainWindow :: duration where
  "MaxExplainWindow = 5 * minute"

definition minSpan :: duration where
  "minSpan = 20 * second"

record counter_snapshot =
  sh_at :: time
  sh_threads :: "(string, (u32, Counters) gomap) gomap"
  sh_drops :: "(string, dropSnap) gomap option"
  sh_outcomes :: "(string, Outcomes) gomap option"

text \<open>The fields of \<open>State\<close> that hold the counters, next to those of the event side.\<close>

record Measures =
  me_by_pid :: "(u32, Counters) gomap"
  me_history :: "counter_snapshot list"
  me_base :: "(string, u64) gomap"
  me_vendor :: string

definition new_measures :: Measures where
  "new_measures = \<lparr>me_by_pid = [], me_history = [], me_base = [], me_vendor = ''''\<rparr>"

text \<open>The counters of a VM's threads, for a snapshot.\<close>

definition thread_counters :: "(u32, Counters) gomap \<Rightarrow> vm_info \<Rightarrow> (u32, Counters) gomap" where
  "thread_counters byPID vm = fold (\<lambda>tid m. case map_of byPID (PID32 tid) of
      Some c \<Rightarrow> if PID32 tid \<noteq> 0 then AList.update (PID32 tid) (counters_Clone c) m else m
    | None \<Rightarrow> m) (id_threads vm) []"

fun trim_snaps :: "time \<Rightarrow> counter_snapshot list \<Rightarrow> counter_snapshot list" where
  "trim_snaps now (s # t # ss) = (if now - sh_at s > snapKeep then trim_snaps now (t # ss) else s # t # ss)"
| "trim_snaps now ss = ss"

text \<open>
  The snapshot of one moment, and the bases that counting Shukra's drops leaves. The taps' source is asked once for the drops and
  once for the outcomes; \<open>taps'\<close> is what it answers the second time.
\<close>

definition take_snap :: "time \<Rightarrow> readings \<Rightarrow> TapStat list \<Rightarrow> Measures \<Rightarrow> (string, u64) gomap \<times> counter_snapshot" where
  "take_snap now r taps' m =
     (let threads = fold (\<lambda>vm. AList.update (id_name vm) (thread_counters (me_by_pid m) vm)) (rd_vms r) [];
          (base, drops) = (case rd_drops r of
              Some ds \<Rightarrow> if program_attached (rd_programs r) ''drops''
                then (let (base, taps) = sinceStart (case rd_taps r of None \<Rightarrow> [] | Some ts \<Rightarrow> ts) (me_base m) in (base, Some (snapsFrom taps ds)))
                else (me_base m, None)
            | None \<Rightarrow> (me_base m, None));
          outcomes = (if rd_taps r \<noteq> None \<and> program_attached (rd_programs r) ''tap''
            then Some (fold (\<lambda>t. AList.update (ts_name t) (ts_outcomes t)) taps' []) else None)
      in (base, \<lparr>sh_at = now, sh_threads = threads, sh_drops = drops, sh_outcomes = outcomes\<rparr>))"

text \<open>\<open>recordLocked\<close>: a snapshot when the last one is old enough.\<close>

definition recordLocked :: "time \<Rightarrow> readings \<Rightarrow> TapStat list \<Rightarrow> Measures \<Rightarrow> Measures" where
  "recordLocked now r taps' m =
     (if me_history m \<noteq> [] \<and> now - sh_at (last (me_history m)) < snapEvery then m
      else (let (base, snap) = take_snap now r taps' m in m\<lparr>me_base := base, me_history := trim_snaps now (me_history m @ [snap])\<rparr>))"

text \<open>\<open>SetCounters\<close>: the counters the agent read, and a snapshot of them. The stored snapshots of a past time are \<open>Verdict\<close>'s.\<close>

definition SetCounters :: "time \<Rightarrow> (u32, Counters) gomap \<Rightarrow> readings \<Rightarrow> TapStat list \<Rightarrow> Measures \<Rightarrow> Measures" where
  "SetCounters now by r taps' m = recordLocked now r taps' (m\<lparr>me_by_pid := by\<rparr>)"

section \<open>The base of a window\<close>

definition baseLocked :: "time \<Rightarrow> duration \<Rightarrow> counter_snapshot list \<Rightarrow> (counter_snapshot \<times> duration) option" where
  "baseLocked now window h =
     (if window \<le> 0 \<or> h = [] then None
      else
        (let window = min window MaxExplainWindow; cut = now - window;
             base = (case find (\<lambda>s. sh_at s \<le> cut) (rev h) of Some s \<Rightarrow> s | None \<Rightarrow> hd h);
             spn = now - sh_at base
         in if spn < minSpan then None else Some (base, spn)))"

definition windowedInputs :: "vm_info \<Rightarrow> time \<Rightarrow> duration \<Rightarrow> Measures \<Rightarrow> ((u32, Counters) gomap \<times> duration) option" where
  "windowedInputs vm now window m = (case baseLocked now window (me_history m) of
      None \<Rightarrow> None
    | Some (base, spn) \<Rightarrow>
       (let old = (case map_of (sh_threads base) (id_name vm) of None \<Rightarrow> [] | Some cs \<Rightarrow> cs)
        in Some (fold (\<lambda>tid out. if PID32 tid = 0 then out else case map_of (me_by_pid m) (PID32 tid) of
               None \<Rightarrow> out
             | Some cur \<Rightarrow> AList.update (PID32 tid) (Delta cur (case map_of old (PID32 tid) of None \<Rightarrow> zero_counters | Some c \<Rightarrow> c)) out)
             (id_threads vm) [], spn)))"

definition dropBase :: "time \<Rightarrow> duration \<Rightarrow> Measures \<Rightarrow> ((string, dropSnap) gomap \<times> duration) option" where
  "dropBase now window m = (case baseLocked now window (me_history m) of
      None \<Rightarrow> None
    | Some (base, spn) \<Rightarrow> map_option (\<lambda>d. (d, spn)) (sh_drops base))"

definition outcomesBase :: "time \<Rightarrow> duration \<Rightarrow> Measures \<Rightarrow> ((string, Outcomes) gomap \<times> duration) option" where
  "outcomesBase now window m = (case baseLocked now window (me_history m) of
      None \<Rightarrow> None
    | Some (base, spn) \<Rightarrow> map_option (\<lambda>d. (d, spn)) (sh_outcomes base))"

definition span_text :: "duration \<Rightarrow> string" where
  "span_text spn = duration_String (duration_Round spn second)"

definition DropTapsOver :: "string \<Rightarrow> time \<Rightarrow> duration \<Rightarrow> readings \<Rightarrow> Measures \<Rightarrow> Measures \<times> (DropTap list \<times> string) option" where
  "DropTapsOver vm now window r m =
     (let (base, ins) = dropInputs r (me_base m); m = m\<lparr>me_base := base\<rparr>
      in (m, case ins of
           None \<Rightarrow> None
         | Some (taps, drops) \<Rightarrow>
            if \<not> program_attached (rd_programs r) ''drops'' then None
            else (let cur = snapsFrom taps drops in case dropBase now window m of
                None \<Rightarrow> Some (joinTaps (rd_vms r) cur vm, ''lifetime'')
              | Some (old, spn) \<Rightarrow> Some (joinTaps (rd_vms r) (subSnaps cur old) vm, span_text spn))))"

text \<open>\<open>OutcomesOver\<close>: \<open>Taps\<close> returns \<open>nil\<close> also when no tap of a VM is listed.\<close>

definition OutcomesOver :: "string \<Rightarrow> time \<Rightarrow> duration \<Rightarrow> readings \<Rightarrow> Measures \<Rightarrow> ((string, Outcomes) gomap \<times> string) option" where
  "OutcomesOver vm now window r m =
     (if \<not> program_attached (rd_programs r) ''tap'' then None
      else case Taps (rd_vms r) (rd_taps r) vm of
        None \<Rightarrow> None
      | Some rows \<Rightarrow>
          if rows = [] then None
          else (let base = outcomesBase now window m;
                    over = (case base of None \<Rightarrow> ''lifetime'' | Some (_, spn) \<Rightarrow> span_text spn);
                    count = (\<lambda>row. case base of None \<Rightarrow> ts_outcomes (tw_stat row)
                      | Some (old, _) \<Rightarrow> subOutcomes (ts_outcomes (tw_stat row))
                          (case map_of old (ts_name (tw_stat row)) of None \<Rightarrow> no_outcomes | Some oc \<Rightarrow> oc))
                in Some (fold (\<lambda>row out. AList.update (tw_vm row)
                     (addOutcomes (case map_of out (tw_vm row) of None \<Rightarrow> no_outcomes | Some oc \<Rightarrow> oc) (count row)) out) rows [], over)))"

section \<open>The history stays small and keeps its order\<close>

text \<open>A pass of the agent as the counters see it.\<close>

record pass =
  ps_now :: time
  ps_by :: "(u32, Counters) gomap"
  ps_read :: readings
  ps_taps :: "TapStat list"

definition set_counters :: "pass \<Rightarrow> Measures \<Rightarrow> Measures" where
  "set_counters p = SetCounters (ps_now p) (ps_by p) (ps_read p) (ps_taps p)"

definition passes :: "pass list \<Rightarrow> Measures \<Rightarrow> Measures" where
  "passes ps m = fold set_counters ps m"

definition history_inv :: "counter_snapshot list \<Rightarrow> bool" where
  "history_inv h \<longleftrightarrow> successively (\<lambda>s t. snapEvery \<le> sh_at t - sh_at s) h \<and> (\<forall>s \<in> set h. sh_at (last h) - sh_at s \<le> snapKeep)"

lemma passes_snoc [simp]: "passes (ps @ [p]) m = set_counters p (passes ps m)"
  by (simp add: passes_def)

lemma take_snap_at: "sh_at (snd (take_snap now r taps' m)) = now"
  by (simp add: take_snap_def Let_def split: prod.split)

lemma set_counters_history:
  "\<exists>s. sh_at s = ps_now p \<and> me_history (set_counters p m) =
     (if me_history m \<noteq> [] \<and> ps_now p - sh_at (last (me_history m)) < snapEvery then me_history m
      else trim_snaps (ps_now p) (me_history m @ [s]))"
  by (rule exI [of _ "snd (take_snap (ps_now p) (ps_read p) (ps_taps p) (m\<lparr>me_by_pid := ps_by p\<rparr>))"])
    (simp add: set_counters_def SetCounters_def recordLocked_def take_snap_at case_prod_beta Let_def)

text \<open>What trimming leaves: the end of the history, which starts right after a snapshot that is too old.\<close>

lemma trim_snaps_cases:
  "trim_snaps now h = h \<or> (\<exists>pre d. h = pre @ d # trim_snaps now h \<and> now - sh_at d > snapKeep)"
proof (induction now h rule: trim_snaps.induct)
  case (1 now s t ss)
  show ?case
  proof (cases "now - sh_at s > snapKeep")
    case True
    with "1.IH" consider "trim_snaps now (t # ss) = t # ss"
      | pre d where "t # ss = pre @ d # trim_snaps now (t # ss)" "now - sh_at d > snapKeep"
      by blast
    then show ?thesis
    proof cases
      case 1
      with True have "s # t # ss = [] @ s # trim_snaps now (s # t # ss)" by simp
      with True show ?thesis by blast
    next
      case 2
      with True have "s # t # ss = (s # pre) @ d # trim_snaps now (s # t # ss)" by simp
      with 2 show ?thesis by blast
    qed
  qed simp
qed simp_all

lemma trim_snaps_last [simp]: "last (trim_snaps now h) = last h" "trim_snaps now h = [] \<longleftrightarrow> h = []"
  by (induction now h rule: trim_snaps.induct) auto

lemma successively_mono_times: "successively (\<lambda>s t. snapEvery \<le> sh_at t - sh_at s) h \<Longrightarrow> sorted (map sh_at h)"
  by (induction h rule: induct_list012) (auto simp: snapEvery_def)

lemma trim_snaps_young:
  "sorted (map sh_at h) \<Longrightarrow> s \<in> set (trim_snaps now h) \<Longrightarrow> now - sh_at (last h) \<le> snapKeep \<Longrightarrow> now - sh_at s \<le> snapKeep"
proof (induction now h rule: trim_snaps.induct)
  case (1 now a b ss)
  then show ?case by (cases "now - sh_at a > snapKeep") auto
qed auto

lemma trim_snaps_gaps: "successively R h \<Longrightarrow> successively R (trim_snaps now h)"
  by (induction now h rule: trim_snaps.induct) auto

lemma history_inv_snoc:
  assumes "history_inv h" "h \<noteq> [] \<longrightarrow> snapEvery \<le> sh_at s - sh_at (last h)"
  shows "history_inv (trim_snaps (sh_at s) (h @ [s]))"
proof -
  have gaps: "successively (\<lambda>s t. snapEvery \<le> sh_at t - sh_at s) (h @ [s])"
    using assms by (auto simp: history_inv_def successively_append_iff)
  then have "sorted (map sh_at (h @ [s]))" by (rule successively_mono_times)
  from trim_snaps_young [OF this, of _ "sh_at s"] trim_snaps_gaps [OF gaps] show ?thesis
    by (auto simp: history_inv_def snapKeep_def)
qed

lemma passes_history_inv: "history_inv (me_history (passes ps new_measures))"
proof (induction ps rule: rev_induct)
  case Nil
  then show ?case by (simp add: passes_def new_measures_def history_inv_def)
next
  case (snoc p ps)
  define h where "h = me_history (passes ps new_measures)"
  obtain s where s: "sh_at s = ps_now p" "me_history (set_counters p (passes ps new_measures)) =
      (if h \<noteq> [] \<and> ps_now p - sh_at (last h) < snapEvery then h else trim_snaps (ps_now p) (h @ [s]))"
    using set_counters_history [of p "passes ps new_measures"] unfolding h_def by blast
  have "history_inv h" using snoc by (simp add: h_def)
  with history_inv_snoc [OF this, of s] s show ?case by (auto simp: not_less)
qed

lemma gaps_length:
  "successively (\<lambda>s t. snapEvery \<le> sh_at t - sh_at s) h \<Longrightarrow> h \<noteq> [] \<Longrightarrow> snapEvery * (int (length h) - 1) \<le> sh_at (last h) - sh_at (hd h)"
  by (induction h rule: induct_list012) (auto simp: snapEvery_def)

lemma history_inv_length: "history_inv h \<Longrightarrow> length h \<le> 37"
proof (cases "h = []")
  case False
  assume h: "history_inv h"
  with False have "snapEvery * (int (length h) - 1) \<le> sh_at (last h) - sh_at (hd h)" "sh_at (last h) - sh_at (hd h) \<le> snapKeep"
    by (auto simp: history_inv_def intro: gaps_length)
  then show ?thesis by (simp add: snapEvery_def snapKeep_def)
qed simp

text \<open>
  C30. The history is bounded and ordered, whatever the clock does. After any sequence of passes, at any times, also when the clock is set
  back: at most 37 snapshots are held, each at least ten seconds after the one before it, and none more than six minutes
  older than the newest.
\<close>
theorem history_bounded:
  "let h = me_history (passes ps new_measures)
   in length h \<le> 37 \<and> sorted_wrt (\<lambda>s t. snapEvery \<le> sh_at t - sh_at s) h \<and> list_all (\<lambda>s. sh_at (last h) - sh_at s \<le> snapKeep) h"
proof -
  define h where "h = me_history (passes ps new_measures)"
  have inv: "history_inv h" by (simp add: h_def passes_history_inv)
  then have "successively (\<lambda>s t. snapEvery \<le> sh_at t - sh_at s) h" by (simp add: history_inv_def)
  then have "sorted_wrt (\<lambda>s t. snapEvery \<le> sh_at t - sh_at s) h"
    by (subst (asm) successively_conv_sorted_wrt) (auto intro!: transpI simp: snapEvery_def)
  with inv show ?thesis by (auto simp: history_inv_def list_all_iff intro: history_inv_length simp flip: h_def)
qed

section \<open>A window is what it says\<close>

text \<open>Passes whose times do not go back and that come at most \<open>g\<close> apart.\<close>

definition paced :: "duration \<Rightarrow> pass list \<Rightarrow> bool" where
  "paced g ps \<longleftrightarrow> successively (\<lambda>a b. ps_now a \<le> ps_now b \<and> ps_now b - ps_now a \<le> g) ps"

text \<open>What such passes leave: no gap in the history is longer than a pass past the interval, and it reaches back to the first pass or
  nearly six minutes.\<close>

definition covers :: "duration \<Rightarrow> time \<Rightarrow> time \<Rightarrow> counter_snapshot list \<Rightarrow> bool" where
  "covers g first t h \<longleftrightarrow> h \<noteq> [] \<and> successively (\<lambda>s u. sh_at s \<le> sh_at u \<and> sh_at u - sh_at s < snapEvery + g) h
     \<and> sh_at (last h) \<le> t \<and> t - sh_at (last h) < snapEvery
     \<and> (sh_at (hd h) = first \<or> sh_at (last h) - sh_at (hd h) > snapKeep - snapEvery - g)"

lemma trim_covers:
  assumes gaps: "successively (\<lambda>s u. sh_at s \<le> sh_at u \<and> sh_at u - sh_at s < snapEvery + g) (h @ [s])"
    and start: "h = [] \<and> sh_at s = first \<or> h \<noteq> [] \<and> (sh_at (hd h) = first \<or> sh_at (last h) - sh_at (hd h) > snapKeep - snapEvery - g)"
  shows "covers g first (sh_at s) (trim_snaps (sh_at s) (h @ [s]))"
proof -
  define h' where "h' = trim_snaps (sh_at s) (h @ [s])"
  have h': "h' \<noteq> []" "last h' = s" "successively (\<lambda>s u. sh_at s \<le> sh_at u \<and> sh_at u - sh_at s < snapEvery + g) h'"
    using trim_snaps_gaps [OF gaps] by (simp_all add: h'_def)
  have "sh_at (hd h') = first \<or> sh_at s - sh_at (hd h') > snapKeep - snapEvery - g"
    using trim_snaps_cases [of "sh_at s" "h @ [s]"]
  proof (elim disjE exE conjE)
    assume "trim_snaps (sh_at s) (h @ [s]) = h @ [s]"
    with start gaps show ?thesis by (cases "h = []") (auto simp: h'_def successively_append_iff)
  next
    fix pre d
    assume d: "h @ [s] = pre @ d # trim_snaps (sh_at s) (h @ [s])" "sh_at s - sh_at d > snapKeep"
    from gaps have "successively (\<lambda>s u. sh_at s \<le> sh_at u \<and> sh_at u - sh_at s < snapEvery + g) (pre @ d # h')"
      using d(1) by (simp add: h'_def)
    with h'(1) have "sh_at (hd h') - sh_at d < snapEvery + g"
      by (cases h') (auto simp: successively_append_iff)
    with d(2) show ?thesis by simp
  qed
  with h' show ?thesis by (simp add: covers_def snapEvery_def flip: h'_def)
qed

lemma passes_cover:
  "paced g ps \<Longrightarrow> ps \<noteq> [] \<Longrightarrow> covers g (ps_now (hd ps)) (ps_now (last ps)) (me_history (passes ps new_measures))"
proof (induction ps rule: rev_induct)
  case (snoc p ps)
  define h where "h = me_history (passes ps new_measures)"
  obtain s where s: "sh_at s = ps_now p" "me_history (set_counters p (passes ps new_measures)) =
      (if h \<noteq> [] \<and> ps_now p - sh_at (last h) < snapEvery then h else trim_snaps (ps_now p) (h @ [s]))"
    using set_counters_history [of p "passes ps new_measures"] unfolding h_def by blast
  show ?case
  proof (cases "ps = []")
    case True
    then have "h = []" by (simp add: h_def passes_def new_measures_def)
    with True s trim_covers [of g "[]" s "ps_now p"] show ?thesis by (simp add: passes_def)
  next
    case False
    with snoc have cov: "covers g (ps_now (hd ps)) (ps_now (last ps)) h"
      and step: "ps_now (last ps) \<le> ps_now p" "ps_now p - ps_now (last ps) \<le> g"
      by (auto simp: h_def paced_def successively_append_iff)
    show ?thesis
    proof (cases "ps_now p - sh_at (last h) < snapEvery")
      case True
      with cov step s False show ?thesis by (simp add: covers_def)
    next
      case old: False
      have "successively (\<lambda>s u. sh_at s \<le> sh_at u \<and> sh_at u - sh_at s < snapEvery + g) (h @ [s])"
        using cov step s(1) by (auto simp: covers_def successively_append_iff)
      from trim_covers [OF this, of "ps_now (hd ps)"] cov s old False show ?thesis
        by (auto simp: covers_def)
    qed
  qed
qed simp

lemma baseLocked_cases:
  assumes "baseLocked now window h = Some (base, spn)"
  obtains "spn = now - sh_at base" "minSpan \<le> spn"
    "find (\<lambda>s. sh_at s \<le> now - min window MaxExplainWindow) (rev h) = Some base"
  | "spn = now - sh_at base" "minSpan \<le> spn" "\<forall>s \<in> set h. sh_at s > now - min window MaxExplainWindow" "base = hd h"
proof (cases "find (\<lambda>s. sh_at s \<le> now - min window MaxExplainWindow) (rev h)")
  case None
  then have "\<forall>s \<in> set h. sh_at s > now - min window MaxExplainWindow"
    by (simp add: find_None_iff not_le)
  moreover from None assms have "spn = now - sh_at base \<and> minSpan \<le> spn \<and> base = hd h"
    by (auto simp: baseLocked_def Let_def split: if_splits)
  ultimately show ?thesis using that(2) by blast
next
  case (Some b)
  with assms have "spn = now - sh_at base \<and> minSpan \<le> spn \<and> base = b"
    by (auto simp: baseLocked_def Let_def split: if_splits)
  with Some that(1) show ?thesis by blast
qed

lemma find_rev_split:
  assumes "find P (rev xs) = Some x"
  obtains as bs where "xs = as @ x # bs" "P x" "\<forall>y \<in> set bs. \<not> P y"
proof -
  have "\<exists>as bs. xs = as @ x # bs \<and> P x \<and> (\<forall>y \<in> set bs. \<not> P y)"
    using assms
  proof (induction xs rule: rev_induct)
    case (snoc y xs)
    show ?case
    proof (cases "P y")
      case True
      with snoc.prems show ?thesis by (intro exI [of _ xs] exI [of _ "[]"]) simp
    next
      case False
      with snoc obtain as bs where "xs = as @ x # bs" "P x" "\<forall>y \<in> set bs. \<not> P y" by auto
      with False show ?thesis by (intro exI [of _ as] exI [of _ "bs @ [y]"]) auto
    qed
  qed simp
  then show ?thesis using that by blast
qed

lemma base_span:
  assumes cov: "covers g first t h" and now: "t \<le> now" "now - t \<le> g" and g: "g \<le> 50 * second"
    and base: "baseLocked now window h = Some (base, spn)"
  defines "w \<equiv> min window MaxExplainWindow"
  shows "minSpan \<le> spn \<and> spn < w + snapEvery + g \<and> (w \<le> spn \<or> spn = now - first)"
  using base
proof (cases rule: baseLocked_cases)
  case 1
  from 1(3) obtain as bs where h: "h = as @ base # bs" "sh_at base \<le> now - w" "\<forall>y \<in> set bs. sh_at y > now - w"
    unfolding w_def by (rule find_rev_split) (auto simp: not_le)
  have "0 < w"
    using base by (auto simp: w_def baseLocked_def MaxExplainWindow_def split: if_splits)
  moreover have "spn < w + snapEvery + g"
  proof (cases bs)
    case Nil
    with cov h now 1 \<open>0 < w\<close> show ?thesis by (auto simp: covers_def)
  next
    case (Cons u us)
    with cov h have "sh_at u - sh_at base < snapEvery + g" by (auto simp: covers_def successively_append_iff)
    with Cons h 1 show ?thesis by auto
  qed
  ultimately show ?thesis using 1 h by simp
next
  case 2
  from cov have mem: "hd h \<in> set h" by (simp add: covers_def)
  with 2 have lt: "spn < w" by (auto simp: w_def)
  have "w \<le> 5 * minute" by (simp add: w_def MaxExplainWindow_def)
  with cov lt now g 2 have "sh_at (hd h) = first"
    by (auto simp: covers_def snapKeep_def snapEvery_def)
  moreover have "0 \<le> g" using now by simp
  ultimately show ?thesis using 2 lt by (simp add: snapEvery_def)
qed

text \<open>
  C14. A window covers what it says. When the daemon's passes come at least every fifty seconds and a question is asked no later than that after
  the last one, then whatever base it is answered from, the time the answer covers is at least twenty seconds, is longer than the window asked
  for (at most five minutes) by less than ten seconds and one pass, and is shorter only when it is all the time since the first pass.
\<close>
theorem windows_cover:
  assumes pace: "paced g ps" "ps \<noteq> []" "g \<le> 50 * second"
    and now: "ps_now (last ps) \<le> now" "now - ps_now (last ps) \<le> g"
    and base: "baseLocked now window (me_history (passes ps new_measures)) = Some (base, spn)"
  shows "minSpan \<le> spn \<and> spn < min window MaxExplainWindow + snapEvery + g
    \<and> (min window MaxExplainWindow \<le> spn \<or> spn = now - ps_now (hd ps))"
  using base_span [OF passes_cover [OF pace(1,2)] now pace(3) base] .

definition tick :: "int \<Rightarrow> pass" where
  "tick t = \<lparr>ps_now = t * second, ps_by = [], ps_read = \<lparr>rd_vms = [], rd_programs = [], rd_taps = None, rd_drops = None\<rparr>, ps_taps = []\<rparr>"

definition minute_of_passes :: "pass list" where
  "minute_of_passes = map tick [0, 10, 20, 30, 40, 50, 60, 70]"

lemma minute_history: "map sh_at (me_history (passes minute_of_passes new_measures)) = map (\<lambda>t. t * second) [0, 10, 20, 30, 40, 50, 60, 70]"
  by code_simp

theorem windows_cover_witness:
  "map_option snd (baseLocked (75 * second) minute (me_history (passes minute_of_passes new_measures))) = Some (65 * second)
   \<and> (65::int) * second < min minute MaxExplainWindow + snapEvery + 10 * second"
proof -
  define h where "h = me_history (passes minute_of_passes new_measures)"
  have run: "map_option snd (baseLocked (75 * second) minute h) = Some (65 * second)"
    unfolding h_def by code_simp
  then obtain base where base: "baseLocked (75 * second) minute h = Some (base, 65 * second)" by auto
  have pace: "paced (10 * second) minute_of_passes" "ps_now (last minute_of_passes) = 70 * second" "minute_of_passes \<noteq> []"
    by (simp_all add: paced_def minute_of_passes_def tick_def)
  from windows_cover [OF pace(1,3), of "75 * second" minute base "65 * second"] base pace(2)
  have "(65::int) * second < min minute MaxExplainWindow + snapEvery + 10 * second" by (simp add: h_def)
  with run show ?thesis by (simp only: h_def)
qed

text \<open>
  A window of ten seconds, which the API accepts, is not answered: the newest snapshot that old is fifteen seconds old, less than a verdict
  stands on, so the caller falls back to the counters since the daemon attached, however long the history is.
\<close>

lemma short_window_is_lifetime:
  "baseLocked (75 * second) (10 * second) (me_history (passes minute_of_passes new_measures)) = None"
  by code_simp

section \<open>Rows over a window\<close>

record windowedRows =
  wr_kvm :: "KVMRow list"
  wr_sched :: "SchedRow list"
  wr_block :: "BlockRow list"
  wr_net :: "NetRow list"
  wr_threads :: "ThreadRow list"

definition windowRows :: "vm_info \<Rightarrow> (u32, Counters) gomap \<Rightarrow> string \<Rightarrow> windowedRows" where
  "windowRows vm per vendor = \<lparr>wr_kvm = NameReasons vendor (KVM [vm] per (id_name vm)), wr_sched = Sched [vm] per (id_name vm),
     wr_block = Block [vm] per (id_name vm), wr_net = Net [vm] per (id_name vm), wr_threads = SchedThreads [vm] per (id_name vm)\<rparr>"

section \<open>Contention\<close>

record ContentionPair =
  cp_victim :: string
  cp_culprit :: string
  cp_preempted :: u64
  cp_share :: rat

record ContentionVictim =
  cv_vm :: string
  cv_preempted :: u64
  cv_count :: u64
  cv_by_vms :: u64
  cv_by_self :: u64
  cv_by_host :: u64
  cv_host_tasks :: "Preemptor list"

record ContentionCulprit =
  cc_vm :: string
  cc_took :: u64
  cc_victims :: nat
  cc_on_cpu :: u64
  cc_exits :: u64

record Contention =
  cn_window :: string
  cn_pairs :: "ContentionPair list"
  cn_victims :: "ContentionVictim list"
  cn_culprits :: "ContentionCulprit list"

definition VMLabel :: string where
  "VMLabel = ''vm:''"

definition CutPrefix :: "string \<Rightarrow> string \<Rightarrow> string option" where
  "CutPrefix s p = (if prefix p s then Some (drop (length p) s) else None)"

text \<open>One VM of the scan: its row and exits over the window or its lifetime, and the span when there was one. Not measured is \<open>None\<close>.\<close>

definition contention_row :: "vm_info list \<Rightarrow> Measures \<Rightarrow> time \<Rightarrow> duration \<Rightarrow> vm_info \<Rightarrow> (SchedRow \<times> u64 \<times> duration option) option" where
  "contention_row vms m now window v = (case Sched vms (me_by_pid m) (id_name v) of
      [] \<Rightarrow> None
    | row # _ \<Rightarrow>
        if \<not> sr_measured row then None
        else (let exits = (case KVM vms (me_by_pid m) (id_name v) of [] \<Rightarrow> 0 | k # _ \<Rightarrow> kr_exits k)
          in case windowedInputs v now window m of
            None \<Rightarrow> Some (row, exits, None)
          | Some (per, spn) \<Rightarrow>
             (let rows = windowRows v per (me_vendor m)
              in Some (case wr_sched rows of [] \<Rightarrow> row | r # _ \<Rightarrow> r, case wr_kvm rows of [] \<Rightarrow> exits | k # _ \<Rightarrow> kr_exits k, Some spn))))"

text \<open>The maps the first loop fills: the row and the activity of each VM, and the window they cover.\<close>

definition contention_inputs :: "vm_info list \<Rightarrow> Measures \<Rightarrow> time \<Rightarrow> duration \<Rightarrow> string \<times> (string, SchedRow) gomap \<times> (string, u64 \<times> u64) gomap" where
  "contention_inputs vms m now window = fold (\<lambda>v (over, sched, act). case contention_row vms m now window v of
      None \<Rightarrow> (over, sched, act)
    | Some (row, exits, spn) \<Rightarrow> (case spn of None \<Rightarrow> over | Some d \<Rightarrow> span_text d,
        AList.update (id_name v) row sched, AList.update (id_name v) (sr_on_cpu_ns row, exits) act)) vms (''lifetime'', [], [])"

type_synonym taken = "ContentionPair list \<times> (string, u64) gomap \<times> (string, string list) gomap"

text \<open>One preemptor of a victim: itself, another VM, or a host task.\<close>

definition take_cpu :: "string \<Rightarrow> SchedRow \<Rightarrow> Preemptor \<Rightarrow> ContentionVictim \<times> taken \<Rightarrow> ContentionVictim \<times> taken" where
  "take_cpu name row p vt = (case vt of (v, pairs, took, whom) \<Rightarrow> (case CutPrefix (pr_who p) VMLabel of
      Some who \<Rightarrow>
        if who = name then (v\<lparr>cv_by_self := cv_by_self v + pr_ns p\<rparr>, pairs, took, whom)
        else
          (let share = (if sr_preempted_ns row > 0 then rnd (float64 (pr_ns p) / float64 (sr_preempted_ns row)) else 0)
           in (v\<lparr>cv_by_vms := cv_by_vms v + pr_ns p\<rparr>,
               pairs @ [\<lparr>cp_victim = name, cp_culprit = who, cp_preempted = pr_ns p, cp_share = share\<rparr>],
               AList.update who (at_key took who + pr_ns p) took,
               AList.update who (List.insert name (case map_of whom who of None \<Rightarrow> [] | Some ns \<Rightarrow> ns)) whom))
    | None \<Rightarrow> (v\<lparr>cv_by_host := cv_by_host v + pr_ns p, cv_host_tasks := cv_host_tasks v @ [p]\<rparr>, pairs, took, whom)))"

definition contend :: "string \<times> SchedRow \<Rightarrow> ContentionVictim list \<times> taken \<Rightarrow> ContentionVictim list \<times> taken" where
  "contend nr st =
     (let (name, row) = nr; (vs, t) = st;
          v0 = \<lparr>cv_vm = name, cv_preempted = sr_preempted_ns row, cv_count = sr_preempted_count row, cv_by_vms = 0, cv_by_self = 0, cv_by_host = 0, cv_host_tasks = []\<rparr>;
          (v, t) = fold (take_cpu name row) (sr_all_preemptors row) (v0, t)
      in (vs @ [v\<lparr>cv_host_tasks := take 5 (cv_host_tasks v)\<rparr>], t))"

definition state_Contention :: "string \<Rightarrow> time \<Rightarrow> duration \<Rightarrow> vm_info list \<Rightarrow> Measures \<Rightarrow> Contention" where
  "state_Contention vm now window vms m =
     (let (over, sched, act) = contention_inputs vms m now window;
          (vs, pairs, took, whom) = fold contend (filter (\<lambda>(name, _). vm = '''' \<or> name = vm) sched) ([], [], [], []);
          culprits = map (\<lambda>(who, ns). let (cpu, exits) = (case map_of act who of None \<Rightarrow> (0, 0) | Some a \<Rightarrow> a)
            in \<lparr>cc_vm = who, cc_took = ns, cc_victims = length (case map_of whom who of None \<Rightarrow> [] | Some ns \<Rightarrow> ns), cc_on_cpu = cpu, cc_exits = exits\<rparr>) took
      in \<lparr>cn_window = over,
          cn_pairs = sort_key (\<lambda>p. (- uint (cp_preempted p), cp_victim p @ [CHR 0x00] @ cp_culprit p)) pairs,
          cn_victims = sort_key (\<lambda>v. (- uint (cv_preempted v), cv_vm v)) vs,
          cn_culprits = sort_key (\<lambda>c. (- uint (cc_took c), cc_vm c)) culprits\<rparr>)"

section \<open>What was taken is what was lost\<close>

definition victims_of :: "(string, string list) gomap \<Rightarrow> string \<Rightarrow> string list" where
  "victims_of whom who = (case map_of whom who of None \<Rightarrow> [] | Some ns \<Rightarrow> ns)"

text \<open>The books of the loop: the pairs, what each culprit took, and from whom.\<close>

definition books :: "taken \<Rightarrow> bool" where
  "books t \<longleftrightarrow> (case t of (pairs, took, whom) \<Rightarrow>
     distinct (map fst took) \<and> sum_list (map snd took) = sum_list (map cp_preempted pairs)
   \<and> fst ` set took = cp_culprit ` set pairs \<and> (\<forall>p \<in> set pairs. cp_victim p \<noteq> cp_culprit p)
   \<and> (\<forall>who. at_key took who = sum_list (map cp_preempted (filter (\<lambda>p. cp_culprit p = who) pairs)))
   \<and> (\<forall>who. distinct (victims_of whom who) \<and> set (victims_of whom who) = cp_victim ` {p \<in> set pairs. cp_culprit p = who}))"

lemma took_sum:
  "distinct (map fst m) \<Longrightarrow> sum_list (map snd (AList.update k (at_key m k + c) m)) = sum_list (map snd m) + (c :: u64)"
  by (induction m) (auto simp: at_key_def map_of_eq_None_iff algebra_simps split: option.splits)

lemma at_key_update [simp]: "at_key (AList.update k v m) j = (if j = k then v else at_key m j)"
  by (simp add: at_key_def map_of_update)

lemma victims_update [simp]: "victims_of (AList.update k ns whom) j = (if j = k then ns else victims_of whom j)"
  by (simp add: victims_of_def map_of_update)

lemma take_cpu_books:
  assumes "books t" "take_cpu name row p (v, t) = (v', t')"
  shows "books t'"
    and "sum_list (map cp_preempted (fst t')) - cv_by_vms v' = sum_list (map cp_preempted (fst t)) - cv_by_vms v"
    and "cv_by_vms v' + cv_by_self v' + cv_by_host v' = cv_by_vms v + cv_by_self v + cv_by_host v + pr_ns p"
    and "cv_vm v' = cv_vm v \<and> cv_preempted v' = cv_preempted v \<and> cv_count v' = cv_count v"
proof -
  obtain pairs took whom where t: "t = (pairs, took, whom)" by (cases t)
  show "sum_list (map cp_preempted (fst t')) - cv_by_vms v' = sum_list (map cp_preempted (fst t)) - cv_by_vms v"
    "cv_by_vms v' + cv_by_self v' + cv_by_host v' = cv_by_vms v + cv_by_self v + cv_by_host v + pr_ns p"
    "cv_vm v' = cv_vm v \<and> cv_preempted v' = cv_preempted v \<and> cv_count v' = cv_count v"
    using assms(2) by (auto simp: take_cpu_def t Let_def split: option.splits if_splits)
  show "books t'"
  proof (cases "CutPrefix (pr_who p) VMLabel")
    case None
    with assms show ?thesis by (simp add: take_cpu_def t)
  next
    case (Some who)
    show ?thesis
    proof (cases "who = name")
      case True
      with Some assms show ?thesis by (simp add: take_cpu_def t)
    next
      case False
      define q where "q = \<lparr>cp_victim = name, cp_culprit = who, cp_preempted = pr_ns p,
        cp_share = (if sr_preempted_ns row > 0 then rnd (float64 (pr_ns p) / float64 (sr_preempted_ns row)) else 0)\<rparr>"
      have q: "cp_victim q = name" "cp_culprit q = who" "cp_preempted q = pr_ns p" by (simp_all add: q_def)
      from Some False assms(2) have t': "t' = (pairs @ [q], AList.update who (at_key took who + pr_ns p) took,
          AList.update who (List.insert name (victims_of whom who)) whom)"
        by (simp add: take_cpu_def t Let_def q_def victims_of_def)
      from assms(1) have b: "distinct (map fst took)" "sum_list (map snd took) = sum_list (map cp_preempted pairs)"
          "fst ` set took = cp_culprit ` set pairs" "\<forall>p \<in> set pairs. cp_victim p \<noteq> cp_culprit p"
          "\<forall>who. at_key took who = sum_list (map cp_preempted (filter (\<lambda>p. cp_culprit p = who) pairs))"
          "\<forall>who. distinct (victims_of whom who) \<and> set (victims_of whom who) = cp_victim ` {p \<in> set pairs. cp_culprit p = who}"
        by (simp_all add: books_def t)
      have "set (victims_of (AList.update who (List.insert name (victims_of whom who)) whom) w) = cp_victim ` {p \<in> set (pairs @ [q]). cp_culprit p = w}" for w
        using b(6) q by auto
      moreover have "fst ` set (AList.update who (at_key took who + pr_ns p) took) = cp_culprit ` set (pairs @ [q])"
        using b(3) q by (simp add: update_keys dom_update)
      moreover have "distinct (victims_of (AList.update who (List.insert name (victims_of whom who)) whom) w)" for w
        using b(6) by simp
      moreover have "sum_list (map snd (AList.update who (at_key took who + pr_ns p) took)) = sum_list (map cp_preempted (pairs @ [q]))"
        using took_sum [OF b(1)] b(2) q by simp
      moreover have "distinct (map fst (AList.update who (at_key took who + pr_ns p) took))"
        using b(1) by (rule distinct_update)
      ultimately show ?thesis
        unfolding books_def t' prod.case using b(4,5) False q by simp
    qed
  qed
qed

lemma fold_take_cpu:
  "books t \<Longrightarrow> fold (take_cpu name row) ps (v, t) = (v', t') \<Longrightarrow>
     books t' \<and> sum_list (map cp_preempted (fst t')) - cv_by_vms v' = sum_list (map cp_preempted (fst t)) - cv_by_vms v
   \<and> cv_by_vms v' + cv_by_self v' + cv_by_host v' = cv_by_vms v + cv_by_self v + cv_by_host v + sum_list (map pr_ns ps)
   \<and> cv_vm v' = cv_vm v \<and> cv_preempted v' = cv_preempted v \<and> cv_count v' = cv_count v"
proof (induction ps arbitrary: v t)
  case (Cons p ps)
  obtain v1 t1 where one: "take_cpu name row p (v, t) = (v1, t1)" by (cases "take_cpu name row p (v, t)") auto
  note b = take_cpu_books [OF Cons.prems(1) one]
  from Cons.prems(2) one have "fold (take_cpu name row) ps (v1, t1) = (v', t')" by simp
  from Cons.IH [OF b(1) this] b show ?case by (simp add: add.assoc)
qed simp

text \<open>A row and its victim: the parts are the whole, and nothing is booked on the wrong VM.\<close>

definition accounted :: "string \<times> SchedRow \<Rightarrow> ContentionVictim \<Rightarrow> bool" where
  "accounted nr v \<longleftrightarrow> cv_vm v = fst nr \<and> cv_preempted v = sr_preempted_ns (snd nr) \<and> cv_count v = sr_preempted_count (snd nr)
     \<and> cv_by_vms v + cv_by_self v + cv_by_host v = sum_list (map pr_ns (sr_all_preemptors (snd nr)))"

definition balanced :: "(string \<times> SchedRow) list \<Rightarrow> ContentionVictim list \<times> taken \<Rightarrow> bool" where
  "balanced rows st \<longleftrightarrow> books (snd st) \<and> sum_list (map cv_by_vms (fst st)) = sum_list (map cp_preempted (fst (snd st)))
     \<and> list_all2 accounted rows (fst st)"

lemma contend_balanced: "balanced rows st \<Longrightarrow> balanced (rows @ [nr]) (contend nr st)"
proof -
  assume st: "balanced rows st"
  obtain name row vs t where nr: "nr = (name, row)" and s: "st = (vs, t)" by (cases nr, cases st) auto
  define v0 where "v0 = \<lparr>cv_vm = name, cv_preempted = sr_preempted_ns row, cv_count = sr_preempted_count row, cv_by_vms = 0,
    cv_by_self = 0, cv_by_host = 0, cv_host_tasks = []\<rparr>"
  obtain v t' where run: "fold (take_cpu name row) (sr_all_preemptors row) (v0, t) = (v, t')"
    by (cases "fold (take_cpu name row) (sr_all_preemptors row) (v0, t)") blast
  have c: "contend nr st = (vs @ [v\<lparr>cv_host_tasks := take 5 (cv_host_tasks v)\<rparr>], t')"
    using run by (simp add: contend_def nr s Let_def v0_def)
  from st s have b: "books t" by (simp add: balanced_def)
  note f = fold_take_cpu [OF b run]
  have "sum_list (map cp_preempted (fst t')) = sum_list (map cp_preempted (fst t)) + cv_by_vms v"
    using f by (simp add: v0_def algebra_simps)
  with st s c f show ?thesis
    by (auto simp: balanced_def accounted_def nr v0_def intro!: list_all2_appendI)
qed

lemma fold_contend: "balanced done' st \<Longrightarrow> balanced (done' @ rows) (fold contend rows st)"
proof (induction rows arbitrary: done' st)
  case (Cons nr rows)
  from Cons.IH [OF contend_balanced [OF Cons.prems, of nr]] show ?case by simp
qed simp

lemma sum_sort_key: "sum_list (map f (sort_key k xs)) = (sum_list (map f xs) :: u64)"
proof -
  have "mset (map f (sort_key k xs)) = mset (map f xs)" by simp
  then show ?thesis by (metis sum_mset_sum_list)
qed

lemma contention_inputs_keys: "distinct (map fst (fst (snd (contention_inputs vms m now window))))"
proof -
  define f where "f = (\<lambda>v (over, sched, act). case contention_row vms m now window v of
      None \<Rightarrow> (over, sched, act)
    | Some (row, exits, spn) \<Rightarrow> (case spn of None \<Rightarrow> over | Some d \<Rightarrow> span_text d,
        AList.update (id_name v) row sched, AList.update (id_name v) (sr_on_cpu_ns row, exits) act))"
  have "distinct (map fst (fst (snd (fold f vs a))))" if "distinct (map fst (fst (snd a)))" for vs and a :: "string \<times> (string, SchedRow) gomap \<times> (string, u64 \<times> u64) gomap"
    using that
  proof (induction vs arbitrary: a)
    case (Cons v vs)
    have "distinct (map fst (fst (snd (f v a))))"
      using Cons.prems by (auto simp: f_def distinct_update split: option.splits prod.splits)
    with Cons.IH show ?case by simp
  qed simp
  from this [of "(''lifetime'', [], [])" vms] show ?thesis by (simp add: contention_inputs_def f_def)
qed

lemma length_distinct_set: "distinct xs \<Longrightarrow> set xs = A \<Longrightarrow> length xs = card A"
  using distinct_card by fastforce

text \<open>
  C16. Contention balances. Whatever the scan, the counters and the window are: what the victims lost to other VMs, what the culprits took and what the
  pairs say are the same total; a culprit took exactly what its pairs say, from exactly as many VMs as its pairs name; no VM is its own culprit; and
  each victim's three parts (other VMs, itself, the host) are together all that preempted it in the row of that VM.
\<close>
theorem contention_balances:
  "let c = state_Contention vm now window vms m; sched = fst (snd (contention_inputs vms m now window))
   in sum_list (map cv_by_vms (cn_victims c)) = sum_list (map cp_preempted (cn_pairs c))
    \<and> sum_list (map cc_took (cn_culprits c)) = sum_list (map cp_preempted (cn_pairs c))
    \<and> list_all (\<lambda>k. cc_took k = sum_list (map cp_preempted (filter (\<lambda>p. cp_culprit p = cc_vm k) (cn_pairs c)))
         \<and> cc_victims k = card (cp_victim ` {p \<in> set (cn_pairs c). cp_culprit p = cc_vm k})) (cn_culprits c)
    \<and> list_all (\<lambda>p. cp_victim p \<noteq> cp_culprit p) (cn_pairs c)
    \<and> list_all (\<lambda>v. \<exists>row. map_of sched (cv_vm v) = Some row \<and> accounted (cv_vm v, row) v) (cn_victims c)"
proof -
  define sched where "sched = fst (snd (contention_inputs vms m now window))"
  define rows where "rows = filter (\<lambda>(name, _). vm = '''' \<or> name = vm) sched"
  obtain vs pairs took whom where run: "fold contend rows ([], [], [], []) = (vs, pairs, took, whom)"
    by (cases "fold contend rows ([], [], [], [])") auto
  have "balanced [] ([], [], [], [])"
    by (simp add: balanced_def books_def at_key_def victims_of_def)
  from fold_contend [OF this, of rows] run have bal: "balanced rows (vs, pairs, took, whom)" by simp
  define c where "c = state_Contention vm now window vms m"
  define act where "act = snd (snd (contention_inputs vms m now window))"
  have c: "cn_pairs c = sort_key (\<lambda>p. (- uint (cp_preempted p), cp_victim p @ [CHR 0x00] @ cp_culprit p)) pairs"
      "cn_victims c = sort_key (\<lambda>v. (- uint (cv_preempted v), cv_vm v)) vs"
      "cn_culprits c = sort_key (\<lambda>k. (- uint (cc_took k), cc_vm k)) (map (\<lambda>(who, ns). let (cpu, exits) = (case map_of act who of None \<Rightarrow> (0, 0) | Some a \<Rightarrow> a)
            in \<lparr>cc_vm = who, cc_took = ns, cc_victims = length (victims_of whom who), cc_on_cpu = cpu, cc_exits = exits\<rparr>) took)"
    using run by (simp_all add: c_def state_Contention_def case_prod_beta Let_def rows_def sched_def act_def victims_of_def)
  have took: "map cc_took (map (\<lambda>(who, ns). let (cpu, exits) = (case map_of act who of None \<Rightarrow> (0, 0) | Some a \<Rightarrow> a)
            in \<lparr>cc_vm = who, cc_took = ns, cc_victims = length (victims_of whom who), cc_on_cpu = cpu, cc_exits = exits\<rparr>) took) = map snd took"
    by (simp add: case_prod_beta Let_def o_def)
  from bal have b: "sum_list (map cv_by_vms vs) = sum_list (map cp_preempted pairs)" "list_all2 accounted rows vs"
      "distinct (map fst took)" "sum_list (map snd took) = sum_list (map cp_preempted pairs)" "\<forall>p \<in> set pairs. cp_victim p \<noteq> cp_culprit p"
      "\<forall>who. at_key took who = sum_list (map cp_preempted (filter (\<lambda>p. cp_culprit p = who) pairs))"
      "\<forall>who. distinct (victims_of whom who) \<and> set (victims_of whom who) = cp_victim ` {p \<in> set pairs. cp_culprit p = who}"
    by (simp_all add: balanced_def books_def)
  have totals: "sum_list (map cv_by_vms (cn_victims c)) = sum_list (map cp_preempted (cn_pairs c))"
      "sum_list (map cc_took (cn_culprits c)) = sum_list (map cp_preempted (cn_pairs c))"
    using b(1,4) by (simp_all only: c sum_sort_key took)
  have culprits: "cc_took k = sum_list (map cp_preempted (filter (\<lambda>p. cp_culprit p = cc_vm k) (cn_pairs c)))
      \<and> cc_victims k = card (cp_victim ` {p \<in> set (cn_pairs c). cp_culprit p = cc_vm k})" if "k \<in> set (cn_culprits c)" for k
  proof -
    from that obtain who ns where k: "(who, ns) \<in> set took" "cc_vm k = who" "cc_took k = ns" "cc_victims k = length (victims_of whom who)"
      by (auto simp: c case_prod_beta Let_def)
    have "at_key took who = ns" using k(1) b(3) by (simp add: at_key_def)
    moreover have "length (victims_of whom who) = card (cp_victim ` {p \<in> set pairs. cp_culprit p = who})"
      using b(7) by (blast intro: length_distinct_set)
    ultimately show ?thesis using b(6) k by (simp add: c filter_sort sum_sort_key)
  qed
  have victims: "\<exists>row. map_of sched (cv_vm v) = Some row \<and> accounted (cv_vm v, row) v" if "v \<in> set (cn_victims c)" for v
  proof -
    from that have "v \<in> set vs" by (simp add: c)
    with b(2) obtain name row where "(name, row) \<in> set rows" "accounted (name, row) v"
      by (auto simp: list_all2_conv_all_nth in_set_conv_nth) (metis surj_pair)
    moreover from this have "(name, row) \<in> set sched" "cv_vm v = name" by (auto simp: rows_def accounted_def)
    ultimately show ?thesis
      using contention_inputs_keys by (auto simp: sched_def)
  qed
  show ?thesis
    using totals culprits victims b(5) by (simp add: Let_def list_all_iff c(1) flip: c_def sched_def)
qed

end
