(* ===== verification/Verdict.thy ===== *)
theory Verdict
  imports History
begin

text \<open>
  Why a VM is slow, \<open>internal/state/verdict.go\<close> and the parts of \<open>state.go\<close> and \<open>rollup.go\<close> that build a verdict: the host-side
  causes the counters support, each with its evidence in words, ranked by how sure they are; over a window of the last
  minutes or between two stored snapshots of a past time.
\<close>

section \<open>Numbers in words\<close>

text \<open>\<open>%.3g\<close> of a number that is at least one: three significant digits, half to even, without trailing zeros.\<close>

definition three_digits :: "rat \<Rightarrow> string" where
  "three_digits v =
     (let e0 = length (Itoa \<lfloor>v\<rfloor>) - 1; q0 = half_even (v / 10 ^ e0 * 100);
          (q, e) = (if q0 = 1000 then (100, e0 + 1) else (q0, e0));
          ds = Itoa q; strip = (\<lambda>s. rev (dropWhile (\<lambda>c. c = CHR ''0'') (rev s)));
          point = (\<lambda>s. if s = '''' then '''' else ''.'' @ s)
      in if e \<ge> 3 then take 1 ds @ point (strip (drop 1 ds)) @ ''e+'' @ pad2 (int e)
         else take (e + 1) ds @ point (strip (drop (e + 1) ds)))"

definition dur :: "u64 \<Rightarrow> string" where
  "dur ns =
     (if ns \<ge> 1000000000 then three_digits (rnd (float64 ns / 1000000000)) @ '' s''
      else if ns \<ge> 1000000 then three_digits (rnd (float64 ns / 1000000)) @ '' ms''
      else if ns \<ge> 1000 then three_digits (rnd (float64 ns / 1000)) @ '' '' @ [CHR 0xC2, CHR 0xB5, CHR ''s'']
      else Itoa (uint ns) @ '' ns'')"

text \<open>A quotient in floating point; nothing divided by nothing is left out, something divided by nothing is infinite.\<close>

datatype quotient = Finite rat | Infinite

definition float_quotient :: "u64 \<Rightarrow> u64 \<Rightarrow> quotient" where
  "float_quotient a b = (if b = 0 then Infinite else Finite (rnd (float64 a / float64 b)))"

definition at_least :: "quotient \<Rightarrow> rat \<Rightarrow> bool" where
  "at_least q x = (case q of Infinite \<Rightarrow> True | Finite y \<Rightarrow> x \<le> y)"

definition percent :: "quotient \<Rightarrow> string" where
  "percent q = (case q of Infinite \<Rightarrow> ''+Inf'' | Finite y \<Rightarrow> Itoa (half_even (rnd (y * 100))))"

definition percent_of :: "u64 \<Rightarrow> u64 \<Rightarrow> string" where
  "percent_of a b = Itoa (half_even (rnd (rnd (100 * float64 a) / float64 b)))"

definition dec :: "u64 \<Rightarrow> string" where
  "dec n = Itoa (uint n)"

section \<open>Findings\<close>

record Finding =
  fi_cause :: string
  fi_confidence :: string
  fi_summary :: string
  fi_evidence :: "string list"

definition SlowBlockNS :: u64 where
  "SlowBlockNS = 10000000"

definition SlowWakeupNS :: u64 where
  "SlowWakeupNS = 20000000"

definition cpuMediumNs :: u64 where
  "cpuMediumNs = 2000000"

definition storageHigh :: u64 where
  "storageHigh = 50000000"

definition exitMediumNs :: u64 where
  "exitMediumNs = 1000000"

definition exitHighNs :: u64 where
  "exitHighNs = 10000000"

definition retransFloor :: u64 where
  "retransFloor = 10"

definition preemptFloorNs :: u64 where
  "preemptFloorNs = 200000000"

definition preemptMedium :: rat where
  "preemptMedium = rnd (5 / 100)"

definition preemptHigh :: rat where
  "preemptHigh = rnd (20 / 100)"

definition noisyShare :: rat where
  "noisyShare = 1 / 2"

definition dropFloor :: u64 where
  "dropFloor = 5"

definition confRank :: "string \<Rightarrow> int" where
  "confRank c = (if c = ''high'' then 3 else if c = ''medium'' then 2 else if c = ''low'' then 1 else 0)"

definition preemptorName :: "string \<Rightarrow> string \<Rightarrow> string" where
  "preemptorName label self = (case CutPrefix label VMLabel of
      Some name \<Rightarrow> if name = self then ''this VM's own other threads'' else ''VM '' @ name
    | None \<Rightarrow> ''host task '' @ label)"

text \<open>Host CPU contention: the worst vCPU thread, or the whole VM when no vCPU thread waited.\<close>

definition worst_vcpu :: "ThreadRow list \<Rightarrow> u64 \<times> string" where
  "worst_vcpu threads = fold (\<lambda>t (worst, who). if tr_role t = ''vcpu'' \<and> tr_p99 t > worst
      then (tr_p99 t, ''vCPU thread '' @ Itoa (tr_tid t) @ '' ('' @ tr_comm t @ '')'') else (worst, who)) threads (0, '''')"

definition host_cpu_contention :: "string \<Rightarrow> u64 \<Rightarrow> string \<Rightarrow> Finding" where
  "host_cpu_contention conf worst who = \<lparr>fi_cause = ''host_cpu_contention'', fi_confidence = conf,
     fi_summary = ''The VM's threads wait for a host CPU after being woken. Look at host CPU load, pinning and noisy neighbours.'',
     fi_evidence = [''Run-queue delay p99 is up to '' @ dur worst @ '' on '' @ who @ ''.'']\<rparr>"

definition cpu_findings :: "SchedRow list \<Rightarrow> ThreadRow list \<Rightarrow> Finding list" where
  "cpu_findings sched threads =
     (let (worst, who) = worst_vcpu threads; vcpu = (who \<noteq> '''');
          (worst, who) = (if \<not> vcpu \<and> sched \<noteq> [] then (sr_p99 (hd sched), ''the VM's threads'') else (worst, who))
      in if worst < cpuMediumNs then []
         else [host_cpu_contention (if vcpu \<and> worst \<ge> SlowWakeupNS then ''high'' else ''medium'') worst who])"

text \<open>vCPU preemption, and the other VM that most of it went to.\<close>

definition preempt_share :: "SchedRow \<Rightarrow> ThreadRow list \<Rightarrow> quotient" where
  "preempt_share s threads = (let on = sum_list (map tr_on_cpu_ns (filter (\<lambda>t. tr_role t = ''vcpu'') threads))
     in float_quotient (sr_preempted_ns s) (on + sr_preempted_ns s))"

text \<open>The other VM that took at least half.\<close>

definition noisy :: "SchedRow \<Rightarrow> (string \<times> u64) option" where
  "noisy s = (case sr_preemptors s of
      [] \<Rightarrow> None
    | worst1 # _ \<Rightarrow> (case CutPrefix (pr_who worst1) VMLabel of
          Some name \<Rightarrow> if name \<noteq> sr_vm s \<and> rnd (noisyShare * float64 (sr_preempted_ns s)) \<le> float64 (pr_ns worst1) then Some (name, pr_ns worst1) else None
        | None \<Rightarrow> None))"

definition preempt_evidence :: "SchedRow \<Rightarrow> quotient \<Rightarrow> string list" where
  "preempt_evidence s share =
     (''The vCPU threads were runnable but off a host CPU for '' @ dur (sr_preempted_ns s) @ '' over '' @ dec (sr_preempted_count s)
        @ '' preemptions, '' @ percent share @ ''% of the time they wanted to run.'')
     # (if sr_preemptors s = [] then []
        else [''Taken by: '' @ Join (map (\<lambda>p. preemptorName (pr_who p) (sr_vm s) @ '' ('' @ dur (pr_ns p) @ '')'') (sr_preemptors s)) '', '' @ ''.''])"

definition cpu_preempted :: "string \<Rightarrow> SchedRow \<Rightarrow> quotient \<Rightarrow> Finding" where
  "cpu_preempted conf s share = \<lparr>fi_cause = ''cpu_preempted'', fi_confidence = conf,
     fi_summary = ''The host took CPU away from this VM's vCPUs. Look at what else is running on those host CPUs: other VMs, host services, interrupt load, and CPU pinning.'',
     fi_evidence = preempt_evidence s share\<rparr>"

definition noisy_neighbour :: "string \<Rightarrow> string \<Rightarrow> u64 \<Rightarrow> u64 \<Rightarrow> Finding" where
  "noisy_neighbour conf name ns denied = \<lparr>fi_cause = ''noisy_neighbour'', fi_confidence = conf,
     fi_summary = ''Another VM, '' @ name @ '', took most of the CPU this VM's vCPUs were denied. Look at '' @ name
       @ [CHR 0x27] @ ''s load, and at CPU pinning or separating the two onto different cores.'',
     fi_evidence = [name @ '' took '' @ dur ns @ '' of the '' @ dur denied @ '' the vCPUs were preempted ('' @ percent_of ns denied
       @ ''%). shukractl trace contention shows what '' @ name @ '' was doing meanwhile.'']\<rparr>"

definition preempt_findings :: "SchedRow list \<Rightarrow> ThreadRow list \<Rightarrow> Finding list" where
  "preempt_findings sched threads = (case sched of
      [] \<Rightarrow> []
    | s # _ \<Rightarrow>
       (let share = preempt_share s threads; conf = (if at_least share preemptHigh then ''high'' else ''medium'')
        in if \<not> (sr_measured s \<and> sr_preempted_ns s \<ge> preemptFloorNs \<and> at_least share preemptMedium) then []
           else cpu_preempted conf s share
             # (case noisy s of None \<Rightarrow> [] | Some (name, ns) \<Rightarrow> [noisy_neighbour conf name ns (sr_preempted_ns s)])))"

text \<open>The slower of reads and writes.\<close>

definition storage_latency :: "string \<Rightarrow> string \<Rightarrow> u64 \<Rightarrow> u64 \<Rightarrow> BlockRow \<Rightarrow> Finding" where
  "storage_latency conf op' p99 slowest b = \<lparr>fi_cause = ''storage_latency'', fi_confidence = conf,
     fi_summary = ''Block requests from QEMU take long. Look at the backing device, its queue depth and other writers.'',
     fi_evidence = [''Block '' @ op' @ '' p99 is up to '' @ dur p99 @ '' (slowest '' @ dur slowest @ '') across ''
       @ dec (br_read_ops b + br_write_ops b) @ '' requests.'']\<rparr>"

definition storage_findings :: "BlockRow list \<Rightarrow> Finding list" where
  "storage_findings block = (case block of
      [] \<Rightarrow> []
    | b # _ \<Rightarrow>
       (let (op', p99, slowest) = (if br_write_p99 b > br_read_p99 b then (''write'', br_write_p99 b, br_write_max b) else (''read'', br_read_p99 b, br_read_max b))
        in if \<not> (br_measured b \<and> p99 \<ge> SlowBlockNS) then []
           else [storage_latency (if p99 \<ge> storageHigh then ''high'' else ''medium'') op' p99 slowest b]))"

definition costliest :: "Reason list \<Rightarrow> string list" where
  "costliest rs = (case find (\<lambda>r. rs_name r \<noteq> ''hlt'') rs of
      None \<Rightarrow> []
    | Some r \<Rightarrow> [''Costliest exit: '' @ (if rs_name r = '''' then ''reason '' @ Itoa (uint (rs_reason r)) else rs_name r)
        @ '', '' @ dur (rs_total_ns r) @ '' over '' @ dec (rs_count r) @ '' exits.''])"

definition kvm_exit_handling :: "string \<Rightarrow> KVMRow \<Rightarrow> Finding" where
  "kvm_exit_handling conf k = \<lparr>fi_cause = ''kvm_exit_handling'', fi_confidence = conf,
     fi_summary = ''The host is slow to service this VM's KVM exits, often device emulation. Look at what the costliest exit reason points to.'',
     fi_evidence = (''Exit handling p99 is up to '' @ dur (kr_p99 k) @ '' (halts excluded).'') # costliest (kr_top_by_time k)\<rparr>"

definition exit_findings :: "KVMRow list \<Rightarrow> Finding list" where
  "exit_findings kvm = (case kvm of
      [] \<Rightarrow> []
    | k # _ \<Rightarrow> if \<not> (kr_measured k \<and> kr_p99 k \<ge> exitMediumNs) then []
        else [kvm_exit_handling (if kr_p99 k \<ge> exitHighNs then ''high'' else ''medium'') k])"

definition tcp_retransmits :: "u64 \<Rightarrow> Finding" where
  "tcp_retransmits n = \<lparr>fi_cause = ''tcp_retransmits'', fi_confidence = ''low'',
     fi_summary = ''The QEMU process is retransmitting TCP segments. That is host traffic such as migration or a remote disk, not the guest's own connections.'',
     fi_evidence = [dec n @ '' retransmits from the QEMU process.'']\<rparr>"

definition net_findings :: "NetRow list \<Rightarrow> Finding list" where
  "net_findings net = (case net of
      [] \<Rightarrow> []
    | n # _ \<Rightarrow> if nr_retransmits n < retransFloor then [] else [tcp_retransmits (nr_retransmits n)])"

text \<open>One tap: drops by something else, and a queue the guest does not empty.\<close>

definition guest_traffic_dropped :: "DropTap \<Rightarrow> Finding" where
  "guest_traffic_dropped d = \<lparr>fi_cause = ''guest_traffic_dropped'', fi_confidence = ''medium'',
     fi_summary = ''The host kernel is dropping this VM's packets, and Shukra's isolation is not the cause. Look for another program attached to the tap (Cilium, a network dataplane, a tc filter): bpftool net show dev ''
       @ dt_tap d @ ''.'',
     fi_evidence = [dec (dt_other d) @ '' packets were dropped on tap '' @ dt_tap d @ '' by something other than Shukra (Shukra dropped ''
       @ dec (dt_shukra d) @ '').'' @ (case dt_reasons d of [] \<Rightarrow> '''' | r # _ \<Rightarrow> '' Mostly '' @ dr_reason r @ ''.'')]\<rparr>"

definition guest_not_reading_nic :: "DropTap \<Rightarrow> Finding" where
  "guest_not_reading_nic d = \<lparr>fi_cause = ''guest_not_reading_nic'', fi_confidence = ''medium'',
     fi_summary = ''The tap's queue is full, so the host cannot hand this VM the packets it is sent. The guest is not taking them: it is stalled, has no working NIC driver, or is overloaded.'',
     fi_evidence = [dec (dt_queue_full d) @ '' packets were dropped on tap '' @ dt_tap d @ '' because its queue was full.'']\<rparr>"

definition drop_findings :: "DropTap \<Rightarrow> Finding list" where
  "drop_findings d = (if dt_other d < dropFloor then [] else [guest_traffic_dropped d])
     @ (if dt_queue_full d < dropFloor then [] else [guest_not_reading_nic d])"

definition guest_connects_failing :: "string \<Rightarrow> Finding" where
  "guest_connects_failing what = \<lparr>fi_cause = ''guest_connects_failing'', fi_confidence = ''medium'',
     fi_summary = ''Most of this VM's outbound TCP connections fail. Refused means nothing is listening on the destination port; never answered means something is dropping the SYN, such as blocked egress or an unreachable network. Many refusals to different ports looks like a scan.'',
     fi_evidence = [what @ ''.'']\<rparr>"

definition conn_findings :: "Outcomes option \<Rightarrow> Finding list" where
  "conn_findings conns = (case conns of
      None \<Rightarrow> []
    | Some oc \<Rightarrow> (case connectFailing oc of None \<Rightarrow> [] | Some what \<Rightarrow> [guest_connects_failing what]))"

definition unknown_vm :: Finding where
  "unknown_vm = \<lparr>fi_cause = ''unknown_vm'', fi_confidence = ''high'',
     fi_summary = ''No QEMU process with that name is in the current scan.'', fi_evidence = []\<rparr>"

definition not_measured :: Finding where
  "not_measured = \<lparr>fi_cause = ''not_measured'', fi_confidence = ''high'',
     fi_summary = ''No kernel program has measured this VM, so nothing host-side can be said. The programs may be detached: check `shukractl programs`.'',
     fi_evidence = []\<rparr>"

definition no_host_cause :: Finding where
  "no_host_cause = \<lparr>fi_cause = ''no_host_cause'', fi_confidence = ''low'',
     fi_summary = ''Nothing host-side crossed a threshold. If the guest is slow, the cause may be inside it, which this build does not measure.'',
     fi_evidence = []\<rparr>"

definition first_measured :: "('a \<Rightarrow> bool) \<Rightarrow> 'a list \<Rightarrow> bool" where
  "first_measured f rows = (case rows of [] \<Rightarrow> False | r # _ \<Rightarrow> f r)"

text \<open>What a verdict weighs.\<close>

record weighed =
  wg_kvm :: "KVMRow list"
  wg_sched :: "SchedRow list"
  wg_threads :: "ThreadRow list"
  wg_block :: "BlockRow list"
  wg_net :: "NetRow list"
  wg_drops :: "DropTap list"
  wg_conns :: "Outcomes option"

definition is_measured :: "weighed \<Rightarrow> bool" where
  "is_measured w \<longleftrightarrow> first_measured kr_measured (wg_kvm w) \<or> first_measured sr_measured (wg_sched w) \<or> first_measured br_measured (wg_block w)"

definition all_findings :: "weighed \<Rightarrow> Finding list" where
  "all_findings w = cpu_findings (wg_sched w) (wg_threads w) @ preempt_findings (wg_sched w) (wg_threads w) @ storage_findings (wg_block w)
     @ exit_findings (wg_kvm w) @ net_findings (wg_net w) @ concat (map drop_findings (wg_drops w)) @ conn_findings (wg_conns w)"

definition diagnose :: "bool \<Rightarrow> weighed \<Rightarrow> Finding list" where
  "diagnose found w =
     (if \<not> found then [unknown_vm]
      else if \<not> is_measured w then [not_measured]
      else if all_findings w = [] then [no_host_cause]
      else sort_key (\<lambda>f. - confRank (fi_confidence f)) (all_findings w))"

lemma dur_samples: "dur 20000000 = ''20 ms''" "dur 999999999 = ''1e+03 ms''"
  by code_simp+

section \<open>The verdict names every cause the counters support, and no other\<close>

lemma finding_causes [simp]:
  "fi_cause (host_cpu_contention conf worst who) = ''host_cpu_contention''" "fi_cause (cpu_preempted conf s share) = ''cpu_preempted''"
  "fi_cause (noisy_neighbour conf name ns denied) = ''noisy_neighbour''" "fi_cause (storage_latency conf op' p99 slowest b) = ''storage_latency''"
  "fi_cause (kvm_exit_handling conf k) = ''kvm_exit_handling''" "fi_cause (tcp_retransmits n) = ''tcp_retransmits''"
  "fi_cause (guest_traffic_dropped d) = ''guest_traffic_dropped''" "fi_cause (guest_not_reading_nic d) = ''guest_not_reading_nic''"
  "fi_cause (guest_connects_failing what) = ''guest_connects_failing''" "fi_cause no_host_cause = ''no_host_cause''"
  unfolding host_cpu_contention_def cpu_preempted_def noisy_neighbour_def storage_latency_def kvm_exit_handling_def tcp_retransmits_def
    guest_traffic_dropped_def guest_not_reading_nic_def guest_connects_failing_def no_host_cause_def by (rule Finding.select_convs)+

definition causes :: "weighed \<Rightarrow> string set" where
  "causes w = fi_cause ` set (diagnose True w)"

lemma worst_vcpu_fold:
  defines "step \<equiv> \<lambda>t (worst :: u64, who). if tr_role t = ''vcpu'' \<and> tr_p99 t > worst
      then (tr_p99 t, ''vCPU thread '' @ Itoa (tr_tid t) @ '' ('' @ tr_comm t @ '')'') else (worst, who)"
  assumes "(snd a \<noteq> '''') = (fst a > 0)"
  shows "(snd (fold step ts a) \<noteq> '''') = (fst (fold step ts a) > 0)
    \<and> (k \<le> fst (fold step ts a) \<longleftrightarrow> k \<le> fst a \<or> (\<exists>t \<in> set ts. tr_role t = ''vcpu'' \<and> k \<le> tr_p99 t))"
  using assms(2)
proof (induction ts arbitrary: a)
  case (Cons t ts)
  have "(snd (step t a) \<noteq> '''') = (fst (step t a) > 0)"
    using Cons.prems by (cases a) (auto simp: step_def intro: le_less_trans)
  moreover have "k \<le> fst (step t a) \<longleftrightarrow> k \<le> fst a \<or> tr_role t = ''vcpu'' \<and> k \<le> tr_p99 t"
    by (cases a) (auto simp: step_def)
  ultimately show ?case using Cons.IH [of "step t a"] by auto
qed simp

lemma worst_vcpu:
  "snd (worst_vcpu ts) \<noteq> '''' \<longleftrightarrow> (\<exists>t \<in> set ts. tr_role t = ''vcpu'' \<and> 0 < tr_p99 t)"
  "0 < k \<Longrightarrow> k \<le> fst (worst_vcpu ts) \<longleftrightarrow> (\<exists>t \<in> set ts. tr_role t = ''vcpu'' \<and> k \<le> tr_p99 t)"
proof -
  have f: "(snd (worst_vcpu ts) \<noteq> '''') = (fst (worst_vcpu ts) > 0)
    \<and> (k \<le> fst (worst_vcpu ts) \<longleftrightarrow> k \<le> 0 \<or> (\<exists>t \<in> set ts. tr_role t = ''vcpu'' \<and> k \<le> tr_p99 t))" for k
    unfolding worst_vcpu_def using worst_vcpu_fold [of "(0, '''')" ts k] by (simp only: fst_conv snd_conv less_irrefl simp_thms)
  show "0 < k \<Longrightarrow> k \<le> fst (worst_vcpu ts) \<longleftrightarrow> (\<exists>t \<in> set ts. tr_role t = ''vcpu'' \<and> k \<le> tr_p99 t)" for k
    using f [of k] by (auto simp: not_le [symmetric])
  have one: "1 \<le> x \<longleftrightarrow> 0 < x" for x :: u64
    by (simp add: word_le_nat_alt word_less_nat_alt Suc_le_eq)
  show "snd (worst_vcpu ts) \<noteq> '''' \<longleftrightarrow> (\<exists>t \<in> set ts. tr_role t = ''vcpu'' \<and> 0 < tr_p99 t)"
    using f [of 1] by (simp add: one)
qed

text \<open>When the threads' run-queue delay is a finding: a vCPU thread's, or the VM's when no vCPU thread waited at all.\<close>

definition cpu_waits :: "weighed \<Rightarrow> bool" where
  "cpu_waits w \<longleftrightarrow> (\<exists>t \<in> set (wg_threads w). tr_role t = ''vcpu'' \<and> cpuMediumNs \<le> tr_p99 t)
     \<or> (\<forall>t \<in> set (wg_threads w). tr_role t = ''vcpu'' \<longrightarrow> tr_p99 t = 0) \<and> wg_sched w \<noteq> [] \<and> cpuMediumNs \<le> sr_p99 (hd (wg_sched w))"

definition preempted :: "weighed \<Rightarrow> bool" where
  "preempted w \<longleftrightarrow> first_measured (\<lambda>s. sr_measured s \<and> preemptFloorNs \<le> sr_preempted_ns s \<and> at_least (preempt_share s (wg_threads w)) preemptMedium) (wg_sched w)"

definition storage_slow :: "weighed \<Rightarrow> bool" where
  "storage_slow w \<longleftrightarrow> first_measured (\<lambda>b. br_measured b \<and> (SlowBlockNS \<le> br_read_p99 b \<or> SlowBlockNS \<le> br_write_p99 b)) (wg_block w)"

lemma cpu_cause: "fi_cause ` set (cpu_findings (wg_sched w) (wg_threads w)) = (if cpu_waits w then {''host_cpu_contention''} else {})"
proof -
  have k: "0 < cpuMediumNs" by (simp add: cpuMediumNs_def)
  obtain worst who where wv: "worst_vcpu (wg_threads w) = (worst, who)" by fastforce
  have a: "who = '''' \<longleftrightarrow> (\<forall>t \<in> set (wg_threads w). tr_role t = ''vcpu'' \<longrightarrow> tr_p99 t = 0)"
    using worst_vcpu(1) [of "wg_threads w"] wv by (auto simp: word_gt_0)
  have b: "cpuMediumNs \<le> worst \<longleftrightarrow> (\<exists>t \<in> set (wg_threads w). tr_role t = ''vcpu'' \<and> cpuMediumNs \<le> tr_p99 t)"
    using worst_vcpu(2) [OF k, of "wg_threads w"] wv by simp
  have c: "who = '''' \<Longrightarrow> \<not> cpuMediumNs \<le> worst"
    using a b k by auto
  show ?thesis
    using c unfolding cpu_findings_def cpu_waits_def a [symmetric] b [symmetric] wv Let_def by auto
qed

lemma preempt_cause: "fi_cause ` set (preempt_findings (wg_sched w) (wg_threads w)) =
    (if preempted w then {''cpu_preempted''} \<union> (if noisy (hd (wg_sched w)) = None then {} else {''noisy_neighbour''}) else {})"
proof (cases "wg_sched w")
  case (Cons s ss)
  then show ?thesis
    by (cases "noisy s") (simp_all add: preempt_findings_def preempted_def first_measured_def Let_def case_prod_beta insert_commute)
qed (simp add: preempt_findings_def preempted_def first_measured_def)

lemma storage_cause: "fi_cause ` set (storage_findings (wg_block w)) = (if storage_slow w then {''storage_latency''} else {})"
proof (cases "wg_block w")
  case (Cons b bs)
  show ?thesis
  proof (cases "br_write_p99 b > br_read_p99 b")
    case True
    then have "(SlowBlockNS \<le> br_read_p99 b \<or> SlowBlockNS \<le> br_write_p99 b) = (SlowBlockNS \<le> br_write_p99 b)" by auto
    with True Cons show ?thesis by (simp add: storage_findings_def storage_slow_def first_measured_def)
  next
    case False
    then have "(SlowBlockNS \<le> br_read_p99 b \<or> SlowBlockNS \<le> br_write_p99 b) = (SlowBlockNS \<le> br_read_p99 b)" by auto
    with False Cons show ?thesis by (simp add: storage_findings_def storage_slow_def first_measured_def)
  qed
qed (simp add: storage_findings_def storage_slow_def first_measured_def)

lemma exit_cause: "fi_cause ` set (exit_findings ks) = (if first_measured (\<lambda>r. kr_measured r \<and> exitMediumNs \<le> kr_p99 r) ks then {''kvm_exit_handling''} else {})"
  by (cases ks) (simp_all add: exit_findings_def first_measured_def)

lemma net_cause: "fi_cause ` set (net_findings ns) = (if first_measured (\<lambda>r. retransFloor \<le> nr_retransmits r) ns then {''tcp_retransmits''} else {})"
  by (cases ns) (auto simp: net_findings_def first_measured_def)

lemma drop_cause: "fi_cause ` set (concat (map drop_findings ds)) =
    (if \<exists>d \<in> set ds. dropFloor \<le> dt_other d then {''guest_traffic_dropped''} else {})
  \<union> (if \<exists>d \<in> set ds. dropFloor \<le> dt_queue_full d then {''guest_not_reading_nic''} else {})"
  by (induction ds) (auto simp: drop_findings_def not_less)

lemma conn_cause: "fi_cause ` set (conn_findings c) = (if \<exists>oc. c = Some oc \<and> connectFailing oc \<noteq> None then {''guest_connects_failing''} else {})"
  by (cases c; cases "connectFailing (the c)") (simp_all add: conn_findings_def)

lemmas cause_simps = cpu_cause preempt_cause storage_cause exit_cause net_cause drop_cause conn_cause

text \<open>
  C11. The verdict names exactly the causes the counters support. For a VM that some kernel program has measured, each cause is among the
  findings if and only if its threshold is crossed, and \<open>no_host_cause\<close> is the verdict if and only if none is.
\<close>
theorem verdict_causes:
  assumes "is_measured w"
  shows "(''host_cpu_contention'' \<in> causes w \<longleftrightarrow> cpu_waits w)
    \<and> (''cpu_preempted'' \<in> causes w \<longleftrightarrow> preempted w)
    \<and> (''noisy_neighbour'' \<in> causes w \<longleftrightarrow> preempted w \<and> noisy (hd (wg_sched w)) \<noteq> None)
    \<and> (''storage_latency'' \<in> causes w \<longleftrightarrow> storage_slow w)
    \<and> (''kvm_exit_handling'' \<in> causes w \<longleftrightarrow> first_measured (\<lambda>k. kr_measured k \<and> exitMediumNs \<le> kr_p99 k) (wg_kvm w))
    \<and> (''tcp_retransmits'' \<in> causes w \<longleftrightarrow> first_measured (\<lambda>n. retransFloor \<le> nr_retransmits n) (wg_net w))
    \<and> (''guest_traffic_dropped'' \<in> causes w \<longleftrightarrow> (\<exists>d \<in> set (wg_drops w). dropFloor \<le> dt_other d))
    \<and> (''guest_not_reading_nic'' \<in> causes w \<longleftrightarrow> (\<exists>d \<in> set (wg_drops w). dropFloor \<le> dt_queue_full d))
    \<and> (''guest_connects_failing'' \<in> causes w \<longleftrightarrow> (\<exists>oc. wg_conns w = Some oc \<and> connectFailing oc \<noteq> None))
    \<and> (''no_host_cause'' \<in> causes w \<longleftrightarrow> \<not> cpu_waits w \<and> \<not> preempted w \<and> \<not> storage_slow w
        \<and> \<not> first_measured (\<lambda>k. kr_measured k \<and> exitMediumNs \<le> kr_p99 k) (wg_kvm w)
        \<and> \<not> first_measured (\<lambda>n. retransFloor \<le> nr_retransmits n) (wg_net w)
        \<and> (\<forall>d \<in> set (wg_drops w). \<not> dropFloor \<le> dt_other d \<and> \<not> dropFloor \<le> dt_queue_full d)
        \<and> (\<forall>oc. wg_conns w = Some oc \<longrightarrow> connectFailing oc = None))"
proof -
  have all: "fi_cause ` set (all_findings w) = (if cpu_waits w then {''host_cpu_contention''} else {})
     \<union> (if preempted w then {''cpu_preempted''} \<union> (if noisy (hd (wg_sched w)) = None then {} else {''noisy_neighbour''}) else {})
     \<union> (if storage_slow w then {''storage_latency''} else {})
     \<union> (if first_measured (\<lambda>k. kr_measured k \<and> exitMediumNs \<le> kr_p99 k) (wg_kvm w) then {''kvm_exit_handling''} else {})
     \<union> (if first_measured (\<lambda>n. retransFloor \<le> nr_retransmits n) (wg_net w) then {''tcp_retransmits''} else {})
     \<union> (if \<exists>d \<in> set (wg_drops w). dropFloor \<le> dt_other d then {''guest_traffic_dropped''} else {})
     \<union> (if \<exists>d \<in> set (wg_drops w). dropFloor \<le> dt_queue_full d then {''guest_not_reading_nic''} else {})
     \<union> (if \<exists>oc. wg_conns w = Some oc \<and> connectFailing oc \<noteq> None then {''guest_connects_failing''} else {})"
    unfolding all_findings_def set_append image_Un cause_simps by (simp only: Un_assoc)
  have some: "causes w = (if all_findings w = [] then {''no_host_cause''} else fi_cause ` set (all_findings w))"
    using assms by (simp add: causes_def diagnose_def)
  have none: "all_findings w = [] \<longleftrightarrow> fi_cause ` set (all_findings w) = {}" by simp
  show ?thesis unfolding some none all by (intro conjI) (auto split: if_splits)
qed

text \<open>A VM whose disk takes twelve milliseconds.\<close>

definition slow_disk :: weighed where
  "slow_disk = \<lparr>wg_kvm = [], wg_sched = [], wg_threads = [],
     wg_block = [block_row (new_bucket ''web'' '''')\<lparr>br_measured := True, br_read_p99 := 12000000, br_write_p99 := 0\<rparr>], wg_net = [], wg_drops = [], wg_conns = None\<rparr>"

theorem verdict_causes_witness: "''storage_latency'' \<in> causes slow_disk \<and> ''no_host_cause'' \<notin> causes slow_disk"
proof -
  have "is_measured slow_disk" by (simp add: is_measured_def first_measured_def slow_disk_def)
  moreover have "storage_slow slow_disk" by (simp add: storage_slow_def first_measured_def slow_disk_def SlowBlockNS_def)
  ultimately show ?thesis using verdict_causes [of slow_disk] by simp
qed

text \<open>
  A verdict is never empty and puts what it is surest of first: the findings are ordered by confidence, high before medium before low;
  and of equal confidence they stay in the order the causes are looked at.
\<close>
theorem verdict_ranked:
  "diagnose found w \<noteq> [] \<and> sorted_wrt (\<lambda>f g. confRank (fi_confidence g) \<le> confRank (fi_confidence f)) (diagnose found w)
   \<and> (found \<and> is_measured w \<and> all_findings w \<noteq> [] \<longrightarrow> (\<forall>c. filter (\<lambda>f. fi_confidence f = c) (diagnose found w) = filter (\<lambda>f. fi_confidence f = c) (all_findings w)))"
proof -
  have "sorted_wrt (\<lambda>f g. confRank (fi_confidence g) \<le> confRank (fi_confidence f)) (sort_key (\<lambda>f. - confRank (fi_confidence f)) fs)" for fs :: "Finding list"
    using sorted_sort_key [of "\<lambda>f. - confRank (fi_confidence f)" fs] by (simp add: sorted_map)
  moreover have "filter (\<lambda>f. fi_confidence f = c) (sort_key (\<lambda>f. - confRank (fi_confidence f)) fs) = filter (\<lambda>f. fi_confidence f = c) fs" for c and fs :: "Finding list"
  proof -
    have "filter (\<lambda>f. fi_confidence f = c) (sort_key (\<lambda>f. - confRank (fi_confidence f)) fs)
        = sort_key (\<lambda>f. - confRank (fi_confidence f)) (filter (\<lambda>f. fi_confidence f = c) fs)"
      by (simp add: filter_sort)
    also have "\<dots> = filter (\<lambda>f. fi_confidence f = c) fs"
      by (rule sort_key_id_if_sorted) (induction fs, auto)
    finally show ?thesis .
  qed
  moreover have "sort_key (\<lambda>f. - confRank (fi_confidence f)) fs = [] \<longleftrightarrow> fs = []" for fs :: "Finding list"
    by (metis set_sort set_empty)
  ultimately show ?thesis by (auto simp: diagnose_def)
qed

theorem verdict_ranked_witness: "diagnose True slow_disk \<noteq> [] \<and> filter (\<lambda>f. fi_confidence f = ''medium'') (diagnose True slow_disk) \<noteq> []"
proof -
  have m: "is_measured slow_disk" by (simp add: is_measured_def first_measured_def slow_disk_def)
  have f: "map fi_confidence (all_findings slow_disk) = [''medium'']"
    by (simp add: all_findings_def slow_disk_def cpu_findings_def worst_vcpu_def cpuMediumNs_def preempt_findings_def storage_findings_def
        SlowBlockNS_def storageHigh_def storage_latency_def exit_findings_def net_findings_def conn_findings_def)
  then obtain a where "all_findings slow_disk = [a]" "fi_confidence a = ''medium''" by auto
  with m verdict_ranked [of True slow_disk] show ?thesis by simp
qed

text \<open>
  The reason a finding about drops names is the most frequent one on the tap, not the most frequent of those that are counted against something else:
  on an isolated VM it can be the reason of Shukra's own drops. Here all thousand TC drops are Shukra's and five packets had no socket.
\<close>

lemma mostly_names_shukras_own:
  "map fi_evidence (drop_findings (drop_tap ''web'' ''vnet0'' \<lparr>dn_reasons = [(''TC_INGRESS'', 1000), (''NO_SOCKET'', 5)], dn_shukra = 1000\<rparr>))
   = [[''5 packets were dropped on tap vnet0 by something other than Shukra (Shukra dropped 1000). Mostly TC_INGRESS.'']]"
  by code_simp

end
