(* ===== verification/Spec2Isabelle.thy ===== *)
theory Spec2Isabelle
  imports Policy ResponseRun DecodeProps Sampler Thresholds Refresh Identity PersistLog Sink Verdict
begin

text \<open>
  \<^bold>\<open>Shukra, a monitor and guard for virtual machines on a host.\<close>

  The daemon watches QEMU processes and their tap devices, keeps what happened, compares it with rules and with
  what it learned, and can cut a VM off the network or limit where it may connect. This library models the
  parts that decide: what is kept, what is reported, what the kernel is told to enforce, and what is done without
  a person. Each theory follows one part of the source, definition by definition.

  \<^bold>\<open>The parts and their theories\<close> (paths are under \<open>src/internal\<close>)

  \<^item> \<open>Prelude\<close>, \<open>GoStrings\<close>, \<open>GoTime\<close>, \<open>Netip\<close>: Go's integers, maps, times, durations and strings, and IP addresses
    and prefixes, as far as the program uses them. A Go map is an association list, iterated in its order, and no
    property depends on that order. Times are nanoseconds since the zero time.
  \<^item> \<open>Event\<close> (\<open>event/event.go\<close>), \<open>EventStore\<close> (\<open>state/events.go\<close>), \<open>Recorder\<close> (\<open>recorder/recorder.go\<close>): the event
    record and its attribution, the bounded list of events with its fair eviction, the flight recorder's rings.
  \<^item> \<open>Caller\<close> (\<open>state/caller.go\<close>, \<open>api/who.go\<close>): who made a call, as it travels in the actor string.
  \<^item> \<open>Baseline\<close> (\<open>baseline/\<close>): what each VM usually does, and when something is new.
  \<^item> \<open>Vmm\<close>, \<open>Rules\<close> (\<open>detect/vmm.go\<close>, \<open>config.go\<close>, \<open>dest.go\<close>, \<open>suppress.go\<close>): the rules file, its checks and defaults,
    what it matches, and the suppression of repeats.
  \<^item> \<open>Interfaces\<close>: the contracts between components, as locales: an enforcer, an egress kernel (and one whose updates
    succeed), a store of records.
  \<^item> \<open>Tap\<close> (\<open>bpfgen/tap.go\<close>, \<open>bpfgen/egress.go\<close>, \<open>observe/tap_bpf.go\<close>): the tap manager over the BPF maps. The maps are
    part of the state, every update may fail (\<open>km_faults\<close> says which of the next ones do), and \<open>km_seen\<close> is the list of
    the moments a packet could have met, so that a property can speak of all of them.
  \<^item> \<open>State\<close> (\<open>state/state.go\<close>, \<open>state/enforce.go\<close>): events, detections, the audit trail, isolation and its re-application
    after a restart, over any enforcer; the daemon's is the tap manager.
  \<^item> \<open>Policy\<close> (\<open>policy/policy.go\<close>, \<open>state/policy.go\<close>, \<open>persist/policy.go\<close>): the egress policy engine: apply, confirm,
    remove, the timer that undoes what nobody confirmed, the pass that repairs the kernel, and the file the
    records are kept in, with the ways writing it can fail (\<open>pf_writes\<close>).
  \<^item> \<open>Response\<close>, \<open>ResponseProps\<close>, \<open>ResponseRun\<close> (\<open>response/response.go\<close>, \<open>state/actions.go\<close>, \<open>persist/actions.go\<close>): the
    engine that answers detections with proposals or isolations, its guardrails, its log, and how its operations
    interleave. Actions live in an explicit store, because an approval holds a pointer while the lock is free.
  \<^item> \<open>Md5\<close>, \<open>Decode\<close>, \<open>DecodeProps\<close> (\<open>observe/dns.go\<close>, \<open>tls.go\<close>, \<open>decode.go\<close>, \<open>observe.go\<close>, \<open>vmm_bpf.go\<close>): what the ring
    records of the kernel programs become: names out of DNS questions and TLS hellos, JA3, the events of each kind.
  \<^item> \<open>Hist\<close> (\<open>hist/hist.go\<close>): 64-bit floating point with its rounding, log2 histograms and their percentiles.
  \<^item> \<open>Aggregate\<close>, \<open>AggregateProps\<close> (\<open>aggregate/aggregate.go\<close>): counters of threads folded onto VMs, the rows made of them,
    differences over a window.
  \<^item> \<open>Sampler\<close> (\<open>observe/sample_bpf.go\<close>, \<open>fold.go\<close>, \<open>preempt.go\<close>, \<open>drops.go\<close>): the kernel maps read into those counters.
  \<^item> \<open>Thresholds\<close> (\<open>detect/threshold.go\<close>): threshold rules over a bounded history.
  \<^item> \<open>TapSync\<close> (\<open>bpfgen/tap.go\<close>): taps as the host has them: loading the program, links and their pins, adopting what an
    earlier daemon left, following the scan, shutting down.
  \<^item> \<open>Agent\<close> (\<open>agent/\<close>): what becomes of an event: whom it is about, which rules it is held against, what is said of a VM
    that comes and goes.
  \<^item> \<open>Refresh\<close> (\<open>agent/agent.go\<close>, \<open>coverage.go\<close>): one pass of the daemon, which composes the scan, the tap manager, the policy
    engine, isolation and the agent.
  \<^item> \<open>Identity\<close> (\<open>identity/\<close>): VMs out of what a pass reads of \<open>/proc\<close> and of FluxVM's files.
  \<^item> \<open>PersistLog\<close> (\<open>persist/log.go\<close>, \<open>rollup.go\<close>, \<open>attach.go\<close>): the rolling log, the snapshots a verdict for a past time
    stands on, and the records \<open>-detach-all\<close> writes.
  \<^item> \<open>Sink\<close> (\<open>sink/\<close>): delivery of detections: queues, workers, the retries of a webhook.
  \<^item> \<open>Drops\<close> (\<open>state/drops.go\<close>, \<open>outcomes.go\<close>): whose drops on a tap the kernel's are, and what became of handshakes.
  \<^item> \<open>History\<close> (\<open>state/history.go\<close>, \<open>contention.go\<close>): the snapshots of the last minutes, the base of a window, and who took
    whose CPU over it.
  \<^item> \<open>Verdict\<close> (\<open>state/verdict.go\<close>): the host-side causes the counters support, with their evidence in words.

  \<^bold>\<open>How the code is translated.\<close> A struct is a record, an operation a function from the state to the state and its
  answer, an error a value (\<open>Inl\<close> or an option), a panic the value \<open>None\<close>. Locks are not modelled inside a
  component whose operations hold them throughout; where an operation frees its lock (\<open>Approve\<close>) it is
  split there. The clock is an argument. What is outside the source is an argument too: the YAML and JSON decoders,
  the bytes of an incident bundle, random bytes, what \<open>/proc\<close> and the kernel maps hold when they are read. Failures of the
  disk and of the kernel are lists of outcomes to come, so a property holds whatever they are. Concurrency is a step relation
  where goroutines meet (\<open>dispatch\<close> of the sinks, the runs of the response engine). A \<open>float64\<close> is the rational it stands for and
  each operation rounds (\<open>rnd\<close>). No definition uses fuel: every loop is recursion with a measure.

  \<^bold>\<open>What is shown.\<close> Components meet through locales and their interpretations: \<open>bounded_log\<close> (the recorder, the
  detections, the audit trail), \<open>enforcer\<close> and \<open>enforcer_client\<close> (\<open>tap_enforcer\<close>, \<open>tap_client\<close>), \<open>egress_kernel\<close> and
  \<open>egress_kernel_live\<close> (\<open>tap_egress\<close>), \<open>policy_kernel\<close> and \<open>policy_kernel_live\<close> (\<open>tap_policy_kernel\<close>, \<open>tap_policy_live\<close>,
  and \<open>tap_egress_loaded\<close>, \<open>tap_policy_loaded\<close> once a pass has loaded the program), \<open>record_store\<close> (\<open>policies\<close>),
  \<open>ring_decoder\<close> (one interpretation for each decoder of ring records).

  \<^item> Safety: a change of policy never cuts off what both the old and the new list allow, at no moment a packet can
    see; enforcing needs a confirmation or a timer; a protected VM is never isolated; in no hour are more automatic
    isolations carried out than the guardrail allows, over every interleaving; the suppressor silences only repeats.
  \<^item> Honesty: an isolation says applied exactly when every tap is isolated; what the manager says of a tap is what the
    kernel does.
  \<^item> Convergence: a pass of the policy engine brings every tap to its record; isolations come back after a
    restart; a tick of the response engine settles everything that is due.
  \<^item> Soundness of input: a rules file that is accepted is well formed; names match by labels and paths by
    what they mean; allow lists, addresses and actor strings survive printing and parsing.
  \<^item> Composition: one pass of the daemon, from any state, leaves every tap of the scan doing what is recorded, and a tap that
    is not covered is reported; a restart in between changes nothing for a tap that is cut off.
  \<^item> Attribution: the agent names a VM only if it is the one that owns the tap or the process; a process that was found is a
    VM of the scan with the taps it names; one missed scan is not a VM that stopped.
  \<^item> Counters: rows are exactly the kernel's sums; nothing is lost or counted twice on the way to VMs, to contention or to the
    account of a tap's drops; a percentile is at most twice the true one; a window covers what it says.
  \<^item> Verdicts: each cause is named if and only if its threshold is crossed.
  \<^item> Delivery: every detection offered to a sink is sent, failed, dropped or still queued, in order, in every interleaving, and a
    sink that hangs does not hold the others up; after \<open>-detach-all\<close> no VM is isolated again.
  \<^item> Decoders: a name cut short is never shown, bytes left over in a record are never read.
  \<^item> Bounds: events, detections, alerts, the suppressor's table, baselines and the history of snapshots stay within their sizes,
    and the eviction is fair.
  \<^item> Some properties are about what the code does not do: each states a behaviour that the code's own comments
    exclude, and evaluates it on a small instance.

  \<^bold>\<open>Not modelled.\<close> Loading and attaching BPF programs, reading rings, netlink sockets and kernel symbols, JSON and YAML, HTTP
  routing, flags and wiring, the command line client and the web console are input and output around these parts, through
  third-party libraries. Of the kernel programs only the lookups of the egress tries are translated. The text of a threshold
  detection, log lines, the advisor (\<open>state/advice.go\<close>), the self-audit (\<open>state/doctor.go\<close>) and the document around a
  verdict (\<open>ExplainOver\<close>, \<open>ExplainAt\<close>, \<open>Incident\<close>) are texts for people over what is modelled here.
\<close>

end
